(* ===== verification/FlowPrelude.thy ===== *)
theory FlowPrelude
  imports Main "HOL-Library.Word"
begin

text \<open>
  Shared vocabulary of the development: the fixed-width integers of the C++ code, the
  borrowed byte spans, the error codes the protocol modules return, and the small
  interfaces (saturating deadlines, capture clocks, identifier allocators) that several
  protocol modules implement separately in the source and that are treated once here, as
  locales which each module's theory interprets on its own definitions.
\<close>

section \<open>Integers and spans\<close>

type_synonym u8 = "8 word"
type_synonym u16 = "16 word"
type_synonym u32 = "32 word"
type_synonym u64 = "64 word"

text \<open>
  Signed nanosecond timestamps are mathematical integers; where the code compares with the
  limits of int64_t the limit is written out. Unsigned byte counts and positions are natural
  numbers wherever the code guards every addition and subtraction, and the guards are part of
  the model; identifiers and sequence numbers, which do wrap, are machine words.
\<close>

definition i64_max :: int where
  "i64_max = 9223372036854775807"

definition i64_min :: int where
  "i64_min = - 9223372036854775808"

definition in_i64 :: "int \<Rightarrow> bool" where
  "in_i64 x \<longleftrightarrow> i64_min \<le> x \<and> x \<le> i64_max"

definition u64_max :: nat where
  "u64_max = 18446744073709551615"

definition u32_max :: nat where
  "u32_max = 4294967295"

lemmas int_limits = i64_max_def i64_min_def in_i64_def u64_max_def u32_max_def

text \<open>
  A borrowed Span over bytes: a null pointer with a claimed size, or a pointer to as many
  bytes as it claims.
\<close>

datatype span = NullSpan nat | Bytes "u8 list"

fun span_size :: "span \<Rightarrow> nat" where
  "span_size (NullSpan n) = n"
| "span_size (Bytes bs) = length bs"

fun span_data :: "span \<Rightarrow> u8 list option" where
  "span_data (NullSpan n) = None"
| "span_data (Bytes bs) = Some bs"

datatype packet_direction = AToB | BToA

fun opposite :: "packet_direction \<Rightarrow> packet_direction" where
  "opposite AToB = BToA"
| "opposite BToA = AToB"

lemma opposite_opposite [simp]: "opposite (opposite d) = d"
  by (cases d) simp_all

lemma opposite_neq [simp]: "opposite d \<noteq> d" "d \<noteq> opposite d"
  by (cases d; simp)+

lemma not_eq_opposite: "d \<noteq> e \<longleftrightarrow> d = opposite e"
  by (cases d; cases e) simp_all

datatype session_end_reason = SessionClosed | SessionIdleTimeout | SessionTupleReuse | SessionEof

text \<open>
  The return codes of the module entry points. \<open>E_UNCAUGHT\<close> stands for an exception that the
  code does not catch (an empty optional dereferenced with value()); that it is never returned
  in a reachable state is a property to prove, not a convention.
\<close>

datatype errno = E_OK | E_INVAL | E_NOSPC | E_OVERFLOW | E_NOMEM | E_UNCAUGHT

section \<open>Saturating deadlines\<close>

text \<open>
  The TCP stream, HTTP/1, DNS, TLS and ICMP code each computes the instant at which a wait ends:
  start plus timeout, capped at the largest int64_t.
\<close>

locale saturating_deadline =
  fixes deadline :: "int \<Rightarrow> int \<Rightarrow> int"
  assumes deadline_min: "0 \<le> timeout \<Longrightarrow> deadline start timeout = min i64_max (start + timeout)"
begin

lemma deadline_le_max: "0 \<le> timeout \<Longrightarrow> deadline start timeout \<le> i64_max"
  by (simp add: deadline_min)

lemma deadline_ge_start:
  "0 \<le> timeout \<Longrightarrow> start \<le> i64_max \<Longrightarrow> start \<le> deadline start timeout"
  by (simp add: deadline_min)

lemma deadline_in_i64:
  "0 \<le> timeout \<Longrightarrow> in_i64 start \<Longrightarrow> in_i64 (deadline start timeout)"
  by (auto simp: deadline_min in_i64_def)

lemma deadline_mono:
  "0 \<le> timeout \<Longrightarrow> s \<le> s' \<Longrightarrow> deadline s timeout \<le> deadline s' timeout"
  by (simp add: deadline_min)

lemma deadline_not_before_timeout:
  "0 \<le> timeout \<Longrightarrow> deadline start timeout \<le> w \<Longrightarrow> w < i64_max \<Longrightarrow> start + timeout \<le> w"
  by (auto simp: deadline_min min_def split: if_splits)

end

section \<open>Elapsed time between two capture times\<close>

text \<open>
  HTTP/1, DNS and ICMP subtract two int64_t timestamps as uint64_t values and keep the
  difference only when it is an int64_t: the subtraction is modulo two to the 64.
\<close>

definition u64_sub_i64 :: "int \<Rightarrow> int \<Rightarrow> int" where
  "u64_sub_i64 a b = (a - b) mod 18446744073709551616"

lemma u64_sub_i64_exact:
  assumes "in_i64 a" "in_i64 b" "b \<le> a"
  shows "u64_sub_i64 a b = a - b"
  using assms by (simp add: u64_sub_i64_def int_limits)

locale elapsed_time =
  fixes elapsed :: "int \<Rightarrow> int \<Rightarrow> int option"
  assumes elapsed_spec: "elapsed t0 t1 =
    (if t1 < t0 then None
     else if i64_max < u64_sub_i64 t1 t0 then None else Some (u64_sub_i64 t1 t0))"
begin

lemma elapsed_exact:
  assumes "in_i64 t0" "in_i64 t1"
  shows "elapsed t0 t1 = (if t0 \<le> t1 \<and> t1 - t0 \<le> i64_max then Some (t1 - t0) else None)"
  using u64_sub_i64_exact [OF assms(2,1)] by (auto simp: elapsed_spec)

lemma elapsed_nonneg:
  assumes "in_i64 t0" "in_i64 t1" "elapsed t0 t1 = Some d"
  shows "0 \<le> d \<and> d \<le> i64_max \<and> t1 = t0 + d"
  using assms(3) by (auto simp: elapsed_exact [OF assms(1,2)] split: if_splits)

end

section \<open>Capture clocks\<close>

text \<open>
  A message that arrives in several stream events is complete at the latest of their capture
  times, and only if every one of them is known. The HTTP/1, DNS and TLS framers fold the
  capture time of each event into a pair (all known, maximum).
\<close>

definition clock_reading :: "bool \<times> int option \<Rightarrow> int option" where
  "clock_reading c = (if fst c then snd c else None)"

locale capture_clock =
  fixes mark :: "int option \<Rightarrow> bool \<times> int option \<Rightarrow> bool \<times> int option"
  assumes mark_None: "mark None (k, m) = (False, m)"
    and mark_Some: "mark (Some t) (k, m) =
      (k, Some (case m of None \<Rightarrow> t | Some u \<Rightarrow> max t u))"
begin

lemma mark_known: "fst (mark c p) \<longleftrightarrow> fst p \<and> c \<noteq> None"
  by (cases p; cases c) (simp_all add: mark_None mark_Some)

lemma fold_known: "fst (fold mark cs p) \<longleftrightarrow> fst p \<and> None \<notin> set cs"
proof (induction cs arbitrary: p)
  case Nil
  then show ?case by simp
next
  case (Cons c cs)
  then show ?case by (cases c) (simp_all add: mark_known)
qed

lemma fold_max:
  "fst (fold mark cs (k, m)) \<Longrightarrow> snd (fold mark cs (k, m)) =
     (case (m, map the cs) of
        (None, []) \<Rightarrow> None
      | (None, t # ts) \<Rightarrow> Some (fold max ts t)
      | (Some u, ts) \<Rightarrow> Some (fold max ts u))"
proof (induction cs arbitrary: k m)
  case Nil
  then show ?case by (simp split: option.split)
next
  case (Cons c cs)
  then have "c \<noteq> None" by (auto simp: fold_known mark_known simp del: not_None_eq)
  then obtain t where c: "c = Some t" by auto
  from Cons.prems c have "fst (fold mark cs (mark c (k, m)))" by simp
  then show ?case
    using Cons.IH [of k "Some (case m of None \<Rightarrow> t | Some u \<Rightarrow> max t u)"] c
    by (simp add: mark_Some split: option.split)
qed

text \<open>The reading of a fresh clock after a non-empty run of events.\<close>

lemma clock_reading_fold:
  "cs \<noteq> [] \<Longrightarrow> clock_reading (fold mark cs (True, None)) =
     (if None \<in> set cs then None else Some (Max (set (map the cs))))"
proof -
  assume ne: "cs \<noteq> []"
  show ?thesis
  proof (cases "None \<in> set cs")
    case True
    then show ?thesis by (simp add: clock_reading_def fold_known)
  next
    case False
    then have k: "fst (fold mark cs (True, None))" by (simp add: fold_known)
    from ne obtain c cs' where cs: "cs = c # cs'" by (cases cs) auto
    have "Max (set (map the cs)) = fold max (map the cs') (the c)"
      by (simp only: cs list.map Max.set_eq_fold)
    with fold_max [OF k] k False show ?thesis by (simp add: clock_reading_def cs)
  qed
qed

end

section \<open>Identifier allocators\<close>

text \<open>
  Row identifiers come from a 64-bit counter that starts at 1, stays at 0 once it has wrapped
  and then refuses to hand out identifiers: 0 means exhausted.
\<close>

fun draw_ids :: "(u64 \<Rightarrow> u64 \<times> u64) \<Rightarrow> nat \<Rightarrow> u64 \<Rightarrow> u64 list \<times> u64" where
  "draw_ids nx 0 c = ([], c)"
| "draw_ids nx (Suc n) c = (let (i, c') = nx c; (is, c'') = draw_ids nx n c' in (i # is, c''))"

locale id_allocator =
  fixes next_id :: "u64 \<Rightarrow> u64 \<times> u64"
  assumes next_id_zero: "next_id 0 = (0, 0)"
    and next_id_nonzero: "c \<noteq> 0 \<Longrightarrow> next_id c = (c, c + 1)"
begin

lemma draw_zero: "draw_ids next_id n 0 = (replicate n 0, 0)"
  by (induction n) (simp_all add: next_id_zero)

lemma draw_counter:
  "c \<noteq> 0 \<Longrightarrow> unat c + n < 2 ^ 64 \<Longrightarrow>
     draw_ids next_id n c = (map (\<lambda>i. c + of_nat i) [0..<n], c + of_nat n)"
proof (induction n arbitrary: c)
  case 0
  then show ?case by simp
next
  case (Suc n)
  have c1: "unat (c + 1) = unat c + 1"
    using Suc.prems by (simp add: unat_word_ariths)
  then have "c + 1 \<noteq> 0" by (metis add_is_0 one_neq_zero unat_0)
  moreover have "unat (c + 1) + n < 2 ^ 64" using Suc.prems c1 by simp
  ultimately have "draw_ids next_id n (c + 1) =
      (map (\<lambda>i. c + 1 + of_nat i) [0..<n], c + 1 + of_nat n)"
    by (rule Suc.IH)
  moreover have "map (\<lambda>i. c + 1 + of_nat i) [0..<n] = map (\<lambda>i. c + of_nat i) [Suc 0..<Suc n]"
    by (rule nth_equalityI) (simp_all add: algebra_simps del: upt_Suc)
  ultimately show ?case
    using Suc.prems by (simp add: next_id_nonzero upt_rec algebra_simps del: upt_Suc)
qed

lemma draw_distinct:
  assumes "c \<noteq> 0" "unat c + n < 2 ^ 64"
  shows "distinct (fst (draw_ids next_id n c)) \<and> 0 \<notin> set (fst (draw_ids next_id n c))"
proof -
  have un: "unat (c + of_nat i) = unat c + i" if "i < n" for i
    using assms(2) that by (simp add: unat_word_ariths unat_of_nat)
  have "inj_on (\<lambda>i. c + of_nat i) {0..<n}"
    by (rule inj_onI) (metis un add_left_cancel atLeastLessThan_iff)
  moreover have "c + of_nat i \<noteq> 0" if "i < n" for i
    using un [OF that] assms(1) by (metis add_is_0 unat_0 unat_eq_zero)
  ultimately show ?thesis
    using draw_counter [OF assms] by (auto simp: distinct_map)
qed

end

section \<open>Consuming bytes in rounds\<close>

text \<open>
  The stream parsers loop over the bytes they are given: a round takes some of them and either ends
  the call with an error or leaves a rest. If a round on a prefix does what it does on more bytes,
  or stops in the middle of what one round on more bytes does, then it does not matter how the
  bytes are cut into calls.
\<close>

locale byte_rounds =
  fixes step :: "'b list \<Rightarrow> 's \<Rightarrow> ('e \<times> 's) + 'b list \<times> 's"
    and loop :: "'b list \<Rightarrow> 's \<Rightarrow> 'e \<times> 's"
    and left :: "'b list \<Rightarrow> 's \<Rightarrow> nat"
    and fine :: 'e
  assumes loop_eq: "loop bs s =
      (if bs = [] then (fine, s) else case step bs s of Inl r \<Rightarrow> r | Inr (bs', s') \<Rightarrow> loop bs' s')"
    and step_left: "step bs s = Inr (bs', s') \<Longrightarrow> bs \<noteq> [] \<Longrightarrow> left bs' s' < left bs s"
    and step_error: "step bs s = Inl (e, s') \<Longrightarrow> e \<noteq> fine"
    and append_error: "step xs s = Inl r \<Longrightarrow> xs \<noteq> [] \<Longrightarrow> step (xs @ ys) s = Inl r"
    and append_rest: "step xs s = Inr (xs', s') \<Longrightarrow> xs \<noteq> [] \<Longrightarrow> xs' \<noteq> [] \<Longrightarrow> step (xs @ ys) s = Inr (xs' @ ys, s')"
    and append_all: "step xs s = Inr ([], s') \<Longrightarrow> xs \<noteq> [] \<Longrightarrow> ys \<noteq> [] \<Longrightarrow>
      step (xs @ ys) s = Inr (ys, s') \<or> step (xs @ ys) s = step ys s'"
begin

lemma loop_Nil: "loop [] s = (fine, s)"
  by (subst loop_eq) simp

lemma loop_append: "loop (xs @ ys) s = (case loop xs s of (e, s') \<Rightarrow> if e = fine then loop ys s' else (e, s'))"
proof (induction "left xs s" arbitrary: xs s rule: less_induct)
  case less
  show ?case
  proof (cases "xs = [] \<or> ys = []")
    case True
    then show ?thesis by (auto simp: loop_Nil split: prod.split)
  next
    case False
    show ?thesis
    proof (cases "step xs s")
      case (Inl r)
      obtain e s' where r: "r = (e, s')" by (cases r)
      have "loop xs s = (e, s')" "loop (xs @ ys) s = (e, s')"
        using False Inl append_error [OF Inl, of ys] by (subst loop_eq, simp add: r)+
      with step_error [of xs s e s'] Inl r show ?thesis by simp
    next
      case (Inr p)
      obtain xs' s' where p: "step xs s = Inr (xs', s')" using Inr by (cases p) simp
      have "loop xs s = loop xs' s'" using False p by (subst loop_eq) simp
      moreover have "loop (xs @ ys) s = loop (xs' @ ys) s'"
      proof (cases "xs' = []")
        case True
        with append_all [of xs s s' ys] p False loop_eq [of "xs @ ys" s] loop_eq [of ys s'] show ?thesis by auto
      next
        case rest: False
        with append_rest [OF p _ rest, of ys] False show ?thesis by (subst loop_eq) simp
      qed
      ultimately show ?thesis using less [OF step_left [OF p]] False by simp
    qed
  qed
qed

text \<open>What relates the states around every round relates those around the loop.\<close>

lemma loop_related:
  assumes "loop bs s = (fine, s')" and "reflp R" "transp R"
    and "\<And>bs s bs' s'. step bs s = Inr (bs', s') \<Longrightarrow> R s s'"
  shows "R s s'"
  using assms(1)
proof (induction "left bs s" arbitrary: bs s rule: less_induct)
  case less
  show ?case
  proof (cases "bs = []")
    case True
    with less(2) show ?thesis using assms(2) by (simp add: loop_Nil reflpD)
  next
    case False
    then obtain bs1 s1 where r: "step bs s = Inr (bs1, s1)" "loop bs1 s1 = (fine, s')"
      using less(2) step_error [of bs s fine s'] loop_eq [of bs s] by (auto split: sum.splits)
    with less(1) [OF step_left [OF r(1) False] r(2)] show ?thesis using assms(3,4) by (blast dest: transpD)
  qed
qed

text \<open>An invariant of the rounds, with what remains of it after an error.\<close>

lemma loop_kept:
  assumes "loop bs s = (e, s')" "P s"
    and after: "\<And>bs s bs' s'. P s \<Longrightarrow> step bs s = Inr (bs', s') \<Longrightarrow> P s'"
    and failed: "\<And>bs s e s'. P s \<Longrightarrow> step bs s = Inl (e, s') \<Longrightarrow> Q s'"
    and weaker: "\<And>s. P s \<Longrightarrow> Q s"
  shows "Q s' \<and> (e = fine \<longrightarrow> P s')"
  using assms(1,2)
proof (induction "left bs s" arbitrary: bs s rule: less_induct)
  case less
  show ?case
  proof (cases "bs = []")
    case True
    with less(2,3) weaker show ?thesis by (simp add: loop_Nil)
  next
    case False
    show ?thesis
    proof (cases "step bs s")
      case (Inl r)
      with less(2,3) False failed [of s bs e s'] step_error [of bs s e s'] show ?thesis by (simp add: loop_eq [of bs s])
    next
      case (Inr p)
      then obtain bs1 s1 where p: "step bs s = Inr (bs1, s1)" by (cases p) simp
      with less(2) False have "loop bs1 s1 = (e, s')" by (simp add: loop_eq [of bs s])
      with less(1) [OF step_left [OF p False]] after [OF less(3) p] show ?thesis by blast
    qed
  qed
qed

text \<open>A change of the state that every round carries through is carried through by the loop.\<close>

lemma loop_carried:
  assumes "\<And>bs s. step bs (g s) = map_sum (map_prod id g) (map_prod id g) (step bs s)"
  shows "loop bs (g s) = map_prod id g (loop bs s)"
proof (induction "left bs s" arbitrary: bs s rule: less_induct)
  case less
  show ?case
  proof (cases "bs = []")
    case True
    then show ?thesis by (simp add: loop_Nil)
  next
    case False
    show ?thesis
    proof (cases "step bs s")
      case (Inl r)
      with False show ?thesis by (simp add: loop_eq [of bs] assms prod.case_eq_if map_prod_def split: prod.split)
    next
      case (Inr p)
      obtain bs' s' where p: "p = (bs', s')" by (cases p)
      have "loop bs' (g s') = map_prod id g (loop bs' s')" using less step_left False Inr p by blast
      with False Inr p show ?thesis by (simp add: loop_eq [of bs] assms)
    qed
  qed
qed

end

section \<open>Network-order 16-bit numbers\<close>

unbundle bit_operations_syntax

definition read_be16 :: "u8 \<Rightarrow> u8 \<Rightarrow> u16" where
  "read_be16 high low = push_bit 8 (ucast high) OR ucast low"

definition write16 :: "u16 \<Rightarrow> u8 list" where
  "write16 w = [ucast (drop_bit 8 w), ucast w]"

lemma length_write16 [simp]: "length (write16 w) = 2"
  by (simp add: write16_def)

lemma word_halves: "push_bit 8 (ucast (ucast (drop_bit 8 w) :: u8)) OR ucast (ucast w :: u8) = w" for w :: u16
  by (rule bit_word_eqI) (auto simp: bit_simps)

lemma read_be16_write16: "read_be16 (ucast (drop_bit 8 w)) (ucast w) = w"
  by (simp add: read_be16_def word_halves)

section \<open>Lists\<close>

lemma take_drop_nth: "n + i < length xs \<Longrightarrow> i < k \<Longrightarrow> take k (drop n xs) ! i = xs ! (n + i)"
  by simp

lemma sum_list_map_update_first:
  "sum_list (map f (x # xs)) = f x + sum_list (map f xs)" for f :: "'a \<Rightarrow> nat"
  by simp

end
