(* ===== verification/TcpStreamContract.thy ===== *)
theory TcpStreamContract
  imports FlowPrelude
begin

text \<open>
  The types of npm_tcp_stream_contract.h that the stream core produces and the HTTP/1, TLS and
  DNS/TCP framers consume: stream events, the callback context, and the packet facts of
  npm_analysis_contract.h that the stream core reads.
\<close>

record tcp_stream_config =
  max_buffered_bytes_per_direction :: nat
  gap_timeout_ns :: int

definition min_tcp_stream_buffered_bytes :: nat where
  "min_tcp_stream_buffered_bytes = 65536"

definition max_tcp_stream_buffered_bytes :: nat where
  "max_tcp_stream_buffered_bytes = 67108864"

definition min_tcp_stream_gap_timeout_ns :: int where
  "min_tcp_stream_gap_timeout_ns = 0"

definition max_tcp_stream_gap_timeout_ns :: int where
  "max_tcp_stream_gap_timeout_ns = 60000000000"

lemmas tcp_stream_limits = min_tcp_stream_buffered_bytes_def max_tcp_stream_buffered_bytes_def
  min_tcp_stream_gap_timeout_ns_def max_tcp_stream_gap_timeout_ns_def

datatype tcp_stream_origin = OriginUnknown | OriginSyn | OriginMidstream
datatype tcp_stream_event_kind = EventData | EventGap | EventEnd
datatype tcp_stream_gap_reason = WaitExpired | Termination
datatype tcp_stream_end_reason = EndFin | EndReset | EndSessionEnd | EndSequenceAmbiguous

record tcp_stream_event =
  ev_kind :: tcp_stream_event_kind
  ev_begin :: nat
  ev_end :: nat
  ev_bytes :: span
  ev_captured_at_ns :: "int option"
  ev_gap_reason :: "tcp_stream_gap_reason option"
  ev_includes_capture_truncation :: bool
  ev_end_reason :: "tcp_stream_end_reason option"
  ev_session_end_reason :: "session_end_reason option"

definition default_event :: tcp_stream_event where
  "default_event = \<lparr>ev_kind = EventData, ev_begin = 0, ev_end = 0, ev_bytes = NullSpan 0,
     ev_captured_at_ns = None, ev_gap_reason = None, ev_includes_capture_truncation = False,
     ev_end_reason = None, ev_session_end_reason = None\<rparr>"

text \<open>Of the borrowed session view the consumers read only the identifier.\<close>

record tcp_stream_context =
  cx_session :: "u64 option"
  cx_direction :: packet_direction
  cx_origin :: tcp_stream_origin
  cx_capture_truncation_seen :: bool
  cx_final_drain :: bool
  cx_observed_at_ns :: int

record tcp_packet_facts =
  tf_valid :: bool
  tf_syn :: bool
  tf_ack :: bool
  tf_fin :: bool
  tf_rst :: bool
  tf_sequence :: u32
  tf_acknowledgment :: u32
  tf_window :: u16

record transport_packet_facts =
  payload_wire_bytes :: nat
  payload_captured_bytes :: nat
  payload_complete :: bool
  tcp_facts :: tcp_packet_facts

text \<open>The parts of NpmPacketView the stream core reads: payload, capture time and facts.\<close>

record npm_packet_view =
  pv_timestamp_ns :: int
  pv_payload :: span
  pv_transport :: transport_packet_facts

end
