(* ===== verification/TaskBudget.thy ===== *)
theory TaskBudget
  imports FlowPrelude
begin

text \<open>
  The byte budget of one analysis task: ReserveNpmBudget and ReleaseNpmBudget of
  npm_analysis_contract.cpp, and the synchronized ledger NpmTaskBudget built on them
  (core/npm_task_budget.cpp). The ledger's mutex makes each call atomic, so a call is one
  function on the ledger's state. The modules see only Reserve and Release for the module-state
  category; the locale \<open>budget_ledger\<close> is that interface, and every tracker's byte
  accounting is proved from its laws.
\<close>

section \<open>Categories, counters and limits\<close>

text \<open>
  The category is an unscoped byte in memory: a value that is none of the four enumerators has
  no counter, which the code reports as an invalid category.
\<close>

datatype npm_budget_category =
    SessionState | ModuleState | InputBatch | PendingOutput | OtherCategory u8

record npm_budget_usage =
  session_state_bytes :: nat
  module_state_bytes :: nat
  input_batch_bytes :: nat
  pending_output_bytes :: nat

datatype npm_budget_error =
    BudgetNone | NullUsage | InvalidCategory | TrackedLimitExceeded
  | PendingOutputLimitExceeded | ReleaseUnderflow

text \<open>The two limits of NpmAnalysisConfig that the budget reads.\<close>

record npm_budget_limits =
  max_tracked_bytes :: nat
  max_pending_output_bytes :: nat

definition saturating_add :: "nat \<Rightarrow> nat \<Rightarrow> nat" where
  "saturating_add left right = (if right > u64_max - left then u64_max else left + right)"

fun budget_counter :: "npm_budget_category \<Rightarrow> npm_budget_usage \<Rightarrow> nat option" where
  "budget_counter SessionState u = Some (session_state_bytes u)"
| "budget_counter ModuleState u = Some (module_state_bytes u)"
| "budget_counter InputBatch u = Some (input_batch_bytes u)"
| "budget_counter PendingOutput u = Some (pending_output_bytes u)"
| "budget_counter (OtherCategory c) u = None"

fun set_budget_counter :: "npm_budget_category \<Rightarrow> nat \<Rightarrow> npm_budget_usage \<Rightarrow> npm_budget_usage" where
  "set_budget_counter SessionState n u = u\<lparr>session_state_bytes := n\<rparr>"
| "set_budget_counter ModuleState n u = u\<lparr>module_state_bytes := n\<rparr>"
| "set_budget_counter InputBatch n u = u\<lparr>input_batch_bytes := n\<rparr>"
| "set_budget_counter PendingOutput n u = u\<lparr>pending_output_bytes := n\<rparr>"
| "set_budget_counter (OtherCategory c) n u = u"

definition npm_tracked_budget_bytes :: "npm_budget_usage \<Rightarrow> nat" where
  "npm_tracked_budget_bytes u =
     saturating_add (saturating_add (session_state_bytes u) (module_state_bytes u))
       (input_batch_bytes u)"

text \<open>A null usage pointer is \<open>None\<close>.\<close>

definition reserve_npm_budget ::
  "npm_budget_limits \<Rightarrow> npm_budget_category \<Rightarrow> nat \<Rightarrow> npm_budget_usage option
    \<Rightarrow> npm_budget_error \<times> npm_budget_usage option" where
  "reserve_npm_budget config category bytes usage =
     (case usage of None \<Rightarrow> (NullUsage, None)
      | Some u \<Rightarrow>
        (case budget_counter category u of None \<Rightarrow> (InvalidCategory, usage)
         | Some counter \<Rightarrow>
           let reserved = (BudgetNone, Some (set_budget_counter category (counter + bytes) u)) in
           if category = PendingOutput then
             (if counter > max_pending_output_bytes config
                 \<or> bytes > max_pending_output_bytes config - counter
              then (PendingOutputLimitExceeded, usage) else reserved)
           else
             (let tracked = npm_tracked_budget_bytes u in
              if tracked > max_tracked_bytes config \<or> bytes > max_tracked_bytes config - tracked
              then (TrackedLimitExceeded, usage) else reserved)))"

definition release_npm_budget ::
  "npm_budget_category \<Rightarrow> nat \<Rightarrow> npm_budget_usage option
    \<Rightarrow> npm_budget_error \<times> npm_budget_usage option" where
  "release_npm_budget category bytes usage =
     (case usage of None \<Rightarrow> (NullUsage, None)
      | Some u \<Rightarrow>
        (case budget_counter category u of None \<Rightarrow> (InvalidCategory, usage)
         | Some counter \<Rightarrow>
           if bytes > counter then (ReleaseUnderflow, usage)
           else (BudgetNone, Some (set_budget_counter category (counter - bytes) u))))"

section \<open>The task ledger\<close>

record npm_budget_high_water_marks =
  hw_tracked_bytes :: nat
  hw_input_batch_bytes :: nat
  hw_pending_output_bytes :: nat

record npm_task_budget =
  tb_config :: npm_budget_limits
  tb_usage :: npm_budget_usage
  tb_high_water :: npm_budget_high_water_marks

definition new_task_budget :: "npm_budget_limits \<Rightarrow> npm_task_budget" where
  "new_task_budget config =
     \<lparr>tb_config = config,
      tb_usage = \<lparr>session_state_bytes = 0, module_state_bytes = 0, input_batch_bytes = 0,
                  pending_output_bytes = 0\<rparr>,
      tb_high_water = \<lparr>hw_tracked_bytes = 0, hw_input_batch_bytes = 0,
                       hw_pending_output_bytes = 0\<rparr>\<rparr>"

definition raise_high_water ::
  "npm_budget_usage \<Rightarrow> npm_budget_high_water_marks \<Rightarrow> npm_budget_high_water_marks" where
  "raise_high_water u h =
     \<lparr>hw_tracked_bytes = max (hw_tracked_bytes h) (npm_tracked_budget_bytes u),
      hw_input_batch_bytes = max (hw_input_batch_bytes h) (input_batch_bytes u),
      hw_pending_output_bytes = max (hw_pending_output_bytes h) (pending_output_bytes u)\<rparr>"

definition task_reserve ::
  "npm_budget_category \<Rightarrow> nat \<Rightarrow> npm_task_budget \<Rightarrow> npm_budget_error \<times> npm_task_budget" where
  "task_reserve category bytes tb =
     (case reserve_npm_budget (tb_config tb) category bytes (Some (tb_usage tb)) of
        (result, usage) \<Rightarrow>
          let u = (case usage of None \<Rightarrow> tb_usage tb | Some u \<Rightarrow> u) in
          (result,
           if result = BudgetNone
           then tb\<lparr>tb_usage := u, tb_high_water := raise_high_water u (tb_high_water tb)\<rparr>
           else tb\<lparr>tb_usage := u\<rparr>))"

definition task_release ::
  "npm_budget_category \<Rightarrow> nat \<Rightarrow> npm_task_budget \<Rightarrow> npm_budget_error \<times> npm_task_budget" where
  "task_release category bytes tb =
     (case release_npm_budget category bytes (Some (tb_usage tb)) of
        (result, usage) \<Rightarrow>
          (result, tb\<lparr>tb_usage := (case usage of None \<Rightarrow> tb_usage tb | Some u \<Rightarrow> u)\<rparr>))"

definition task_usage :: "npm_task_budget \<Rightarrow> npm_budget_usage" where
  "task_usage tb = tb_usage tb"

section \<open>The invariant\<close>

text \<open>
  The limits are 64-bit values, the counters respect them, and each high-water mark lies
  between the current value and its limit. In particular every counter is a 64-bit value, so
  the natural-number counters are the uint64_t ones.
\<close>

definition budget_wf :: "npm_task_budget \<Rightarrow> bool" where
  "budget_wf tb \<longleftrightarrow>
     (let c = tb_config tb; u = tb_usage tb; h = tb_high_water tb;
          tracked = session_state_bytes u + module_state_bytes u + input_batch_bytes u in
      max_tracked_bytes c \<le> u64_max \<and> max_pending_output_bytes c \<le> u64_max \<and>
      tracked \<le> hw_tracked_bytes h \<and> hw_tracked_bytes h \<le> max_tracked_bytes c \<and>
      pending_output_bytes u \<le> hw_pending_output_bytes h \<and>
      hw_pending_output_bytes h \<le> max_pending_output_bytes c \<and>
      input_batch_bytes u \<le> hw_input_batch_bytes h \<and>
      hw_input_batch_bytes h \<le> max_tracked_bytes c)"

lemma tracked_exact:
  "session_state_bytes u + module_state_bytes u + input_batch_bytes u \<le> u64_max \<Longrightarrow>
   npm_tracked_budget_bytes u =
     session_state_bytes u + module_state_bytes u + input_batch_bytes u"
  by (auto simp: npm_tracked_budget_bytes_def saturating_add_def)

lemma budget_wf_tracked:
  "budget_wf tb \<Longrightarrow> npm_tracked_budget_bytes (tb_usage tb) =
     session_state_bytes (tb_usage tb) + module_state_bytes (tb_usage tb)
     + input_batch_bytes (tb_usage tb)"
  by (rule tracked_exact) (auto simp: budget_wf_def Let_def)

lemma budget_wf_new:
  "max_tracked_bytes c \<le> u64_max \<Longrightarrow> max_pending_output_bytes c \<le> u64_max \<Longrightarrow>
     budget_wf (new_task_budget c)"
  by (simp add: budget_wf_def new_task_budget_def Let_def)

lemma task_reserve_wf: "budget_wf tb \<Longrightarrow> budget_wf (snd (task_reserve cat n tb))"
proof -
  assume wf: "budget_wf tb"
  note t = budget_wf_tracked [OF wf]
  show ?thesis
  proof (cases cat)
    case SessionState
    with wf show ?thesis
      by (auto simp: task_reserve_def reserve_npm_budget_def raise_high_water_def budget_wf_def
          Let_def t tracked_exact)
  next
    case ModuleState
    with wf show ?thesis
      by (auto simp: task_reserve_def reserve_npm_budget_def raise_high_water_def budget_wf_def
          Let_def t tracked_exact)
  next
    case InputBatch
    with wf show ?thesis
      by (auto simp: task_reserve_def reserve_npm_budget_def raise_high_water_def budget_wf_def
          Let_def t tracked_exact)
  next
    case PendingOutput
    with wf show ?thesis
      by (auto simp: task_reserve_def reserve_npm_budget_def raise_high_water_def budget_wf_def
          Let_def t tracked_exact)
  next
    case (OtherCategory c)
    with wf show ?thesis
      by (simp add: task_reserve_def reserve_npm_budget_def)
  qed
qed

lemma task_release_wf: "budget_wf tb \<Longrightarrow> budget_wf (snd (task_release cat n tb))"
  by (cases cat) (auto simp: task_release_def release_npm_budget_def budget_wf_def Let_def)

lemma task_reserve_refused:
  "fst (task_reserve cat n tb) \<noteq> BudgetNone \<Longrightarrow> snd (task_reserve cat n tb) = tb"
  by (cases cat) (auto simp: task_reserve_def reserve_npm_budget_def Let_def split: if_splits)

lemma task_reserve_config [simp]: "tb_config (snd (task_reserve cat n tb)) = tb_config tb"
  by (simp add: task_reserve_def Let_def split: prod.split)

lemma task_release_config [simp]: "tb_config (snd (task_release cat n tb)) = tb_config tb"
  by (simp add: task_release_def split: prod.split)

section \<open>The interface the modules use\<close>

locale budget_ledger =
  fixes charge :: "nat \<Rightarrow> 'b \<Rightarrow> 'b option"
    and refund :: "nat \<Rightarrow> 'b \<Rightarrow> 'b"
    and held :: "'b \<Rightarrow> nat"
    and free :: "'b \<Rightarrow> nat"
    and sound :: "'b \<Rightarrow> bool"
  assumes charge_fits: "sound b \<Longrightarrow> charge n b = None \<longleftrightarrow> free b < n"
    and charge_sound: "sound b \<Longrightarrow> charge n b = Some b' \<Longrightarrow> sound b'"
    and charge_held: "sound b \<Longrightarrow> charge n b = Some b' \<Longrightarrow> held b' = held b + n"
    and charge_free: "sound b \<Longrightarrow> charge n b = Some b' \<Longrightarrow> free b' + n = free b"
    and refund_sound: "sound b \<Longrightarrow> sound (refund n b)"
    and refund_held: "sound b \<Longrightarrow> n \<le> held b \<Longrightarrow> held (refund n b) = held b - n"
    and refund_free: "sound b \<Longrightarrow> n \<le> held b \<Longrightarrow> free (refund n b) = free b + n"
begin

lemma charge_refund:
  assumes "sound b" "charge n b = Some b'"
  shows "held (refund n b') = held b \<and> free (refund n b') = free b"
  using charge_held [OF assms] charge_free [OF assms] charge_sound [OF assms]
  by (simp add: refund_held refund_free)

lemma charge_share:
  "sound b \<Longrightarrow> held b = base + c \<Longrightarrow> charge n b = Some b' \<Longrightarrow> sound b' \<and> held b' = base + (c + n)"
  by (simp add: charge_held charge_sound)

lemma refund_share:
  "sound b \<Longrightarrow> held b = base + (c + n) \<Longrightarrow> sound (refund n b) \<and> held (refund n b) = base + c"
  by (simp add: refund_held refund_sound)

lemma total_constant:
  "sound b \<Longrightarrow> charge n b = Some b' \<Longrightarrow> held b' + free b' = held b + free b"
  using charge_held charge_free by fastforce

end

definition module_charge :: "nat \<Rightarrow> npm_task_budget \<Rightarrow> npm_task_budget option" where
  "module_charge n tb =
     (case task_reserve ModuleState n tb of (e, tb') \<Rightarrow> if e = BudgetNone then Some tb' else None)"

definition module_refund :: "nat \<Rightarrow> npm_task_budget \<Rightarrow> npm_task_budget" where
  "module_refund n tb = snd (task_release ModuleState n tb)"

definition module_held :: "npm_task_budget \<Rightarrow> nat" where
  "module_held tb = module_state_bytes (tb_usage tb)"

definition module_free :: "npm_task_budget \<Rightarrow> nat" where
  "module_free tb = max_tracked_bytes (tb_config tb) -
     (session_state_bytes (tb_usage tb) + module_state_bytes (tb_usage tb)
      + input_batch_bytes (tb_usage tb))"

lemma module_charge_eq:
  assumes "budget_wf tb"
  shows "module_charge n tb =
    (if n \<le> module_free tb
     then Some (tb\<lparr>tb_usage := (tb_usage tb)\<lparr>module_state_bytes := module_held tb + n\<rparr>,
                   tb_high_water := raise_high_water
                      ((tb_usage tb)\<lparr>module_state_bytes := module_held tb + n\<rparr>)
                      (tb_high_water tb)\<rparr>)
     else None)"
  using assms budget_wf_tracked [OF assms]
  by (auto simp: module_charge_def module_held_def module_free_def task_reserve_def
      reserve_npm_budget_def Let_def budget_wf_def)

lemma module_charge_wf:
  assumes "budget_wf tb" "module_charge n tb = Some tb'"
  shows "budget_wf tb'"
  using task_reserve_wf [OF assms(1), of ModuleState n] assms(2)
  by (auto simp: module_charge_def split: prod.splits if_splits)

interpretation module_ledger:
  budget_ledger module_charge module_refund module_held module_free budget_wf
proof unfold_locales
  fix b :: npm_task_budget and n
  assume "budget_wf b"
  then show "budget_wf (module_refund n b)"
    by (simp add: module_refund_def task_release_wf)
next
  fix b b' :: npm_task_budget and n
  assume "budget_wf b" "module_charge n b = Some b'"
  then show "budget_wf b'" by (rule module_charge_wf)
qed (auto simp: module_charge_eq module_held_def module_free_def module_refund_def
      task_release_def release_npm_budget_def budget_wf_def Let_def split: if_splits)

section \<open>An optional ledger\<close>

text \<open>
  The trackers hold a shared pointer to the ledger that may be null; with a null pointer nothing
  is charged. \<open>backed b c base\<close> says that the ledger's module-state counter consists of the
  \<open>c\<close> bytes the tracker at hand holds and of \<open>base\<close> bytes held by others.
\<close>

definition opt_charge :: "nat \<Rightarrow> npm_task_budget option \<Rightarrow> npm_task_budget option option" where
  "opt_charge n b = (case b of None \<Rightarrow> Some None | Some tb \<Rightarrow> map_option Some (module_charge n tb))"

definition opt_refund :: "nat \<Rightarrow> npm_task_budget option \<Rightarrow> npm_task_budget option" where
  "opt_refund n b = map_option (module_refund n) b"

definition backed :: "npm_task_budget option \<Rightarrow> nat \<Rightarrow> nat \<Rightarrow> bool" where
  "backed b c base \<longleftrightarrow> (\<forall>tb. b = Some tb \<longrightarrow> budget_wf tb \<and> module_held tb = base + c)"

lemma backed_charge: "backed b c base \<Longrightarrow> opt_charge n b = Some b' \<Longrightarrow> backed b' (c + n) base"
  by (auto simp: backed_def opt_charge_def split: option.splits
      dest: module_ledger.charge_share)

lemma backed_refund: "backed b (c + n) base \<Longrightarrow> backed (opt_refund n b) c base"
  by (auto simp: backed_def opt_refund_def dest: module_ledger.refund_share)

lemma backed_refund_le: "backed b c base \<Longrightarrow> n \<le> c \<Longrightarrow> backed (opt_refund n b) (c - n) base"
  using backed_refund [of b "c - n" n base] by simp

lemma backed_shift: "backed b (c + d) base \<longleftrightarrow> backed b c (base + d)"
  by (auto simp: backed_def)

lemma opt_refund_0: "backed b c base \<Longrightarrow> backed (opt_refund 0 b) c base"
  using backed_refund [of b c 0 base] by simp

section \<open>Properties\<close>

text \<open>
  The ledger never overdraws: whatever a module asks for, after Reserve and after Release
  the tracked and pending totals are within their limits, the high-water marks lie between
  the current totals and the limits, and a reservation that is refused changes no counter.
\<close>

theorem task_budget_never_overdrawn:
  assumes "budget_wf tb"
  shows "budget_wf (snd (task_reserve cat n tb)) \<and> budget_wf (snd (task_release cat n tb)) \<and>
    (fst (task_reserve cat n tb) \<noteq> BudgetNone \<longrightarrow> snd (task_reserve cat n tb) = tb)"
  using assms by (auto simp: task_reserve_wf task_release_wf task_reserve_refused)

theorem task_budget_never_overdrawn_witness:
  "budget_wf (snd (task_reserve ModuleState 200
      (new_task_budget \<lparr>max_tracked_bytes = 100, max_pending_output_bytes = 10\<rparr>)))"
  by (rule task_budget_never_overdrawn [THEN conjunct1])
     (simp add: budget_wf_new u64_max_def)

text \<open>
  Reserve succeeds for a tracked category exactly when the bytes fit into what is left of
  the limit, then adds them to that category's counter only, and a Release of the same amount
  restores every counter.
\<close>

theorem task_reserve_release_restores:
  assumes "budget_wf tb" "cat \<in> {SessionState, ModuleState, InputBatch}"
  shows "(fst (task_reserve cat n tb) = BudgetNone) = (n \<le> module_free tb) \<and>
    (n \<le> module_free tb \<longrightarrow>
       tb_usage (snd (task_reserve cat n tb)) =
         set_budget_counter cat (the (budget_counter cat (tb_usage tb)) + n) (tb_usage tb) \<and>
       fst (task_release cat n (snd (task_reserve cat n tb))) = BudgetNone \<and>
       tb_usage (snd (task_release cat n (snd (task_reserve cat n tb)))) = tb_usage tb)"
proof -
  note t = budget_wf_tracked [OF assms(1)]
  have lim: "npm_tracked_budget_bytes (tb_usage tb) \<le> max_tracked_bytes (tb_config tb)"
    using assms(1) unfolding t by (auto simp: budget_wf_def Let_def)
  have free: "module_free tb =
      max_tracked_bytes (tb_config tb) - npm_tracked_budget_bytes (tb_usage tb)"
    by (simp add: module_free_def t)
  from assms(2) show ?thesis
    by (elim insertE emptyE)
      (use lim in \<open>auto simp: task_reserve_def reserve_npm_budget_def task_release_def
        release_npm_budget_def free Let_def\<close>)
qed

theorem task_reserve_release_restores_witness:
  "fst (task_reserve InputBatch 60
      (new_task_budget \<lparr>max_tracked_bytes = 100, max_pending_output_bytes = 10\<rparr>)) = BudgetNone"
  by (subst task_reserve_release_restores [THEN conjunct1])
     (simp_all add: budget_wf_new u64_max_def, simp add: module_free_def new_task_budget_def)

end
