(* ===== verification/TcpStream.thy ===== *)
theory TcpStream
  imports TcpStreamContract TaskBudget
begin

text \<open>
  One direction of a TCP connection as seen by the capture, core/npm_tcp_stream_direction.cpp:
  segments arrive in any order and are turned into an ordered run of data and gap events. The
  code throws an NpmTcpStreamError from any depth of an operation and the entry points catch it,
  so a fallible step returns \<open>Inl\<close> of the error or \<open>Inr\<close> of a value, together with the state
  at that moment. The allocation failures the code also catches are not modelled: an
  allocation always succeeds.
\<close>

section \<open>State\<close>

datatype tcp_stream_error =
    StreamNone | InvalidConfig | InvalidInput | DirectionLimitExceeded | TaskBudgetExceeded
  | AllocationFailed | SinkError | Aborted | InvalidConsume | ConsumerError | EmitterError
  | NotDrained | ReentrantCall

text \<open>
  A range of the byte stream, a node of the code's std::list. A range with data holds a captured
  payload; one without is a gap, whose timestamp is the deadline for waiting. The list covers
  the stream from the published end to the extent.
\<close>

record stream_range =
  rg_begin :: nat
  rg_end :: nat
  rg_timestamp_ns :: int
  rg_truncated :: bool
  rg_allocated :: nat
  rg_data :: "u8 list option"

text \<open>
  The members that account for memory: the configured limit, the tracked bytes and the borrowed
  task ledger.
\<close>

record stream_account =
  acct_limit :: nat
  acct_tracked :: nat
  acct_budget :: npm_task_budget

record stream_direction =
  sd_gap_timeout_ns :: int
  sd_account :: stream_account
  sd_ranges :: "stream_range list"
  sd_published :: nat
  sd_extent :: nat
  sd_progress :: nat
  sd_base_sequence :: u32
  sd_fin :: "nat option"
  sd_watermark :: "int option"
  sd_origin :: tcp_stream_origin
  sd_error :: tcp_stream_error
  sd_truncated :: bool
  sd_ended :: bool

text \<open>
  The sink is the code's INpmTcpStreamEventSink: given what it has received so far and the next
  event it answers whether it accepts it, and whether it takes ownership of the payload. Each
  delivered event is logged with the bytes whose ownership moved to the sink.
\<close>

type_synonym stream_log = "(tcp_stream_event \<times> nat) list"
type_synonym stream_sink = "stream_log \<Rightarrow> tcp_stream_event \<Rightarrow> bool \<times> bool"

text \<open>
  sizeof(Range) plus two pointers on the supported platform (x86-64, LP64): 48 + 16 bytes.
  The size of the object itself, charged by the owning constructor, is a parameter.
\<close>

definition range_charge :: nat where
  "range_charge = 64"

definition stream_deadline :: "int \<Rightarrow> int \<Rightarrow> int" where
  "stream_deadline timestamp timeout =
     (if timestamp > i64_max - timeout then i64_max else timestamp + timeout)"

interpretation stream_deadline: saturating_deadline stream_deadline
  by unfold_locales (simp add: stream_deadline_def)

section \<open>Reserving and releasing\<close>

definition reserve_bytes ::
  "nat \<Rightarrow> stream_account \<Rightarrow> (tcp_stream_error + unit) \<times> stream_account" where
  "reserve_bytes n a =
     (if n > acct_limit a - acct_tracked a then (Inl DirectionLimitExceeded, a)
      else case task_reserve ModuleState n (acct_budget a) of (e, tb) \<Rightarrow>
        if e \<noteq> BudgetNone then (Inl TaskBudgetExceeded, a\<lparr>acct_budget := tb\<rparr>)
        else (Inr (), a\<lparr>acct_tracked := acct_tracked a + n, acct_budget := tb\<rparr>))"

definition release_bytes :: "nat \<Rightarrow> stream_account \<Rightarrow> stream_account" where
  "release_bytes n a =
     (if n = 0 then a
      else a\<lparr>acct_tracked := acct_tracked a - n,
             acct_budget := snd (task_release ModuleState n (acct_budget a))\<rparr>)"

definition sd_clear :: "stream_direction \<Rightarrow> stream_direction" where
  "sd_clear d = d\<lparr>sd_ranges := [],
     sd_account := release_bytes (acct_tracked (sd_account d)) (sd_account d)\<rparr>"

definition sd_fail :: "tcp_stream_error \<Rightarrow> stream_direction \<Rightarrow> stream_direction" where
  "sd_fail e d = sd_clear (d\<lparr>sd_error := e\<rparr>)"

definition sd_abort :: "stream_direction \<Rightarrow> stream_direction" where
  "sd_abort d = sd_clear
     (if sd_error d = StreamNone \<and> \<not> sd_ended d then d\<lparr>sd_error := Aborted\<rparr> else d)"

text \<open>
  The constructors. A null budget or a configuration out of range leaves a failed object that
  rejects every later call and never touches the ledger, so a null budget can stand as an empty
  one. \<open>object_bytes\<close> is \<open>Some\<close> of the object's size for the owning constructor and \<open>None\<close>
  for an embedded core.
\<close>

definition no_ledger :: npm_task_budget where
  "no_ledger = new_task_budget \<lparr>max_tracked_bytes = 0, max_pending_output_bytes = 0\<rparr>"

definition blank_direction :: "tcp_stream_config \<Rightarrow> npm_task_budget \<Rightarrow> stream_direction" where
  "blank_direction c tb =
     \<lparr>sd_gap_timeout_ns = gap_timeout_ns c,
      sd_account = \<lparr>acct_limit = max_buffered_bytes_per_direction c, acct_tracked = 0,
                    acct_budget = tb\<rparr>,
      sd_ranges = [], sd_published = 0, sd_extent = 0, sd_progress = 0, sd_base_sequence = 0,
      sd_fin = None, sd_watermark = None, sd_origin = OriginUnknown, sd_error = StreamNone,
      sd_truncated = False, sd_ended = False\<rparr>"

definition sd_initialize ::
  "nat option \<Rightarrow> tcp_stream_config \<Rightarrow> npm_task_budget option \<Rightarrow> stream_direction" where
  "sd_initialize object_bytes c budget =
     (let d = blank_direction c (case budget of Some tb \<Rightarrow> tb | None \<Rightarrow> no_ledger) in
      if budget = None
         \<or> max_buffered_bytes_per_direction c < min_tcp_stream_buffered_bytes
         \<or> max_buffered_bytes_per_direction c > max_tcp_stream_buffered_bytes
         \<or> gap_timeout_ns c < min_tcp_stream_gap_timeout_ns
         \<or> gap_timeout_ns c > max_tcp_stream_gap_timeout_ns
      then d\<lparr>sd_error := InvalidConfig\<rparr>
      else case object_bytes of None \<Rightarrow> d
        | Some n \<Rightarrow>
          (case reserve_bytes n (sd_account d) of
             (Inl e, a) \<Rightarrow> d\<lparr>sd_account := a, sd_error := e\<rparr>
           | (Inr _, a) \<Rightarrow> d\<lparr>sd_account := a\<rparr>))"

section \<open>Ranges\<close>

definition bind_step :: "('e + 'a) \<times> 's \<Rightarrow> ('a \<Rightarrow> 's \<Rightarrow> ('e + 'b) \<times> 's) \<Rightarrow> ('e + 'b) \<times> 's" where
  "bind_step r f = (case r of (Inl e, s) \<Rightarrow> (Inl e, s) | (Inr a, s) \<Rightarrow> f a s)"

definition add_gap ::
  "nat \<Rightarrow> nat \<Rightarrow> int \<Rightarrow> bool \<Rightarrow> stream_account \<Rightarrow> (tcp_stream_error + stream_range) \<times> stream_account" where
  "add_gap b e deadline trunc a =
     bind_step (reserve_bytes range_charge a)
       (\<lambda>_ a'. (Inr \<lparr>rg_begin = b, rg_end = e, rg_timestamp_ns = deadline, rg_truncated = trunc,
                     rg_allocated = 0, rg_data = None\<rparr>, a'))"

text \<open>Splits a gap at a position: the nodes left of it (none if it starts there), and the node at it.\<close>

definition split_gap ::
  "stream_range \<Rightarrow> nat \<Rightarrow> stream_account
    \<Rightarrow> (tcp_stream_error + stream_range list \<times> stream_range) \<times> stream_account" where
  "split_gap r position a =
     (if position = rg_begin r then (Inr ([], r), a)
      else bind_step (add_gap position (rg_end r) (rg_timestamp_ns r) (rg_truncated r) a)
        (\<lambda>right a'. (Inr ([r\<lparr>rg_end := position\<rparr>], right), a')))"

text \<open>
  The two SplitGap calls that Fill and MarkTruncated make on a gap: the part of it from
  \<open>left\<close> to \<open>right\<close>, with the nodes cut off before and after it.
\<close>

definition cut_gap ::
  "stream_range \<Rightarrow> nat \<Rightarrow> nat \<Rightarrow> stream_account
    \<Rightarrow> (tcp_stream_error + stream_range list \<times> stream_range \<times> stream_range list) \<times> stream_account" where
  "cut_gap r left right a =
     bind_step (split_gap r left a) (\<lambda>(before, at) a1.
       if right < rg_end at then
         bind_step (split_gap at right a1) (\<lambda>(ats, rest) a2.
           (Inr (before, if ats = [] then at else hd ats, if ats = [] then [] else [rest]), a2))
       else (Inr (before, at, []), a1))"

text \<open>
  The loop of Fill walks the list and writes into the gaps that the new bytes reach. After a
  gap has been cut at the right the iteration stands on the remainder, which begins at the end
  of the new bytes, so the loop stops there.
\<close>

fun fill_walk ::
  "nat \<Rightarrow> nat \<Rightarrow> u8 list \<Rightarrow> int \<Rightarrow> stream_range list \<Rightarrow> stream_account
    \<Rightarrow> (tcp_stream_error + stream_range list) \<times> stream_account" where
  "fill_walk b e bytes captured_at [] a = (Inr [], a)"
| "fill_walk b e bytes captured_at (r # rs) a =
     (if \<not> rg_begin r < e then (Inr (r # rs), a)
      else if rg_end r \<le> b \<or> rg_data r \<noteq> None then
        bind_step (fill_walk b e bytes captured_at rs a) (\<lambda>rs' a'. (Inr (r # rs'), a'))
      else
        let left = max b (rg_begin r); right = min e (rg_end r) in
        bind_step (cut_gap r left right a) (\<lambda>(before, at, after) a1.
        bind_step (reserve_bytes (right - left) a1) (\<lambda>_ a2.
          let filled = at\<lparr>rg_data := Some (take (right - left) (drop (left - b) bytes)),
                          rg_allocated := right - left, rg_timestamp_ns := captured_at,
                          rg_truncated := False\<rparr> in
          if after \<noteq> [] then (Inr (before @ filled # after @ rs), a2)
          else bind_step (fill_walk b e bytes captured_at rs a2)
            (\<lambda>rs' a3. (Inr (before @ filled # rs'), a3)))))"

fun mark_truncated_walk ::
  "nat \<Rightarrow> nat \<Rightarrow> stream_range list \<Rightarrow> stream_account
    \<Rightarrow> (tcp_stream_error + stream_range list) \<times> stream_account" where
  "mark_truncated_walk b e [] a = (Inr [], a)"
| "mark_truncated_walk b e (r # rs) a =
     (if \<not> rg_begin r < e then (Inr (r # rs), a)
      else if rg_end r \<le> b \<or> rg_data r \<noteq> None \<or> rg_truncated r then
        bind_step (mark_truncated_walk b e rs a) (\<lambda>rs' a'. (Inr (r # rs'), a'))
      else
        bind_step (cut_gap r (max b (rg_begin r)) (min e (rg_end r)) a)
          (\<lambda>(before, at, after) a1.
          let marked = at\<lparr>rg_truncated := True\<rparr> in
          if after \<noteq> [] then (Inr (before @ marked # after @ rs), a1)
          else bind_step (mark_truncated_walk b e rs a1)
            (\<lambda>rs' a2. (Inr (before @ marked # rs'), a2))))"

fun trim_walk :: "nat \<Rightarrow> stream_range list \<Rightarrow> stream_account \<Rightarrow> stream_range list \<times> stream_account" where
  "trim_walk position [] a = ([], a)"
| "trim_walk position (r # rs) a =
     (if rg_begin r \<ge> position then
        trim_walk position rs (release_bytes (range_charge + rg_allocated r) a)
      else
        (case trim_walk position rs a of (rs', a') \<Rightarrow>
           ((if rg_end r > position then r\<lparr>rg_end := position\<rparr> else r) # rs', a')))"

definition trim_at_fin :: "nat \<Rightarrow> stream_direction \<Rightarrow> stream_direction" where
  "trim_at_fin position d =
     (case trim_walk position (sd_ranges d) (sd_account d) of (rs, a) \<Rightarrow>
        d\<lparr>sd_ranges := rs, sd_account := a, sd_extent := min (sd_extent d) position\<rparr>)"

text \<open>
  Places a 32-bit sequence number on the unbounded stream axis, as the signed distance from
  the most advanced byte seen: \<open>None\<close> when the distance is ambiguous; otherwise the position
  and the number of leading bytes that lie before the origin.
\<close>

definition map_sequence :: "stream_direction \<Rightarrow> u32 \<Rightarrow> (nat \<times> nat) option" where
  "map_sequence d sequence =
     (let reference = sd_base_sequence d + of_nat (sd_progress d);
          delta = sequence - reference in
      if delta = 0x80000000 then None
      else if delta < 0x80000000 then
        (if sd_progress d > u64_max - unat delta then None
         else Some (sd_progress d + unat delta, 0))
      else
        (let backwards = unat (0 - delta) in
         if backwards > sd_progress d then Some (0, backwards - sd_progress d)
         else Some (sd_progress d - backwards, 0)))"

section \<open>Emitting\<close>

type_synonym stream_result = "(tcp_stream_error + unit) \<times> stream_direction \<times> stream_log"

definition sd_emit :: "stream_sink \<Rightarrow> tcp_stream_event \<Rightarrow> stream_direction \<Rightarrow> stream_log \<Rightarrow> stream_result" where
  "sd_emit sink ev d log =
     (if \<not> fst (sink log ev) then (Inl SinkError, d, log)
      else (Inr (), d\<lparr>sd_published := ev_end ev\<rparr>, log @ [(ev, 0)]))"

definition data_event :: "stream_range \<Rightarrow> u8 list \<Rightarrow> tcp_stream_event" where
  "data_event r bytes = default_event\<lparr>ev_kind := EventData, ev_begin := rg_begin r,
     ev_end := rg_end r, ev_bytes := Bytes (take (rg_end r - rg_begin r) bytes),
     ev_captured_at_ns := Some (rg_timestamp_ns r)\<rparr>"

definition gap_event :: "bool \<Rightarrow> stream_range \<Rightarrow> tcp_stream_event" where
  "gap_event forced r = default_event\<lparr>ev_kind := EventGap, ev_begin := rg_begin r,
     ev_end := rg_end r, ev_gap_reason := Some (if forced then Termination else WaitExpired),
     ev_includes_capture_truncation := rg_truncated r\<rparr>"

text \<open>
  Drain delivers ranges from the front of the list: a payload at once, a gap when forced or
  when the watermark has reached its deadline.
\<close>

fun drain_walk ::
  "bool \<Rightarrow> stream_sink \<Rightarrow> stream_range list \<Rightarrow> stream_direction \<Rightarrow> stream_log \<Rightarrow> stream_result" where
  "drain_walk forced sink [] d log = (Inr (), d\<lparr>sd_ranges := []\<rparr>, log)"
| "drain_walk forced sink (r # rs) d log =
     (case rg_data r of
        Some bytes \<Rightarrow>
          (let ev = data_event r bytes; (accepted, taken) = sink log ev in
           if \<not> accepted then (Inl SinkError, d\<lparr>sd_ranges := r # rs\<rparr>, log)
           else
             let a = sd_account d;
                 moved = (if taken then rg_allocated r else 0);
                 a' = a\<lparr>acct_tracked := acct_tracked a - moved\<rparr>;
                 a'' = release_bytes (range_charge + (rg_allocated r - moved)) a' in
             drain_walk forced sink rs (d\<lparr>sd_account := a'', sd_published := rg_end r\<rparr>)
               (log @ [(ev, moved)]))
      | None \<Rightarrow>
          if \<not> forced \<and> (case sd_watermark d of None \<Rightarrow> True | Some w \<Rightarrow> w < rg_timestamp_ns r)
          then (Inr (), d\<lparr>sd_ranges := r # rs\<rparr>, log)
          else
            (case sd_emit sink (gap_event forced r) d log of
               (Inl e, d', log') \<Rightarrow> (Inl e, d'\<lparr>sd_ranges := r # rs\<rparr>, log')
             | (Inr _, d', log') \<Rightarrow>
                 drain_walk forced sink rs
                   (d'\<lparr>sd_account := release_bytes (range_charge + rg_allocated r) (sd_account d')\<rparr>)
                   log'))"

definition sd_drain :: "bool \<Rightarrow> stream_sink \<Rightarrow> stream_direction \<Rightarrow> stream_log \<Rightarrow> stream_result" where
  "sd_drain forced sink d log = drain_walk forced sink (sd_ranges d) d log"

definition end_event ::
  "nat \<Rightarrow> tcp_stream_end_reason \<Rightarrow> session_end_reason option \<Rightarrow> tcp_stream_event" where
  "end_event position reason session_reason = default_event\<lparr>ev_kind := EventEnd,
     ev_begin := position, ev_end := position, ev_end_reason := Some reason,
     ev_session_end_reason := session_reason\<rparr>"

definition sd_finish ::
  "tcp_stream_end_reason \<Rightarrow> session_end_reason option \<Rightarrow> stream_sink \<Rightarrow> stream_direction
    \<Rightarrow> stream_log \<Rightarrow> stream_result" where
  "sd_finish reason session_reason sink d log =
     bind_step (sd_drain True sink d log) (\<lambda>_ (d1, log1).
     bind_step (sd_emit sink (end_event (sd_published d1) reason session_reason) d1 log1)
       (\<lambda>_ (d2, log2). (Inr (), d2\<lparr>sd_ended := True\<rparr>, log2)))"

section \<open>Entry points\<close>

definition finish_if_fin :: "stream_sink \<Rightarrow> stream_direction \<Rightarrow> stream_log \<Rightarrow> stream_result" where
  "finish_if_fin sink d log =
     (if sd_fin d \<noteq> None \<and> Some (sd_published d) = sd_fin d
      then sd_finish EndFin None sink d log else (Inr (), d, log))"

text \<open>The steps of Ingest, once the segment is known to occupy \<open>begin\<close> to \<open>declared_end\<close>.\<close>

definition extend_stream :: "nat \<Rightarrow> int \<Rightarrow> stream_direction \<Rightarrow> stream_log \<Rightarrow> stream_result" where
  "extend_stream e deadline d log =
     (if e > sd_extent d then
        (case add_gap (sd_extent d) e deadline False (sd_account d) of
           (Inl err, a) \<Rightarrow> (Inl err, d\<lparr>sd_account := a\<rparr>, log)
         | (Inr r, a) \<Rightarrow>
             (Inr (), d\<lparr>sd_account := a, sd_ranges := sd_ranges d @ [r], sd_extent := e\<rparr>, log))
      else (Inr (), d, log))"

definition store_payload ::
  "nat \<Rightarrow> nat \<Rightarrow> u8 list \<Rightarrow> int \<Rightarrow> stream_direction \<Rightarrow> stream_log \<Rightarrow> stream_result" where
  "store_payload b e bytes captured_at d log =
     (if b < e then
        (case fill_walk b e bytes captured_at (sd_ranges d) (sd_account d) of
           (Inl err, a) \<Rightarrow> (Inl err, d\<lparr>sd_account := a\<rparr>, log)
         | (Inr rs, a) \<Rightarrow> (Inr (), d\<lparr>sd_account := a, sd_ranges := rs\<rparr>, log))
      else (Inr (), d, log))"

definition mark_missing ::
  "bool \<Rightarrow> nat \<Rightarrow> nat \<Rightarrow> stream_direction \<Rightarrow> stream_log \<Rightarrow> stream_result" where
  "mark_missing complete b e d log =
     (if \<not> complete then
        (case mark_truncated_walk b e (sd_ranges d) (sd_account d) of
           (Inl err, a) \<Rightarrow> (Inl err, d\<lparr>sd_account := a\<rparr>, log)
         | (Inr rs, a) \<Rightarrow> (Inr (), d\<lparr>sd_account := a, sd_ranges := rs\<rparr>, log))
      else (Inr (), d, log))"

definition conclude_segment ::
  "tcp_packet_facts \<Rightarrow> stream_sink \<Rightarrow> stream_direction \<Rightarrow> stream_log \<Rightarrow> stream_result" where
  "conclude_segment tcp sink d log =
     (if tf_rst tcp then sd_finish EndReset None sink d log
      else bind_step (sd_drain False sink d log) (\<lambda>_ (d', log'). finish_if_fin sink d' log'))"

definition ingest_segment ::
  "npm_packet_view \<Rightarrow> nat \<Rightarrow> nat \<Rightarrow> nat \<Rightarrow> stream_sink \<Rightarrow> stream_direction \<Rightarrow> stream_log \<Rightarrow> stream_result" where
  "ingest_segment packet begin prefix declared_end sink d log =
     (let facts = pv_transport packet; tcp = tcp_facts facts;
          d1 = (if tf_fin tcp \<and> sd_fin d = None
                then trim_at_fin declared_end (d\<lparr>sd_fin := Some declared_end\<rparr>) else d);
          e = (case sd_fin d1 of None \<Rightarrow> declared_end | Some f \<Rightarrow> min declared_end f);
          captured = payload_captured_bytes facts;
          captured_end = begin + (if captured > prefix then captured - prefix else 0) in
      bind_step
        (extend_stream e (stream_deadline (pv_timestamp_ns packet) (sd_gap_timeout_ns d1)) d1 log)
        (\<lambda>_ (d2, log2).
      let d3 = d2\<lparr>sd_progress := max (sd_progress d2) e\<rparr>;
          data_begin = max begin (sd_published d3);
          data_end = min captured_end e in
      bind_step
        (store_payload data_begin data_end
           (drop (prefix + (data_begin - begin))
              (case span_data (pv_payload packet) of None \<Rightarrow> [] | Some bs \<Rightarrow> bs))
           (pv_timestamp_ns packet) d3 log2) (\<lambda>_ (d4, log4).
      bind_step
        (mark_missing (payload_complete facts) (max captured_end (sd_published d4)) e d4 log4)
        (\<lambda>_ (d5, log5). conclude_segment tcp sink d5 log5))))"

definition sd_ingest ::
  "npm_packet_view \<Rightarrow> stream_sink \<Rightarrow> stream_direction \<Rightarrow> stream_log \<Rightarrow> stream_result" where
  "sd_ingest packet sink d log =
     (let facts = pv_transport packet; tcp = tcp_facts facts; payload = pv_payload packet in
      if \<not> tf_valid tcp \<or> span_size payload \<noteq> payload_captured_bytes facts
         \<or> payload_captured_bytes facts > payload_wire_bytes facts
         \<or> payload_complete facts \<noteq> (payload_captured_bytes facts = payload_wire_bytes facts)
         \<or> (span_size payload \<noteq> 0 \<and> span_data payload = None)
      then (Inl InvalidInput, d, log)
      else
        let d1 = d\<lparr>sd_truncated := (sd_truncated d \<or> \<not> payload_complete facts)\<rparr> in
        if \<not> tf_syn tcp \<and> \<not> tf_fin tcp \<and> payload_wire_bytes facts = 0 then
          (if tf_rst tcp then sd_finish EndReset None sink d1 log else (Inr (), d1, log))
        else
          let sequence = tf_sequence tcp + (if tf_syn tcp then 1 else 0);
              d2 = (if sd_origin d1 = OriginUnknown
                    then d1\<lparr>sd_base_sequence := sequence,
                            sd_origin := (if tf_syn tcp then OriginSyn else OriginMidstream)\<rparr>
                    else d1);
              wire = payload_wire_bytes facts;
              ambiguous = sd_finish EndSequenceAmbiguous None sink d2 log in
          if wire + (if tf_syn tcp then 1 else 0) + (if tf_fin tcp then 1 else 0) \<ge> 0x80000000
          then ambiguous
          else case map_sequence d2 sequence of
            None \<Rightarrow> ambiguous
          | Some (begin, prefix) \<Rightarrow>
              if begin > u64_max - wire then ambiguous
              else if prefix > wire then
                (if tf_rst tcp then sd_finish EndReset None sink d2 log else (Inr (), d2, log))
              else
                let declared_end = begin + wire - prefix;
                    bounded_end = (case sd_fin d2 of None \<Rightarrow> declared_end
                                   | Some f \<Rightarrow> min declared_end f) in
                if bounded_end \<ge> sd_published d2 \<and> bounded_end - sd_published d2 \<ge> 0x80000000
                then ambiguous
                else if tf_fin tcp \<and> ((sd_fin d2 \<noteq> None \<and> sd_fin d2 \<noteq> Some declared_end)
                                       \<or> declared_end < sd_published d2)
                then ambiguous
                else ingest_segment packet begin prefix declared_end sink d2 log)"

text \<open>The catch blocks of the entry points: an error releases the whole state.\<close>

definition catch_step :: "stream_result \<Rightarrow> tcp_stream_error \<times> stream_direction \<times> stream_log" where
  "catch_step r =
     (case r of (Inl e, d, log) \<Rightarrow> (e, sd_fail e d, log)
      | (Inr _, d, log) \<Rightarrow> (sd_error d, d, log))"

definition sd_push ::
  "npm_packet_view \<Rightarrow> stream_sink \<Rightarrow> stream_direction \<Rightarrow> stream_log
    \<Rightarrow> tcp_stream_error \<times> stream_direction \<times> stream_log" where
  "sd_push packet sink d log =
     (if sd_error d \<noteq> StreamNone \<or> sd_ended d then (sd_error d, d, log)
      else catch_step (sd_ingest packet sink d log))"

definition sd_advance_watermark ::
  "int \<Rightarrow> stream_sink \<Rightarrow> stream_direction \<Rightarrow> stream_log
    \<Rightarrow> tcp_stream_error \<times> stream_direction \<times> stream_log" where
  "sd_advance_watermark w sink d log =
     (if sd_error d \<noteq> StreamNone \<or> sd_ended d then (sd_error d, d, log)
      else if (case sd_watermark d of None \<Rightarrow> False | Some w0 \<Rightarrow> w \<le> w0) then (sd_error d, d, log)
      else catch_step
        (bind_step (sd_drain False sink (d\<lparr>sd_watermark := Some w\<rparr>) log)
          (\<lambda>_ (d1, log1). finish_if_fin sink d1 log1)))"

definition sd_end ::
  "tcp_stream_end_reason \<Rightarrow> session_end_reason option \<Rightarrow> stream_sink \<Rightarrow> stream_direction
    \<Rightarrow> stream_log \<Rightarrow> tcp_stream_error \<times> stream_direction \<times> stream_log" where
  "sd_end reason session_reason sink d log =
     (if sd_error d \<noteq> StreamNone \<or> sd_ended d then (sd_error d, d, log)
      else if (reason = EndSessionEnd) \<noteq> (session_reason \<noteq> None) \<or> reason = EndFin
      then (InvalidInput, sd_fail InvalidInput d, log)
      else catch_step (sd_finish reason session_reason sink d log))"

definition sd_next_event_deadline_ns :: "stream_direction \<Rightarrow> int option" where
  "sd_next_event_deadline_ns d =
     (if sd_ended d \<or> sd_error d \<noteq> StreamNone \<or> sd_ranges d = [] then None
      else Some (rg_timestamp_ns (hd (sd_ranges d))))"

end
