(* ===== verification/TcpStreamProps.thy ===== *)
theory TcpStreamProps
  imports TcpStream
begin

text \<open>
  The invariant of a stream direction, its preservation by every entry point, and what follows:
  the delivered events tile the stream without overlap or hole, the byte accounting agrees with
  the task ledger, captured bytes are never overwritten, and sequence numbers are unwrapped
  correctly. Fallible steps are handled by \<open>post\<close>, a weakest-precondition transformer for the
  value-or-error results.
\<close>

section \<open>Postconditions of fallible steps\<close>

definition post ::
  "(tcp_stream_error + 'a) \<times> 's \<Rightarrow> ('s \<Rightarrow> bool) \<Rightarrow> ('a \<Rightarrow> 's \<Rightarrow> bool) \<Rightarrow> bool" where
  "post r P Q = (case r of (Inl e, s) \<Rightarrow> e \<noteq> StreamNone \<and> P s | (Inr a, s) \<Rightarrow> Q a s)"

lemma post_Inl [simp]: "post (Inl e, s) P Q = (e \<noteq> StreamNone \<and> P s)"
  by (simp add: post_def)

lemma post_Inr [simp]: "post (Inr a, s) P Q = Q a s"
  by (simp add: post_def)

lemma post_bind [simp]: "post (bind_step r f) P Q = post r P (\<lambda>a s. post (f a s) P Q)"
  by (auto simp: post_def bind_step_def split: prod.split sum.split)

lemma post_if: "post (if b then r else r') P Q = (if b then post r P Q else post r' P Q)"
  by simp

lemma post_mono:
  "post r P Q \<Longrightarrow> (\<And>s. P s \<Longrightarrow> P' s) \<Longrightarrow> (\<And>a s. Q a s \<Longrightarrow> Q' a s) \<Longrightarrow> post r P' Q'"
  by (auto simp: post_def split: prod.splits sum.splits)

section \<open>Accounting\<close>

text \<open>The direction holds \<open>c\<close> bytes, which the task ledger records beside \<open>base\<close> bytes of others.\<close>

definition account_ok :: "nat \<Rightarrow> stream_account \<Rightarrow> nat \<Rightarrow> nat \<Rightarrow> bool" where
  "account_ok lim a c base \<longleftrightarrow>
     acct_limit a = lim \<and> acct_tracked a = c \<and> c \<le> lim \<and>
     budget_wf (acct_budget a) \<and> module_held (acct_budget a) = base + c"

definition ranges_charge :: "stream_range list \<Rightarrow> nat" where
  "ranges_charge rs = sum_list (map (\<lambda>r. range_charge + rg_allocated r) rs)"

lemma ranges_charge_simps [simp]:
  "ranges_charge [] = 0"
  "ranges_charge (r # rs) = range_charge + rg_allocated r + ranges_charge rs"
  "ranges_charge (rs @ rs') = ranges_charge rs + ranges_charge rs'"
  by (simp_all add: ranges_charge_def)

lemma reserve_bytes_post:
  assumes ok: "account_ok lim a c base"
    and P: "\<And>a'. account_ok lim a' c base \<Longrightarrow> P a'"
    and Q: "\<And>a'. account_ok lim a' (c + n) base \<Longrightarrow> Q () a'"
  shows "post (reserve_bytes n a) P Q"
proof (cases "n > acct_limit a - acct_tracked a")
  case True
  with ok P show ?thesis by (simp add: reserve_bytes_def)
next
  case False
  obtain e tb where r: "task_reserve ModuleState n (acct_budget a) = (e, tb)" by fastforce
  have wf: "budget_wf (acct_budget a)" using ok by (simp add: account_ok_def)
  show ?thesis
  proof (cases "e = BudgetNone")
    case True
    with r have "module_charge n (acct_budget a) = Some tb" by (simp add: module_charge_def)
    with ok module_ledger.charge_share [OF wf _ this, of base c]
    have "budget_wf tb \<and> module_held tb = base + (c + n)" by (simp add: account_ok_def)
    with False True r ok Q show ?thesis
      by (auto simp: reserve_bytes_def account_ok_def)
  next
    case False': False
    with r task_reserve_refused [of ModuleState n "acct_budget a"] have "tb = acct_budget a" by simp
    with False False' r ok P show ?thesis
      by (simp add: reserve_bytes_def account_ok_def)
  qed
qed

lemma release_bytes_ok:
  assumes "account_ok lim a (c + n) base"
  shows "account_ok lim (release_bytes n a) c base"
proof -
  have "budget_wf (module_refund n (acct_budget a)) \<and>
        module_held (module_refund n (acct_budget a)) = base + c"
    by (rule module_ledger.refund_share) (use assms in \<open>simp_all add: account_ok_def\<close>)
  with assms show ?thesis
    by (auto simp: release_bytes_def account_ok_def module_refund_def)
qed

lemma release_bytes_le:
  "account_ok lim a c base \<Longrightarrow> n \<le> c \<Longrightarrow> account_ok lim (release_bytes n a) (c - n) base"
  using release_bytes_ok [of lim a "c - n" n base] by simp

lemma account_ok_move:
  "account_ok lim a (c + m) base \<Longrightarrow>
     account_ok lim (a\<lparr>acct_tracked := acct_tracked a - m\<rparr>) c (base + m)"
  by (auto simp: account_ok_def)

section \<open>Ranges that tile an interval\<close>

definition range_ok :: "stream_range \<Rightarrow> bool" where
  "range_ok r \<longleftrightarrow> rg_begin r < rg_end r \<and>
     (case rg_data r of None \<Rightarrow> rg_allocated r = 0
      | Some d \<Rightarrow> rg_end r - rg_begin r \<le> length d \<and> rg_allocated r = length d)"

fun covers :: "nat \<Rightarrow> stream_range list \<Rightarrow> nat \<Rightarrow> bool" where
  "covers p [] q \<longleftrightarrow> p = q"
| "covers p (r # rs) q \<longleftrightarrow> rg_begin r = p \<and> range_ok r \<and> covers (rg_end r) rs q"

lemma covers_le: "covers p rs q \<Longrightarrow> p \<le> q"
  by (induction rs arbitrary: p) (fastforce simp: range_ok_def)+

lemma covers_append: "covers p (rs @ rs') q \<longleftrightarrow> (\<exists>m. covers p rs m \<and> covers m rs' q)"
  by (induction rs arbitrary: p) auto

text \<open>The byte captured for a stream position, if any.\<close>

fun content_at :: "stream_range list \<Rightarrow> nat \<Rightarrow> u8 option" where
  "content_at [] x = None"
| "content_at (r # rs) x =
     (if rg_begin r \<le> x \<and> x < rg_end r
      then map_option (\<lambda>d. d ! (x - rg_begin r)) (rg_data r) else content_at rs x)"

lemma content_outside: "covers p rs q \<Longrightarrow> x < p \<or> q \<le> x \<Longrightarrow> content_at rs x = None"
proof (induction rs arbitrary: p)
  case (Cons r rs)
  then have "rg_end r \<le> q" "p < rg_end r" using covers_le [of "rg_end r" rs q]
    by (auto simp: range_ok_def)
  with Cons show ?case by auto
qed simp

definition gap_range :: "nat \<Rightarrow> nat \<Rightarrow> stream_range \<Rightarrow> stream_range" where
  "gap_range b e r = r\<lparr>rg_begin := b, rg_end := e, rg_allocated := 0, rg_data := None\<rparr>"

lemma gap_range_simps [simp]:
  "rg_begin (gap_range b e r) = b" "rg_end (gap_range b e r) = e"
  "rg_allocated (gap_range b e r) = 0" "rg_data (gap_range b e r) = None"
  "rg_timestamp_ns (gap_range b e r) = rg_timestamp_ns r"
  "rg_truncated (gap_range b e r) = rg_truncated r"
  "range_ok (gap_range b e r) \<longleftrightarrow> b < e"
  "gap_range b e (gap_range b' e' r) = gap_range b e r"
  by (simp_all add: gap_range_def range_ok_def)

lemma gap_range_self:
  "rg_data r = None \<Longrightarrow> range_ok r \<Longrightarrow> gap_range (rg_begin r) (rg_end r) r = r"
  by (simp add: gap_range_def range_ok_def)

lemma split_gap_post:
  assumes ok: "account_ok lim a c base" and gap: "rg_data r = None" "range_ok r"
    and pos: "rg_begin r \<le> x" "x < rg_end r"
    and P: "\<And>a'. account_ok lim a' c base \<Longrightarrow> P a'"
    and Q: "\<And>a' ls. account_ok lim a' (c + ranges_charge ls) base \<Longrightarrow>
      ls = (if rg_begin r < x then [gap_range (rg_begin r) x r] else []) \<Longrightarrow>
      Q (ls, gap_range x (rg_end r) r) a'"
  shows "post (split_gap r x a) P Q"
proof (cases "x = rg_begin r")
  case True
  with Q [of a "[]"] ok show ?thesis by (simp add: split_gap_def gap_range_self gap)
next
  case False
  with pos have lt: "rg_begin r < x" by simp
  have alloc: "rg_allocated r = 0" using gap by (simp add: range_ok_def)
  have eqs: "\<lparr>rg_begin = x, rg_end = rg_end r, rg_timestamp_ns = rg_timestamp_ns r,
        rg_truncated = rg_truncated r, rg_allocated = 0, rg_data = None\<rparr> = gap_range x (rg_end r) r"
      "r\<lparr>rg_end := x\<rparr> = gap_range (rg_begin r) x r"
    using gap alloc by (simp_all add: gap_range_def)
  show ?thesis
    using False lt
    by (auto simp: split_gap_def add_gap_def eqs intro!: reserve_bytes_post [OF ok] P Q)
qed

lemma cut_gap_post:
  assumes ok: "account_ok lim a c base" and gap: "rg_data r = None" "range_ok r"
    and pos: "rg_begin r \<le> x" "x < y" "y \<le> rg_end r"
    and P: "\<And>a' c'. account_ok lim a' c' base \<Longrightarrow> P a'"
    and Q: "\<And>a' before after.
      before = (if rg_begin r < x then [gap_range (rg_begin r) x r] else []) \<Longrightarrow>
      after = (if y < rg_end r then [gap_range y (rg_end r) r] else []) \<Longrightarrow>
      account_ok lim a' (c + ranges_charge before + ranges_charge after) base \<Longrightarrow>
      Q (before, gap_range x y r, after) a'"
  shows "post (cut_gap r x y a) P Q"
  unfolding cut_gap_def post_bind
proof (rule split_gap_post [OF ok gap])
  fix a1 before
  assume a1: "account_ok lim a1 (c + ranges_charge before) base"
    and before: "before = (if rg_begin r < x then [gap_range (rg_begin r) x r] else [])"
  let ?at = "gap_range x (rg_end r) r"
  have "post (split_gap ?at y a1) P (\<lambda>(ats, rest) a2.
      Q (before, if ats = [] then ?at else hd ats, if ats = [] then [] else [rest]) a2)"
    if lt: "y < rg_end r"
    by (rule split_gap_post [OF a1])
      (use lt pos before Q [of before "[gap_range y (rg_end r) r]"]
        in \<open>auto intro!: P simp: add.assoc split: if_splits\<close>)
  moreover have "Q (before, ?at, []) a1" if "\<not> y < rg_end r"
    using Q [of before "[]" a1] that before a1 pos by simp
  ultimately show "post ((case (before, ?at) of (before, at) \<Rightarrow>
      \<lambda>a1. if y < rg_end at then bind_step (split_gap at y a1)
        (\<lambda>(ats, rest) a2. (Inr (before, if ats = [] then at else hd ats,
            if ats = [] then [] else [rest]), a2)) else (Inr (before, at, []), a1)) a1) P Q"
    by (simp add: case_prod_unfold cong: if_cong)
qed (use pos P in auto)

section \<open>Filling, marking and trimming\<close>

text \<open>What Fill is to leave behind: the first capture of a byte wins.\<close>

definition filled ::
  "nat \<Rightarrow> nat \<Rightarrow> u8 list \<Rightarrow> nat \<Rightarrow> nat \<Rightarrow> stream_range list \<Rightarrow> nat \<Rightarrow> u8 option" where
  "filled b e bytes p q rs x =
     (case content_at rs x of Some v \<Rightarrow> Some v
      | None \<Rightarrow> if b \<le> x \<and> x < e \<and> p \<le> x \<and> x < q then Some (bytes ! (x - b)) else None)"

text \<open>Replacing a gap by the pieces cut from it and a new range in the middle.\<close>

definition pieces :: "stream_range \<Rightarrow> nat \<Rightarrow> stream_range \<Rightarrow> nat \<Rightarrow> stream_range list" where
  "pieces r l f u = (if rg_begin r < l then [gap_range (rg_begin r) l r] else []) @ f #
     (if u < rg_end r then [gap_range u (rg_end r) r] else [])"

lemma ranges_charge_pieces:
  "ranges_charge (pieces r l f u) =
     ranges_charge (if rg_begin r < l then [gap_range (rg_begin r) l r] else []) +
     ranges_charge (if u < rg_end r then [gap_range u (rg_end r) r] else []) +
     (range_charge + rg_allocated f)"
  by (simp add: pieces_def)

lemma covers_pieces:
  assumes "rg_begin r \<le> l" "l < u" "u \<le> rg_end r" "range_ok f" "rg_begin f = l" "rg_end f = u"
  shows "covers p (pieces r l f u @ xs) q \<longleftrightarrow> rg_begin r = p \<and> covers (rg_end r) xs q"
  using assms by (auto simp: pieces_def)

lemma content_pieces:
  assumes "rg_begin r \<le> l" "l < u" "u \<le> rg_end r" "rg_begin f = l" "rg_end f = u"
  shows "content_at (pieces r l f u @ xs) x =
    (if l \<le> x \<and> x < u then map_option (\<lambda>d. d ! (x - l)) (rg_data f)
     else if rg_begin r \<le> x \<and> x < rg_end r then None else content_at xs x)"
  using assms by (auto simp: pieces_def)

lemma fill_walk_post:
  assumes "account_ok lim a (c + ranges_charge rs) base" "covers p rs q" "b < e"
    "e - b \<le> length bytes"
    and "\<And>a' c'. account_ok lim a' c' base \<Longrightarrow> P a'"
    and "\<And>rs' a'. account_ok lim a' (c + ranges_charge rs') base \<Longrightarrow> covers p rs' q \<Longrightarrow>
      (\<And>x. content_at rs' x = filled b e bytes p q rs x) \<Longrightarrow> Q rs' a'"
  shows "post (fill_walk b e bytes t rs a) P Q"
  using assms
proof (induction b e bytes t rs a arbitrary: c p Q rule: fill_walk.induct)
  case (1 b e bytes t a)
  then show ?case by (simp add: filled_def)
next
  case (2 b e bytes t r rs a)
  note prems = "2.prems"
  have cov: "rg_begin r = p" "range_ok r" "covers (rg_end r) rs q" "rg_end r \<le> q"
    using prems(2) covers_le by auto
  have lt: "rg_begin r < rg_end r" using cov(2) by (simp add: range_ok_def)
  note out = content_outside [OF cov(3)]
  consider (stop) "\<not> rg_begin r < e"
    | (skip) "rg_begin r < e" "rg_end r \<le> b \<or> rg_data r \<noteq> None"
    | (fill) "rg_begin r < e" "\<not> rg_end r \<le> b" "rg_data r = None"
    by blast
  then show ?case
  proof cases
    case stop
    then have "filled b e bytes p q (r # rs) x = content_at (r # rs) x" for x
      using cov by (auto simp: filled_def split: option.split)
    with stop prems show ?thesis by simp
  next
    case skip
    have "post (fill_walk b e bytes t rs a) P (\<lambda>rs' a'. Q (r # rs') a')"
    proof (rule "2.IH"(1) [OF _ skip(2), of "c + range_charge + rg_allocated r" "rg_end r"])
      fix rs' a'
      assume r: "account_ok lim a' (c + range_charge + rg_allocated r + ranges_charge rs') base"
        "covers (rg_end r) rs' q" "\<And>x. content_at rs' x = filled b e bytes (rg_end r) q rs x"
      have "content_at (r # rs') x = filled b e bytes p q (r # rs) x" for x
        using skip lt cov out [of x] by (auto simp: r(3) filled_def split: option.splits)
      with r cov show "Q (r # rs') a'"
        by (intro prems(6)) (simp_all add: algebra_simps)
    qed (use skip prems cov in \<open>auto simp: algebra_simps\<close>)
    with skip show ?thesis by simp
  next
    case fill
    define l u where "l = max b (rg_begin r)" and "u = min e (rg_end r)"
    define d where "d = take (u - l) (drop (l - b) bytes)"
    let ?upd = "\<lambda>at. at\<lparr>rg_data := Some d, rg_allocated := u - l, rg_timestamp_ns := t,
        rg_truncated := False\<rparr>"
    define f where "f = ?upd (gap_range l u r)"
    have lu: "rg_begin r \<le> l" "l < u" "u \<le> rg_end r" and b: "b \<le> l" "u \<le> e" "l \<le> x \<or> x < p \<or> x < b"
      "x < u \<or> u = rg_end r \<or> e \<le> x" for x
      using fill lt prems(3) cov(1) by (auto simp: l_def u_def)
    have f: "range_ok f" "rg_begin f = l" "rg_end f = u" "rg_allocated f = u - l" "rg_data f = Some d"
      using lu b prems(4) by (simp_all add: f_def range_ok_def d_def)
    have nth: "d ! (x - l) = bytes ! (x - b)" if "l \<le> x" "x < u" for x
      using that b prems(4) by (simp add: d_def)
    note pc = covers_pieces [OF lu f(1-3)] content_pieces [OF lu f(2,3)]
    have alloc: "rg_allocated r = 0" using cov(2) fill(3) by (simp add: range_ok_def)
    have finish: "Q (pieces r l f u @ xs) a2"
      if "account_ok lim a2 (c + ranges_charge (pieces r l f u) + ranges_charge xs) base"
        "covers (rg_end r) xs q"
        "\<And>x. content_at xs x = (if u < rg_end r then content_at rs x
            else filled b e bytes (rg_end r) q rs x)" for xs a2
    proof (rule prems(6))
      show "content_at (pieces r l f u @ xs) x = filled b e bytes p q (r # rs) x" for x
        using cov(1,4) lu b(1,2) b(3,4) [of x] fill(3) out [of x] nth [of x]
        unfolding pc that(3) filled_def f(5)
        by (auto simp: not_less not_le split: option.split)
    qed (use that cov pc in \<open>simp_all add: add.assoc\<close>)
    have "post (cut_gap r l u a) P (\<lambda>(before, at, after) a1.
        post (reserve_bytes (u - l) a1) P (\<lambda>_ a2.
          if after \<noteq> [] then Q (before @ ?upd at # after @ rs) a2
          else post (fill_walk b e bytes t rs a2) P (\<lambda>rs'. Q (before @ ?upd at # rs'))))"
    proof (rule cut_gap_post [OF prems(1) fill(3) cov(2) lu prems(5)], assumption)
      fix a1 before after
      assume ba: "before = (if rg_begin r < l then [gap_range (rg_begin r) l r] else [])"
          "after = (if u < rg_end r then [gap_range u (rg_end r) r] else [])"
        and a1: "account_ok lim a1 (c + ranges_charge (r # rs) + ranges_charge before +
          ranges_charge after) base"
      have pieces: "before @ f # after @ xs = pieces r l f u @ xs" for xs
        by (simp add: pieces_def ba)
      have charge: "c + ranges_charge (r # rs) + ranges_charge before + ranges_charge after + (u - l)
          = c + ranges_charge (pieces r l f u) + ranges_charge rs"
        using alloc f(4) by (simp add: ranges_charge_pieces ba)
      have more: "post (fill_walk b e bytes t rs a2) P (\<lambda>rs'. Q (before @ f # rs'))"
        if "after = []" "account_ok lim a2 (c + ranges_charge (pieces r l f u) + ranges_charge rs) base"
        for a2
      proof (rule "2.IH"(2) [OF _ _ l_def u_def refl _ that(2)])
        fix rs' a'
        assume "account_ok lim a' (c + ranges_charge (pieces r l f u) + ranges_charge rs') base"
          "covers (rg_end r) rs' q" "\<And>x. content_at rs' x = filled b e bytes (rg_end r) q rs x"
        with that(1) ba(2) have "Q (before @ f # after @ rs') a'"
          unfolding pieces by (intro finish) (auto split: if_splits)
        with that(1) show "Q (before @ f # rs') a'" by simp
      qed (use fill prems cov that in simp_all)
      have last: "Q (before @ f # after @ rs) a2"
        if "after \<noteq> []" "account_ok lim a2 (c + ranges_charge (pieces r l f u) + ranges_charge rs) base"
        for a2
        unfolding pieces using that ba(2) cov by (intro finish) (auto split: if_splits)
      have "post (reserve_bytes (u - l) a1) P (\<lambda>_ a2.
          if after \<noteq> [] then Q (before @ f # after @ rs) a2
          else post (fill_walk b e bytes t rs a2) P (\<lambda>rs'. Q (before @ f # rs')))"
      proof (rule reserve_bytes_post [OF a1 prems(5)], assumption)
        fix a2
        assume "account_ok lim a2 (c + ranges_charge (r # rs) + ranges_charge before +
          ranges_charge after + (u - l)) base"
        then show "if after \<noteq> [] then Q (before @ f # after @ rs) a2
          else post (fill_walk b e bytes t rs a2) P (\<lambda>rs'. Q (before @ f # rs'))"
          unfolding charge by (simp add: more last)
      qed
      then show "(case (before, gap_range l u r, after) of (before, at, after) \<Rightarrow> \<lambda>a1.
        post (reserve_bytes (u - l) a1) P (\<lambda>_ a2.
          if after \<noteq> [] then Q (before @ ?upd at # after @ rs) a2
          else post (fill_walk b e bytes t rs a2) P (\<lambda>rs'. Q (before @ ?upd at # rs')))) a1"
        by (simp only: f_def prod.case)
    qed
    with fill show ?thesis
      by (simp add: Let_def l_def [symmetric] u_def [symmetric] d_def [symmetric]
          case_prod_unfold post_if split del: if_split cong: if_cong)
  qed
qed

lemma mark_truncated_walk_post:
  assumes "account_ok lim a (c + ranges_charge rs) base" "covers p rs q" "b < e"
    and "\<And>a' c'. account_ok lim a' c' base \<Longrightarrow> P a'"
    and "\<And>rs' a'. account_ok lim a' (c + ranges_charge rs') base \<Longrightarrow> covers p rs' q \<Longrightarrow>
      (\<And>x. content_at rs' x = content_at rs x) \<Longrightarrow> Q rs' a'"
  shows "post (mark_truncated_walk b e rs a) P Q"
  using assms
proof (induction b e rs a arbitrary: c p Q rule: mark_truncated_walk.induct)
  case (1 b e a)
  then show ?case by simp
next
  case (2 b e r rs a)
  note prems = "2.prems"
  have cov: "rg_begin r = p" "range_ok r" "covers (rg_end r) rs q" "rg_end r \<le> q"
    using prems(2) covers_le by auto
  have lt: "rg_begin r < rg_end r" using cov(2) by (simp add: range_ok_def)
  consider (stop) "\<not> rg_begin r < e"
    | (skip) "rg_begin r < e" "rg_end r \<le> b \<or> rg_data r \<noteq> None \<or> rg_truncated r"
    | (mark) "rg_begin r < e" "\<not> (rg_end r \<le> b \<or> rg_data r \<noteq> None \<or> rg_truncated r)"
    by blast
  then show ?case
  proof cases
    case stop
    with prems show ?thesis by simp
  next
    case skip
    have "post (mark_truncated_walk b e rs a) P (\<lambda>rs' a'. Q (r # rs') a')"
    proof (rule "2.IH"(1) [OF _ skip(2), of "c + range_charge + rg_allocated r" "rg_end r"])
      fix rs' a'
      assume "account_ok lim a' (c + range_charge + rg_allocated r + ranges_charge rs') base"
        "covers (rg_end r) rs' q" "\<And>x. content_at rs' x = content_at rs x"
      with cov show "Q (r # rs') a'"
        by (intro prems(5)) (simp_all add: algebra_simps)
    qed (use skip prems cov in \<open>auto simp: algebra_simps\<close>)
    with skip show ?thesis by simp
  next
    case mark
    define l u where "l = max b (rg_begin r)" and "u = min e (rg_end r)"
    define f where "f = (gap_range l u r)\<lparr>rg_truncated := True\<rparr>"
    have gap: "rg_data r = None" "rg_allocated r = 0"
      using cov(2) mark(2) by (auto simp: range_ok_def)
    have lu: "rg_begin r \<le> l" "l < u" "u \<le> rg_end r"
      using mark lt prems(3) by (auto simp: l_def u_def)
    have f: "range_ok f" "rg_begin f = l" "rg_end f = u" "rg_allocated f = 0" "rg_data f = None"
      using lu by (simp_all add: f_def range_ok_def)
    note pc = covers_pieces [OF lu f(1-3)] content_pieces [OF lu f(2,3)]
    have finish: "Q (pieces r l f u @ xs) a2"
      if "account_ok lim a2 (c + ranges_charge (pieces r l f u) + ranges_charge xs) base"
        "covers (rg_end r) xs q" "\<And>x. content_at xs x = content_at rs x" for xs a2
    proof (rule prems(5))
      show "content_at (pieces r l f u @ xs) x = content_at (r # rs) x" for x
        using lu gap by (auto simp: pc that(3) f)
    qed (use that cov pc in \<open>simp_all add: add.assoc\<close>)
    have "post (cut_gap r l u a) P (\<lambda>(before, at, after) a1.
        if after \<noteq> [] then Q (before @ at\<lparr>rg_truncated := True\<rparr> # after @ rs) a1
        else post (mark_truncated_walk b e rs a1) P
          (\<lambda>rs'. Q (before @ at\<lparr>rg_truncated := True\<rparr> # rs')))"
    proof (rule cut_gap_post [OF prems(1) gap(1) cov(2) lu prems(4)], assumption)
      fix a1 before after
      assume ba: "before = (if rg_begin r < l then [gap_range (rg_begin r) l r] else [])"
          "after = (if u < rg_end r then [gap_range u (rg_end r) r] else [])"
        and "account_ok lim a1 (c + ranges_charge (r # rs) + ranges_charge before +
          ranges_charge after) base"
      then have a1: "account_ok lim a1 (c + ranges_charge (pieces r l f u) + ranges_charge rs) base"
        using gap f by (simp add: pieces_def algebra_simps)
      have pieces: "before @ f # after @ xs = pieces r l f u @ xs" for xs
        by (simp add: pieces_def ba)
      have more: "post (mark_truncated_walk b e rs a1) P (\<lambda>rs'. Q (before @ f # rs'))"
        if "after = []"
      proof (rule "2.IH"(2) [OF _ _ refl _ a1])
        fix rs' a'
        assume "account_ok lim a' (c + ranges_charge (pieces r l f u) + ranges_charge rs') base"
          "covers (rg_end r) rs' q" "\<And>x. content_at rs' x = content_at rs x"
        then have "Q (before @ f # after @ rs') a'"
          unfolding pieces by (intro finish) auto
        with that show "Q (before @ f # rs') a'" by simp
      qed (use mark prems cov that in auto)
      have "Q (before @ f # after @ rs) a1"
        unfolding pieces using a1 cov by (intro finish) auto
      with more show "(case (before, gap_range l u r, after) of (before, at, after) \<Rightarrow> \<lambda>a1.
        if after \<noteq> [] then Q (before @ at\<lparr>rg_truncated := True\<rparr> # after @ rs) a1
        else post (mark_truncated_walk b e rs a1) P
          (\<lambda>rs'. Q (before @ at\<lparr>rg_truncated := True\<rparr> # rs'))) a1"
        by (simp add: f_def)
    qed
    with mark show ?thesis
      by (simp add: Let_def l_def [symmetric] u_def [symmetric]
          case_prod_unfold post_if split del: if_split cong: if_cong)
  qed
qed

text \<open>Trimming at a FIN cuts the tail off and gives back what it held.\<close>

lemma trim_walk_all:
  assumes "covers p rs q" "x \<le> p" "account_ok lim a (c + ranges_charge rs) base"
  shows "\<exists>a'. trim_walk x rs a = ([], a') \<and> account_ok lim a' c base"
  using assms
proof (induction rs arbitrary: p a)
  case Nil
  then show ?case by simp
next
  case (Cons r rs)
  have "account_ok lim a (c + ranges_charge rs + (range_charge + rg_allocated r)) base"
    using Cons.prems(3) by (simp add: algebra_simps)
  then have "account_ok lim (release_bytes (range_charge + rg_allocated r) a)
      (c + ranges_charge rs) base"
    by (rule release_bytes_ok)
  moreover have "covers (rg_end r) rs q" "x \<le> rg_end r" "x \<le> rg_begin r"
    using Cons.prems by (auto simp: range_ok_def)
  ultimately show ?case using Cons.IH by simp
qed

lemma trim_walk_spec:
  assumes "trim_walk x rs a = (rs', a')" "account_ok lim a (c + ranges_charge rs) base"
    "covers p rs q" "p \<le> x"
  shows "account_ok lim a' (c + ranges_charge rs') base \<and> covers p rs' (min q x) \<and>
    (\<forall>y. content_at rs' y = (if y < x then content_at rs y else None))"
  using assms
proof (induction rs arbitrary: c p rs' a a')
  case Nil
  then show ?case by (auto dest: covers_le)
next
  case (Cons r rs)
  have cov: "rg_begin r = p" "range_ok r" "covers (rg_end r) rs q" "rg_begin r < rg_end r"
    using Cons.prems(3) by (auto simp: range_ok_def)
  show ?case
  proof (cases "x = p")
    case True
    obtain a'' where "trim_walk x (r # rs) a = ([], a'')" "account_ok lim a'' c base"
      using trim_walk_all [OF Cons.prems(3) _ Cons.prems(2), of x] True by auto
    moreover have "content_at (r # rs) y = None" if "y < x" for y
      using content_outside [OF Cons.prems(3)] that True by blast
    moreover have "min q x = p" using covers_le [OF Cons.prems(3)] True by simp
    ultimately show ?thesis using Cons.prems(1) by (simp del: content_at.simps(2))
  next
    case False
    let ?r = "if rg_end r > x then r\<lparr>rg_end := x\<rparr> else r"
    obtain rs1 where rs': "rs' = ?r # rs1" "trim_walk x rs a = (rs1, a')"
      using Cons.prems(1,4) False cov(1) by (auto split: prod.splits)
    have r_ok: "rg_begin ?r = p" "range_ok ?r" "rg_allocated ?r = rg_allocated r"
        "rg_data ?r = rg_data r"
      using False Cons.prems(4) cov by (auto simp: range_ok_def split: option.splits)
    have acc: "account_ok lim a (c + range_charge + rg_allocated r + ranges_charge rs) base"
      using Cons.prems(2) by (simp add: algebra_simps)
    note out = content_outside [OF cov(3)]
    show ?thesis
    proof (cases "rg_end r \<le> x")
      case True
      from Cons.IH [OF rs'(2) acc cov(3) True] show ?thesis
        using True rs'(1) cov by (auto simp: algebra_simps)
    next
      case False
      then have "rs1 = []" "account_ok lim a' (c + range_charge + rg_allocated r) base"
        using trim_walk_all [OF cov(3) _ acc, of x] rs'(2) by auto
      then show ?thesis
        using False rs'(1) cov r_ok covers_le [OF cov(3)] out by (auto simp: min_def algebra_simps)
    qed
  qed
qed

section \<open>Delivered events\<close>

text \<open>
  Events tile the stream from \<open>p\<close> to \<open>q\<close>: each begins where the one before it ended, none is
  empty, a data event carries as many bytes as it spans and has no gap or end reason.
\<close>

definition event_ok :: "tcp_stream_event \<Rightarrow> bool" where
  "event_ok ev \<longleftrightarrow> ev_begin ev < ev_end ev \<and> ev_end_reason ev = None \<and>
     (case ev_kind ev of
        EventData \<Rightarrow> (\<exists>bs. ev_bytes ev = Bytes bs \<and> length bs = ev_end ev - ev_begin ev) \<and>
                     ev_captured_at_ns ev \<noteq> None \<and> ev_gap_reason ev = None
      | EventGap \<Rightarrow> ev_gap_reason ev \<noteq> None
      | EventEnd \<Rightarrow> False)"

fun tiles :: "nat \<Rightarrow> tcp_stream_event list \<Rightarrow> nat \<Rightarrow> bool" where
  "tiles p [] q \<longleftrightarrow> p = q"
| "tiles p (ev # evs) q \<longleftrightarrow> ev_begin ev = p \<and> event_ok ev \<and> tiles (ev_end ev) evs q"

lemma tiles_append: "tiles p (evs @ evs') q \<longleftrightarrow> (\<exists>m. tiles p evs m \<and> tiles m evs' q)"
  by (induction evs arbitrary: p) auto

lemma tiles_le: "tiles p evs q \<Longrightarrow> p \<le> q"
  by (induction evs arbitrary: p) (fastforce simp: event_ok_def)+

text \<open>The byte that the events deliver for a stream position, if any.\<close>

fun delivered_at :: "tcp_stream_event list \<Rightarrow> nat \<Rightarrow> u8 option" where
  "delivered_at [] x = None"
| "delivered_at (ev # evs) x =
     (if ev_begin ev \<le> x \<and> x < ev_end ev
      then map_option (\<lambda>bs. bs ! (x - ev_begin ev)) (span_data (ev_bytes ev))
      else delivered_at evs x)"

lemma delivered_outside:
  "tiles p evs q \<Longrightarrow> x < p \<or> q \<le> x \<Longrightarrow> delivered_at evs x = None"
proof (induction evs arbitrary: p)
  case (Cons ev evs)
  then have "p < ev_end ev" "ev_end ev \<le> q" using tiles_le [of "ev_end ev" evs q]
    by (auto simp: event_ok_def)
  with Cons show ?case by auto
qed simp

lemma delivered_append:
  "tiles p evs m \<Longrightarrow> delivered_at (evs @ evs') x =
     (if p \<le> x \<and> x < m then delivered_at evs x else delivered_at evs' x)"
  by (induction evs arbitrary: p) (fastforce simp: event_ok_def dest: tiles_le)+

definition log_moved :: "stream_log \<Rightarrow> nat" where
  "log_moved log = sum_list (map snd log)"

lemma log_moved_simps [simp]:
  "log_moved [] = 0" "log_moved (x # xs) = snd x + log_moved xs"
  "log_moved (xs @ ys) = log_moved xs + log_moved ys"
  by (simp_all add: log_moved_def)

text \<open>
  The outcome of draining the ranges \<open>rs\<close>, which cover the stream from \<open>p\<close> to \<open>q\<close>: the events
  tile what was published, the remaining ranges cover the rest, both carry the old contents, and
  nothing else of the state changed.
\<close>

definition drained ::
  "nat \<Rightarrow> nat \<Rightarrow> nat \<Rightarrow> nat \<Rightarrow> nat \<Rightarrow> stream_range list \<Rightarrow> stream_direction \<Rightarrow> stream_log
    \<Rightarrow> stream_direction \<Rightarrow> stream_log \<Rightarrow> bool" where
  "drained lim c base p q rs d log d' log' \<longleftrightarrow>
     (\<exists>evs. log' = log @ evs \<and> tiles p (map fst evs) (sd_published d') \<and>
        covers (sd_published d') (sd_ranges d') q \<and>
        account_ok lim (sd_account d') (c + ranges_charge (sd_ranges d')) (base + log_moved evs) \<and>
        d' = d\<lparr>sd_account := sd_account d', sd_ranges := sd_ranges d',
               sd_published := sd_published d'\<rparr> \<and>
        (\<forall>x < sd_published d'. delivered_at (map fst evs) x = content_at rs x) \<and>
        (\<forall>x \<ge> sd_published d'. content_at (sd_ranges d') x = content_at rs x))"

lemma drained_stop:
  assumes "account_ok lim (sd_account d) (c + ranges_charge rs) base" "covers p rs q"
    "sd_published d = p"
  shows "drained lim c base p q rs d log (d\<lparr>sd_ranges := rs\<rparr>) log"
  using assms content_outside [OF assms(2)] by (auto simp: drained_def)

lemma drained_step:
  assumes rest: "drained lim c (base + m) (rg_end r) q rs
      (d\<lparr>sd_account := a, sd_published := rg_end r\<rparr>) (log @ [(ev, m)]) d' log'"
    and r: "covers p (r # rs) q"
    and ev: "ev_begin ev = rg_begin r" "ev_end ev = rg_end r" "event_ok ev"
      "\<And>x. rg_begin r \<le> x \<Longrightarrow> x < rg_end r \<Longrightarrow> map_option (\<lambda>bs. bs ! (x - rg_begin r)) (span_data (ev_bytes ev))
        = map_option (\<lambda>bs. bs ! (x - rg_begin r)) (rg_data r)"
  shows "drained lim c base p q (r # rs) d log d' log'"
proof -
  from rest obtain evs where evs: "log' = log @ (ev, m) # evs"
      "tiles (rg_end r) (map fst evs) (sd_published d')"
      "covers (sd_published d') (sd_ranges d') q"
      "account_ok lim (sd_account d') (c + ranges_charge (sd_ranges d')) (base + m + log_moved evs)"
      "d' = d\<lparr>sd_account := sd_account d', sd_ranges := sd_ranges d', sd_published := sd_published d'\<rparr>"
      "\<forall>x < sd_published d'. delivered_at (map fst evs) x = content_at rs x"
      "\<forall>x \<ge> sd_published d'. content_at (sd_ranges d') x = content_at rs x"
    by (auto simp: drained_def)
  have lt: "rg_begin r < rg_end r" "rg_begin r = p" using r by (auto simp: range_ok_def)
  have le: "rg_end r \<le> sd_published d'" using tiles_le [OF evs(2)] .
  show ?thesis
    unfolding drained_def
  proof (intro exI [of _ "(ev, m) # evs"] conjI)
    show "\<forall>x < sd_published d'. delivered_at (map fst ((ev, m) # evs)) x = content_at (r # rs) x"
      using evs(6) ev lt by auto
    show "\<forall>x \<ge> sd_published d'. content_at (sd_ranges d') x = content_at (r # rs) x"
      using evs(7) le by auto
  qed (use evs ev lt in \<open>auto simp: add.assoc\<close>)
qed

definition waiting :: "int option \<Rightarrow> stream_range list \<Rightarrow> bool" where
  "waiting w rs \<longleftrightarrow> rs = [] \<or> (rg_data (hd rs) = None \<and>
     (case w of None \<Rightarrow> True | Some t \<Rightarrow> t < rg_timestamp_ns (hd rs)))"

lemma data_event_ok:
  assumes "rg_data r = Some bytes" "range_ok r"
  shows "ev_begin (data_event r bytes) = rg_begin r" "ev_end (data_event r bytes) = rg_end r"
    "event_ok (data_event r bytes)"
    "rg_begin r \<le> x \<Longrightarrow> x < rg_end r \<Longrightarrow>
      map_option (\<lambda>bs. bs ! (x - rg_begin r)) (span_data (ev_bytes (data_event r bytes)))
        = map_option (\<lambda>bs. bs ! (x - rg_begin r)) (rg_data r)"
  using assms by (auto simp: data_event_def default_event_def event_ok_def range_ok_def)

lemma gap_event_ok:
  assumes "rg_data r = None" "range_ok r"
  shows "ev_begin (gap_event forced r) = rg_begin r" "ev_end (gap_event forced r) = rg_end r"
    "event_ok (gap_event forced r)"
    "map_option (\<lambda>bs. bs ! (x - rg_begin r)) (span_data (ev_bytes (gap_event forced r)))
        = map_option (\<lambda>bs. bs ! (x - rg_begin r)) (rg_data r)"
  using assms by (auto simp: gap_event_def default_event_def event_ok_def range_ok_def)

lemma account_ok_take:
  assumes "account_ok lim a (c + (range_charge + n + m)) base"
  shows "account_ok lim (release_bytes (range_charge + (n - (if taken then n else 0)))
      (a\<lparr>acct_tracked := acct_tracked a - (if taken then n else 0)\<rparr>)) (c + m)
      (base + (if taken then n else 0))"
proof (cases taken)
  case True
  have "account_ok lim a (c + m + range_charge + n) base"
    using assms by (simp add: ac_simps)
  from release_bytes_ok [OF account_ok_move [OF this]] show ?thesis
    using True by (simp add: algebra_simps)
next
  case False
  have "account_ok lim a (c + m + (range_charge + n)) base"
    using assms by (simp add: ac_simps)
  from release_bytes_ok [OF this] show ?thesis using False by simp
qed

lemma drain_walk_spec:
  assumes "drain_walk forced sink rs d log = (res, d', log')"
    "account_ok lim (sd_account d) (c + ranges_charge rs) base" "covers p rs q"
    "sd_published d = p"
  shows "drained lim c base p q rs d log d' log' \<and> (\<forall>e. res = Inl e \<longrightarrow> e = SinkError) \<and>
    (res = Inr () \<longrightarrow> (forced \<longrightarrow> sd_ranges d' = []) \<and> waiting (sd_watermark d) (sd_ranges d'))"
  using assms
proof (induction forced sink rs d log arbitrary: p base rule: drain_walk.induct)
  case (1 forced sink d log)
  then show ?case using drained_stop [of lim d c "[]" base p q log] by (auto simp: waiting_def)
next
  case (2 forced sink r rs d log)
  note stop = drained_stop [OF "2.prems"(2-4), of log]
  have cov: "rg_begin r = p" "range_ok r" "covers (rg_end r) rs q"
    using "2.prems"(3) by auto
  show ?case
  proof (cases "rg_data r")
    case (Some bytes)
    obtain accepted taken where sink: "sink log (data_event r bytes) = (accepted, taken)"
      by fastforce
    show ?thesis
    proof (cases accepted)
      case False
      with "2.prems"(1) Some sink stop show ?thesis by (auto simp: Let_def)
    next
      case True
      define m where "m = (if taken then rg_allocated r else 0)"
      define a where "a = release_bytes (range_charge + (rg_allocated r - m))
          ((sd_account d)\<lparr>acct_tracked := acct_tracked (sd_account d) - m\<rparr>)"
      have a: "account_ok lim a (c + ranges_charge rs) (base + m)"
        unfolding a_def m_def by (rule account_ok_take) (use "2.prems"(2) in simp)
      have walk: "drain_walk forced sink rs (d\<lparr>sd_account := a, sd_published := rg_end r\<rparr>)
          (log @ [(data_event r bytes, m)]) = (res, d', log')"
        using "2.prems"(1) Some sink True by (simp add: Let_def m_def a_def)
      have "drained lim c (base + m) (rg_end r) q rs (d\<lparr>sd_account := a, sd_published := rg_end r\<rparr>)
            (log @ [(data_event r bytes, m)]) d' log' \<and> (\<forall>e. res = Inl e \<longrightarrow> e = SinkError) \<and>
          (res = Inr () \<longrightarrow> (forced \<longrightarrow> sd_ranges d' = []) \<and> waiting (sd_watermark d) (sd_ranges d'))"
        using "2.IH"(2) [OF Some refl refl sink [symmetric] _ refl m_def refl refl, of "base + m" "rg_end r"]
          True walk a cov(3) by (simp add: a_def)
      with drained_step [OF _ "2.prems"(3) data_event_ok [OF Some cov(2)]] show ?thesis by blast
    qed
  next
    case None
    show ?thesis
    proof (cases "\<not> forced \<and> (case sd_watermark d of None \<Rightarrow> True | Some w \<Rightarrow> w < rg_timestamp_ns r)")
      case True
      with "2.prems"(1) None stop show ?thesis by (auto simp: waiting_def cong: option.case_cong)
    next
      case due: False
      show ?thesis
      proof (cases "fst (sink log (gap_event forced r))")
        case False
        with "2.prems"(1) None due stop show ?thesis by (auto simp: sd_emit_def)
      next
        case True
        define a where "a = release_bytes (range_charge + rg_allocated r) (sd_account d)"
        have a: "account_ok lim a (c + ranges_charge rs) base"
          using "2.prems"(2) by (auto simp: a_def ac_simps intro!: release_bytes_ok)
        have emit: "sd_emit sink (gap_event forced r) d log =
            (Inr (), d\<lparr>sd_published := rg_end r\<rparr>, log @ [(gap_event forced r, 0)])"
          using True None cov(2) by (simp add: sd_emit_def gap_event_ok)
        have walk: "drain_walk forced sink rs (d\<lparr>sd_published := rg_end r, sd_account := a\<rparr>)
            (log @ [(gap_event forced r, 0)]) = (res, d', log')"
          using "2.prems"(1) None due emit by (simp add: a_def split: option.splits)
        have comm: "d\<lparr>sd_published := rg_end r, sd_account := a\<rparr> =
            d\<lparr>sd_account := a, sd_published := rg_end r\<rparr>" by simp
        have "drained lim c (base + 0) (rg_end r) q rs (d\<lparr>sd_account := a, sd_published := rg_end r\<rparr>)
              (log @ [(gap_event forced r, 0)]) d' log' \<and> (\<forall>e. res = Inl e \<longrightarrow> e = SinkError) \<and>
            (res = Inr () \<longrightarrow> (forced \<longrightarrow> sd_ranges d' = []) \<and> waiting (sd_watermark d) (sd_ranges d'))"
          using "2.IH"(1) [OF None due emit [symmetric] refl refl, of base "rg_end r"]
            walk a cov(3) by (simp add: comm a_def [symmetric])
        with drained_step [OF _ "2.prems"(3) gap_event_ok [OF None cov(2)]] show ?thesis by blast
      qed
    qed
  qed
qed

section \<open>The invariant\<close>

text \<open>What the direction knows of a byte: already delivered, or still buffered.\<close>

definition known :: "stream_direction \<Rightarrow> stream_log \<Rightarrow> nat \<Rightarrow> u8 option" where
  "known d log x =
     (if x < sd_published d then delivered_at (map fst log) x else content_at (sd_ranges d) x)"

text \<open>
  \<open>own\<close> bytes are charged for the object itself, \<open>base\<close> bytes of the ledger belong to others;
  payloads handed over to the sink stay charged, on the sink's side.
\<close>

definition live_inv :: "nat \<Rightarrow> nat \<Rightarrow> nat \<Rightarrow> stream_direction \<Rightarrow> stream_log \<Rightarrow> bool" where
  "live_inv lim own base d log \<longleftrightarrow> sd_error d = StreamNone \<and> \<not> sd_ended d \<and>
     tiles 0 (map fst log) (sd_published d) \<and>
     covers (sd_published d) (sd_ranges d) (sd_extent d) \<and>
     account_ok lim (sd_account d) (own + ranges_charge (sd_ranges d)) (base + log_moved log) \<and>
     sd_extent d \<le> sd_progress d \<and> (\<forall>f. sd_fin d = Some f \<longrightarrow> sd_extent d \<le> f)"

definition settled :: "stream_direction \<Rightarrow> bool" where
  "settled d \<longleftrightarrow> waiting (sd_watermark d) (sd_ranges d) \<and> sd_fin d \<noteq> Some (sd_published d)"

definition end_inv :: "nat \<Rightarrow> nat \<Rightarrow> stream_direction \<Rightarrow> stream_log \<Rightarrow> bool" where
  "end_inv lim base d log \<longleftrightarrow> sd_error d = StreamNone \<and> sd_ended d \<and> sd_ranges d = [] \<and>
     (\<exists>evs reason session_reason.
        log = evs @ [(end_event (sd_published d) reason session_reason, 0)] \<and>
        tiles 0 (map fst evs) (sd_published d)) \<and>
     account_ok lim (sd_account d) (acct_tracked (sd_account d)) (base + log_moved log)"

definition broken :: "nat \<Rightarrow> nat \<Rightarrow> stream_direction \<Rightarrow> stream_log \<Rightarrow> bool" where
  "broken lim base d log \<longleftrightarrow> \<not> sd_ended d \<and> tiles 0 (map fst log) (sd_published d) \<and>
     (\<exists>c. account_ok lim (sd_account d) c (base + log_moved log))"

definition brk :: "nat \<Rightarrow> nat \<Rightarrow> stream_direction \<times> stream_log \<Rightarrow> bool" where
  "brk lim base s \<longleftrightarrow> broken lim base (fst s) (snd s)"

definition fail_inv :: "nat \<Rightarrow> nat \<Rightarrow> stream_direction \<Rightarrow> stream_log \<Rightarrow> bool" where
  "fail_inv lim base d log \<longleftrightarrow> sd_error d \<noteq> StreamNone \<and> sd_ranges d = [] \<and>
     \<not> sd_ended d \<and> tiles 0 (map fst log) (sd_published d) \<and>
     account_ok lim (sd_account d) 0 (base + log_moved log)"

definition stream_inv :: "nat \<Rightarrow> nat \<Rightarrow> nat \<Rightarrow> stream_direction \<Rightarrow> stream_log \<Rightarrow> bool" where
  "stream_inv lim own base d log \<longleftrightarrow>
     live_inv lim own base d log \<and> settled d \<or> end_inv lim base d log \<or> fail_inv lim base d log"

lemma live_broken: "live_inv lim own base d log \<Longrightarrow> broken lim base d log"
  by (auto simp: live_inv_def broken_def)

lemma clear_account:
  "account_ok lim a c base \<Longrightarrow> account_ok lim (release_bytes (acct_tracked a) a) 0 base"
  using release_bytes_ok [of lim a 0 c base] by (auto simp: account_ok_def)

lemma sd_fail_inv: "broken lim base d log \<Longrightarrow> e \<noteq> StreamNone \<Longrightarrow> fail_inv lim base (sd_fail e d) log"
  by (auto simp: broken_def fail_inv_def sd_fail_def sd_clear_def intro: clear_account)

section \<open>Draining and finishing\<close>

text \<open>\<open>keeps d d'\<close>: the same origin, end and watermark.\<close>

definition keeps :: "stream_direction \<Rightarrow> stream_direction \<Rightarrow> bool" where
  "keeps d d' \<longleftrightarrow> sd_fin d' = sd_fin d \<and> sd_base_sequence d' = sd_base_sequence d \<and>
     sd_watermark d' = sd_watermark d"

lemma drain_post:
  assumes live: "live_inv lim own base d log"
    and Q: "\<And>d' log'. live_inv lim own base d' log' \<Longrightarrow> waiting (sd_watermark d') (sd_ranges d') \<Longrightarrow>
      (forced \<Longrightarrow> sd_ranges d' = []) \<Longrightarrow> keeps d d' \<Longrightarrow> sd_extent d' = sd_extent d \<Longrightarrow> (\<And>x. known d' log' x = known d log x) \<Longrightarrow>
      Q () (d', log')"
  shows "post (sd_drain forced sink d log) (brk lim base) Q"
proof -
  obtain res d' log' where r: "sd_drain forced sink d log = (res, d', log')"
    by (metis prod.exhaust)
  let ?p = "sd_published d"
  have l: "sd_error d = StreamNone" "\<not> sd_ended d" "tiles 0 (map fst log) ?p"
    "covers ?p (sd_ranges d) (sd_extent d)"
    "account_ok lim (sd_account d) (own + ranges_charge (sd_ranges d)) (base + log_moved log)"
    using live by (auto simp: live_inv_def)
  note spec = drain_walk_spec [OF r [unfolded sd_drain_def] l(5,4) refl]
  from spec obtain evs where evs: "log' = log @ evs" "tiles ?p (map fst evs) (sd_published d')"
    "covers (sd_published d') (sd_ranges d') (sd_extent d)"
    "account_ok lim (sd_account d') (own + ranges_charge (sd_ranges d'))
       (base + log_moved log + log_moved evs)"
    and d': "d' = d\<lparr>sd_account := sd_account d', sd_ranges := sd_ranges d',
        sd_published := sd_published d'\<rparr>"
    and content: "\<forall>x < sd_published d'. delivered_at (map fst evs) x = content_at (sd_ranges d) x"
        "\<forall>x \<ge> sd_published d'. content_at (sd_ranges d') x = content_at (sd_ranges d) x"
    unfolding drained_def by blast
  have same: "sd_error d' = sd_error d" "sd_ended d' = sd_ended d" "sd_extent d' = sd_extent d"
    "sd_progress d' = sd_progress d" "sd_fin d' = sd_fin d" "sd_watermark d' = sd_watermark d"
    "sd_base_sequence d' = sd_base_sequence d"
    by (subst d', simp)+
  have live': "live_inv lim own base d' log'"
    using live evs l by (auto simp: live_inv_def same tiles_append add.assoc)
  have "known d' log' x = known d log x" for x
    using content tiles_le [OF evs(2)] delivered_append [OF l(3), of "map fst evs" x]
      delivered_outside [OF l(3), of x]
    by (auto simp: known_def evs(1))
  then show ?thesis
    using spec live' Q [OF live'] live_broken [OF live']
    by (cases res) (auto simp: r same keeps_def brk_def)
qed

lemma finish_post:
  assumes live: "live_inv lim own base d log"
    and Q: "\<And>d' log'. end_inv lim base d' log' \<Longrightarrow> keeps d d' \<Longrightarrow> sd_published d' = sd_extent d \<Longrightarrow>
      (\<And>x. known d' log' x = known d log x) \<Longrightarrow> Q () (d', log')"
  shows "post (sd_finish reason session_reason sink d log) (brk lim base) Q"
  unfolding sd_finish_def post_bind
proof (rule drain_post [OF live])
  fix d1 log1
  assume d1: "live_inv lim own base d1 log1" "True \<Longrightarrow> sd_ranges d1 = []" "keeps d d1"
      "sd_extent d1 = sd_extent d"
    and k: "\<And>x. known d1 log1 x = known d log x"
  let ?ev = "end_event (sd_published d1) reason session_reason"
  let ?d2 = "d1\<lparr>sd_published := sd_published d1, sd_ended := True\<rparr>"
  have ev: "ev_end ?ev = sd_published d1" by (simp add: end_event_def default_event_def)
  have t: "tiles 0 (map fst log1) (sd_published d1)" using d1(1) by (simp add: live_inv_def)
  have "end_inv lim base ?d2 (log1 @ [(?ev, 0)])"
    using d1 by (auto simp: end_inv_def live_inv_def account_ok_def)
  moreover have "keeps d ?d2" using d1(3) by (simp add: keeps_def)
  moreover have "sd_published ?d2 = sd_extent d" using d1 by (simp add: live_inv_def)
  moreover have "known ?d2 (log1 @ [(?ev, 0)]) x = known d log x" for x
    unfolding k [of x, symmetric] using delivered_append [OF t, of "[?ev]" x]
    by (simp add: known_def)
  ultimately have "Q () (?d2, log1 @ [(?ev, 0)])" by (rule Q)
  then show "post ((case (d1, log1) of (d1, log1) \<Rightarrow>
      bind_step (sd_emit sink (end_event (sd_published d1) reason session_reason) d1 log1)
       (\<lambda>_ (d2, log2). (Inr (), d2\<lparr>sd_ended := True\<rparr>, log2)))) (brk lim base) Q"
    using live_broken [OF d1(1)] by (simp add: sd_emit_def ev brk_def)
qed

lemma finish_if_fin_post:
  assumes live: "live_inv lim own base d log" "waiting (sd_watermark d) (sd_ranges d)"
    and Q: "\<And>d' log'. live_inv lim own base d' log' \<and> settled d' \<or> end_inv lim base d' log' \<Longrightarrow>
      keeps d d' \<Longrightarrow> (\<And>x. known d' log' x = known d log x) \<Longrightarrow> Q () (d', log')"
  shows "post (finish_if_fin sink d log) (brk lim base) Q"
proof (cases "sd_fin d \<noteq> None \<and> Some (sd_published d) = sd_fin d")
  case True
  then show ?thesis
    using finish_post [OF live(1), of Q] Q by (simp add: finish_if_fin_def)
next
  case False
  with live have "Q () (d, log)" by (intro Q) (auto simp: settled_def keeps_def)
  with False show ?thesis by (auto simp: finish_if_fin_def)
qed

end
