(* ===== verification/TcpStreamSafety.thy ===== *)
theory TcpStreamSafety
  imports TcpStreamProps
begin

text \<open>
  The entry points of the stream direction keep the invariant of \<open>TcpStreamProps\<close>, and the
  properties that follow: sequence numbers, accounting, tiling, first capture wins, provenance
  of every byte, watermark progress.
\<close>

section \<open>Sequence numbers\<close>

lemma u32_cases:
  fixes w :: u32
  obtains n where "w = word_of_nat n" "n < 4294967296" "unat w = n" "uint w = int n"
proof (rule that [of "unat w"])
  show "unat w < 4294967296" using unsigned_less [of w] by simp
qed simp_all

lemma sint_u32: "sint w = (if unat w < 2147483648 then int (unat w) else int (unat w) - 4294967296)"
  for w :: u32
proof -
  obtain n where n: "n < 4294967296" "unat w = n" "uint w = int n" by (rule u32_cases [of w])
  have "sint w = signed_take_bit 31 (int n)"
    by (simp add: sint_uint n)
  then have "sint w = (int n + 2147483648) mod 4294967296 - 2147483648"
    by (simp add: signed_take_bit_eq_take_bit_shift take_bit_eq_mod)
  moreover have "(int n + 2147483648) mod 4294967296 =
      (if n < 2147483648 then int n + 2147483648 else int n - 2147483648)"
    using mod_add_self2 [of "int n - 2147483648" 4294967296] n(1) by (auto simp: add.commute)
  ultimately show ?thesis unfolding n(2) by simp
qed

lemma unat_neg_u32: "unat (0 - w) = (if w = 0 then 0 else 4294967296 - unat w)" for w :: u32
proof -
  obtain n where n: "n < 4294967296" "unat w = n" "uint w = int n" by (rule u32_cases [of w])
  then have zero: "w = 0 \<longleftrightarrow> n = 0" by (metis unat_0 unat_eq_zero)
  have "uint (0 - w) = (0 - int n) mod 4294967296"
    using n(3) by (simp add: uint_word_ariths)
  then have "unat (0 - w) = nat ((0 - int n) mod 4294967296)"
    by (simp only: nat_uint_eq [symmetric])
  moreover have "(0 - int n) mod 4294967296 = (if n = 0 then 0 else 4294967296 - int n)"
    using n(1) mod_pos_pos_trivial [of "int n" 4294967296] by (simp add: zmod_zminus1_eq_if)
  ultimately show ?thesis
    unfolding zero n(2) using n(1) by (simp add: nat_diff_distrib split: if_splits)
qed

text \<open>The signed distance from the most advanced byte seen decides.\<close>

lemma map_sequence_eq:
  "map_sequence d s =
     (let k = sint (s - (sd_base_sequence d + of_nat (sd_progress d)));
          x = int (sd_progress d) + k in
      if k = - 2147483648 \<or> k \<ge> 0 \<and> x > int u64_max then None else Some (nat x, nat (- x)))"
proof -
  define w where "w = s - (sd_base_sequence d + of_nat (sd_progress d))"
  obtain n where n: "w = word_of_nat n" "n < 4294967296" "unat w = n" by (rule u32_cases [of w])
  have half: "w = 0x80000000 \<longleftrightarrow> n = 2147483648" "w = 0 \<longleftrightarrow> n = 0"
    using n(3) by (auto simp: word_unat_eq_iff)
  have less: "w < 0x80000000 \<longleftrightarrow> n < 2147483648"
    using n(3) by (simp add: word_less_nat_alt)
  consider "n = 2147483648" | "n < 2147483648" | "2147483648 < n" by linarith
  then show ?thesis
    unfolding map_sequence_def w_def [symmetric] Let_def sint_u32 unat_neg_u32 half less n(3)
  proof cases
    case 2
    then have "sd_progress d > u64_max - n \<longleftrightarrow> int (sd_progress d) + int n > int u64_max"
      unfolding u64_max_def by linarith
    with 2 show "(if n = 2147483648 then None
      else if n < 2147483648 then
        if u64_max - n < sd_progress d then None else Some (sd_progress d + n, 0)
      else if sd_progress d < (if n = 0 then 0 else 4294967296 - n)
           then Some (0, (if n = 0 then 0 else 4294967296 - n) - sd_progress d)
           else Some (sd_progress d - (if n = 0 then 0 else 4294967296 - n), 0)) =
      (if (if n < 2147483648 then int n else int n - 4294967296) = - 2147483648 \<or>
         0 \<le> (if n < 2147483648 then int n else int n - 4294967296) \<and>
         int u64_max < int (sd_progress d) + (if n < 2147483648 then int n else int n - 4294967296)
       then None
       else Some (nat (int (sd_progress d) + (if n < 2147483648 then int n else int n - 4294967296)),
         nat (- (int (sd_progress d) + (if n < 2147483648 then int n else int n - 4294967296)))))"
      by (simp add: nat_add_distrib)
  qed (use n(2) in auto)
qed

section \<open>Ingest\<close>

text \<open>
  How one packet whose payload \<open>bs\<close> starts at sequence number \<open>s\<close> may change what is known:
  nothing below the end of the stream is forgotten or altered, and every new byte is the payload
  byte with the sequence number of its position.
\<close>

definition evolves ::
  "u32 \<Rightarrow> u8 list \<Rightarrow> stream_direction \<times> stream_log \<Rightarrow> stream_direction \<times> stream_log \<Rightarrow> bool" where
  "evolves s bs before after \<longleftrightarrow> (case before of (d, log) \<Rightarrow> case after of (d', log') \<Rightarrow>
     (\<forall>f. sd_fin d = Some f \<longrightarrow> sd_fin d' = Some f) \<and> sd_base_sequence d' = sd_base_sequence d \<and>
     (\<forall>x v. known d log x = Some v \<longrightarrow> (\<forall>f. sd_fin d' = Some f \<longrightarrow> x < f) \<longrightarrow>
        known d' log' x = Some v) \<and>
     (\<forall>x v. known d' log' x = Some v \<longrightarrow> known d log x = Some v \<or>
        (\<exists>i < length bs. v = bs ! i \<and> sd_base_sequence d' + of_nat x = s + of_nat i)))"

lemma evolves_trans: "evolves s bs p q \<Longrightarrow> evolves s bs q r \<Longrightarrow> evolves s bs p r"
  unfolding evolves_def by (simp split: prod.splits) metis

lemma evolves_same:
  "keeps d d' \<Longrightarrow> (\<And>x. known d' log' x = known d log x) \<Longrightarrow> evolves s bs (d, log) (d', log')"
  by (auto simp: evolves_def keeps_def)

lemma evolves_refl: "evolves s bs p p"
  by (auto simp: evolves_def split: prod.splits)

lemma trim_at_fin_live:
  assumes live: "live_inv lim own base d log" and pos: "sd_published d \<le> x" and none: "sd_fin d = None"
  shows "live_inv lim own base (trim_at_fin x (d\<lparr>sd_fin := Some x\<rparr>)) log \<and>
    evolves s bs (d, log) (trim_at_fin x (d\<lparr>sd_fin := Some x\<rparr>), log) \<and>
    sd_published (trim_at_fin x (d\<lparr>sd_fin := Some x\<rparr>)) = sd_published d \<and>
    sd_fin (trim_at_fin x (d\<lparr>sd_fin := Some x\<rparr>)) = Some x"
proof -
  obtain rs a where t: "trim_walk x (sd_ranges d) (sd_account d) = (rs, a)" by fastforce
  have l: "covers (sd_published d) (sd_ranges d) (sd_extent d)"
    "account_ok lim (sd_account d) (own + ranges_charge (sd_ranges d)) (base + log_moved log)"
    using live by (auto simp: live_inv_def)
  from trim_walk_spec [OF t l(2,1) pos]
  have "account_ok lim a (own + ranges_charge rs) (base + log_moved log)"
    "covers (sd_published d) rs (min (sd_extent d) x)"
    "\<And>y. content_at rs y = (if y < x then content_at (sd_ranges d) y else None)"
    by auto
  with live pos none t show ?thesis
    by (auto simp: trim_at_fin_def live_inv_def evolves_def known_def split: if_splits)
qed

lemma post_run:
  "post (case m of (Inl err, a) \<Rightarrow> (Inl err, f a) | (Inr r, a) \<Rightarrow> (Inr (), g r a)) P Q =
     post m (\<lambda>a. P (f a)) (\<lambda>r a. Q () (g r a))"
  by (auto simp: post_def split: prod.split sum.split)

lemma post_ifI:
  "(b \<Longrightarrow> post r P Q) \<Longrightarrow> (\<not> b \<Longrightarrow> post r' P Q) \<Longrightarrow> post (if b then r else r') P Q"
  by simp

lemma post_option_pairI:
  "(m = None \<Longrightarrow> post r P Q) \<Longrightarrow> (\<And>x y. m = Some (x, y) \<Longrightarrow> post (f x y) P Q) \<Longrightarrow>
     post (case m of None \<Rightarrow> r | Some (x, y) \<Rightarrow> f x y) P Q"
  by (simp split: option.split prod.split)

text \<open>A new range at the end of the list leaves what is known as it was.\<close>

lemma content_append:
  "covers p rs q \<Longrightarrow> rg_data r = None \<Longrightarrow> rg_begin r = q \<Longrightarrow> content_at (rs @ [r]) x = content_at rs x"
  by (induction rs arbitrary: p) auto

lemma extend_post:
  assumes live: "live_inv lim own base d log" and fin: "\<And>f. sd_fin d = Some f \<Longrightarrow> e \<le> f"
    and Q: "\<And>d'. live_inv lim own base (d'\<lparr>sd_progress := max (sd_progress d') e\<rparr>) log \<Longrightarrow>
      e \<le> sd_extent d' \<Longrightarrow> sd_published d' = sd_published d \<Longrightarrow> sd_fin d' = sd_fin d \<Longrightarrow>
      evolves s bs (d, log) (d', log) \<Longrightarrow> Q () (d', log)"
  shows "post (extend_stream e t d log) (brk lim base) Q"
proof (cases "e > sd_extent d")
  case True
  have l: "covers (sd_published d) (sd_ranges d) (sd_extent d)"
    "account_ok lim (sd_account d) (own + ranges_charge (sd_ranges d)) (base + log_moved log)"
    using live by (auto simp: live_inv_def)
  let ?r = "\<lparr>rg_begin = sd_extent d, rg_end = e, rg_timestamp_ns = t, rg_truncated = False,
      rg_allocated = 0, rg_data = None\<rparr>"
  have "post (reserve_bytes range_charge (sd_account d)) (\<lambda>a. brk lim base (d\<lparr>sd_account := a\<rparr>, log))
      (\<lambda>_ a. Q () (d\<lparr>sd_account := a, sd_ranges := sd_ranges d @ [?r], sd_extent := e\<rparr>, log))"
  proof (rule reserve_bytes_post [OF l(2)])
    fix a
    assume a: "account_ok lim a (own + ranges_charge (sd_ranges d) + range_charge) (base + log_moved log)"
    let ?d = "d\<lparr>sd_account := a, sd_ranges := sd_ranges d @ [?r], sd_extent := e\<rparr>"
    have "evolves s bs (d, log) (?d, log)"
      by (rule evolves_same) (auto simp: keeps_def known_def content_append [OF l(1)])
    then show "Q () (?d, log)"
      using live fin a l(1) True
      by (intro Q) (auto simp: live_inv_def covers_append range_ok_def ac_simps)
  qed (use live in \<open>auto simp: brk_def broken_def live_inv_def\<close>)
  with True show ?thesis by (simp add: extend_stream_def post_run add_gap_def)
next
  case False
  with live have "Q () (d, log)" by (intro Q) (auto simp: live_inv_def evolves_refl)
  with False show ?thesis by (simp add: extend_stream_def)
qed

text \<open>Filling the gaps that the captured bytes reach.\<close>

lemma fill_post:
  assumes live: "live_inv lim own base d log"
    and b: "sd_published d \<le> b" "b < e \<Longrightarrow> k + (e - b) \<le> length bs"
      "sd_base_sequence d + of_nat b = s + of_nat k"
    and Q: "\<And>d'. live_inv lim own base d' log \<Longrightarrow> sd_published d' = sd_published d \<Longrightarrow>
      sd_fin d' = sd_fin d \<Longrightarrow> sd_extent d' = sd_extent d \<Longrightarrow>
      evolves s bs (d, log) (d', log) \<Longrightarrow> Q () (d', log)"
  shows "post (store_payload b e (drop k bs) t d log) (brk lim base) Q"
proof (cases "b < e")
  case True
  have l: "covers (sd_published d) (sd_ranges d) (sd_extent d)"
    "account_ok lim (sd_account d) (own + ranges_charge (sd_ranges d)) (base + log_moved log)"
    using live by (auto simp: live_inv_def)
  have "post (fill_walk b e (drop k bs) t (sd_ranges d) (sd_account d))
      (\<lambda>a. brk lim base (d\<lparr>sd_account := a\<rparr>, log))
      (\<lambda>rs a. Q () (d\<lparr>sd_account := a, sd_ranges := rs\<rparr>, log))"
  proof (rule fill_walk_post [OF l(2,1) True])
    fix rs a
    assume r: "account_ok lim a (own + ranges_charge rs) (base + log_moved log)"
      "covers (sd_published d) rs (sd_extent d)"
      "\<And>x. content_at rs x = filled b e (drop k bs) (sd_published d) (sd_extent d) (sd_ranges d) x"
    let ?d = "d\<lparr>sd_account := a, sd_ranges := rs\<rparr>"
    have new: "\<exists>i < length bs. drop k bs ! (x - b) = bs ! i \<and> sd_base_sequence d + of_nat x = s + of_nat i"
      if "b \<le> x" "x < e" for x
    proof (intro exI [of _ "k + (x - b)"] conjI)
      show "sd_base_sequence d + of_nat x = s + of_nat (k + (x - b))"
        using b(3) that(1) by (simp add: of_nat_diff algebra_simps)
    qed (use that b(2) [OF True] in \<open>auto simp: add.commute\<close>)
    have "evolves s bs (d, log) (?d, log)"
      using new by (auto simp: evolves_def known_def r(3) filled_def split: option.splits if_splits)
    then show "Q () (?d, log)"
      using live r by (intro Q) (auto simp: live_inv_def)
  qed (use live b(2) [OF True] in \<open>auto simp: brk_def broken_def live_inv_def\<close>)
  with True show ?thesis by (simp add: store_payload_def post_run)
next
  case False
  with live have "Q () (d, log)" by (intro Q) (auto simp: evolves_refl)
  with False show ?thesis by (simp add: store_payload_def)
qed

text \<open>Marking the part that was on the wire but not captured.\<close>

lemma mark_none:
  "covers p rs q \<Longrightarrow> e \<le> p \<or> q \<le> b \<Longrightarrow> mark_truncated_walk b e rs a = (Inr rs, a)"
proof (induction rs arbitrary: p a)
  case (Cons r rs)
  then have "rg_end r \<le> q" using covers_le [of "rg_end r" rs q] by simp
  with Cons show ?case by (auto simp: bind_step_def range_ok_def)
qed simp

lemma mark_post:
  assumes live: "live_inv lim own base d log"
    and b: "\<not> c \<Longrightarrow> b < e \<or> e \<le> sd_published d \<or> sd_extent d \<le> b"
    and Q: "\<And>d'. live_inv lim own base d' log \<Longrightarrow> evolves s bs (d, log) (d', log) \<Longrightarrow> Q () (d', log)"
  shows "post (mark_missing c b e d log) (brk lim base) Q"
proof (cases c)
  case True
  with live show ?thesis by (simp add: mark_missing_def) (intro Q, auto simp: evolves_refl)
next
  case c: False
  have l: "covers (sd_published d) (sd_ranges d) (sd_extent d)"
    "account_ok lim (sd_account d) (own + ranges_charge (sd_ranges d)) (base + log_moved log)"
    using live by (auto simp: live_inv_def)
  have stay: "Q () (d, log)" using live by (intro Q) (auto simp: evolves_refl)
  have "post (mark_truncated_walk b e (sd_ranges d) (sd_account d))
      (\<lambda>a. brk lim base (d\<lparr>sd_account := a\<rparr>, log))
      (\<lambda>rs a. Q () (d\<lparr>sd_account := a, sd_ranges := rs\<rparr>, log))"
  proof (cases "b < e")
    case True
    show ?thesis
    proof (rule mark_truncated_walk_post [OF l(2,1) True])
      fix rs a
      assume r: "account_ok lim a (own + ranges_charge rs) (base + log_moved log)"
        "covers (sd_published d) rs (sd_extent d)"
        "\<And>x. content_at rs x = content_at (sd_ranges d) x"
      have "evolves s bs (d, log) (d\<lparr>sd_account := a, sd_ranges := rs\<rparr>, log)"
        by (rule evolves_same) (auto simp: keeps_def known_def r)
      then show "Q () (d\<lparr>sd_account := a, sd_ranges := rs\<rparr>, log)"
        using live r by (intro Q) (auto simp: live_inv_def)
    qed (use live in \<open>auto simp: brk_def broken_def live_inv_def\<close>)
  next
    case False
    with b c have "e \<le> sd_published d \<or> sd_extent d \<le> b" by simp
    with stay show ?thesis by (simp add: mark_none [OF l(1)])
  qed
  with c show ?thesis by (simp add: mark_missing_def post_run)
qed

definition ingested ::
  "nat \<Rightarrow> nat \<Rightarrow> nat \<Rightarrow> u32 \<Rightarrow> u8 list \<Rightarrow> stream_direction \<times> stream_log \<Rightarrow> unit
    \<Rightarrow> stream_direction \<times> stream_log \<Rightarrow> bool" where
  "ingested lim own base s bs before u after \<longleftrightarrow>
     (case after of (d', log') \<Rightarrow>
        live_inv lim own base d' log' \<and> settled d' \<or> end_inv lim base d' log') \<and>
     evolves s bs before after"

lemma finish_ingested:
  assumes "live_inv lim own base d log" "evolves s bs before (d, log)"
  shows "post (sd_finish reason sr sink d log) (brk lim base) (ingested lim own base s bs before)"
  by (rule finish_post [OF assms(1)])
    (auto simp: ingested_def intro: evolves_trans [OF assms(2)] evolves_same)

lemma conclude_post:
  assumes "live_inv lim own base d log" "evolves s bs before (d, log)"
  shows "post (conclude_segment tcp sink d log) (brk lim base) (ingested lim own base s bs before)"
proof (cases "tf_rst tcp")
  case True
  with finish_ingested [OF assms] show ?thesis by (simp add: conclude_segment_def)
next
  case False
  have "post (sd_drain False sink d log) (brk lim base)
      (\<lambda>a p. post (finish_if_fin sink (fst p) (snd p)) (brk lim base) (ingested lim own base s bs before))"
  proof (rule drain_post [OF assms(1)])
    fix d' log'
    assume d': "live_inv lim own base d' log'" "waiting (sd_watermark d') (sd_ranges d')" "keeps d d'"
      "\<And>x. known d' log' x = known d log x"
    have "evolves s bs before (d', log')"
      by (rule evolves_trans [OF assms(2) evolves_same]) (use d' in auto)
    then have "ingested lim own base s bs before () (d2, log2)"
      if "live_inv lim own base d2 log2 \<and> settled d2 \<or> end_inv lim base d2 log2" "keeps d' d2"
        "\<And>x. known d2 log2 x = known d' log' x" for d2 log2
      using that(1) evolves_trans [OF _ evolves_same [OF that(2,3)]] by (simp add: ingested_def)
    then show "post (finish_if_fin sink (fst (d', log')) (snd (d', log'))) (brk lim base)
        (ingested lim own base s bs before)"
      using finish_if_fin_post [OF d'(1,2)] by simp
  qed
  with False show ?thesis by (simp add: conclude_segment_def case_prod_unfold)
qed

lemma ingest_segment_post:
  assumes live: "live_inv lim own base d log"
    and facts: "pv_transport packet = facts" "tcp_facts facts = tcp"
      "(case span_data (pv_payload packet) of None \<Rightarrow> [] | Some bs \<Rightarrow> bs) = bs"
      "payload_captured_bytes facts = length bs"
      "payload_complete facts \<longleftrightarrow> length bs = wire" "length bs \<le> wire"
    and place: "prefix \<le> wire" "declared_end = begin + wire - prefix" "prefix > 0 \<Longrightarrow> begin = 0"
      "sd_base_sequence d + of_nat begin = s + of_nat prefix"
    and fin: "tf_fin tcp \<Longrightarrow> sd_fin d = None \<Longrightarrow> sd_published d \<le> declared_end"
  shows "post (ingest_segment packet begin prefix declared_end sink d log) (brk lim base)
    (ingested lim own base s bs (d, log))"
proof -
  define d1 where "d1 = (if tf_fin tcp \<and> sd_fin d = None
      then trim_at_fin declared_end (d\<lparr>sd_fin := Some declared_end\<rparr>) else d)"
  define e where "e = (case sd_fin d1 of None \<Rightarrow> declared_end | Some f \<Rightarrow> min declared_end f)"
  define ce where "ce = begin + (if length bs > prefix then length bs - prefix else 0)"
  let ?Q = "ingested lim own base s bs (d, log)"
  have d1: "live_inv lim own base d1 log" "evolves s bs (d, log) (d1, log)"
    "sd_published d1 = sd_published d"
    using trim_at_fin_live [OF live fin, of s bs] live by (auto simp: d1_def evolves_refl)
  have e: "\<And>f. sd_fin d1 = Some f \<Longrightarrow> e \<le> f" "e \<le> declared_end"
      "e = declared_end \<or> sd_fin d1 = Some e"
    by (auto simp: e_def split: option.splits)
  have base1: "sd_base_sequence d1 = sd_base_sequence d" using d1(2) by (auto simp: evolves_def)
  have tail: "post (let d3 = d2\<lparr>sd_progress := max (sd_progress d2) e\<rparr>;
          data_begin = max begin (sd_published d3); data_end = min ce e in
      bind_step (store_payload data_begin data_end (drop (prefix + (data_begin - begin)) bs)
           (pv_timestamp_ns packet) d3 log) (\<lambda>_ (d4, log4).
      bind_step (mark_missing (length bs = wire) (max ce (sd_published d4)) e d4 log4)
        (\<lambda>_ (d5, log5). conclude_segment tcp sink d5 log5))) (brk lim base) ?Q"
    if d2: "live_inv lim own base (d2\<lparr>sd_progress := max (sd_progress d2) e\<rparr>) log"
      "e \<le> sd_extent d2" "sd_published d2 = sd_published d1" "sd_fin d2 = sd_fin d1"
      "evolves s bs (d1, log) (d2, log)" for d2
  proof -
    define d3 where "d3 = d2\<lparr>sd_progress := max (sd_progress d2) e\<rparr>"
    define b where "b = max begin (sd_published d)"
    have same: "evolves s bs (d2, log) (d3, log)"
      by (rule evolves_same) (simp_all add: d3_def keeps_def known_def)
    have "sd_base_sequence d2 = sd_base_sequence d1" using d2(5) by (simp add: evolves_def)
    then have d3: "live_inv lim own base d3 log" "sd_published d3 = sd_published d"
      "sd_fin d3 = sd_fin d1" "sd_base_sequence d3 = sd_base_sequence d"
      using d2(1,3,4) d1(3) base1 by (simp_all add: d3_def)
    have ev3: "evolves s bs (d, log) (d3, log)"
      by (rule evolves_trans [OF d1(2) evolves_trans [OF d2(5) same]])
    have "post (store_payload b (min ce e) (drop (prefix + (b - begin)) bs) (pv_timestamp_ns packet) d3 log)
        (brk lim base) (\<lambda>a p. post (mark_missing (length bs = wire) (max ce (sd_published (fst p))) e
          (fst p) (snd p)) (brk lim base)
          (\<lambda>a p. post (conclude_segment tcp sink (fst p) (snd p)) (brk lim base) ?Q))"
    proof (rule fill_post [OF d3(1), where s = s])
      show "sd_published d3 \<le> b" using d3(2) by (simp add: b_def)
      show "prefix + (b - begin) + (min ce e - b) \<le> length bs" if "b < min ce e"
        using that by (auto simp: b_def ce_def split: if_splits)
      show "sd_base_sequence d3 + of_nat b = s + of_nat (prefix + (b - begin))"
        using place(4) d3(4) by (simp add: b_def of_nat_diff max_def algebra_simps)
    next
      fix d4
      assume d4: "live_inv lim own base d4 log" "sd_published d4 = sd_published d3"
        "sd_fin d4 = sd_fin d3" "evolves s bs (d3, log) (d4, log)"
      have "post (mark_missing (length bs = wire) (max ce (sd_published d4)) e d4 log) (brk lim base)
          (\<lambda>a p. post (conclude_segment tcp sink (fst p) (snd p)) (brk lim base) ?Q)"
      proof (rule mark_post [OF d4(1), where s = s and bs = bs])
        assume part: "length bs \<noteq> wire"
        have "e \<noteq> declared_end \<or> ce < e \<or> e = 0"
          using part facts(6) place(1,2,3) by (cases "prefix = 0") (auto simp: ce_def)
        moreover have "sd_extent d4 \<le> e" if "e \<noteq> declared_end"
          using e(3) that d3(3) d4(1,3) by (auto simp: live_inv_def)
        ultimately show "max ce (sd_published d4) < e \<or> e \<le> sd_published d4 \<or>
            sd_extent d4 \<le> max ce (sd_published d4)"
          by (cases "e = declared_end") (auto simp: not_less)
      next
        fix d5
        assume "live_inv lim own base d5 log" "evolves s bs (d4, log) (d5, log)"
        with evolves_trans [OF ev3 evolves_trans [OF d4(4)]]
        show "post (conclude_segment tcp sink (fst (d5, log)) (snd (d5, log))) (brk lim base) ?Q"
          by (simp add: conclude_post)
      qed
      then show "post (mark_missing (length bs = wire) (max ce (sd_published (fst (d4, log)))) e
          (fst (d4, log)) (snd (d4, log))) (brk lim base)
          (\<lambda>a p. post (conclude_segment tcp sink (fst p) (snd p)) (brk lim base) ?Q)" by simp
    qed
    then show ?thesis
      by (simp add: Let_def d3_def [symmetric] d3(2) b_def [symmetric] case_prod_unfold
          del: Nat.add_diff_assoc)
  qed
  have "post (extend_stream e (stream_deadline (pv_timestamp_ns packet) (sd_gap_timeout_ns d1)) d1 log)
      (brk lim base) (\<lambda>a p. post (let d2 = fst p; log = snd p;
          d3 = d2\<lparr>sd_progress := max (sd_progress d2) e\<rparr>;
          data_begin = max begin (sd_published d3); data_end = min ce e in
      bind_step (store_payload data_begin data_end (drop (prefix + (data_begin - begin)) bs)
           (pv_timestamp_ns packet) d3 log) (\<lambda>_ (d4, log4).
      bind_step (mark_missing (length bs = wire) (max ce (sd_published d4)) e d4 log4)
        (\<lambda>_ (d5, log5). conclude_segment tcp sink d5 log5))) (brk lim base) ?Q)"
    by (rule extend_post [OF d1(1) e(1), where s = s and bs = bs], assumption)
      (use tail in \<open>simp add: Let_def\<close>)
  then show ?thesis
    unfolding ingest_segment_def Let_def facts d1_def [symmetric] e_def [symmetric]
      ce_def [symmetric] by (simp add: case_prod_unfold)
qed

text \<open>
  What a whole packet may do: \<open>learns\<close> is \<open>evolves\<close> for the packet's own payload and
  sequence number, where the first packet of a stream also fixes the origin.
\<close>

definition packet_bytes :: "npm_packet_view \<Rightarrow> u8 list" where
  "packet_bytes packet = (case span_data (pv_payload packet) of None \<Rightarrow> [] | Some bs \<Rightarrow> bs)"

definition packet_sequence :: "npm_packet_view \<Rightarrow> u32" where
  "packet_sequence packet = (let tcp = tcp_facts (pv_transport packet) in
     tf_sequence tcp + (if tf_syn tcp then 1 else 0))"

definition learns ::
  "npm_packet_view \<Rightarrow> stream_direction \<Rightarrow> stream_log \<Rightarrow> stream_direction \<Rightarrow> stream_log \<Rightarrow> bool" where
  "learns packet d log d' log' \<longleftrightarrow>
     (\<forall>x v. known d log x = Some v \<longrightarrow> (\<forall>f. sd_fin d' = Some f \<longrightarrow> x < f) \<longrightarrow>
        known d' log' x = Some v) \<and>
     (\<forall>x v. known d' log' x = Some v \<longrightarrow> known d log x = Some v \<or>
        (\<exists>i < length (packet_bytes packet). v = packet_bytes packet ! i \<and>
           sd_base_sequence d' + of_nat x = packet_sequence packet + of_nat i))"

definition pushed ::
  "nat \<Rightarrow> nat \<Rightarrow> nat \<Rightarrow> npm_packet_view \<Rightarrow> stream_direction \<Rightarrow> stream_log \<Rightarrow> unit
    \<Rightarrow> stream_direction \<times> stream_log \<Rightarrow> bool" where
  "pushed lim own base packet d log u after \<longleftrightarrow> (case after of (d', log') \<Rightarrow>
     (live_inv lim own base d' log' \<and> settled d' \<or> end_inv lim base d' log') \<and>
     learns packet d log d' log')"

lemma learns_same: "(\<And>x. known d' log' x = known d log x) \<Longrightarrow> learns packet d log d' log'"
  by (simp add: learns_def)

lemma finish_pushed:
  assumes "live_inv lim own base d' log" "\<And>x. known d' log x = known d log x"
  shows "post (sd_finish reason sr sink d' log) (brk lim base) (pushed lim own base packet d log)"
  using assms(2) by (auto simp: pushed_def intro!: finish_post [OF assms(1)] learns_same)

lemma map_sequence_place:
  assumes "map_sequence d s = Some (b, prefix)"
  shows "prefix > 0 \<longrightarrow> b = 0" "sd_base_sequence d + of_nat b = s + of_nat prefix"
proof -
  define w where "w = s - (sd_base_sequence d + of_nat (sd_progress d))"
  have s: "s = sd_base_sequence d + of_nat (sd_progress d) + w" by (simp add: w_def)
  have neg: "of_nat (unat (0 - w)) = 0 - w" by simp
  from assms have "(prefix > 0 \<longrightarrow> b = 0) \<and> (of_nat b :: u32) = of_nat (sd_progress d) + w + of_nat prefix"
    unfolding map_sequence_def w_def [symmetric] Let_def
    using neg by (auto simp: of_nat_diff split: if_splits)
  then show "prefix > 0 \<longrightarrow> b = 0" "sd_base_sequence d + of_nat b = s + of_nat prefix"
    by (auto simp: s ac_simps)
qed

lemma sd_ingest_post:
  assumes live: "live_inv lim own base d log" "settled d"
  shows "post (sd_ingest packet sink d log) (brk lim base) (pushed lim own base packet d log)"
proof -
  define facts where "facts = pv_transport packet"
  define tcp where "tcp = tcp_facts facts"
  define bs where "bs = packet_bytes packet"
  define d1 where "d1 = d\<lparr>sd_truncated := (sd_truncated d \<or> \<not> payload_complete facts)\<rparr>"
  define s where "s = packet_sequence packet"
  define d2 where "d2 = (if sd_origin d1 = OriginUnknown
      then d1\<lparr>sd_base_sequence := s, sd_origin := (if tf_syn tcp then OriginSyn else OriginMidstream)\<rparr>
      else d1)"
  have s_unf: "s = tf_sequence tcp + (if tf_syn tcp then 1 else 0)"
    by (simp add: s_def packet_sequence_def tcp_def facts_def)
  let ?Q = "pushed lim own base packet d log"
  have d1: "live_inv lim own base d1 log" "settled d1" "known d1 log = known d log"
    using live by (auto simp: d1_def live_inv_def settled_def known_def fun_eq_iff)
  have d2: "live_inv lim own base d2 log" "settled d2" "known d2 log = known d log"
    unfolding d1(3) [symmetric]
    using d1(1,2) by (auto simp: d2_def live_inv_def settled_def known_def fun_eq_iff)
  have fin1: "post (sd_finish reason None sink d1 log) (brk lim base) ?Q" for reason
    by (rule finish_pushed [OF d1(1)]) (simp add: d1(3))
  have fin2: "post (sd_finish reason None sink d2 log) (brk lim base) ?Q" for reason
    by (rule finish_pushed [OF d2(1)]) (simp add: d2(3))
  have stay1: "?Q () (d1, log)" using d1 by (auto simp: pushed_def intro!: learns_same)
  have stay2: "?Q () (d2, log)" using d2 by (auto simp: pushed_def intro!: learns_same)
  have seg: "post (ingest_segment packet b prefix (b + payload_wire_bytes facts - prefix) sink d2 log)
      (brk lim base) ?Q"
    if "map_sequence d2 s = Some (b, prefix)" "prefix \<le> payload_wire_bytes facts"
      "payload_captured_bytes facts = length bs"
      "payload_complete facts \<longleftrightarrow> length bs = payload_wire_bytes facts"
      "length bs \<le> payload_wire_bytes facts"
      "tf_fin tcp \<longrightarrow> sd_fin d2 = None \<longrightarrow> sd_published d2 \<le> b + payload_wire_bytes facts - prefix"
    for b prefix
  proof (rule post_mono)
    show "post (ingest_segment packet b prefix (b + payload_wire_bytes facts - prefix) sink d2 log)
        (brk lim base) (ingested lim own base s bs (d2, log))"
      by (rule ingest_segment_post [OF d2(1)])
        (use that map_sequence_place [OF that(1)] in
          \<open>auto simp: facts_def tcp_def bs_def packet_bytes_def\<close>)
    show "?Q u p" if "ingested lim own base s bs (d2, log) u p" for u p
      using that by (auto simp: ingested_def pushed_def evolves_def learns_def d2(3) bs_def s_def)
  qed
  have bytes: "length bs = span_size (pv_payload packet)"
    if "span_size (pv_payload packet) = 0 \<or> span_data (pv_payload packet) \<noteq> None"
    using that by (cases "pv_payload packet") (auto simp: bs_def packet_bytes_def)
  show ?thesis
    unfolding sd_ingest_def Let_def facts_def [symmetric] tcp_def [symmetric] d1_def [symmetric]
      s_unf [symmetric] d2_def [symmetric]
  proof (intro post_ifI post_option_pairI)
    assume "\<not> (\<not> tf_valid tcp \<or> span_size (pv_payload packet) \<noteq> payload_captured_bytes facts
         \<or> payload_captured_bytes facts > payload_wire_bytes facts
         \<or> payload_complete facts \<noteq> (payload_captured_bytes facts = payload_wire_bytes facts)
         \<or> (span_size (pv_payload packet) \<noteq> 0 \<and> span_data (pv_payload packet) = None))"
    with bytes have len: "payload_captured_bytes facts = length bs"
      "payload_complete facts \<longleftrightarrow> length bs = payload_wire_bytes facts"
      "length bs \<le> payload_wire_bytes facts" by auto
    fix b prefix
    assume "map_sequence d2 s = Some (b, prefix)" "\<not> prefix > payload_wire_bytes facts"
      "\<not> (tf_fin tcp \<and> ((sd_fin d2 \<noteq> None \<and> sd_fin d2 \<noteq> Some (b + payload_wire_bytes facts - prefix))
          \<or> b + payload_wire_bytes facts - prefix < sd_published d2))"
    then show "post (ingest_segment packet b prefix (b + payload_wire_bytes facts - prefix) sink d2 log)
        (brk lim base) ?Q"
      by (intro seg len) auto
  qed (use fin1 fin2 stay1 stay2 live_broken [OF live(1)] in \<open>simp_all add: brk_def\<close>)
qed

section \<open>Entry points\<close>

lemma catch_step_inv:
  assumes "post r (brk lim base) Q"
    and "\<And>d' log'. Q () (d', log') \<Longrightarrow> live_inv lim own base d' log' \<and> settled d' \<or> end_inv lim base d' log'"
    and "catch_step r = (e, d', log')"
  shows "stream_inv lim own base d' log' \<and> e = sd_error d' \<and> (e = StreamNone \<longrightarrow> Q () (d', log'))"
proof (cases "fst r")
  case (Inl err)
  then obtain d1 log1 where r: "r = (Inl err, d1, log1)" by (metis prod.collapse)
  with assms have "err \<noteq> StreamNone" "broken lim base d1 log1" by (auto simp: brk_def)
  from sd_fail_inv [OF this(2,1)] r assms(3) \<open>err \<noteq> StreamNone\<close> show ?thesis
    by (auto simp: catch_step_def stream_inv_def sd_fail_def sd_clear_def)
next
  case (Inr u)
  then obtain d1 log1 where r: "r = (Inr (), d1, log1)" by (metis prod.collapse old.unit.exhaust)
  with assms(1,3) assms(2) [of d1 log1] show ?thesis
    by (auto simp: catch_step_def stream_inv_def live_inv_def end_inv_def)
qed

lemma stream_inv_cases:
  assumes "stream_inv lim own base d log"
  obtains "live_inv lim own base d log" "settled d" "sd_error d = StreamNone" "\<not> sd_ended d"
    | "end_inv lim base d log" "sd_ended d" | "fail_inv lim base d log" "sd_error d \<noteq> StreamNone"
  using assms by (auto simp: stream_inv_def live_inv_def end_inv_def fail_inv_def)

lemma sd_push_inv:
  assumes inv: "stream_inv lim own base d log"
    and push: "sd_push packet sink d log = (e, d', log')"
  shows "stream_inv lim own base d' log' \<and> e = sd_error d' \<and> (e = StreamNone \<longrightarrow> learns packet d log d' log')"
  using inv
proof (cases rule: stream_inv_cases)
  case 1
  with push have "catch_step (sd_ingest packet sink d log) = (e, d', log')"
    by (simp add: sd_push_def)
  from catch_step_inv [OF sd_ingest_post [OF 1(1,2)] _ this] show ?thesis
    by (auto simp: pushed_def)
qed (use push inv in \<open>auto simp: sd_push_def learns_same\<close>)

lemma advance_post:
  assumes live: "live_inv lim own base d log"
  shows "post (bind_step (sd_drain False sink (d\<lparr>sd_watermark := Some w\<rparr>) log)
      (\<lambda>_ (d1, log1). finish_if_fin sink d1 log1)) (brk lim base)
    (\<lambda>_ p. (live_inv lim own base (fst p) (snd p) \<and> settled (fst p) \<or> end_inv lim base (fst p) (snd p))
      \<and> sd_watermark (fst p) = Some w)"
proof -
  have live': "live_inv lim own base (d\<lparr>sd_watermark := Some w\<rparr>) log"
    using live by (simp add: live_inv_def)
  show ?thesis
    unfolding post_bind
    by (rule drain_post [OF live']) (auto simp: keeps_def intro!: finish_if_fin_post)
qed

lemma sd_advance_inv:
  assumes inv: "stream_inv lim own base d log"
    and adv: "sd_advance_watermark w sink d log = (e, d', log')"
  shows "stream_inv lim own base d' log' \<and> e = sd_error d' \<and>
    (e = StreamNone \<longrightarrow> sd_ended d' \<or> (\<exists>w' \<ge> w. sd_watermark d' = Some w'))"
  using inv
proof (cases rule: stream_inv_cases)
  case 1
  show ?thesis
  proof (cases "case sd_watermark d of None \<Rightarrow> False | Some w0 \<Rightarrow> w \<le> w0")
    case True
    with 1 adv inv show ?thesis by (auto simp: sd_advance_watermark_def split: option.splits)
  next
    case False
    with 1 adv have "catch_step (bind_step (sd_drain False sink (d\<lparr>sd_watermark := Some w\<rparr>) log)
          (\<lambda>_ (d1, log1). finish_if_fin sink d1 log1)) = (e, d', log')"
      by (simp add: sd_advance_watermark_def)
    from catch_step_inv [OF advance_post [OF 1(1)] _ this] show ?thesis by auto
  qed
qed (use adv inv in \<open>auto simp: sd_advance_watermark_def\<close>)

lemma sd_end_inv:
  assumes inv: "stream_inv lim own base d log"
    and ending: "sd_end reason sr sink d log = (e, d', log')"
  shows "stream_inv lim own base d' log' \<and> e = sd_error d'"
  using inv
proof (cases rule: stream_inv_cases)
  case 1
  have "post (sd_finish reason sr sink d log) (brk lim base) (\<lambda>_ p. end_inv lim base (fst p) (snd p))"
    by (rule finish_post [OF 1(1)]) simp
  from catch_step_inv [OF this] 1 ending sd_fail_inv [OF live_broken [OF 1(1)], of InvalidInput]
  show ?thesis
    by (auto simp: sd_end_def stream_inv_def sd_fail_def sd_clear_def split: if_splits)
qed (use ending inv in \<open>auto simp: sd_end_def\<close>)

lemma sd_abort_inv:
  assumes "stream_inv lim own base d log"
  shows "stream_inv lim own base (sd_abort d) log"
  using assms
proof (cases rule: stream_inv_cases)
  case 1
  then show ?thesis using sd_fail_inv [OF live_broken [OF 1(1)], of Aborted]
    by (simp add: sd_abort_def sd_fail_def stream_inv_def)
next
  case 2
  then have acc: "account_ok lim (release_bytes (acct_tracked (sd_account d)) (sd_account d)) 0
      (base + log_moved log)"
    by (auto simp: end_inv_def intro: clear_account)
  then have "acct_tracked (release_bytes (acct_tracked (sd_account d)) (sd_account d)) = 0"
    by (simp add: account_ok_def)
  with 2 acc show ?thesis
    by (auto simp: sd_abort_def sd_clear_def stream_inv_def end_inv_def)
next
  case 3
  then have "account_ok lim (release_bytes (acct_tracked (sd_account d)) (sd_account d)) 0
      (base + log_moved log)"
    by (auto simp: fail_inv_def intro: clear_account)
  with 3 show ?thesis by (auto simp: sd_abort_def sd_clear_def stream_inv_def fail_inv_def)
qed

lemma sd_initialize_inv:
  assumes tb: "\<And>tb. budget = Some tb \<Longrightarrow> budget_wf tb \<and> module_held tb = base"
  shows "\<exists>base' lim. stream_inv lim (case object_bytes of None \<Rightarrow> 0 | Some n \<Rightarrow> n) base'
      (sd_initialize object_bytes c budget) [] \<and>
      (budget \<noteq> None \<longrightarrow> base' = base \<and> lim = max_buffered_bytes_per_direction c)"
proof (cases budget)
  case None
  have "fail_inv (max_buffered_bytes_per_direction c) 0 (sd_initialize object_bytes c None) []"
    by (simp add: sd_initialize_def fail_inv_def blank_direction_def account_ok_def no_ledger_def
        budget_wf_new u64_max_def, simp add: module_held_def new_task_budget_def)
  with None show ?thesis by (auto simp: stream_inv_def)
next
  case (Some tb)
  let ?lim = "max_buffered_bytes_per_direction c"
  let ?d = "blank_direction c tb"
  have acc: "account_ok ?lim (sd_account ?d) 0 base"
    using tb [OF Some] by (simp add: account_ok_def blank_direction_def)
  have live: "live_inv ?lim own base (?d\<lparr>sd_account := a\<rparr>) []" "settled (?d\<lparr>sd_account := a\<rparr>)"
    if "account_ok ?lim a own base" for own a
    using that by (simp_all add: live_inv_def blank_direction_def settled_def waiting_def)
  have fail: "fail_inv ?lim base (?d\<lparr>sd_account := a, sd_error := e\<rparr>) []"
    if "account_ok ?lim a 0 base" "e \<noteq> StreamNone" for a e
    using that by (simp add: fail_inv_def blank_direction_def)
  have self: "?d\<lparr>sd_account := sd_account ?d\<rparr> = ?d" by simp
  have own: "stream_inv ?lim n base (case reserve_bytes n (sd_account ?d) of
      (Inl e, a) \<Rightarrow> ?d\<lparr>sd_account := a, sd_error := e\<rparr> | (Inr _, a) \<Rightarrow> ?d\<lparr>sd_account := a\<rparr>) []" for n
  proof -
    have "post (reserve_bytes n (sd_account ?d)) (\<lambda>a. account_ok ?lim a 0 base)
        (\<lambda>_ a. account_ok ?lim a n base)"
      by (rule reserve_bytes_post [OF acc]) simp_all
    then show ?thesis
      using live [of _ n] fail
      by (auto simp: post_def stream_inv_def split: prod.split sum.split)
  qed
  have "stream_inv ?lim (case object_bytes of None \<Rightarrow> 0 | Some n \<Rightarrow> n) base
      (sd_initialize object_bytes c budget) []"
    using Some live [OF acc, unfolded self] fail [OF acc, of InvalidConfig, unfolded self] own
    by (cases object_bytes) (simp_all add: sd_initialize_def Let_def stream_inv_def)
  with Some show ?thesis by auto
qed

section \<open>Whole runs\<close>

text \<open>
  The life of one direction: it is constructed and then receives any sequence of calls, the sink
  deciding each time whether it accepts an event and takes its payload over.
\<close>

datatype stream_op =
    PushPacket npm_packet_view | AdvanceTo int
  | EndWith tcp_stream_end_reason "session_end_reason option" | AbortNow

fun run_op :: "stream_sink \<Rightarrow> stream_op \<Rightarrow> stream_direction \<times> stream_log \<Rightarrow> stream_direction \<times> stream_log" where
  "run_op sink (PushPacket p) (d, log) = snd (sd_push p sink d log)"
| "run_op sink (AdvanceTo w) (d, log) = snd (sd_advance_watermark w sink d log)"
| "run_op sink (EndWith reason sr) (d, log) = snd (sd_end reason sr sink d log)"
| "run_op sink AbortNow (d, log) = (sd_abort d, log)"

definition stream_run ::
  "nat option \<Rightarrow> tcp_stream_config \<Rightarrow> npm_task_budget option \<Rightarrow> stream_sink \<Rightarrow> stream_op list
    \<Rightarrow> stream_direction \<times> stream_log" where
  "stream_run object_bytes c budget sink ops =
     fold (run_op sink) ops (sd_initialize object_bytes c budget, [])"

lemma run_op_inv:
  assumes "stream_inv lim own base d log" "run_op sink op (d, log) = (d', log')"
  shows "stream_inv lim own base d' log'"
  using assms
proof (cases op)
  case (PushPacket p)
  then show ?thesis using assms sd_push_inv [OF assms(1), of p sink]
    by (cases "sd_push p sink d log") auto
next
  case (AdvanceTo w)
  then show ?thesis using assms sd_advance_inv [OF assms(1), of w sink]
    by (cases "sd_advance_watermark w sink d log") auto
next
  case (EndWith reason sr)
  then show ?thesis using assms sd_end_inv [OF assms(1), of reason sr sink]
    by (cases "sd_end reason sr sink d log") auto
qed (auto intro: sd_abort_inv)

lemma fold_run_inv:
  "stream_inv lim own base d log \<Longrightarrow> fold (run_op sink) ops (d, log) = (d', log') \<Longrightarrow>
     stream_inv lim own base d' log'"
proof (induction ops arbitrary: d log)
  case (Cons op ops)
  obtain d1 log1 where "run_op sink op (d, log) = (d1, log1)" by fastforce
  with Cons run_op_inv [OF Cons.prems(1) this] show ?case by simp
qed simp

lemma stream_run_inv:
  assumes "\<And>tb. budget = Some tb \<Longrightarrow> budget_wf tb \<and> module_held tb = base"
    and "stream_run object_bytes c budget sink ops = (d, log)"
  obtains base' lim where "stream_inv lim (case object_bytes of None \<Rightarrow> 0 | Some n \<Rightarrow> n) base' d log"
    "budget \<noteq> None \<Longrightarrow> base' = base \<and> lim = max_buffered_bytes_per_direction c"
  using sd_initialize_inv [where object_bytes = object_bytes and c = c, OF assms(1)]
    fold_run_inv assms(2) unfolding stream_run_def by blast

lemma stream_inv_account:
  assumes "stream_inv lim own base d log"
  shows "account_ok lim (sd_account d) (acct_tracked (sd_account d)) (base + log_moved log)"
    "sd_error d \<noteq> StreamNone \<Longrightarrow> acct_tracked (sd_account d) = 0 \<and> sd_ranges d = []"
    "sd_error d = StreamNone \<Longrightarrow> \<not> sd_ended d \<Longrightarrow>
      acct_tracked (sd_account d) = own + ranges_charge (sd_ranges d)"
  using assms by (auto simp: stream_inv_def live_inv_def end_inv_def fail_inv_def account_ok_def)

text \<open>With a sink that accepts everything, ending a stream cannot fail.\<close>

lemma drain_accepting:
  "(\<And>log ev. fst (sink log ev)) \<Longrightarrow> fst (drain_walk forced sink rs d log) = Inr ()"
proof (induction forced sink rs d log rule: drain_walk.induct)
  case (2 forced sink r rs d log)
  show ?case
  proof (cases "rg_data r")
    case None
    with 2 show ?thesis by (auto simp: sd_emit_def)
  next
    case (Some bytes)
    obtain taken where "sink log (data_event r bytes) = (True, taken)"
      using "2.prems" by (metis (full_types) prod.collapse)
    with Some 2 show ?thesis by (auto simp: Let_def)
  qed
qed simp

lemma finish_accepting:
  "(\<And>log ev. fst (sink log ev)) \<Longrightarrow> fst (sd_finish reason sr sink d log) = Inr ()"
  using drain_accepting [of sink True "sd_ranges d" d log]
  by (cases "drain_walk True sink (sd_ranges d) d log")
    (auto simp: sd_finish_def sd_drain_def bind_step_def sd_emit_def)

section \<open>Properties\<close>

text \<open>
  C1. Byte accounting of a stream direction. In every state that any sequence of calls can
  reach, the tracked bytes stay within the configured limit, the task ledger stays within its
  own and records for this direction exactly the tracked bytes plus the payloads it handed over
  to the sink; while the stream is open the tracked bytes are those of the object and of the
  buffered ranges, and a failed direction holds nothing.
\<close>

theorem stream_accounting:
  assumes "budget_wf tb" "stream_run object_bytes c (Some tb) sink ops = (d, log)"
  shows "acct_tracked (sd_account d) \<le> max_buffered_bytes_per_direction c \<and>
    budget_wf (acct_budget (sd_account d)) \<and>
    module_held (acct_budget (sd_account d)) =
      module_held tb + acct_tracked (sd_account d) + log_moved log \<and>
    (sd_error d = StreamNone \<longrightarrow> \<not> sd_ended d \<longrightarrow> acct_tracked (sd_account d) =
       (case object_bytes of None \<Rightarrow> 0 | Some n \<Rightarrow> n) + ranges_charge (sd_ranges d)) \<and>
    (sd_error d \<noteq> StreamNone \<longrightarrow> acct_tracked (sd_account d) = 0)"
proof -
  obtain base' lim where "stream_inv lim (case object_bytes of None \<Rightarrow> 0 | Some n \<Rightarrow> n) base' d log"
    "base' = module_held tb \<and> lim = max_buffered_bytes_per_direction c"
    by (rule stream_run_inv [OF _ assms(2), of "module_held tb"]) (use assms(1) in auto)
  with stream_inv_account [of lim _ base' d log] show ?thesis
    by (auto simp: account_ok_def)
qed

text \<open>
  C2. The events a direction delivers, for any sequence of calls and any sink: they tile the
  stream from position 0 without hole or overlap, each data event carrying exactly its bytes, and
  the End event, at the end position, comes exactly once, when the direction has ended, and last.
\<close>

theorem stream_events_tile:
  assumes "budget_wf tb" "stream_run object_bytes c (Some tb) sink ops = (d, log)"
  shows "\<exists>evs. tiles 0 evs (sd_published d) \<and>
    (if sd_ended d then \<exists>reason sr. map fst log = evs @ [end_event (sd_published d) reason sr]
     else map fst log = evs)"
proof -
  obtain base' lim where "stream_inv lim (case object_bytes of None \<Rightarrow> 0 | Some n \<Rightarrow> n) base' d log"
    by (rule stream_run_inv [OF _ assms(2), of "module_held tb"]) (use assms(1) in auto)
  then show ?thesis
  proof (cases rule: stream_inv_cases)
    case 2
    then obtain evs reason sr where "log = evs @ [(end_event (sd_published d) reason sr, 0)]"
      "tiles 0 (map fst evs) (sd_published d)" by (auto simp: end_inv_def)
    with 2(2) show ?thesis by (intro exI [of _ "map fst evs"]) auto
  qed (auto simp: live_inv_def fail_inv_def)
qed

text \<open>
  C3. First capture wins, and every byte has its sequence number. After a Push that reports no
  error, whatever was known of the stream below its end is still known and unchanged; and any
  byte known at position \<open>x\<close> that was not known before is the payload byte \<open>i\<close> of this packet
  whose sequence number is that of the position.
\<close>

theorem push_first_capture_wins:
  assumes "budget_wf tb" "stream_run object_bytes c (Some tb) sink ops = (d, log)"
    "sd_push packet sink d log = (StreamNone, d', log')"
  shows "(\<forall>x v. known d log x = Some v \<longrightarrow> (\<forall>f. sd_fin d' = Some f \<longrightarrow> x < f) \<longrightarrow>
        known d' log' x = Some v) \<and>
     (\<forall>x v. known d' log' x = Some v \<longrightarrow> known d log x = Some v \<or>
        (\<exists>i < length (packet_bytes packet). v = packet_bytes packet ! i \<and>
           sd_base_sequence d' + of_nat x = packet_sequence packet + of_nat i))"
proof -
  obtain base' lim where "stream_inv lim (case object_bytes of None \<Rightarrow> 0 | Some n \<Rightarrow> n) base' d log"
    by (rule stream_run_inv [OF _ assms(2), of "module_held tb"]) (use assms(1) in auto)
  from sd_push_inv [OF this assms(3)] show ?thesis by (simp add: learns_def)
qed

text \<open>
  C5. Sequence numbers are unwrapped to the nearest position: the code's unsigned arithmetic
  places a 32-bit number at the signed 32-bit distance from the most advanced byte seen, splits
  a position before the origin into position 0 and a prefix, and refuses the one ambiguous distance.
\<close>

theorem map_sequence_nearest:
  "map_sequence d s =
     (let k = sint (s - (sd_base_sequence d + of_nat (sd_progress d)));
          x = int (sd_progress d) + k in
      if k = - 2147483648 \<or> k \<ge> 0 \<and> x > int u64_max then None else Some (nat x, nat (- x)))"
  by (rule map_sequence_eq)

text \<open>
  The watermark makes progress. After AdvanceWatermark(w) without error the next deadline,
  if there is one, lies strictly after w: a gap whose waiting time is over is never kept.
\<close>

theorem watermark_progress:
  assumes "budget_wf tb" "stream_run object_bytes c (Some tb) sink ops = (d, log)"
    "sd_advance_watermark w sink d log = (StreamNone, d', log')"
    "sd_next_event_deadline_ns d' = Some deadline"
  shows "w < deadline"
proof -
  obtain base' lim where "stream_inv lim (case object_bytes of None \<Rightarrow> 0 | Some n \<Rightarrow> n) base' d log"
    by (rule stream_run_inv [OF _ assms(2), of "module_held tb"]) (use assms(1) in auto)
  from sd_advance_inv [OF this assms(3)] assms(4) obtain w' where
    "stream_inv lim (case object_bytes of None \<Rightarrow> 0 | Some n \<Rightarrow> n) base' d' log'"
    "w \<le> w'" "sd_watermark d' = Some w'" "sd_ranges d' \<noteq> []" "deadline = rg_timestamp_ns (hd (sd_ranges d'))"
    by (auto simp: sd_next_event_deadline_ns_def split: if_splits)
  then show ?thesis
    by (cases rule: stream_inv_cases)
      (auto simp: settled_def waiting_def end_inv_def fail_inv_def)
qed

text \<open>
  C4. Ending a stream loses nothing. On an open direction, End with a valid reason and a sink that
  accepts every event succeeds, and then every position up to the most advanced one is delivered,
  with the byte that was known for it.
\<close>

theorem stream_end_flushes:
  assumes "budget_wf tb" "stream_run object_bytes c (Some tb) sink ops = (d, log)"
    "sd_error d = StreamNone" "\<not> sd_ended d"
    "\<And>log ev. fst (sink' log ev)"
    "(reason = EndSessionEnd) = (sr \<noteq> None)" "reason \<noteq> EndFin"
    "sd_end reason sr sink' d log = (e, d', log')"
  shows "e = StreamNone \<and> sd_ended d' \<and> sd_published d' = sd_extent d \<and>
    (\<forall>x < sd_extent d. delivered_at (map fst log') x = known d log x)"
proof -
  obtain base' lim where "stream_inv lim (case object_bytes of None \<Rightarrow> 0 | Some n \<Rightarrow> n) base' d log"
    by (rule stream_run_inv [OF _ assms(2), of "module_held tb"]) (use assms(1) in auto)
  then obtain own where live: "live_inv lim own base' d log"
    using assms(3,4) by (auto simp: stream_inv_def end_inv_def fail_inv_def)
  have post: "post (sd_finish reason sr sink' d log) (brk lim base') (\<lambda>_ p.
      end_inv lim base' (fst p) (snd p) \<and> sd_published (fst p) = sd_extent d \<and>
      (\<forall>x. known (fst p) (snd p) x = known d log x))"
    by (rule finish_post [OF live]) auto
  have "catch_step (sd_finish reason sr sink' d log) = (e, d', log')"
    using assms(3,4,6-8) by (auto simp: sd_end_def)
  moreover obtain d1 log1 where "sd_finish reason sr sink' d log = (Inr (), d1, log1)"
    using finish_accepting [where sink = sink' and reason = reason and sr = sr and d = d and log = log,
      OF assms(5)] by (metis prod.collapse)
  ultimately have "end_inv lim base' d' log'" "sd_published d' = sd_extent d"
    "\<And>x. known d' log' x = known d log x" "e = sd_error d'"
    using post by (auto simp: catch_step_def)
  moreover have "delivered_at (map fst log') x = known d' log' x" if "x < sd_published d'" for x
    using that by (simp add: known_def)
  ultimately show ?thesis by (auto simp: end_inv_def)
qed

section \<open>Witnesses\<close>

text \<open>
  A stream of three segments, the second retransmitting and extending past a hole: SYN with
  sequence number 100, bytes 101..103, then 105..106; the watermark passes the hole's deadline.
\<close>

definition demo_budget :: npm_task_budget where
  "demo_budget = new_task_budget \<lparr>max_tracked_bytes = 1000000, max_pending_output_bytes = 10\<rparr>"

definition demo_config :: tcp_stream_config where
  "demo_config = \<lparr>max_buffered_bytes_per_direction = 65536, gap_timeout_ns = 10\<rparr>"

definition demo_packet :: "bool \<Rightarrow> u32 \<Rightarrow> u8 list \<Rightarrow> npm_packet_view" where
  "demo_packet syn sequence bs = \<lparr>pv_timestamp_ns = 5, pv_payload = Bytes bs,
     pv_transport = \<lparr>payload_wire_bytes = length bs, payload_captured_bytes = length bs,
       payload_complete = True, tcp_facts = \<lparr>tf_valid = True, tf_syn = syn, tf_ack = False,
         tf_fin = False, tf_rst = False, tf_sequence = sequence, tf_acknowledgment = 0,
         tf_window = 0\<rparr>\<rparr>\<rparr>"

definition demo_sink :: stream_sink where
  "demo_sink log ev = (True, False)"

definition demo_ops :: "stream_op list" where
  "demo_ops = [PushPacket (demo_packet True 100 []), PushPacket (demo_packet False 105 [5, 6])]"

definition demo_state :: "stream_direction \<times> stream_log" where
  "demo_state = stream_run None demo_config (Some demo_budget) demo_sink demo_ops"

lemma demo_budget_wf: "budget_wf demo_budget"
  by (simp add: demo_budget_def budget_wf_new u64_max_def)

lemma demo_run: "stream_run None demo_config (Some demo_budget) demo_sink demo_ops =
    (fst demo_state, snd demo_state)"
  by (simp add: demo_state_def)

theorem stream_accounting_witness:
  "acct_tracked (sd_account (fst demo_state)) \<le> 65536"
  using stream_accounting [OF demo_budget_wf demo_run] by (simp add: demo_config_def)

theorem stream_events_tile_witness:
  "\<exists>evs. tiles 0 evs (sd_published (fst demo_state))"
  using stream_events_tile [OF demo_budget_wf demo_run] by blast

lemmas stream_eval = sd_initialize_def blank_direction_def tcp_stream_limits sd_push_def
  sd_ingest_def demo_packet_def Let_def catch_step_def map_sequence_def u64_max_def
  ingest_segment_def extend_stream_def add_gap_def reserve_bytes_def range_charge_def bind_step_def
  stream_deadline_def i64_max_def store_payload_def cut_gap_def split_gap_def mark_missing_def
  conclude_segment_def sd_drain_def finish_if_fin_def task_reserve_def reserve_npm_budget_def
  saturating_add_def npm_tracked_budget_bytes_def new_task_budget_def demo_budget_def
  demo_config_def demo_sink_def raise_high_water_def

lemma demo_state_push:
  "fst (sd_push (demo_packet False 101 [1, 2, 3]) demo_sink (fst demo_state) (snd demo_state)) = StreamNone"
  unfolding demo_state_def stream_run_def demo_ops_def by (simp add: stream_eval)

lemma demo_state_open: "sd_error (fst demo_state) = StreamNone" "\<not> sd_ended (fst demo_state)"
  unfolding demo_state_def stream_run_def demo_ops_def by (simp_all add: stream_eval)

lemma demo_state_advance:
  "sd_advance_watermark 6 demo_sink (fst demo_state) (snd demo_state) =
     (StreamNone, (fst demo_state)\<lparr>sd_watermark := Some 6\<rparr>, snd demo_state)"
  "sd_next_event_deadline_ns ((fst demo_state)\<lparr>sd_watermark := Some 6\<rparr>) = Some 15"
  unfolding demo_state_def stream_run_def demo_ops_def
  by (simp_all add: stream_eval sd_advance_watermark_def sd_next_event_deadline_ns_def)

lemma demo_state_known:
  "known (fst demo_state) (snd demo_state) 4 = Some 5"
  "sd_fin (fst (snd (sd_push (demo_packet False 101 [1, 2, 3]) demo_sink (fst demo_state) (snd demo_state)))) = None"
  unfolding demo_state_def stream_run_def demo_ops_def
  by (simp_all add: stream_eval known_def)

theorem push_first_capture_wins_witness:
  "known (fst (snd (sd_push (demo_packet False 101 [1, 2, 3]) demo_sink (fst demo_state) (snd demo_state))))
     (snd (snd (sd_push (demo_packet False 101 [1, 2, 3]) demo_sink (fst demo_state) (snd demo_state)))) 4
   = Some 5"
  by (rule push_first_capture_wins [where packet = "demo_packet False 101 [1, 2, 3]",
        OF demo_budget_wf demo_run, THEN conjunct1, rule_format, OF _ demo_state_known(1)])
    (simp_all add: demo_state_push demo_state_known(2) prod_eq_iff)

theorem watermark_progress_witness: "(6 :: int) < 15"
  by (rule watermark_progress [OF demo_budget_wf demo_run demo_state_advance])

theorem stream_end_flushes_witness:
  "fst (sd_end EndReset None demo_sink (fst demo_state) (snd demo_state)) = StreamNone"
  by (rule stream_end_flushes [where sink' = demo_sink and reason = EndReset and sr = None,
        OF demo_budget_wf demo_run demo_state_open, THEN conjunct1])
    (simp_all add: demo_sink_def prod_eq_iff)

end
