(* ===== verification/Http1Framer.thy ===== *)
theory Http1Framer
  imports TcpStreamContract
begin

text \<open>
  The HTTP/1 framer of one TCP direction, modules/http1/npm_http1_framer.cpp: message boundaries
  from start lines, header fields, content lengths and chunk lines, byte by byte and without
  keeping bodies. Text is a list of characters; scanning with an index becomes recursion on the
  remaining text.
\<close>

section \<open>Lexical helpers\<close>

definition byte_value :: "char \<Rightarrow> nat" where
  "byte_value c = of_char c"

definition token_byte :: "char \<Rightarrow> bool" where
  "token_byte c \<longleftrightarrow> 48 \<le> byte_value c \<and> byte_value c \<le> 57 \<or>
     65 \<le> byte_value c \<and> byte_value c \<le> 90 \<or> 97 \<le> byte_value c \<and> byte_value c \<le> 122 \<or>
     byte_value c \<in> {33, 35, 36, 37, 38, 39, 42, 43, 45, 46, 94, 95, 96, 124, 126}"

definition printable :: "char \<Rightarrow> bool" where
  "printable c \<longleftrightarrow> 32 \<le> byte_value c \<and> byte_value c \<le> 126"

definition tab :: char where "tab = CHR 0x09"
definition carriage_return :: char where "carriage_return = CHR 0x0D"
definition line_feed :: char where "line_feed = CHR 0x0A"
definition quote_mark :: char where "quote_mark = CHR 0x22"
definition backslash :: char where "backslash = CHR 0x5C"
definition crlf :: string where "crlf = [carriage_return, line_feed]"

lemmas control_chars = tab_def carriage_return_def line_feed_def quote_mark_def backslash_def crlf_def

definition ows :: "char \<Rightarrow> bool" where
  "ows c \<longleftrightarrow> c = CHR '' '' \<or> c = tab"

definition trim_ows :: "string \<Rightarrow> string" where
  "trim_ows value = rev (dropWhile ows (rev (dropWhile ows value)))"

definition ascii_lower :: "char \<Rightarrow> nat" where
  "ascii_lower c = (let n = byte_value c in if 65 \<le> n \<and> n \<le> 90 then n + 32 else n)"

definition equals_ascii_no_case :: "string \<Rightarrow> string \<Rightarrow> bool" where
  "equals_ascii_no_case left right \<longleftrightarrow>
     length left = length right \<and> list_all2 (\<lambda>a b. ascii_lower a = ascii_lower b) left right"

definition escape_display :: "string \<Rightarrow> string" where
  "escape_display raw = concat (map (\<lambda>b. if b = CHR ''%'' then ''%25'' else [b]) raw)"

section \<open>Numbers\<close>

fun parse_decimal_loop :: "nat \<Rightarrow> string \<Rightarrow> nat option" where
  "parse_decimal_loop number [] = Some number"
| "parse_decimal_loop number (digit # text) =
     (if byte_value digit < 48 \<or> byte_value digit > 57 then None
      else let nxt = byte_value digit - 48 in
        if number > (u64_max - nxt) div 10 then None
        else parse_decimal_loop (number * 10 + nxt) text)"

definition parse_decimal :: "string \<Rightarrow> nat option" where
  "parse_decimal text = (if text = [] then None else parse_decimal_loop 0 text)"

definition hex_digit :: "char \<Rightarrow> nat option" where
  "hex_digit c = (let n = byte_value c in
     if 48 \<le> n \<and> n \<le> 57 then Some (n - 48)
     else if 97 \<le> n \<and> n \<le> 102 then Some (n - 97 + 10)
     else if 65 \<le> n \<and> n \<le> 70 then Some (n - 65 + 10) else None)"

fun parse_hex_loop :: "nat \<Rightarrow> string \<Rightarrow> nat option" where
  "parse_hex_loop number [] = Some number"
| "parse_hex_loop number (c # text) =
     (case hex_digit c of None \<Rightarrow> None
      | Some digit \<Rightarrow>
          if number > (u64_max - digit) div 16 then None
          else parse_hex_loop (number * 16 + digit) text)"

definition parse_hex :: "string \<Rightarrow> nat option" where
  "parse_hex text = (if text = [] then None else parse_hex_loop 0 text)"

section \<open>Chunk lines\<close>

text \<open>The rest of the line after a quoted string, or \<open>None\<close> when it is not closed or not printable.\<close>

fun quoted_rest :: "string \<Rightarrow> string option" where
  "quoted_rest [] = None"
| "quoted_rest (b # s) =
     (if b = quote_mark then Some s
      else if b = backslash then
        (case s of [] \<Rightarrow> None | e # s' \<Rightarrow> if \<not> printable e then None else quoted_rest s')
      else if b \<noteq> tab \<and> \<not> printable b then None
      else quoted_rest s)"

lemma quoted_rest_shorter: "quoted_rest s = Some s' \<Longrightarrow> length s' < length s"
  by (induction s rule: quoted_rest.induct)
    (auto split: if_splits list.splits)

function chunk_extensions :: "string \<Rightarrow> bool" where
  "chunk_extensions [] = True"
| "chunk_extensions (c # s) =
     (if c \<noteq> CHR '';'' then False
      else if takeWhile token_byte s = [] then False
      else
        (case dropWhile token_byte s of
           [] \<Rightarrow> True
         | e # s1 \<Rightarrow>
             if e \<noteq> CHR ''='' then chunk_extensions (e # s1)
             else if s1 \<noteq> [] \<and> hd s1 = quote_mark then
               (case quoted_rest (tl s1) of None \<Rightarrow> False | Some s2 \<Rightarrow> chunk_extensions s2)
             else if takeWhile token_byte s1 = [] then False
             else chunk_extensions (dropWhile token_byte s1)))"
  by pat_completeness auto

lemma length_dropWhile: "length (dropWhile P xs) \<le> length xs"
  by (induction xs) auto

lemma dropWhile_Cons_shorter: "dropWhile P xs = y # ys \<Longrightarrow> length ys < length xs"
  by (metis Suc_le_lessD length_Cons length_dropWhile)

lemma dropWhile_taken_shorter: "takeWhile P xs \<noteq> [] \<Longrightarrow> length (dropWhile P xs) < length xs"
  by (cases xs) (auto split: if_splits simp: length_dropWhile le_imp_less_Suc)

termination chunk_extensions
proof (relation "measure length", goal_cases)
  case (2 c s e s1)
  then show ?case using dropWhile_taken_shorter [of token_byte s] by simp
next
  case (3 c s e s1 s2)
  then show ?case
    using dropWhile_Cons_shorter [of token_byte s e s1] quoted_rest_shorter [of "tl s1" s2]
    by auto
next
  case (4 c s e s1)
  then show ?case
    using dropWhile_Cons_shorter [of token_byte s e s1] length_dropWhile [of token_byte s1] by simp
qed simp

definition parse_chunk_line :: "string \<Rightarrow> nat option" where
  "parse_chunk_line line =
     (case parse_hex (takeWhile (\<lambda>c. c \<noteq> CHR '';'') line) of None \<Rightarrow> None
      | Some n \<Rightarrow> if chunk_extensions (dropWhile (\<lambda>c. c \<noteq> CHR '';'') line) then Some n else None)"

section \<open>Header fields and start lines\<close>

datatype http1_framer_error =
    FramerNone | Midstream | FramerGap | Malformed | Unsupported | HeaderLimit | Incomplete
  | InvalidOutput | FramerAllocationFailed

datatype http1_version = Http10 | Http11
datatype http1_framing = NoBody | ContentLength | Chunked | CloseDelimited

record http1_message_head =
  mh_is_response :: bool
  mh_version :: http1_version
  mh_method :: "string option"
  mh_target :: "string option"
  mh_host :: "string option"
  mh_status_code :: "nat option"
  mh_framing :: http1_framing
  mh_complete_at_ns :: "int option"

definition empty_head :: http1_message_head where
  "empty_head = \<lparr>mh_is_response = False, mh_version = Http11, mh_method = None, mh_target = None,
     mh_host = None, mh_status_code = None, mh_framing = NoBody, mh_complete_at_ns = None\<rparr>"

definition parse_field :: "string \<Rightarrow> http1_framer_error + string \<times> string" where
  "parse_field line =
     (if line = [] \<or> ows (hd line) then Inl Malformed
      else
        let name = takeWhile (\<lambda>c. c \<noteq> CHR '':'') line;
            rest = dropWhile (\<lambda>c. c \<noteq> CHR '':'') line in
        if rest = [] \<or> name = [] then Inl Malformed
        else if \<not> list_all token_byte name then Inl Malformed
        else if \<not> list_all (\<lambda>c. c = tab \<or> printable c) (tl rest) then Inl Malformed
        else Inr (name, trim_ows (tl rest)))"

definition parse_status_line :: "string \<Rightarrow> http1_framer_error + http1_message_head" where
  "parse_status_line line =
     (let version = (if take 9 line = ''HTTP/1.0 '' then Some Http10
                     else if take 9 line = ''HTTP/1.1 '' then Some Http11 else None) in
      case version of None \<Rightarrow> Inl Unsupported
      | Some v \<Rightarrow>
          if length line < 12 then Inl Malformed
          else case parse_decimal (take 3 (drop 9 line)) of None \<Rightarrow> Inl Malformed
          | Some status \<Rightarrow>
              if status < 100 \<or> status > 599 then Inl Malformed
              else if length line > 12 \<and> line ! 12 \<noteq> CHR '' '' then Inl Malformed
              else if \<not> list_all printable (drop (min 13 (length line)) line) then Inl Malformed
              else Inr (empty_head\<lparr>mh_is_response := True, mh_version := v,
                                   mh_status_code := Some status\<rparr>))"

definition parse_request_line :: "string \<Rightarrow> http1_framer_error + http1_message_head" where
  "parse_request_line line =
     (let method = takeWhile (\<lambda>c. c \<noteq> CHR '' '') line;
          rest = dropWhile (\<lambda>c. c \<noteq> CHR '' '') line in
      if rest = [] \<or> method = [] then Inl Malformed
      else
        let target = takeWhile (\<lambda>c. c \<noteq> CHR '' '') (tl rest);
            rest' = dropWhile (\<lambda>c. c \<noteq> CHR '' '') (tl rest) in
        if rest' = [] \<or> target = [] then Inl Malformed
        else
          let version = (if tl rest' = ''HTTP/1.0'' then Some Http10
                         else if tl rest' = ''HTTP/1.1'' then Some Http11 else None) in
          case version of None \<Rightarrow> Inl Unsupported
          | Some v \<Rightarrow>
              if \<not> list_all token_byte method then Inl Malformed
              else if \<not> list_all (\<lambda>c. 33 \<le> byte_value c \<and> byte_value c \<le> 126) target then Inl Malformed
              else Inr (empty_head\<lparr>mh_version := v, mh_method := Some method,
                                   mh_target := Some (escape_display target)\<rparr>))"

definition parse_start_line :: "string \<Rightarrow> http1_framer_error + http1_message_head" where
  "parse_start_line line =
     (if take 5 line = ''HTTP/'' then parse_status_line line else parse_request_line line)"

section \<open>The framer\<close>

datatype http1_stage =
    StHeaders | StFixedBody | StChunkLine | StChunkBody | StChunkCr | StChunkLf | StTrailers
  | StCloseBody | StDisabled

record http1_framed_message =
  fm_message_id :: u64
  fm_head :: http1_message_head
  fm_headers_complete :: bool
  fm_body_complete :: bool

record http1_response_context =
  rc_request_is_head :: bool
  rc_request_is_connect :: bool

text \<open>
  The callback sees the messages already framed from the same event; an empty std::function is
  \<open>None\<close>.
\<close>

type_synonym http1_context = "(http1_framed_message list \<Rightarrow> http1_response_context) option"

record http1_framer =
  fr_max_header_bytes :: nat
  fr_stage :: http1_stage
  fr_started :: bool
  fr_control_bytes_seen :: nat
  fr_remaining :: nat
  fr_next_message_id :: u64
  fr_current_message_id :: u64
  fr_stop_after_current :: bool
  fr_header :: string
  fr_line :: string
  fr_current :: http1_message_head
  fr_header_clock :: "bool \<times> int option"

definition new_http1_framer :: "nat \<Rightarrow> http1_framer" where
  "new_http1_framer max_header_bytes =
     \<lparr>fr_max_header_bytes = max_header_bytes, fr_stage = StHeaders, fr_started = False,
      fr_control_bytes_seen = 0, fr_remaining = 0, fr_next_message_id = 1,
      fr_current_message_id = 0, fr_stop_after_current = False, fr_header = [], fr_line = [],
      fr_current = empty_head, fr_header_clock = (True, None)\<rparr>"

definition framer_fail ::
  "http1_framer_error \<Rightarrow> http1_framer \<Rightarrow> http1_framer_error \<times> http1_framer" where
  "framer_fail e f = (e, f\<lparr>fr_stage := StDisabled, fr_header := [], fr_line := [],
                           fr_current := empty_head\<rparr>)"

text \<open>The pair (header times known, latest header time) of the members with those names.\<close>

fun mark_header_time :: "int option \<Rightarrow> bool \<times> int option \<Rightarrow> bool \<times> int option" where
  "mark_header_time None (known, latest) = (False, latest)"
| "mark_header_time (Some t) (known, None) = (known, Some t)"
| "mark_header_time (Some t) (known, Some u) = (known, if u < t then Some t else Some u)"

interpretation header_clock: capture_clock mark_header_time
  by unfold_locales (auto split: option.split)

text \<open>Appends to the header bytes, or to the current chunk or trailer line.\<close>

definition append_control_byte ::
  "char \<Rightarrow> http1_framer \<Rightarrow> http1_framer_error \<times> http1_framer" where
  "append_control_byte b f =
     (if fr_control_bytes_seen f \<ge> fr_max_header_bytes f then framer_fail HeaderLimit f
      else
        let old = (if fr_stage f = StHeaders then fr_header f else fr_line f);
            f1 = f\<lparr>fr_control_bytes_seen := fr_control_bytes_seen f + 1\<rparr>;
            f2 = (if fr_stage f = StHeaders then f1\<lparr>fr_header := old @ [b]\<rparr>
                  else f1\<lparr>fr_line := old @ [b]\<rparr>) in
        if b = line_feed \<and> (old = [] \<or> last old \<noteq> carriage_return) then framer_fail Malformed f2
        else if old \<noteq> [] \<and> last old = carriage_return \<and> b \<noteq> line_feed then framer_fail Malformed f2
        else (FramerNone, f2))"

text \<open>Splits a text at its first CRLF.\<close>

fun split_crlf :: "string \<Rightarrow> (string \<times> string) option" where
  "split_crlf (a # b # s) =
     (if a = carriage_return \<and> b = line_feed then Some ([], s)
      else map_option (\<lambda>(l, r). (a # l, r)) (split_crlf (b # s)))"
| "split_crlf s = None"

lemma split_crlf_eq: "split_crlf s = Some (l, r) \<Longrightarrow> s = l @ crlf @ r"
  by (induction s arbitrary: l r rule: split_crlf.induct) (auto simp: crlf_def split: if_splits)

record header_scan =
  hs_host :: "string option"
  hs_content_length :: "nat option"
  hs_transfer_encoding :: "bool option"

text \<open>One header field: \<open>hs_transfer_encoding\<close> is whether the encoding seen is supported.\<close>

definition scan_field :: "string \<Rightarrow> string \<Rightarrow> header_scan \<Rightarrow> header_scan option" where
  "scan_field name value h =
     (if equals_ascii_no_case name ''host'' then
        (if hs_host h \<noteq> None then None else Some (h\<lparr>hs_host := Some (escape_display value)\<rparr>))
      else if equals_ascii_no_case name ''content-length'' then
        (if hs_content_length h \<noteq> None then None
         else map_option (\<lambda>n. h\<lparr>hs_content_length := Some n\<rparr>) (parse_decimal value))
      else if equals_ascii_no_case name ''transfer-encoding'' then
        (if hs_transfer_encoding h \<noteq> None then None
         else Some (h\<lparr>hs_transfer_encoding := Some (equals_ascii_no_case value ''chunked'')\<rparr>))
      else Some h)"

function scan_fields :: "string \<Rightarrow> header_scan \<Rightarrow> header_scan option" where
  "scan_fields text h =
     (if length text \<le> 2 then Some h
      else case split_crlf text of None \<Rightarrow> None
      | Some (line, rest) \<Rightarrow>
          if line = [] then None
          else case parse_field line of Inl e \<Rightarrow> None
          | Inr (name, value) \<Rightarrow>
              (case scan_field name value h of None \<Rightarrow> None | Some h' \<Rightarrow> scan_fields rest h'))"
  by pat_completeness auto
termination
  by (relation "measure (\<lambda>(text, h). length text)") (auto dest!: split_crlf_eq simp: crlf_def)

declare scan_fields.simps [simp del]

definition finish_message ::
  "http1_framer \<Rightarrow> http1_framed_message list \<Rightarrow> http1_framer \<times> http1_framed_message list" where
  "finish_message f ms =
     (f\<lparr>fr_current := empty_head, fr_current_message_id := 0,
        fr_stage := (if fr_stop_after_current f then StCloseBody else StHeaders),
        fr_stop_after_current := False, fr_control_bytes_seen := 0, fr_header_clock := (True, None)\<rparr>,
      ms @ [\<lparr>fm_message_id = fr_current_message_id f, fm_head = empty_head,
             fm_headers_complete = False, fm_body_complete = True\<rparr>])"

text \<open>Whether the head, parsed and with the answer of the callback, ends the HTTP part of the stream.\<close>

definition connect_tunnel :: "http1_response_context \<Rightarrow> http1_message_head \<Rightarrow> bool" where
  "connect_tunnel request head = (let status = (case mh_status_code head of None \<Rightarrow> 0 | Some s \<Rightarrow> s) in
     rc_request_is_connect request \<and> status \<ge> 200 \<and> status < 300)"

definition select_framing ::
  "http1_response_context \<Rightarrow> header_scan \<Rightarrow> http1_message_head \<Rightarrow> http1_framing" where
  "select_framing request h head =
     (let status = (case mh_status_code head of None \<Rightarrow> 0 | Some s \<Rightarrow> s) in
      if mh_is_response head \<and> (rc_request_is_head request \<or> connect_tunnel request head \<or> status < 200
           \<or> status = 204 \<or> status = 205 \<or> status = 304) then NoBody
      else if hs_transfer_encoding h \<noteq> None then Chunked
      else if hs_content_length h \<noteq> None then ContentLength
      else if mh_is_response head then CloseDelimited else NoBody)"

type_synonym framer_result = "http1_framer_error \<times> http1_framer \<times> http1_framed_message list"

definition fail_with :: "http1_framer_error \<Rightarrow> http1_framer \<Rightarrow> http1_framed_message list \<Rightarrow> framer_result" where
  "fail_with e f ms = (case framer_fail e f of (e, f') \<Rightarrow> (e, f', ms))"

text \<open>The tail of ParseHeaders, once the fields are known to be consistent.\<close>

definition accept_headers ::
  "http1_context \<Rightarrow> http1_message_head \<Rightarrow> header_scan \<Rightarrow> http1_framer \<Rightarrow> http1_framed_message list
    \<Rightarrow> framer_result" where
  "accept_headers ctx start h f ms =
     (let head0 = start\<lparr>mh_host := hs_host h, mh_complete_at_ns := clock_reading (fr_header_clock f)\<rparr>;
          request = (case ctx of Some callback \<Rightarrow>
                        if mh_is_response head0 then callback ms
                        else \<lparr>rc_request_is_head = False, rc_request_is_connect = False\<rparr>
                     | None \<Rightarrow> \<lparr>rc_request_is_head = False, rc_request_is_connect = False\<rparr>);
          head = head0\<lparr>mh_framing := select_framing request h head0\<rparr>;
          f1 = f\<lparr>fr_stop_after_current := (mh_is_response head0 \<and>
                   (mh_status_code head0 = Some 101 \<or> connect_tunnel request head0)),
                 fr_current := head, fr_header := []\<rparr> in
      if fr_next_message_id f1 = 0 then fail_with Unsupported f1 ms
      else
        let f2 = f1\<lparr>fr_current_message_id := fr_next_message_id f1,
                    fr_next_message_id := fr_next_message_id f1 + 1\<rparr>;
            ms2 = ms @ [\<lparr>fm_message_id = fr_current_message_id f2, fm_head = head,
                         fm_headers_complete = True, fm_body_complete = False\<rparr>] in
        if mh_framing head = NoBody \<or> mh_framing head = ContentLength \<and> hs_content_length h = Some 0
        then (case finish_message f2 ms2 of (f3, ms3) \<Rightarrow> (FramerNone, f3, ms3))
        else if mh_framing head = ContentLength
        then (FramerNone, f2\<lparr>fr_remaining := (case hs_content_length h of None \<Rightarrow> 0 | Some n \<Rightarrow> n),
                             fr_stage := StFixedBody\<rparr>, ms2)
        else if mh_framing head = Chunked then (FramerNone, f2\<lparr>fr_stage := StChunkLine\<rparr>, ms2)
        else (FramerNone, f2\<lparr>fr_stage := StCloseBody\<rparr>, ms2))"

definition parse_headers ::
  "http1_context \<Rightarrow> http1_framer \<Rightarrow> http1_framed_message list \<Rightarrow> framer_result" where
  "parse_headers ctx f ms =
     (case split_crlf (fr_header f) of None \<Rightarrow> fail_with Malformed f ms
      | Some (line, rest) \<Rightarrow>
          if line = [] then fail_with Malformed f ms
          else case parse_start_line line of Inl e \<Rightarrow> fail_with e f ms
          | Inr start \<Rightarrow>
              (case scan_fields rest \<lparr>hs_host = None, hs_content_length = None,
                                     hs_transfer_encoding = None\<rparr> of
                 None \<Rightarrow> fail_with Malformed f ms
               | Some h \<Rightarrow>
                   if hs_content_length h \<noteq> None \<and> hs_transfer_encoding h \<noteq> None
                   then fail_with Malformed f ms
                   else if hs_transfer_encoding h = Some False then fail_with Unsupported f ms
                   else accept_headers ctx start h f ms))"

text \<open>A complete chunk or trailer line, in \<open>fr_line\<close> without its CRLF.\<close>

definition handle_line ::
  "string \<Rightarrow> http1_framer \<Rightarrow> http1_framed_message list \<Rightarrow> framer_result" where
  "handle_line content f ms =
     (if fr_stage f = StChunkLine then
        (case parse_chunk_line content of None \<Rightarrow> fail_with Malformed f ms
         | Some n \<Rightarrow> (FramerNone, f\<lparr>fr_stage := (if n = 0 then StTrailers else StChunkBody),
                                    fr_remaining := n, fr_line := []\<rparr>, ms))
      else if content = [] then
        (case finish_message (f\<lparr>fr_line := []\<rparr>) ms of (f', ms') \<Rightarrow> (FramerNone, f', ms'))
      else
        (case parse_field content of Inl e \<Rightarrow> fail_with Malformed f ms
         | Inr _ \<Rightarrow> (FramerNone, f\<lparr>fr_line := []\<rparr>, ms)))"

text \<open>One byte outside a body: the part of the loop after the body stages.\<close>

definition control_step ::
  "int option \<Rightarrow> http1_context \<Rightarrow> char \<Rightarrow> http1_framer \<Rightarrow> http1_framed_message list \<Rightarrow> framer_result" where
  "control_step captured ctx b f ms =
     (if fr_stage f = StChunkCr then
        (if b \<noteq> carriage_return then fail_with Malformed f ms
         else (FramerNone, f\<lparr>fr_stage := StChunkLf\<rparr>, ms))
      else if fr_stage f = StChunkLf then
        (if b \<noteq> line_feed then fail_with Malformed f ms
         else (FramerNone, f\<lparr>fr_stage := StChunkLine\<rparr>, ms))
      else
        (case append_control_byte b f of (e, f1) \<Rightarrow>
         if e \<noteq> FramerNone then (e, f1, ms)
         else if fr_stage f1 = StHeaders then
           (let f2 = f1\<lparr>fr_header_clock := mark_header_time captured (fr_header_clock f1)\<rparr>;
                n = length (fr_header f2) in
            if n \<ge> 4 \<and> drop (n - 4) (fr_header f2) = crlf @ crlf then parse_headers ctx f2 ms
            else (FramerNone, f2, ms))
         else
           (let n = length (fr_line f1) in
            if n \<ge> 2 \<and> drop (n - 2) (fr_line f1) = crlf
            then handle_line (take (n - 2) (fr_line f1)) f1 ms
            else (FramerNone, f1, ms))))"

definition in_body :: "http1_framer \<Rightarrow> bool" where
  "in_body f \<longleftrightarrow> fr_stage f = StFixedBody \<or> fr_stage f = StChunkBody"

text \<open>Skips body bytes; at the end of a fixed body the message is complete.\<close>

definition body_step ::
  "nat \<Rightarrow> http1_framer \<Rightarrow> http1_framed_message list \<Rightarrow> http1_framer \<times> http1_framed_message list" where
  "body_step count f ms =
     (let f1 = f\<lparr>fr_remaining := fr_remaining f - count\<rparr> in
      if fr_remaining f1 = 0 then
        (if fr_stage f1 = StFixedBody then finish_message f1 ms
         else (f1\<lparr>fr_stage := StChunkCr\<rparr>, ms))
      else (f1, ms))"

lemma body_step_leaves: "fr_remaining f \<le> count \<Longrightarrow> \<not> in_body (fst (body_step count f ms))"
  by (simp add: body_step_def finish_message_def in_body_def Let_def)

lemma in_body_body_step: "in_body f \<Longrightarrow> \<not> fr_remaining f \<le> count \<Longrightarrow>
    body_step count f ms = (f\<lparr>fr_remaining := fr_remaining f - count\<rparr>, ms)"
  by (simp add: body_step_def Let_def)

function consume_loop ::
  "int option \<Rightarrow> http1_context \<Rightarrow> string \<Rightarrow> http1_framer \<Rightarrow> http1_framed_message list
    \<Rightarrow> framer_result" where
  "consume_loop captured ctx bytes f ms =
     (if bytes = [] then (FramerNone, f, ms)
      else if fr_stage f = StCloseBody then (FramerNone, f, ms)
      else if in_body f then
        (let count = min (fr_remaining f) (length bytes); r = body_step count f ms in
         consume_loop captured ctx (drop count bytes) (fst r) (snd r))
      else
        (case control_step captured ctx (hd bytes) f ms of (e, f', ms') \<Rightarrow>
           if e \<noteq> FramerNone then (e, f', ms')
           else consume_loop captured ctx (tl bytes) f' ms'))"
  by pat_completeness auto
termination
proof (relation "measure (\<lambda>(captured, ctx, bytes, f, ms). 2 * length bytes + (if in_body f then 1 else 0))",
    goal_cases)
  case (2 captured ctx bytes f ms count r)
  show ?case
  proof (cases "fr_remaining f = 0")
    case True
    then show ?thesis using 2 body_step_leaves [of f count ms] by (simp add: case_prod_unfold)
  next
    case False
    with 2 have "0 < count" "count \<le> length bytes" by auto
    then show ?thesis using 2 by (auto simp: case_prod_unfold split: if_splits)
  qed
next
  case (3 captured ctx bytes f ms e p f' ms')
  then show ?case by (cases bytes) auto
qed simp

declare consume_loop.simps [simp del]

definition framer_consume_bytes ::
  "tcp_stream_origin \<Rightarrow> string \<Rightarrow> int option \<Rightarrow> http1_context \<Rightarrow> http1_framer
    \<Rightarrow> http1_framed_message list option \<Rightarrow> http1_framer_error \<times> http1_framer \<times> http1_framed_message list option" where
  "framer_consume_bytes origin bytes captured ctx f messages =
     (case messages of None \<Rightarrow> (InvalidOutput, f, None)
      | Some ms \<Rightarrow>
          if fr_stage f = StDisabled then (Incomplete, f, Some ms)
          else if \<not> fr_started f \<and> origin \<noteq> OriginSyn then
            (case fail_with Midstream f ms of (e, f', ms') \<Rightarrow> (e, f', Some ms'))
          else
            (case consume_loop captured ctx bytes (f\<lparr>fr_started := True\<rparr>) ms of
               (e, f', ms') \<Rightarrow> (e, f', Some ms')))"

definition framer_on_gap :: "http1_framer \<Rightarrow> http1_framer_error \<times> http1_framer" where
  "framer_on_gap f = framer_fail FramerGap f"

definition framer_on_end ::
  "http1_framer \<Rightarrow> http1_framed_message list option
    \<Rightarrow> http1_framer_error \<times> http1_framer \<times> http1_framed_message list option" where
  "framer_on_end f messages =
     (if fr_stage f = StDisabled then (FramerNone, f, messages)
      else case messages of None \<Rightarrow> (InvalidOutput, f, None)
      | Some ms \<Rightarrow>
          if fr_stage f = StCloseBody then
            (FramerNone, f\<lparr>fr_stage := StDisabled\<rparr>,
             Some (if fr_current_message_id f \<noteq> 0
                   then ms @ [\<lparr>fm_message_id = fr_current_message_id f, fm_head = empty_head,
                               fm_headers_complete = False, fm_body_complete = True\<rparr>]
                   else ms))
          else if fr_stage f = StHeaders \<and> fr_header f = [] then
            (FramerNone, f\<lparr>fr_stage := StDisabled\<rparr>, Some ms)
          else (case fail_with Incomplete f ms of (e, f', ms') \<Rightarrow> (e, f', Some ms')))"

definition text_of_bytes :: "u8 list \<Rightarrow> string" where
  "text_of_bytes bs = map (\<lambda>b. char_of (unat b)) bs"

definition framer_consume ::
  "tcp_stream_event \<Rightarrow> tcp_stream_origin \<Rightarrow> http1_context \<Rightarrow> http1_framer
    \<Rightarrow> http1_framed_message list option
    \<Rightarrow> http1_framer_error \<times> http1_framer \<times> http1_framed_message list option" where
  "framer_consume event origin ctx f messages =
     (case ev_kind event of
        EventGap \<Rightarrow> (case framer_on_gap f of (e, f') \<Rightarrow> (e, f', messages))
      | EventEnd \<Rightarrow> framer_on_end f messages
      | EventData \<Rightarrow>
          (case span_data (ev_bytes event) of
             None \<Rightarrow> (case framer_fail Malformed f of (e, f') \<Rightarrow> (e, f', messages))
           | Some bs \<Rightarrow>
               if span_size (ev_bytes event) = 0
               then (case framer_fail Malformed f of (e, f') \<Rightarrow> (e, f', messages))
               else framer_consume_bytes origin (text_of_bytes bs) (ev_captured_at_ns event) ctx f
                      messages))"

definition framer_disabled :: "http1_framer \<Rightarrow> bool" where
  "framer_disabled f \<longleftrightarrow> fr_stage f = StDisabled"

definition framer_retained_bytes :: "http1_framer \<Rightarrow> nat" where
  "framer_retained_bytes f = length (fr_header f) + length (fr_line f)"

end
