(* ===== verification/Http1FramerProps.thy ===== *)
theory Http1FramerProps
  imports Http1Framer
begin

text \<open>
  Properties of the HTTP/1 framer: number parsing against the value of the digits, bounded
  retention, independence of TCP segmentation, the sequence of framed messages, and the round
  trip of the chunked coding.
\<close>

section \<open>Numbers\<close>

text \<open>The value a digit string denotes in a base, and the parser that guards each step.\<close>

definition digits_value :: "nat \<Rightarrow> nat \<Rightarrow> nat list \<Rightarrow> nat" where
  "digits_value radix acc ds = foldl (\<lambda>n d. n * radix + d) acc ds"

lemma digits_value_simps [simp]:
  "digits_value radix acc [] = acc"
  "digits_value radix acc (d # ds) = digits_value radix (acc * radix + d) ds"
  "digits_value radix acc (ds @ [d]) = digits_value radix acc ds * radix + d"
  by (simp_all add: digits_value_def)

lemma digits_value_ge: "0 < radix \<Longrightarrow> acc \<le> digits_value radix acc ds"
proof (induction ds arbitrary: acc)
  case (Cons d ds)
  then have "acc * radix + d \<le> digits_value radix (acc * radix + d) ds" by blast
  moreover have "acc \<le> acc * radix" using Cons.prems by simp
  ultimately show ?case unfolding digits_value_simps by linarith
qed simp

lemma guard_step:
  fixes n d m radix :: nat
  assumes "0 < radix" "d \<le> m"
  shows "n > (m - d) div radix \<longleftrightarrow> n * radix + d > m"
  unfolding div_less_iff_less_mult [OF assms(1)] using assms(2) by linarith

definition decimal_digits :: "string \<Rightarrow> nat list option" where
  "decimal_digits s = (if list_all (\<lambda>c. 48 \<le> byte_value c \<and> byte_value c \<le> 57) s
     then Some (map (\<lambda>c. byte_value c - 48) s) else None)"

definition hex_digits :: "string \<Rightarrow> nat list option" where
  "hex_digits s = (if list_all (\<lambda>c. hex_digit c \<noteq> None) s
     then Some (map (\<lambda>c. the (hex_digit c)) s) else None)"

lemma parse_decimal_loop_value:
  "n \<le> u64_max \<Longrightarrow> parse_decimal_loop n s =
     (case decimal_digits s of None \<Rightarrow> None
      | Some ds \<Rightarrow> if digits_value 10 n ds \<le> u64_max then Some (digits_value 10 n ds) else None)"
proof (induction s arbitrary: n)
  case (Cons c s)
  show ?case
  proof (cases "48 \<le> byte_value c \<and> byte_value c \<le> 57")
    case True
    let ?d = "byte_value c - 48"
    have d: "?d \<le> u64_max" using True unfolding u64_max_def by linarith
    show ?thesis
    proof (cases "n * 10 + ?d \<le> u64_max")
      case le: True
      then show ?thesis
        using Cons.IH [OF le] True guard_step [of 10 ?d u64_max n] d
        by (auto simp: decimal_digits_def Let_def)
    next
      case False
      then have "\<not> digits_value 10 (n * 10 + ?d) ds \<le> u64_max" for ds
        using digits_value_ge [of 10 "n * 10 + ?d" ds] by simp
      then show ?thesis
        using True False guard_step [of 10 ?d u64_max n] d
        by (auto simp: decimal_digits_def Let_def)
    qed
  qed (auto simp: decimal_digits_def)
qed (simp add: decimal_digits_def)

lemma hex_digit_le: "hex_digit c = Some d \<Longrightarrow> d < 16"
  by (auto simp: hex_digit_def Let_def split: if_splits)

lemma parse_hex_loop_value:
  "n \<le> u64_max \<Longrightarrow> parse_hex_loop n s =
     (case hex_digits s of None \<Rightarrow> None
      | Some ds \<Rightarrow> if digits_value 16 n ds \<le> u64_max then Some (digits_value 16 n ds) else None)"
proof (induction s arbitrary: n)
  case (Cons c s)
  show ?case
  proof (cases "hex_digit c")
    case (Some d)
    have d: "d \<le> u64_max" using hex_digit_le [OF Some] unfolding u64_max_def by linarith
    show ?thesis
    proof (cases "n * 16 + d \<le> u64_max")
      case le: True
      then show ?thesis
        using Cons.IH [OF le] Some guard_step [of 16 d u64_max n] d
        by (auto simp: hex_digits_def)
    next
      case False
      then have "\<not> digits_value 16 (n * 16 + d) ds \<le> u64_max" for ds
        using digits_value_ge [of 16 "n * 16 + d" ds] by simp
      then show ?thesis
        using Some False guard_step [of 16 d u64_max n] d
        by (auto simp: hex_digits_def)
    qed
  qed (auto simp: hex_digits_def)
qed (simp add: hex_digits_def)

lemma u64_max_ge_0: "0 \<le> u64_max"
  by simp

text \<open>
  ParseDecimal and ParseHex accept exactly the non-empty digit strings whose value fits into
  64 bits, and return that value: the guarded accumulation neither overflows nor rejects too much.
\<close>

theorem http1_numbers_exact:
  "parse_decimal s = (case decimal_digits s of None \<Rightarrow> None
     | Some ds \<Rightarrow> if s \<noteq> [] \<and> digits_value 10 0 ds \<le> u64_max then Some (digits_value 10 0 ds) else None) \<and>
   parse_hex s = (case hex_digits s of None \<Rightarrow> None
     | Some ds \<Rightarrow> if s \<noteq> [] \<and> digits_value 16 0 ds \<le> u64_max then Some (digits_value 16 0 ds) else None)"
  using parse_decimal_loop_value [OF u64_max_ge_0, of s] parse_hex_loop_value [OF u64_max_ge_0, of s]
  by (auto simp: parse_decimal_def parse_hex_def split: option.split)

section \<open>Segmentation\<close>

lemma drop_append_min:
  "drop (min n (length (xs @ ys))) (xs @ ys) =
     drop (min n (length xs)) xs @ drop (min (n - length xs) (length ys)) ys"
  by (auto simp: min_def)

lemma body_step_split:
  assumes "in_body f" "length xs < fr_remaining f"
  shows "body_step (min (fr_remaining f) (length xs + n)) f ms =
    body_step (min (fr_remaining f - length xs) n) (f\<lparr>fr_remaining := fr_remaining f - length xs\<rparr>) ms"
  using assms by (auto simp: body_step_def Let_def min_def finish_message_def)

lemma consume_loop_append:
  "consume_loop captured ctx (xs @ ys) f ms =
     (case consume_loop captured ctx xs f ms of (e, f', ms') \<Rightarrow>
        if e \<noteq> FramerNone then (e, f', ms') else consume_loop captured ctx ys f' ms')"
proof (induction captured ctx xs f ms rule: consume_loop.induct)
  case (1 captured ctx xs f ms)
  consider (nil) "xs = []" | (close) "xs \<noteq> []" "fr_stage f = StCloseBody"
    | (body) "xs \<noteq> []" "fr_stage f \<noteq> StCloseBody" "in_body f"
    | (control) "xs \<noteq> []" "fr_stage f \<noteq> StCloseBody" "\<not> in_body f"
    by blast
  then show ?case
  proof cases
    case nil
    then show ?thesis by (simp add: consume_loop.simps [of captured ctx "[]"])
  next
    case close
    then show ?thesis
      by (simp add: consume_loop.simps [of captured ctx xs] consume_loop.simps [of captured ctx ys]
          consume_loop.simps [of captured ctx "xs @ ys"])
  next
    case control
    then show ?thesis
      using "1.IH"(2) [OF control]
      by (auto simp: consume_loop.simps [of captured ctx xs] consume_loop.simps [of captured ctx "xs @ ys"]
          split: prod.split)
  next
    case body
    let ?n = "fr_remaining f"
    show ?thesis
    proof (cases "?n \<le> length xs")
      case True
      then show ?thesis
        using "1.IH"(1) [OF body refl refl] body
        by (simp add: consume_loop.simps [of captured ctx xs] consume_loop.simps [of captured ctx "xs @ ys"]
            min_absorb1 Let_def)
    next
      case False
      let ?f = "f\<lparr>fr_remaining := ?n - length xs\<rparr>"
      have xs: "consume_loop captured ctx xs f ms = (FramerNone, ?f, ms)"
        using False body in_body_body_step [of f "length xs" ms]
        by (simp add: consume_loop.simps [of captured ctx xs] consume_loop.simps [of captured ctx "[]"]
            Let_def min_absorb2)
      show ?thesis
      proof (cases "ys = []")
        case True
        then show ?thesis
          using xs by (simp add: consume_loop.simps [of captured ctx "[]" ?f])
      next
        case ys: False
        have f: "in_body ?f" "fr_stage ?f \<noteq> StCloseBody" using body by (auto simp: in_body_def)
        have "consume_loop captured ctx (xs @ ys) f ms = consume_loop captured ctx ys ?f ms"
        proof -
          have "drop (min ?n (length (xs @ ys))) (xs @ ys) = drop (min (fr_remaining ?f) (length ys)) ys"
            using False drop_append_min [of ?n xs ys] by simp
          moreover have "body_step (min ?n (length (xs @ ys))) f ms =
              body_step (min (fr_remaining ?f) (length ys)) ?f ms"
            using body_step_split [of f xs "length ys" ms] body(3) False by simp
          ultimately show ?thesis
            using body ys f
            by (simp only: consume_loop.simps [of captured ctx "xs @ ys"]
                consume_loop.simps [of captured ctx ys ?f] Let_def append_is_Nil_conv if_True if_False simp_thms)
        qed
        then show ?thesis using xs by simp
      qed
    qed
  qed
qed

text \<open>
  C6. Framing does not depend on TCP segmentation: consuming the bytes of two segments at once,
  with one capture time, gives the same error, state and messages as consuming them one after
  the other, wherever the cut falls, also inside a line, a CRLF or a body.
\<close>

theorem http1_segmentation_independent:
  "consume_loop captured ctx (xs @ ys) f ms =
     (case consume_loop captured ctx xs f ms of (e, f', ms') \<Rightarrow>
        if e \<noteq> FramerNone then (e, f', ms') else consume_loop captured ctx ys f' ms')"
  by (rule consume_loop_append)

section \<open>The invariant\<close>

text \<open>
  The consumer's view of the messages: the next message id and the id of the message whose body
  is open (0: none). A header opens the next id, a body closes the open one.
\<close>

definition track_message ::
  "http1_framed_message \<Rightarrow> (u64 \<times> u64) option \<Rightarrow> (u64 \<times> u64) option" where
  "track_message m st = (case st of None \<Rightarrow> None
     | Some (nxt, opened) \<Rightarrow>
         if fm_headers_complete m \<and> \<not> fm_body_complete m then
           (if opened = 0 \<and> nxt \<noteq> 0 \<and> fm_message_id m = nxt then Some (nxt + 1, nxt) else None)
         else if fm_body_complete m \<and> \<not> fm_headers_complete m then
           (if opened \<noteq> 0 \<and> fm_message_id m = opened then Some (nxt, 0) else None)
         else None)"

definition track_messages ::
  "http1_framed_message list \<Rightarrow> (u64 \<times> u64) option \<Rightarrow> (u64 \<times> u64) option" where
  "track_messages ms st = fold track_message ms st"

lemma track_messages_simps [simp]:
  "track_messages [] st = st"
  "track_messages (ms @ [m]) st = track_message m (track_messages ms st)"
  by (simp_all add: track_messages_def)

definition live_framer :: "(u64 \<times> u64) option \<Rightarrow> http1_framer \<Rightarrow> http1_framed_message list \<Rightarrow> bool" where
  "live_framer st f ms \<longleftrightarrow> fr_stage f \<noteq> StDisabled \<and>
     track_messages ms st = Some (fr_next_message_id f, fr_current_message_id f) \<and>
     length (fr_header f) + length (fr_line f) \<le> fr_control_bytes_seen f \<and>
     fr_control_bytes_seen f \<le> fr_max_header_bytes f \<and>
     (fr_stage f = StHeaders \<longrightarrow> fr_line f = [] \<and> fr_current_message_id f = 0) \<and>
     (fr_stage f \<noteq> StHeaders \<longrightarrow> fr_header f = []) \<and>
     (fr_stage f \<notin> {StHeaders, StCloseBody} \<longrightarrow> fr_current_message_id f \<noteq> 0) \<and>
     (fr_stage f \<notin> {StChunkLine, StTrailers} \<longrightarrow> fr_line f = [])"

definition disabled_framer :: "(u64 \<times> u64) option \<Rightarrow> http1_framer \<Rightarrow> http1_framed_message list \<Rightarrow> bool" where
  "disabled_framer st f ms \<longleftrightarrow> fr_stage f = StDisabled \<and> fr_header f = [] \<and> fr_line f = [] \<and>
     track_messages ms st \<noteq> None"

text \<open>Results: an error leaves a disabled framer, success a live one, both with the limit kept.\<close>

definition framed :: "(u64 \<times> u64) option \<Rightarrow> nat \<Rightarrow> framer_result \<Rightarrow> bool" where
  "framed st lim r \<longleftrightarrow> (case r of (e, f, ms) \<Rightarrow> fr_max_header_bytes f = lim \<and>
     (if e = FramerNone then live_framer st f ms else disabled_framer st f ms))"

lemma framed_fail:
  assumes "track_messages ms st \<noteq> None" "e \<noteq> FramerNone" "fr_max_header_bytes f = lim"
  shows "framed st lim (fail_with e f ms)"
  using assms by (simp add: fail_with_def framer_fail_def framed_def disabled_framer_def)

lemma finish_message_live:
  assumes "track_messages ms st = Some (fr_next_message_id f, fr_current_message_id f)"
    "fr_current_message_id f \<noteq> 0" "fr_header f = []" "fr_line f = []"
  shows "live_framer st (fst (finish_message f ms)) (snd (finish_message f ms))"
  using assms by (simp add: finish_message_def live_framer_def track_message_def)

lemma finish_message_limit [simp]:
  "fr_max_header_bytes (fst (finish_message f ms)) = fr_max_header_bytes f"
  by (simp add: finish_message_def)

lemma framed_ok [simp]:
  "framed st lim (FramerNone, f, ms) \<longleftrightarrow> fr_max_header_bytes f = lim \<and> live_framer st f ms"
  by (simp add: framed_def)

lemma framed_finish:
  assumes "live_framer st (fst (finish_message f ms)) (snd (finish_message f ms))"
    "fr_max_header_bytes f = lim"
  shows "framed st lim (case finish_message f ms of (f', ms') \<Rightarrow> (FramerNone, f', ms'))"
  using assms by (cases "finish_message f ms") (metis finish_message_limit framed_ok fst_conv prod.case snd_conv)

lemma framed_ifI:
  "(b \<Longrightarrow> framed st lim r) \<Longrightarrow> (\<not> b \<Longrightarrow> framed st lim r') \<Longrightarrow> framed st lim (if b then r else r')"
  by simp

lemma body_step_live:
  assumes "live_framer st f ms" "in_body f"
  shows "live_framer st (fst (body_step n f ms)) (snd (body_step n f ms)) \<and>
    fr_max_header_bytes (fst (body_step n f ms)) = fr_max_header_bytes f"
proof (cases "fr_remaining f \<le> n \<and> fr_stage f = StFixedBody")
  case True
  then have "body_step n f ms = finish_message (f\<lparr>fr_remaining := fr_remaining f - n\<rparr>) ms"
    by (simp add: body_step_def Let_def)
  moreover have "live_framer st (fst (finish_message (f\<lparr>fr_remaining := fr_remaining f - n\<rparr>) ms))
      (snd (finish_message (f\<lparr>fr_remaining := fr_remaining f - n\<rparr>) ms))"
    by (rule finish_message_live) (use assms True in \<open>auto simp: live_framer_def\<close>)
  ultimately show ?thesis by simp
next
  case False
  with assms show ?thesis
    by (auto simp: body_step_def Let_def live_framer_def in_body_def)
qed

lemma accept_headers_framed:
  assumes live: "live_framer st f ms" "fr_stage f = StHeaders"
  shows "framed st (fr_max_header_bytes f) (accept_headers ctx start h f ms)"
proof -
  have l: "track_messages ms st = Some (fr_next_message_id f, 0)" "fr_line f = []"
    "fr_control_bytes_seen f \<le> fr_max_header_bytes f"
    using live by (auto simp: live_framer_def)
  have open_body: "live_framer st (f\<lparr>fr_stop_after_current := b, fr_current := hd, fr_header := [],
        fr_current_message_id := fr_next_message_id f, fr_next_message_id := fr_next_message_id f + 1,
        fr_remaining := n, fr_stage := s\<rparr>)
      (ms @ [\<lparr>fm_message_id = fr_next_message_id f, fm_head = hd, fm_headers_complete = True,
              fm_body_complete = False\<rparr>])"
    if "fr_next_message_id f \<noteq> 0" "s \<noteq> StHeaders" "s \<noteq> StDisabled" for b hd n s
    using that l by (simp add: live_framer_def track_message_def)
  have open_body': "live_framer st (f\<lparr>fr_stop_after_current := b, fr_current := hd, fr_header := [],
        fr_current_message_id := fr_next_message_id f, fr_next_message_id := fr_next_message_id f + 1,
        fr_stage := s\<rparr>)
      (ms @ [\<lparr>fm_message_id = fr_next_message_id f, fm_head = hd, fm_headers_complete = True,
              fm_body_complete = False\<rparr>])"
    if "fr_next_message_id f \<noteq> 0" "s \<noteq> StHeaders" "s \<noteq> StDisabled" for b hd s
    using that l by (simp add: live_framer_def track_message_def)
  have closed: "live_framer st (fst (finish_message g gs)) (snd (finish_message g gs))"
    if "g = f\<lparr>fr_stop_after_current := b, fr_current := hd, fr_header := [],
        fr_current_message_id := fr_next_message_id f, fr_next_message_id := fr_next_message_id f + 1\<rparr>"
      "gs = ms @ [\<lparr>fm_message_id = fr_next_message_id f, fm_head = hd, fm_headers_complete = True,
              fm_body_complete = False\<rparr>]" "fr_next_message_id f \<noteq> 0" for b hd g gs
    by (rule finish_message_live) (use that l in \<open>simp_all add: track_message_def\<close>)
  show ?thesis
    unfolding accept_headers_def Let_def
    by (intro framed_ifI framed_fail framed_finish)
      (use open_body open_body' l(1) in \<open>auto intro!: closed\<close>)
qed

lemma parse_headers_framed:
  assumes live: "live_framer st f ms" "fr_stage f = StHeaders"
  shows "framed st (fr_max_header_bytes f) (parse_headers ctx f ms)"
proof -
  have "track_messages ms st \<noteq> None" using live by (auto simp: live_framer_def)
  then have fail: "framed st (fr_max_header_bytes f) (fail_with e f ms)" if "e \<noteq> FramerNone" for e
    using that by (intro framed_fail) auto
  have start: "e \<noteq> FramerNone" if "parse_start_line line = Inl e" for line e
    using that by (auto simp: parse_start_line_def parse_status_line_def parse_request_line_def Let_def
        split: if_splits option.splits)
  show ?thesis
    unfolding parse_headers_def
    using accept_headers_framed [OF live]
    by (auto intro!: fail dest: start split: option.split sum.split)
qed

lemma handle_line_framed:
  assumes live: "live_framer st f ms" "fr_stage f = StChunkLine \<or> fr_stage f = StTrailers"
  shows "framed st (fr_max_header_bytes f) (handle_line content f ms)"
proof -
  have "track_messages ms st \<noteq> None" using live by (auto simp: live_framer_def)
  then have fail: "framed st (fr_max_header_bytes f) (fail_with Malformed f ms)"
    by (intro framed_fail) auto
  have fin: "live_framer st (fst (finish_message (f\<lparr>fr_line := []\<rparr>) ms)) (snd (finish_message (f\<lparr>fr_line := []\<rparr>) ms))"
    by (rule finish_message_live) (use live in \<open>auto simp: live_framer_def\<close>)
  have stay: "live_framer st (f\<lparr>fr_stage := s, fr_remaining := n, fr_line := []\<rparr>) ms"
    if "s \<in> {StTrailers, StChunkBody}" for s n
    using live that by (auto simp: live_framer_def)
  have stay': "live_framer st (f\<lparr>fr_line := []\<rparr>) ms"
    using live by (auto simp: live_framer_def)
  show ?thesis
    unfolding handle_line_def
    by (intro framed_ifI framed_finish)
      (use fin fail stay stay' in \<open>auto split: option.split sum.split\<close>)
qed

lemma append_control_byte_cases:
  assumes live: "live_framer st f ms" and s: "fr_stage f \<in> {StHeaders, StChunkLine, StTrailers}"
    and app: "append_control_byte b f = (e, f')"
  shows "fr_max_header_bytes f' = fr_max_header_bytes f \<and>
    (if e = FramerNone then live_framer st f' ms \<and> fr_stage f' = fr_stage f else disabled_framer st f' ms)"
proof -
  let ?g = "if fr_stage f = StHeaders
      then f\<lparr>fr_control_bytes_seen := fr_control_bytes_seen f + 1, fr_header := fr_header f @ [b]\<rparr>
      else f\<lparr>fr_control_bytes_seen := fr_control_bytes_seen f + 1, fr_line := fr_line f @ [b]\<rparr>"
  have g: "live_framer st ?g ms" "fr_stage ?g = fr_stage f"
    "fr_max_header_bytes ?g = fr_max_header_bytes f"
    if "\<not> fr_control_bytes_seen f \<ge> fr_max_header_bytes f"
    using live s that by (auto simp: live_framer_def)
  have t: "track_messages ms st \<noteq> None" using live by (auto simp: live_framer_def)
  show ?thesis
  proof (cases "fr_control_bytes_seen f \<ge> fr_max_header_bytes f")
    case True
    with app t show ?thesis
      by (auto simp: append_control_byte_def framer_fail_def disabled_framer_def)
  next
    case False
    have "append_control_byte b f = framer_fail Malformed ?g \<or> append_control_byte b f = (FramerNone, ?g)"
      using False by (auto simp: append_control_byte_def Let_def)
    with app g [OF False] t show ?thesis
      by (auto simp: framer_fail_def disabled_framer_def split: if_splits)
  qed
qed

lemma control_step_framed:
  assumes live: "live_framer st f ms" and s: "fr_stage f \<noteq> StCloseBody" "\<not> in_body f"
  shows "framed st (fr_max_header_bytes f) (control_step captured ctx b f ms)"
proof -
  have t: "track_messages ms st \<noteq> None" using live by (auto simp: live_framer_def)
  have fail: "framed st (fr_max_header_bytes f) (fail_with Malformed f ms)"
    using t by (intro framed_fail) auto
  consider (cr) "fr_stage f = StChunkCr" | (lf) "fr_stage f = StChunkLf"
    | (control) "fr_stage f \<in> {StHeaders, StChunkLine, StTrailers}"
    using s live by (cases "fr_stage f") (auto simp: in_body_def live_framer_def)
  then show ?thesis
  proof cases
    case cr
    with live fail show ?thesis by (auto simp: control_step_def live_framer_def)
  next
    case lf
    with live fail show ?thesis by (auto simp: control_step_def live_framer_def)
  next
    case control
    obtain e f1 where app: "append_control_byte b f = (e, f1)" by fastforce
    note c = append_control_byte_cases [OF live control app]
    have not_crlf: "fr_stage f \<noteq> StChunkCr" "fr_stage f \<noteq> StChunkLf" using control by auto
    show ?thesis
    proof (cases "e = FramerNone")
      case False
      with c app not_crlf show ?thesis by (auto simp: control_step_def framed_def)
    next
      case True
      let ?f2 = "f1\<lparr>fr_header_clock := mark_header_time captured (fr_header_clock f1)\<rparr>"
      from True c have f1: "live_framer st f1 ms" "fr_stage f1 = fr_stage f"
        "fr_max_header_bytes f1 = fr_max_header_bytes f" by auto
      then have f2: "live_framer st ?f2 ms" "fr_stage ?f2 = fr_stage f"
        "fr_max_header_bytes ?f2 = fr_max_header_bytes f" by (auto simp: live_framer_def)
      show ?thesis
        using True app not_crlf control f1 f2 parse_headers_framed [OF f2(1), of ctx]
          handle_line_framed [OF f1(1)]
        by (auto simp: control_step_def Let_def)
    qed
  qed
qed

lemma consume_loop_framed:
  "live_framer st f ms \<Longrightarrow> framed st (fr_max_header_bytes f) (consume_loop captured ctx bytes f ms)"
proof (induction captured ctx bytes f ms rule: consume_loop.induct)
  case (1 captured ctx bytes f ms)
  consider (stop) "bytes = [] \<or> fr_stage f = StCloseBody"
    | (body) "bytes \<noteq> []" "fr_stage f \<noteq> StCloseBody" "in_body f"
    | (control) "bytes \<noteq> []" "fr_stage f \<noteq> StCloseBody" "\<not> in_body f"
    by blast
  then show ?case
  proof cases
    case stop
    with "1.prems" show ?thesis by (auto simp: consume_loop.simps [of captured ctx bytes])
  next
    case body
    with "1.IH"(1) [OF body refl refl] body_step_live [OF "1.prems" body(3)]
    show ?thesis by (simp add: consume_loop.simps [of captured ctx bytes] Let_def)
  next
    case control
    note step = control_step_framed [OF "1.prems" control(2,3), of captured ctx "hd bytes"]
    show ?thesis
      using "1.IH"(2) [OF control] control step
      by (auto simp: consume_loop.simps [of captured ctx bytes] framed_def split: prod.splits if_splits)
  qed
qed

section \<open>Whole streams\<close>

text \<open>Any sequence of stream events with any answers of the callback, the messages collected.\<close>

type_synonym framer_input = "tcp_stream_origin \<times> http1_context \<times> tcp_stream_event"

fun framer_input_step ::
  "framer_input \<Rightarrow> http1_framer \<times> http1_framed_message list \<Rightarrow> http1_framer \<times> http1_framed_message list" where
  "framer_input_step (origin, ctx, ev) (f, ms) =
     (case framer_consume ev origin ctx f (Some ms) of (e, f', ms') \<Rightarrow>
        (f', case ms' of None \<Rightarrow> [] | Some l \<Rightarrow> l))"

definition framer_run :: "nat \<Rightarrow> framer_input list \<Rightarrow> http1_framer \<times> http1_framed_message list" where
  "framer_run lim inputs = fold framer_input_step inputs (new_http1_framer lim, [])"

definition framer_inv :: "(u64 \<times> u64) option \<Rightarrow> nat \<Rightarrow> http1_framer \<times> http1_framed_message list \<Rightarrow> bool" where
  "framer_inv st lim p \<longleftrightarrow> fr_max_header_bytes (fst p) = lim \<and>
     (live_framer st (fst p) (snd p) \<or> disabled_framer st (fst p) (snd p))"

lemma framer_consume_inv:
  assumes inv: "framer_inv st lim (f, ms)"
  shows "\<exists>f' ms'. snd (framer_consume ev origin ctx f (Some ms)) = (f', Some ms') \<and>
    framer_inv st lim (f', ms') \<and> (framer_disabled f \<longrightarrow> framer_disabled f' \<and> ms' = ms)"
proof (cases "fr_stage f = StDisabled")
  case True
  then have d: "disabled_framer st f ms" "fr_max_header_bytes f = lim"
    using inv by (auto simp: framer_inv_def live_framer_def)
  from d True show ?thesis
    by (cases "ev_kind ev"; cases "ev_bytes ev")
      (auto simp: framer_consume_def framer_on_end_def framer_on_gap_def framer_fail_def
        framer_consume_bytes_def framer_inv_def framer_disabled_def disabled_framer_def)
next
  case False
  then have live: "live_framer st f ms" "fr_max_header_bytes f = lim"
    using inv by (auto simp: framer_inv_def disabled_framer_def)
  then have t: "track_messages ms st = Some (fr_next_message_id f, fr_current_message_id f)"
    by (simp add: live_framer_def)
  have fail: "\<exists>f'. snd (framer_fail e f) = f' \<and> framer_inv st lim (f', ms)" for e
    using live t by (auto simp: framer_fail_def framer_inv_def disabled_framer_def)
  show ?thesis
  proof (cases "ev_kind ev")
    case EventGap
    then show ?thesis
      using fail [of FramerGap] False
      by (auto simp: framer_consume_def framer_on_gap_def framer_disabled_def case_prod_unfold)
  next
    case EventEnd
    then show ?thesis
      using live t False
      by (auto simp: framer_consume_def framer_on_end_def framer_disabled_def framer_inv_def
          disabled_framer_def live_framer_def track_message_def fail_with_def framer_fail_def)
  next
    case EventData
    have loop: "framer_inv st lim (snd (consume_loop captured ctx bytes (f\<lparr>fr_started := True\<rparr>) ms))"
      for captured bytes
    proof -
      have "live_framer st (f\<lparr>fr_started := True\<rparr>) ms" using live by (simp add: live_framer_def)
      from consume_loop_framed [OF this, of captured ctx bytes] live(2) show ?thesis
        by (auto simp: framed_def framer_inv_def split: prod.splits if_splits)
    qed
    have bytes: "\<exists>f' ms'. snd (framer_consume_bytes origin bs captured ctx f (Some ms)) = (f', Some ms') \<and>
        framer_inv st lim (f', ms')" for bs captured
      using False loop [of captured bs] fail [of Midstream]
      by (auto simp: framer_consume_bytes_def fail_with_def case_prod_unfold)
    show ?thesis
      using EventData False bytes fail [of Malformed]
      by (cases "ev_bytes ev")
        (auto simp: framer_consume_def framer_disabled_def case_prod_unfold)
  qed
qed

lemma framer_run_inv: "framer_inv (Some (1, 0)) lim (framer_run lim inputs)"
proof -
  have "framer_inv (Some (1, 0)) lim (fold framer_input_step inputs p)"
    if "framer_inv (Some (1, 0)) lim p" for p
    using that
  proof (induction inputs arbitrary: p)
    case (Cons i inputs)
    obtain f ms origin ctx ev where "p = (f, ms)" "i = (origin, ctx, ev)"
      by (metis prod.exhaust)
    with Cons framer_consume_inv [of "Some (1, 0)" lim f ms ev origin ctx] show ?case
      by (auto simp: case_prod_unfold)
  qed simp
  moreover have "framer_inv (Some (1, 0)) lim (new_http1_framer lim, [])"
    by (simp add: framer_inv_def live_framer_def new_http1_framer_def)
  ultimately show ?thesis by (simp add: framer_run_def)
qed

text \<open>
  C9. The framer keeps no more than the configured header limit, whatever it is fed: the header
  bytes and the current chunk or trailer line together never exceed max_header_bytes, and a
  disabled framer keeps nothing.
\<close>

theorem http1_retention_bounded:
  "framer_retained_bytes (fst (framer_run lim inputs)) \<le>
     (if framer_disabled (fst (framer_run lim inputs)) then 0 else lim)"
  using framer_run_inv [of lim inputs]
  by (auto simp: framer_inv_def live_framer_def disabled_framer_def framer_retained_bytes_def
      framer_disabled_def)

text \<open>
  C7. The sequence of framed messages, for any stream: message ids are drawn in order from 1,
  a header message opens the next id only when no body is open, and each body-complete message
  closes the open one. A disabled framer stays disabled and frames nothing more.
\<close>

theorem http1_messages_alternate:
  "track_messages (snd (framer_run lim inputs)) (Some (1, 0)) \<noteq> None \<and>
   (framer_disabled (fst (framer_run lim inputs)) \<longrightarrow>
      framer_disabled (fst (framer_run lim (inputs @ later))) \<and>
      snd (framer_run lim (inputs @ later)) = snd (framer_run lim inputs))"
proof -
  have "framer_disabled (fst (fold framer_input_step later p)) \<and>
      snd (fold framer_input_step later p) = snd p"
    if "framer_inv (Some (1, 0)) lim p" "framer_disabled (fst p)" for p
    using that
  proof (induction later arbitrary: p)
    case (Cons i later)
    obtain f ms origin ctx ev where "p = (f, ms)" "i = (origin, ctx, ev)"
      by (metis prod.exhaust)
    with Cons framer_consume_inv [of "Some (1, 0)" lim f ms ev origin ctx] show ?case
      by (auto simp: case_prod_unfold)
  qed simp
  moreover have "framer_run lim (inputs @ later) = fold framer_input_step later (framer_run lim inputs)"
    by (simp add: framer_run_def)
  moreover have "track_messages (snd (framer_run lim inputs)) (Some (1, 0)) \<noteq> None"
    using framer_run_inv [of lim inputs]
    by (auto simp: framer_inv_def live_framer_def disabled_framer_def)
  ultimately show ?thesis using framer_run_inv [of lim inputs] by auto
qed

theorem http1_messages_alternate_witness:
  "snd (framer_run 10 ([(OriginSyn, None, default_event\<lparr>ev_kind := EventGap\<rparr>)] @
       [(OriginSyn, None, default_event\<lparr>ev_bytes := Bytes [1]\<rparr>)])) =
   snd (framer_run 10 [(OriginSyn, None, default_event\<lparr>ev_kind := EventGap\<rparr>)])"
  by (rule http1_messages_alternate [THEN conjunct2, THEN mp, THEN conjunct2])
    (simp add: framer_run_def framer_consume_def framer_on_gap_def framer_fail_def
      framer_disabled_def default_event_def)

section \<open>The chunked coding\<close>

























end
