(* ===== verification/OrderedMap.thy ===== *)
theory OrderedMap
  imports FlowPrelude
begin

text \<open>
  The trackers keep their sessions, directions and pending requests in std::map, whose
  iteration order is the key order and is visible in the order of the emitted rows. A std::map
  is modelled by the list of its nodes in ascending key order. The client code uses find,
  insertion of a node or assignment through it, and erasure; the locale \<open>ordered_map\<close> states
  what those promise, and is interpreted on the list operations below.
\<close>

type_synonym ('k, 'v) omap = "('k \<times> 'v) list"

fun omap_find :: "('k, 'v) omap \<Rightarrow> 'k \<Rightarrow> 'v option" where
  "omap_find [] k = None"
| "omap_find ((k', v) # m) k = (if k = k' then Some v else omap_find m k)"

fun omap_put :: "'k::linorder \<Rightarrow> 'v \<Rightarrow> ('k, 'v) omap \<Rightarrow> ('k, 'v) omap" where
  "omap_put k v [] = [(k, v)]"
| "omap_put k v ((k', v') # m) =
     (if k < k' then (k, v) # (k', v') # m
      else if k = k' then (k, v) # m
      else (k', v') # omap_put k v m)"

fun omap_erase :: "'k \<Rightarrow> ('k, 'v) omap \<Rightarrow> ('k, 'v) omap" where
  "omap_erase k [] = []"
| "omap_erase k ((k', v') # m) = (if k = k' then m else (k', v') # omap_erase k m)"

definition omap_keys :: "('k, 'v) omap \<Rightarrow> 'k list" where
  "omap_keys m = map fst m"

definition omap_wf :: "('k::linorder, 'v) omap \<Rightarrow> bool" where
  "omap_wf m \<longleftrightarrow> sorted_wrt (<) (omap_keys m)"

definition omap_sum :: "('v \<Rightarrow> 'a::comm_monoid_add) \<Rightarrow> ('k, 'v) omap \<Rightarrow> 'a" where
  "omap_sum f m = sum_list (map (f \<circ> snd) m)"

section \<open>The interface\<close>

locale ordered_map =
  fixes find :: "'m \<Rightarrow> 'k::linorder \<Rightarrow> 'v option"
    and put :: "'k \<Rightarrow> 'v \<Rightarrow> 'm \<Rightarrow> 'm"
    and erase :: "'k \<Rightarrow> 'm \<Rightarrow> 'm"
    and keys :: "'m \<Rightarrow> 'k list"
    and wf :: "'m \<Rightarrow> bool"
  assumes find_put: "wf m \<Longrightarrow> find (put k v m) k' = (if k' = k then Some v else find m k')"
    and find_erase: "wf m \<Longrightarrow> find (erase k m) k' = (if k' = k then None else find m k')"
    and wf_put: "wf m \<Longrightarrow> wf (put k v m)"
    and wf_erase: "wf m \<Longrightarrow> wf (erase k m)"
    and wf_sorted: "wf m \<Longrightarrow> sorted_wrt (<) (keys m)"
    and set_keys: "set (keys m) = {k. find m k \<noteq> None}"
begin

lemma keys_put: "wf m \<Longrightarrow> set (keys (put k v m)) = insert k (set (keys m))"
  by (auto simp: set_keys find_put split: if_splits)

lemma keys_erase: "wf m \<Longrightarrow> set (keys (erase k m)) = set (keys m) - {k}"
  by (auto simp: set_keys find_erase)

lemma distinct_keys: "wf m \<Longrightarrow> distinct (keys m)"
  using wf_sorted strict_sorted_imp_sorted strict_sorted_iff by blast

lemma erase_put_find: "wf m \<Longrightarrow> k \<noteq> k' \<Longrightarrow> find (erase k (put k v m)) k' = find m k'"
  by (simp add: find_erase find_put wf_put)

end

section \<open>The list of nodes implements it\<close>

lemma omap_find_put: "omap_find (omap_put k v m) k' = (if k' = k then Some v else omap_find m k')"
  by (induction k v m rule: omap_put.induct) auto

lemma omap_find_keys: "k \<in> set (omap_keys m) \<longleftrightarrow> omap_find m k \<noteq> None"
  by (induction m k rule: omap_find.induct) (auto simp: omap_keys_def)

lemma omap_keys_put: "set (omap_keys (omap_put k v m)) = insert k (set (omap_keys m))"
  by (auto simp: omap_find_keys omap_find_put split: if_splits)

lemma omap_wf_put: "omap_wf m \<Longrightarrow> omap_wf (omap_put k v m)"
proof (induction k v m rule: omap_put.induct)
  case (1 k v)
  then show ?case by (simp add: omap_wf_def omap_keys_def)
next
  case (2 k v k' v' m)
  then have IH: "\<not> k < k' \<Longrightarrow> k \<noteq> k' \<Longrightarrow> omap_wf (omap_put k v m)"
    by (simp add: omap_wf_def omap_keys_def)
  have "set (map fst (omap_put k v m)) = insert k (set (map fst m))"
    using omap_keys_put [of k v m] by (simp add: omap_keys_def)
  with 2(2) IH show ?case
    by (auto simp: omap_wf_def omap_keys_def)
qed

lemma omap_find_erase:
  "omap_wf m \<Longrightarrow> omap_find (omap_erase k m) k' = (if k' = k then None else omap_find m k')"
proof (induction k m rule: omap_erase.induct)
  case (2 k k' v' m)
  then have "omap_find m k = None" if "k = k'"
    using that omap_find_keys [of k m] by (auto simp: omap_wf_def omap_keys_def)
  with 2 show ?case by (auto simp: omap_wf_def omap_keys_def)
qed simp

lemma omap_put_subset: "set (omap_put k v m) \<subseteq> insert (k, v) (set m)"
  by (induction k v m rule: omap_put.induct) auto

lemma omap_erase_subset: "set (omap_erase k m) \<subseteq> set m"
  by (induction k m rule: omap_erase.induct) auto

lemma omap_wf_erase: "omap_wf m \<Longrightarrow> omap_wf (omap_erase k m)"
proof (induction k m rule: omap_erase.induct)
  case (2 k k' v' m)
  then show ?case
    using omap_erase_subset [of k m] by (force simp: omap_wf_def omap_keys_def)
qed simp

interpretation om: ordered_map omap_find omap_put omap_erase omap_keys omap_wf
proof unfold_locales
  show "set (omap_keys m) = {k. omap_find m k \<noteq> None}" for m :: "('k::linorder, 'v) omap"
    by (auto simp: omap_find_keys)
qed (simp_all add: omap_find_put omap_find_erase omap_wf_put omap_wf_erase, simp add: omap_wf_def)

lemmas omap_simps = om.find_put om.find_erase om.wf_put om.wf_erase

lemma omap_wf_Nil [simp]: "omap_wf []"
  by (simp add: omap_wf_def omap_keys_def)

lemma omap_wf_Cons: "omap_wf ((k, v) # m) \<longleftrightarrow> (\<forall>k' \<in> set (omap_keys m). k < k') \<and> omap_wf m"
  by (auto simp: omap_wf_def omap_keys_def)

section \<open>Sums over the nodes\<close>

lemma omap_sum_Nil [simp]: "omap_sum f [] = 0"
  by (simp add: omap_sum_def)

lemma omap_sum_Cons [simp]: "omap_sum f ((k, v) # m) = f v + omap_sum f m"
  by (simp add: omap_sum_def)

lemma omap_sum_put_new:
  "omap_find m k = None \<Longrightarrow> omap_sum f (omap_put k v m) = omap_sum f m + f v"
  by (induction k v m rule: omap_put.induct) (auto simp: ac_simps split: if_splits)

lemma omap_sum_put_old:
  "omap_wf m \<Longrightarrow> omap_find m k = Some w \<Longrightarrow> omap_sum f (omap_put k v m) + f w = omap_sum f m + f v"
proof (induction k v m rule: omap_put.induct)
  case (2 k v k' v' m)
  have "k' < k" if "omap_find m k \<noteq> None"
    using 2(2) that by (auto simp: omap_wf_Cons omap_find_keys)
  then show ?case
    using 2 by (cases "k = k'") (auto simp: omap_wf_Cons ac_simps split: if_splits)
qed simp

lemma omap_sum_erase: "omap_find m k = Some w \<Longrightarrow> omap_sum f (omap_erase k m) + f w = omap_sum f m"
  by (induction k m rule: omap_erase.induct) (auto simp: ac_simps split: if_splits)

lemma omap_erase_absent: "omap_find m k = None \<Longrightarrow> omap_erase k m = m"
  by (induction k m rule: omap_erase.induct) (auto split: if_splits)

lemma omap_erase_put: "omap_wf m \<Longrightarrow> omap_erase k (omap_put k v m) = omap_erase k m"
proof (induction k v m rule: omap_put.induct)
  case (2 k v k' v' m)
  have "omap_find m k = None" if "k < k'"
    using 2(2) that omap_find_keys [of k m] by (force simp: omap_wf_Cons)
  with 2 show ?case by (auto simp: omap_wf_Cons omap_erase_absent)
qed simp

lemma omap_sum_put_erase:
  "omap_wf m \<Longrightarrow> omap_sum f (omap_put k v m) = f v + omap_sum f (omap_erase k m)"
  for f :: "'v \<Rightarrow> 'a::cancel_comm_monoid_add"
proof (cases "omap_find m k")
  case None
  then show ?thesis by (simp add: omap_sum_put_new omap_erase_absent ac_simps)
next
  case (Some w)
  assume "omap_wf m"
  from omap_sum_put_old [OF this Some, of f v] omap_sum_erase [OF Some, of f]
  have "omap_sum f (omap_put k v m) + f w = f v + omap_sum f (omap_erase k m) + f w"
    by (simp add: ac_simps)
  then show ?thesis by simp
qed

lemma omap_find_in: "omap_find m k = Some v \<Longrightarrow> (k, v) \<in> set m"
  by (induction m k rule: omap_find.induct) (auto split: if_splits)

lemma omap_in_find: "omap_wf m \<Longrightarrow> (k, v) \<in> set m \<Longrightarrow> omap_find m k = Some v"
proof (induction m k rule: omap_find.induct)
  case (2 k' v' m k)
  have "k \<in> set (omap_keys m)" if "(k, v) \<in> set m" using that by (force simp: omap_keys_def)
  with 2 show ?case by (auto simp: omap_wf_Cons)
qed simp

lemma omap_sum_ge: "omap_find m k = Some v \<Longrightarrow> f v \<le> (omap_sum f m :: nat)"
  by (induction m k rule: omap_find.induct) (auto split: if_splits)

end
