(* ===== verification/EntityIds.thy ===== *)
theory EntityIds
  imports FlowPrelude "HOL-Library.Multiset"
begin

text \<open>
  The identifiers that a tracker has handed out, as a multiset: each at most once, none zero,
  and all of them drawn before the next one. Every tracker's own allocator keeps this.
\<close>

definition ids_ok :: "u64 \<Rightarrow> u64 multiset \<Rightarrow> bool" where
  "ids_ok nxt M \<longleftrightarrow> (\<forall>i. count M i \<le> 1) \<and> (\<forall>i \<in># M. i \<noteq> 0 \<and> (nxt = 0 \<or> i < nxt))"

lemma ids_ok_empty [simp]: "ids_ok nxt {#}"
  by (simp add: ids_ok_def)

lemma ids_ok_subset:
  assumes "ids_ok nxt N" "M \<subseteq># N"
  shows "ids_ok nxt M"
proof -
  have "count M i \<le> count N i" for i using assms(2) by (rule mset_subset_eq_count)
  then have "count M i \<le> 1" for i using assms(1) by (meson ids_ok_def le_trans)
  moreover have "set_mset M \<subseteq> set_mset N" using assms(2) by (rule set_mset_mono)
  ultimately show ?thesis using assms(1) by (auto simp: ids_ok_def)
qed

lemma u64_succ: "i < i + 1 \<or> i + 1 = 0" for i :: u64
proof (cases "unat i + 1 < 2 ^ 64")
  case True
  then have "unat (i + 1) = unat i + 1" by (simp add: unat_word_ariths)
  then show ?thesis by (simp add: word_less_nat_alt)
next
  case False
  moreover have "unat i < 2 ^ 64" using unsigned_less [of i] by simp
  ultimately have "unat i + 1 = 2 ^ 64" by simp
  then have "unat (i + 1) = 0" by (simp add: unat_word_ariths)
  then show ?thesis by (simp add: unat_eq_zero)
qed

lemma ids_ok_next:
  assumes "ids_ok nxt M" "nxt \<noteq> 0"
  shows "ids_ok (nxt + 1) (add_mset nxt M)"
proof -
  have "nxt \<notin># M" using assms by (auto simp: ids_ok_def)
  then show ?thesis
    using assms u64_succ [of nxt] by (auto simp: ids_ok_def not_in_iff dest: less_trans)
qed

context id_allocator
begin

lemma draw_ok:
  assumes "next_id c = (i, c')"
  shows "i = 0 \<Longrightarrow> c' = c" "i \<noteq> 0 \<Longrightarrow> ids_ok c M \<Longrightarrow> ids_ok c' (add_mset i M)"
  using assms next_id_zero next_id_nonzero [of c] ids_ok_next [of c M] by (cases "c = 0"; simp)+

end

lemma count_both: "i \<in># A \<Longrightarrow> i \<in># B \<Longrightarrow> 1 < count (A + B) i"
  by (simp flip: count_greater_zero_iff)

text \<open>What the multiset says of the list of identifiers it contains.\<close>

lemma ids_ok_distinct:
  assumes "ids_ok nxt (mset is + M)"
  shows "distinct is" "0 \<notin> set is" "i \<in># M \<Longrightarrow> i \<notin> set is"
proof -
  have ok: "ids_ok nxt (mset is)" using assms by (rule ids_ok_subset) simp
  then have "count (mset is) i \<le> 1" for i by (simp add: ids_ok_def)
  then show "distinct is" by (auto simp: distinct_count_atmost_1 le_Suc_eq count_eq_zero_iff)
  show "0 \<notin> set is" using ok by (auto simp: ids_ok_def)
  show "i \<notin> set is" if "i \<in># M"
  proof
    assume "i \<in> set is"
    then have "1 < count (mset is + M) i" using that by (intro count_both) simp_all
    then show False using assms unfolding ids_ok_def by (meson not_le)
  qed
qed

end
