(* ===== verification/Http1Transactions.thy ===== *)
theory Http1Transactions
  imports Http1Framer OrderedMap TaskBudget EntityIds
begin

text \<open>
  The transaction tracker, modules/http1/npm_http1_transactions.cpp: per session two framers and
  a FIFO of pending requests, matched with responses in order; a deadline, a gap, an end or a
  framing error seals the session. The session that a handler works on is passed beside the
  tracker and written back to the map when the handler leaves, on every path.
\<close>

section \<open>Facts of one transaction\<close>

datatype http1_outcome = Matched | RequestOnly | ResponseOnly

datatype http1_incomplete_reason =
    ReasonNone | NoPendingRequest | ResponseNotObservedByDeadline | PipelineAlignmentLost
  | RequestPathGap | ResponsePathGap | CaptureTruncation | FramingUnsupported
  | HeaderLimitExceeded | MalformedResponse | ResponseStreamEnd | SessionEnd

fun http1_outcome_name :: "http1_outcome \<Rightarrow> string" where
  "http1_outcome_name Matched = ''matched''"
| "http1_outcome_name RequestOnly = ''request_only''"
| "http1_outcome_name ResponseOnly = ''response_only''"

fun http1_incomplete_reason_name :: "http1_incomplete_reason \<Rightarrow> string option" where
  "http1_incomplete_reason_name ReasonNone = None"
| "http1_incomplete_reason_name NoPendingRequest = Some ''no_pending_request''"
| "http1_incomplete_reason_name ResponseNotObservedByDeadline = Some ''response_not_observed_by_deadline''"
| "http1_incomplete_reason_name PipelineAlignmentLost = Some ''pipeline_alignment_lost''"
| "http1_incomplete_reason_name RequestPathGap = Some ''request_path_gap''"
| "http1_incomplete_reason_name ResponsePathGap = Some ''response_path_gap''"
| "http1_incomplete_reason_name CaptureTruncation = Some ''capture_truncation''"
| "http1_incomplete_reason_name FramingUnsupported = Some ''framing_unsupported''"
| "http1_incomplete_reason_name HeaderLimitExceeded = Some ''header_limit_exceeded''"
| "http1_incomplete_reason_name MalformedResponse = Some ''malformed_response''"
| "http1_incomplete_reason_name ResponseStreamEnd = Some ''response_stream_end''"
| "http1_incomplete_reason_name SessionEnd = Some ''session_end''"

record http1_result =
  hr_entity_instance_id :: u64
  hr_session_id :: u64
  hr_outcome :: http1_outcome
  hr_incomplete_reason :: http1_incomplete_reason
  hr_observed_at_ns :: int
  hr_request_direction :: "packet_direction option"
  hr_response_direction :: "packet_direction option"
  hr_request :: "http1_message_head option"
  hr_response :: "http1_message_head option"
  hr_latency_ns :: "int option"
  hr_informational_count :: nat

definition is_final :: "nat \<Rightarrow> bool" where
  "is_final status \<longleftrightarrow> status = 101 \<or> status \<ge> 200"

definition http1_deadline :: "int \<Rightarrow> int \<Rightarrow> int" where
  "http1_deadline request_at timeout =
     (if request_at > i64_max - timeout then i64_max else request_at + timeout)"

interpretation http1_deadline: saturating_deadline http1_deadline
  by unfold_locales (simp add: http1_deadline_def)

definition http1_elapsed :: "int \<Rightarrow> int \<Rightarrow> int option" where
  "http1_elapsed request_at response_at =
     (if response_at < request_at then None
      else let delta = u64_sub_i64 response_at request_at in
        if delta > i64_max then None else Some delta)"

interpretation http1_elapsed: elapsed_time http1_elapsed
  by unfold_locales (simp add: http1_elapsed_def Let_def)

definition http1_latency :: "int option \<Rightarrow> int option \<Rightarrow> int option" where
  "http1_latency request_at response_at =
     (case request_at of None \<Rightarrow> None
      | Some t0 \<Rightarrow> (case response_at of None \<Rightarrow> None | Some t1 \<Rightarrow> http1_elapsed t0 t1))"

definition framing_reason :: "http1_framer_error \<Rightarrow> bool \<Rightarrow> http1_incomplete_reason" where
  "framing_reason e response =
     (if e = HeaderLimit then HeaderLimitExceeded
      else if e = Unsupported then FramingUnsupported
      else if response then MalformedResponse else FramingUnsupported)"

section \<open>State\<close>

record http1_pending =
  pe_entity_instance_id :: u64
  pe_request_message_id :: u64
  pe_request :: http1_message_head
  pe_request_body_complete :: bool
  pe_deadline_ns :: "int option"
  pe_informational_count :: nat
  pe_response_message_id :: u64
  pe_response :: "http1_message_head option"
  pe_response_body_complete :: bool

record http1_orphan =
  or_entity_instance_id :: u64
  or_message_id :: u64
  or_response :: http1_message_head
  or_body_complete :: bool

record http1_session =
  ss_framer_ab :: http1_framer
  ss_framer_ba :: http1_framer
  ss_request_direction :: "packet_direction option"
  ss_pending :: "http1_pending list"
  ss_orphan :: "http1_orphan option"
  ss_sealed :: bool
  ss_seal_after_tunnel :: bool
  ss_reserved_bytes :: nat

record http1_config =
  hc_response_timeout_ns :: int
  hc_max_pending_per_session :: nat
  hc_max_header_bytes :: nat

record http1_tracker =
  ht_config :: http1_config
  ht_budget :: "npm_task_budget option"
  ht_sessions :: "(u64, http1_session) omap"
  ht_next_id :: u64
  ht_watermark_ns :: "int option"
  ht_aborted :: bool
  ht_result_charges :: nat

definition new_http1_tracker :: "http1_config \<Rightarrow> npm_task_budget option \<Rightarrow> http1_tracker" where
  "new_http1_tracker config budget =
     \<lparr>ht_config = config, ht_budget = budget, ht_sessions = [], ht_next_id = 1,
      ht_watermark_ns = None, ht_aborted = False, ht_result_charges = 0\<rparr>"

definition new_http1_session :: "nat \<Rightarrow> http1_session" where
  "new_http1_session max_header_bytes =
     \<lparr>ss_framer_ab = new_http1_framer max_header_bytes,
      ss_framer_ba = new_http1_framer max_header_bytes, ss_request_direction = None,
      ss_pending = [], ss_orphan = None, ss_sealed = False, ss_seal_after_tunnel = False,
      ss_reserved_bytes = 0\<rparr>"

fun session_framer :: "packet_direction \<Rightarrow> http1_session \<Rightarrow> http1_framer" where
  "session_framer AToB s = ss_framer_ab s"
| "session_framer BToA s = ss_framer_ba s"

fun set_session_framer :: "packet_direction \<Rightarrow> http1_framer \<Rightarrow> http1_session \<Rightarrow> http1_session" where
  "set_session_framer AToB f s = s\<lparr>ss_framer_ab := f\<rparr>"
| "set_session_framer BToA f s = s\<lparr>ss_framer_ba := f\<rparr>"

fun http1_id :: "u64 \<Rightarrow> u64 \<times> u64" where
  "http1_id c = (if c = 0 then (0, c) else (c, c + 1))"

interpretation http1_id: id_allocator http1_id
  by unfold_locales auto

definition http1_next_id :: "http1_tracker \<Rightarrow> u64 \<times> http1_tracker" where
  "http1_next_id t = (case http1_id (ht_next_id t) of (i, c) \<Rightarrow> (i, t\<lparr>ht_next_id := c\<rparr>))"

definition http1_reserve :: "nat \<Rightarrow> http1_tracker \<Rightarrow> http1_tracker option" where
  "http1_reserve n t = map_option (\<lambda>b. t\<lparr>ht_budget := b\<rparr>) (opt_charge n (ht_budget t))"

definition http1_release :: "nat \<Rightarrow> http1_tracker \<Rightarrow> http1_tracker" where
  "http1_release n t = (if n = 0 then t else t\<lparr>ht_budget := opt_refund n (ht_budget t)\<rparr>)"

definition session_charge :: "http1_config \<Rightarrow> nat" where
  "session_charge c = 4096 + 4 * hc_max_header_bytes c"

definition pending_charge :: "http1_config \<Rightarrow> nat" where
  "pending_charge c = 1024 + 2 * hc_max_header_bytes c"

definition event_charge :: "nat \<Rightarrow> nat" where
  "event_charge n = (if n > (u64_max - 4096) div 32 then 0 else 4096 + 32 * n)"

section \<open>Handlers\<close>

text \<open>
  The context for the next response header: the first pending request that has no response yet,
  not counting those for which a final header is in the batch at hand. A pending request always
  has a method (an invariant below), so value() does not throw.
\<close>

fun context_of_pending :: "nat \<Rightarrow> http1_pending list \<Rightarrow> http1_response_context" where
  "context_of_pending n [] = \<lparr>rc_request_is_head = False, rc_request_is_connect = False\<rparr>"
| "context_of_pending n (p # ps) =
     (if pe_response p \<noteq> None then context_of_pending n ps
      else if n \<noteq> 0 then context_of_pending (n - 1) ps
      else \<lparr>rc_request_is_head = (mh_method (pe_request p) = Some ''HEAD''),
            rc_request_is_connect = (mh_method (pe_request p) = Some ''CONNECT'')\<rparr>)"

definition response_context ::
  "http1_session \<Rightarrow> http1_framed_message list \<Rightarrow> http1_response_context" where
  "response_context s ms =
     context_of_pending
       (length (filter (\<lambda>m. fm_headers_complete m \<and> mh_is_response (fm_head m) \<and>
          (case mh_status_code (fm_head m) of None \<Rightarrow> False | Some c \<Rightarrow> is_final c)) ms))
       (ss_pending s)"

type_synonym tracker_state = "http1_session \<times> http1_tracker \<times> http1_result list"

definition request_only_row ::
  "u64 \<Rightarrow> http1_incomplete_reason \<Rightarrow> int \<Rightarrow> packet_direction option \<Rightarrow> http1_pending \<Rightarrow> http1_result" where
  "request_only_row sid reason observed dir p =
     \<lparr>hr_entity_instance_id = pe_entity_instance_id p, hr_session_id = sid,
      hr_outcome = RequestOnly, hr_incomplete_reason = reason, hr_observed_at_ns = observed,
      hr_request_direction = dir, hr_response_direction = None, hr_request = Some (pe_request p),
      hr_response = None, hr_latency_ns = None,
      hr_informational_count = pe_informational_count p\<rparr>"

fun seal_pending ::
  "u64 \<Rightarrow> http1_incomplete_reason \<Rightarrow> http1_incomplete_reason \<Rightarrow> int \<Rightarrow> http1_pending list
    \<Rightarrow> tracker_state \<Rightarrow> tracker_state" where
  "seal_pending sid reason later observed [] (s, t, rows) = (s\<lparr>ss_pending := []\<rparr>, t, rows)"
| "seal_pending sid reason later observed (p # ps) (s, t, rows) =
     seal_pending sid later later observed ps
       (s\<lparr>ss_reserved_bytes := ss_reserved_bytes s - pending_charge (ht_config t)\<rparr>,
        t\<lparr>ht_result_charges := ht_result_charges t + pending_charge (ht_config t)\<rparr>,
        rows @ [request_only_row sid reason observed (ss_request_direction s) p])"

definition seal ::
  "u64 \<Rightarrow> http1_incomplete_reason \<Rightarrow> http1_incomplete_reason \<Rightarrow> int \<Rightarrow> tracker_state \<Rightarrow> tracker_state" where
  "seal sid first_reason later_reason observed st =
     (if ss_sealed (fst st) then st
      else case seal_pending sid first_reason later_reason observed (ss_pending (fst st)) st of
        (s, t, rows) \<Rightarrow>
          if ss_orphan s \<noteq> None then
            (s\<lparr>ss_orphan := None, ss_reserved_bytes := ss_reserved_bytes s - pending_charge (ht_config t),
               ss_sealed := True\<rparr>,
             http1_release (pending_charge (ht_config t)) t, rows)
          else (s\<lparr>ss_sealed := True\<rparr>, t, rows))"

text \<open>EmitReady: matched pairs leave the front of the FIFO once both bodies are complete.\<close>

definition ready :: "http1_pending \<Rightarrow> bool" where
  "ready p \<longleftrightarrow> pe_request_body_complete p \<and> pe_response p \<noteq> None \<and> pe_response_body_complete p"

definition matched_row ::
  "u64 \<Rightarrow> int \<Rightarrow> packet_direction option \<Rightarrow> http1_pending \<Rightarrow> http1_message_head \<Rightarrow> http1_result" where
  "matched_row sid observed dir p response =
     \<lparr>hr_entity_instance_id = pe_entity_instance_id p, hr_session_id = sid, hr_outcome = Matched,
      hr_incomplete_reason = ReasonNone,
      hr_observed_at_ns = (case mh_complete_at_ns response of None \<Rightarrow> observed | Some c \<Rightarrow> c),
      hr_request_direction = dir, hr_response_direction = map_option opposite dir,
      hr_request = Some (pe_request p), hr_response = Some response,
      hr_latency_ns = http1_latency (mh_complete_at_ns (pe_request p)) (mh_complete_at_ns response),
      hr_informational_count = pe_informational_count p\<rparr>"

definition orphan_row ::
  "u64 \<Rightarrow> int \<Rightarrow> packet_direction option \<Rightarrow> http1_orphan \<Rightarrow> http1_result" where
  "orphan_row sid observed dir orp =
     \<lparr>hr_entity_instance_id = or_entity_instance_id orp, hr_session_id = sid,
      hr_outcome = ResponseOnly, hr_incomplete_reason = NoPendingRequest,
      hr_observed_at_ns = (case mh_complete_at_ns (or_response orp) of None \<Rightarrow> observed | Some c \<Rightarrow> c),
      hr_request_direction = None, hr_response_direction = map_option opposite dir,
      hr_request = None, hr_response = Some (or_response orp), hr_latency_ns = None,
      hr_informational_count = 0\<rparr>"

fun emit_ready_pending :: "u64 \<Rightarrow> int \<Rightarrow> http1_pending list \<Rightarrow> tracker_state \<Rightarrow> tracker_state" where
  "emit_ready_pending sid observed [] (s, t, rows) = (s\<lparr>ss_pending := []\<rparr>, t, rows)"
| "emit_ready_pending sid observed (p # ps) (s, t, rows) =
     (case pe_response p of None \<Rightarrow> (s\<lparr>ss_pending := p # ps\<rparr>, t, rows)
      | Some response \<Rightarrow>
          if \<not> ready p then (s\<lparr>ss_pending := p # ps\<rparr>, t, rows)
          else emit_ready_pending sid observed ps
            (s\<lparr>ss_reserved_bytes := ss_reserved_bytes s - pending_charge (ht_config t)\<rparr>,
             t\<lparr>ht_result_charges := ht_result_charges t + pending_charge (ht_config t)\<rparr>,
             rows @ [matched_row sid observed (ss_request_direction s) p response]))"

definition emit_ready :: "u64 \<Rightarrow> int \<Rightarrow> tracker_state \<Rightarrow> tracker_state" where
  "emit_ready sid observed st =
     (case emit_ready_pending sid observed (ss_pending (fst st)) st of (s, t, rows) \<Rightarrow>
        (case ss_orphan s of None \<Rightarrow> (s, t, rows)
         | Some orp \<Rightarrow>
             if \<not> or_body_complete orp then (s, t, rows)
             else (s\<lparr>ss_orphan := None,
                     ss_reserved_bytes := ss_reserved_bytes s - pending_charge (ht_config t)\<rparr>,
                   t\<lparr>ht_result_charges := ht_result_charges t + pending_charge (ht_config t)\<rparr>,
                   rows @ [orphan_row sid observed (ss_request_direction s) orp])))"

text \<open>How the loop over the framed messages goes on after one message.\<close>

datatype loop_flow = Continue | Break | Return errno

definition add_pending ::
  "http1_framed_message \<Rightarrow> tracker_state \<Rightarrow> loop_flow \<times> tracker_state" where
  "add_pending m st = (case st of (s, t, rows) \<Rightarrow>
     if length (ss_pending s) \<ge> hc_max_pending_per_session (ht_config t) then (Return E_NOSPC, st)
     else case http1_reserve (pending_charge (ht_config t)) t of None \<Rightarrow> (Return E_NOSPC, st)
     | Some t1 \<Rightarrow>
         (case http1_next_id t1 of (i, t2) \<Rightarrow>
            if i = 0 then (Return E_OVERFLOW, s, http1_release (pending_charge (ht_config t)) t2, rows)
            else (Continue,
              s\<lparr>ss_pending := ss_pending s @ [\<lparr>pe_entity_instance_id = i,
                  pe_request_message_id = fm_message_id m, pe_request = fm_head m,
                  pe_request_body_complete = False,
                  pe_deadline_ns = map_option (\<lambda>c. http1_deadline c (hc_response_timeout_ns (ht_config t)))
                    (mh_complete_at_ns (fm_head m)),
                  pe_informational_count = 0, pe_response_message_id = 0, pe_response = None,
                  pe_response_body_complete = False\<rparr>],
                ss_reserved_bytes := ss_reserved_bytes s + pending_charge (ht_config t)\<rparr>,
              t2, rows)))"

text \<open>The first pending request without a response takes it.\<close>

fun answer_pending :: "(http1_pending \<Rightarrow> http1_pending) \<Rightarrow> http1_pending list \<Rightarrow> http1_pending list option" where
  "answer_pending f [] = None"
| "answer_pending f (p # ps) =
     (if pe_response p = None then Some (f p # ps) else map_option (\<lambda>ps'. p # ps') (answer_pending f ps))"

definition first_unanswered :: "http1_pending list \<Rightarrow> http1_pending option" where
  "first_unanswered ps = find (\<lambda>p. pe_response p = None) ps"

definition add_orphan ::
  "http1_framed_message \<Rightarrow> tracker_state \<Rightarrow> loop_flow \<times> tracker_state" where
  "add_orphan m st = (case st of (s, t, rows) \<Rightarrow>
     if ss_orphan s \<noteq> None then (Return E_INVAL, st)
     else case http1_reserve (pending_charge (ht_config t)) t of None \<Rightarrow> (Return E_NOSPC, st)
     | Some t1 \<Rightarrow>
         (case http1_next_id t1 of (i, t2) \<Rightarrow>
            if i = 0 then (Return E_OVERFLOW, s, http1_release (pending_charge (ht_config t)) t2, rows)
            else (Continue,
              s\<lparr>ss_orphan := Some \<lparr>or_entity_instance_id = i, or_message_id = fm_message_id m,
                  or_response = fm_head m,
                  or_body_complete = (mh_framing (fm_head m) = CloseDelimited)\<rparr>,
                ss_reserved_bytes := ss_reserved_bytes s + pending_charge (ht_config t)\<rparr>,
              t2, rows)))"

definition process_response ::
  "u64 \<Rightarrow> http1_framed_message \<Rightarrow> int \<Rightarrow> tracker_state \<Rightarrow> loop_flow \<times> tracker_state" where
  "process_response sid m observed st = (case st of (s, t, rows) \<Rightarrow>
     case mh_status_code (fm_head m) of None \<Rightarrow> (Return E_UNCAUGHT, st)
     | Some status \<Rightarrow>
         if \<not> is_final status then
           (case ss_pending s of [] \<Rightarrow> (Continue, st)
            | p # ps \<Rightarrow>
                if pe_informational_count p = u32_max then (Return E_OVERFLOW, st)
                else (Continue, s\<lparr>ss_pending :=
                  p\<lparr>pe_informational_count := pe_informational_count p + 1\<rparr> # ps\<rparr>, t, rows))
         else
           (let match = first_unanswered (ss_pending s);
                tunnel = (status = 101 \<or> (case match of None \<Rightarrow> False
                  | Some p \<Rightarrow> mh_method (pe_request p) = Some ''CONNECT'' \<and> status \<ge> 200 \<and> status < 300));
                answered = answer_pending (\<lambda>p. p\<lparr>pe_response_message_id := fm_message_id m,
                  pe_response := Some (fm_head m),
                  pe_response_body_complete := (mh_framing (fm_head m) = CloseDelimited)\<rparr>) (ss_pending s);
                (flow, st1) = (case answered of Some ps \<Rightarrow> (Continue, s\<lparr>ss_pending := ps\<rparr>, t, rows)
                               | None \<Rightarrow> add_orphan m st) in
            if flow \<noteq> Continue then (flow, st1)
            else case emit_ready sid observed st1 of (s2, t2, rows2) \<Rightarrow>
              (Continue, (if tunnel then s2\<lparr>ss_seal_after_tunnel := True\<rparr> else s2), t2, rows2)))"

definition process_head ::
  "u64 \<Rightarrow> packet_direction \<Rightarrow> http1_framed_message \<Rightarrow> int \<Rightarrow> tracker_state \<Rightarrow> loop_flow \<times> tracker_state" where
  "process_head sid dir m observed st = (case st of (s, t, rows) \<Rightarrow>
     let request_dir = (case ss_request_direction s of Some d \<Rightarrow> d
                        | None \<Rightarrow> if mh_is_response (fm_head m) then opposite dir else dir);
         s1 = s\<lparr>ss_request_direction := Some request_dir\<rparr>;
         response_direction = (dir \<noteq> request_dir) in
     if response_direction \<noteq> mh_is_response (fm_head m) then
       (let reason = (if response_direction then MalformedResponse else FramingUnsupported) in
        (Break, seal sid reason reason observed (s1, t, rows)))
     else if \<not> response_direction then add_pending m (s1, t, rows)
     else process_response sid m observed (s1, t, rows))"

text \<open>Marks the first pending request that satisfies a test.\<close>

fun mark_first :: "('a \<Rightarrow> bool) \<Rightarrow> ('a \<Rightarrow> 'a) \<Rightarrow> 'a list \<Rightarrow> 'a list" where
  "mark_first P f [] = []"
| "mark_first P f (x # xs) = (if P x then f x # xs else x # mark_first P f xs)"

definition process_body ::
  "u64 \<Rightarrow> packet_direction \<Rightarrow> http1_framed_message \<Rightarrow> int \<Rightarrow> tracker_state \<Rightarrow> loop_flow \<times> tracker_state" where
  "process_body sid dir m observed st = (case st of (s, t, rows) \<Rightarrow>
     case ss_request_direction s of None \<Rightarrow> (Return E_INVAL, st)
     | Some request_dir \<Rightarrow>
         let response_direction = (dir \<noteq> request_dir);
             s1 = (if \<not> response_direction then
                     s\<lparr>ss_pending := mark_first (\<lambda>p. pe_request_message_id p = fm_message_id m)
                         (\<lambda>p. p\<lparr>pe_request_body_complete := True\<rparr>) (ss_pending s)\<rparr>
                   else if (case ss_orphan s of None \<Rightarrow> False | Some orp \<Rightarrow> or_message_id orp = fm_message_id m)
                   then s\<lparr>ss_orphan := map_option (\<lambda>orp. orp\<lparr>or_body_complete := True\<rparr>) (ss_orphan s)\<rparr>
                   else s\<lparr>ss_pending := mark_first (\<lambda>p. pe_response_message_id p = fm_message_id m)
                         (\<lambda>p. p\<lparr>pe_response_body_complete := True\<rparr>) (ss_pending s)\<rparr>);
             st2 = emit_ready sid observed (s1, t, rows) in
         (Continue,
          if ss_seal_after_tunnel (fst st2) \<and> response_direction
          then seal sid PipelineAlignmentLost PipelineAlignmentLost observed st2 else st2))"

definition process_message ::
  "u64 \<Rightarrow> packet_direction \<Rightarrow> http1_framed_message \<Rightarrow> int \<Rightarrow> tracker_state \<Rightarrow> loop_flow \<times> tracker_state" where
  "process_message sid dir m observed st =
     (if fm_headers_complete m then process_head sid dir m observed st
      else if fm_body_complete m then process_body sid dir m observed st
      else (Continue, st))"

fun process_messages ::
  "u64 \<Rightarrow> packet_direction \<Rightarrow> http1_framed_message list \<Rightarrow> int \<Rightarrow> tracker_state \<Rightarrow> errno \<times> tracker_state" where
  "process_messages sid dir [] observed st = (E_OK, st)"
| "process_messages sid dir (m # ms) observed st =
     (if ss_sealed (fst st) then (E_OK, st)
      else case process_message sid dir m observed st of
        (Continue, st') \<Rightarrow> process_messages sid dir ms observed st'
      | (Break, st') \<Rightarrow> (E_OK, st')
      | (Return e, st') \<Rightarrow> (e, st'))"

section \<open>Entry points\<close>

definition put_session :: "u64 \<Rightarrow> tracker_state \<Rightarrow> http1_tracker \<times> http1_result list" where
  "put_session sid st = (case st of (s, t, rows) \<Rightarrow>
     (t\<lparr>ht_sessions := omap_put sid s (ht_sessions t)\<rparr>, rows))"

text \<open>The session of an event, created on its first event; \<open>None\<close> when its charge is refused.\<close>

definition find_session :: "u64 \<Rightarrow> http1_tracker \<Rightarrow> (http1_session \<times> http1_tracker) option" where
  "find_session sid t =
     (case omap_find (ht_sessions t) sid of Some s \<Rightarrow> Some (s, t)
      | None \<Rightarrow>
          map_option (\<lambda>t'. ((new_http1_session (hc_max_header_bytes (ht_config t)))
              \<lparr>ss_reserved_bytes := session_charge (ht_config t)\<rparr>, t'))
            (http1_reserve (session_charge (ht_config t)) t))"

text \<open>What remains to do for the event once its messages are processed.\<close>

definition conclude_event ::
  "u64 \<Rightarrow> packet_direction \<Rightarrow> tcp_stream_event \<Rightarrow> int \<Rightarrow> http1_framer_error \<Rightarrow> tracker_state
    \<Rightarrow> tracker_state" where
  "conclude_event sid dir event observed e st =
     (let s = fst st;
          response = (case ss_request_direction s of None \<Rightarrow> False | Some d \<Rightarrow> dir \<noteq> d) in
      if ss_sealed s then st
      else if ev_kind event = EventGap then
        (let reason = (if ev_includes_capture_truncation event then CaptureTruncation
                       else if response then ResponsePathGap else RequestPathGap) in
         seal sid reason reason observed st)
      else if e \<noteq> FramerNone then
        (let reason = (if ev_kind event = EventEnd \<and> e = Incomplete \<and> response
                       then ResponseStreamEnd else framing_reason e response) in
         seal sid reason reason observed st)
      else if ev_kind event = EventEnd then
        (if ev_end_reason event \<noteq> Some EndFin then seal sid SessionEnd SessionEnd observed st
         else if response then seal sid ResponseStreamEnd ResponseStreamEnd observed st
         else st)
      else st)"

definition session_event ::
  "u64 \<Rightarrow> packet_direction \<Rightarrow> tcp_stream_origin \<Rightarrow> tcp_stream_event \<Rightarrow> int \<Rightarrow> tracker_state
    \<Rightarrow> errno \<times> tracker_state" where
  "session_event sid dir origin event observed st = (case st of (s, t, rows) \<Rightarrow>
     if ss_sealed s then (E_OK, st)
     else case framer_consume event origin (Some (response_context s)) (session_framer dir s) (Some [])
       of (e, f, ms) \<Rightarrow>
         (case process_messages sid dir (case ms of None \<Rightarrow> [] | Some l \<Rightarrow> l) observed
             (set_session_framer dir f s, t, rows) of (processed, st1) \<Rightarrow>
           if processed \<noteq> E_OK then (processed, st1)
           else if e = FramerAllocationFailed then (E_NOMEM, st1)
           else if e = InvalidOutput then (E_INVAL, st1)
           else (E_OK, conclude_event sid dir event observed e st1)))"

text \<open>
  A null results pointer is \<open>None\<close>. The event's own charge is released whatever the outcome.
\<close>

definition on_stream_event ::
  "u64 \<Rightarrow> packet_direction \<Rightarrow> tcp_stream_origin \<Rightarrow> tcp_stream_event \<Rightarrow> int \<Rightarrow> http1_tracker
    \<Rightarrow> http1_result list option \<Rightarrow> errno \<times> http1_tracker \<times> http1_result list option" where
  "on_stream_event sid dir origin event observed t results =
     (case results of None \<Rightarrow> (E_INVAL, t, None)
      | Some rows \<Rightarrow>
          if ht_aborted t \<or> sid = 0 then (E_INVAL, t, results)
          else
            let n = event_charge (if ev_kind event = EventData then span_size (ev_bytes event) else 0) in
            if n = 0 then (E_NOSPC, t, results)
            else case http1_reserve n t of None \<Rightarrow> (E_NOSPC, t, results)
            | Some t1 \<Rightarrow>
                (case find_session sid t1 of
                   None \<Rightarrow> (E_NOSPC, http1_release n t1, results)
                 | Some (s, t2) \<Rightarrow>
                     (case session_event sid dir origin event observed (s, t2, rows) of (e, st) \<Rightarrow>
                        (case put_session sid st of (t3, rows') \<Rightarrow>
                           (e, http1_release n t3, Some rows')))))"

fun next_deadline :: "('k \<times> http1_session) list \<Rightarrow> int option \<Rightarrow> int option" where
  "next_deadline [] nxt = nxt"
| "next_deadline ((k, s) # m) nxt =
     next_deadline m
       (if ss_sealed s \<or> ss_pending s = [] then nxt
        else case (pe_response (hd (ss_pending s)), pe_deadline_ns (hd (ss_pending s))) of
          (None, Some d) \<Rightarrow> (case nxt of None \<Rightarrow> Some d | Some n \<Rightarrow> if d < n then Some d else nxt)
        | _ \<Rightarrow> nxt)"

definition http1_next_event_deadline_ns :: "http1_tracker \<Rightarrow> int option" where
  "http1_next_event_deadline_ns t = next_deadline (ht_sessions t) None"

definition overdue :: "int \<Rightarrow> http1_session \<Rightarrow> bool" where
  "overdue w s \<longleftrightarrow> \<not> ss_sealed s \<and> ss_pending s \<noteq> [] \<and> pe_response (hd (ss_pending s)) = None \<and>
     (case pe_deadline_ns (hd (ss_pending s)) of None \<Rightarrow> False | Some d \<Rightarrow> d \<le> w)"

fun expire_sessions ::
  "int \<Rightarrow> (u64, http1_session) omap \<Rightarrow> http1_tracker \<Rightarrow> http1_result list
    \<Rightarrow> (u64, http1_session) omap \<times> http1_tracker \<times> http1_result list" where
  "expire_sessions w [] t rows = ([], t, rows)"
| "expire_sessions w ((sid, s) # m) t rows =
     (case (if overdue w s
            then seal sid ResponseNotObservedByDeadline PipelineAlignmentLost w (s, t, rows)
            else (s, t, rows)) of (s', t', rows') \<Rightarrow>
        (case expire_sessions w m t' rows' of (m', t'', rows'') \<Rightarrow> ((sid, s') # m', t'', rows'')))"

definition on_capture_watermark ::
  "int option \<Rightarrow> http1_tracker \<Rightarrow> http1_result list option
    \<Rightarrow> errno \<times> http1_tracker \<times> http1_result list option" where
  "on_capture_watermark watermark t results =
     (case results of None \<Rightarrow> (E_INVAL, t, None)
      | Some rows \<Rightarrow>
          if ht_aborted t then (E_INVAL, t, results)
          else case watermark of None \<Rightarrow> (E_OK, t, results)
          | Some w \<Rightarrow>
              if (case ht_watermark_ns t of None \<Rightarrow> False | Some w0 \<Rightarrow> w \<le> w0) then (E_OK, t, results)
              else
                (case expire_sessions w (ht_sessions t) (t\<lparr>ht_watermark_ns := Some w\<rparr>) rows of
                   (m, t', rows') \<Rightarrow> (E_OK, t'\<lparr>ht_sessions := m\<rparr>, Some rows')))"

definition http1_on_session_end ::
  "u64 \<Rightarrow> session_end_reason \<Rightarrow> int \<Rightarrow> http1_tracker \<Rightarrow> http1_result list option
    \<Rightarrow> errno \<times> http1_tracker \<times> http1_result list option" where
  "http1_on_session_end sid reason observed t results =
     (case results of None \<Rightarrow> (E_INVAL, t, None)
      | Some rows \<Rightarrow>
          if ht_aborted t \<or> sid = 0 then (E_INVAL, t, results)
          else case omap_find (ht_sessions t) sid of None \<Rightarrow> (E_OK, t, results)
          | Some s \<Rightarrow>
              (case seal sid SessionEnd SessionEnd observed (s, t, rows) of (s', t', rows') \<Rightarrow>
                 (E_OK, (http1_release (ss_reserved_bytes s') t')
                    \<lparr>ht_sessions := omap_erase sid (ht_sessions t')\<rparr>, Some rows')))"

definition http1_abort :: "http1_tracker \<Rightarrow> http1_tracker" where
  "http1_abort t =
     (let t1 = fold (\<lambda>(sid, s). http1_release (ss_reserved_bytes s)) (ht_sessions t)
                 (t\<lparr>ht_aborted := True\<rparr>) in
      (http1_release (ht_result_charges t1) (t1\<lparr>ht_sessions := []\<rparr>))\<lparr>ht_result_charges := 0\<rparr>)"

definition http1_release_results ::
  "http1_tracker \<Rightarrow> http1_result list option \<Rightarrow> http1_tracker \<times> http1_result list option" where
  "http1_release_results t results =
     ((http1_release (ht_result_charges t) t)\<lparr>ht_result_charges := 0\<rparr>, map_option (\<lambda>_. []) results)"

definition http1_active_sessions :: "http1_tracker \<Rightarrow> nat" where
  "http1_active_sessions t = length (ht_sessions t)"

end
