(* ===== verification/ModuleHost.thy ===== *)
theory ModuleHost
  imports OrderedMap TaskBudget
begin

text \<open>
  What the protocol modules share on the side of their host: the session key and view they are
  given (npm_ip_family_contract.h, npm_analysis_contract.h), the input events of
  npm_protocol_contract.h, and the table of session identities that the DNS and HTTP/1 modules
  keep to address their rows, charged to the task ledger.
\<close>

section \<open>Keys, views, inputs\<close>

datatype address_family = NoFamily | IPv4 | IPv6

text \<open>
  NpmSessionKey4 and NpmSessionKey6 as one record; the addresses are lists of 4 or 16 octets.
\<close>

record npm_session_key =
  sk_family :: address_family
  sk_a_ip :: "u8 list"
  sk_b_ip :: "u8 list"
  sk_namespace :: string
  sk_domain :: u64
  sk_a_port :: u16
  sk_b_port :: u16
  sk_protocol :: u8

text \<open>Of a session view the modules read the identifier and the key.\<close>

record session_view =
  sv_session_id :: u64
  sv_key :: "npm_session_key option"

datatype npm_input_kind = InTcpPacket | InUdpDatagram | InControlPacket

text \<open>Of the transport view a module reads the direction, of the packet the capture time.\<close>

record npm_input =
  in_kind :: npm_input_kind
  in_session :: "session_view option"
  in_direction :: "packet_direction option"
  in_body :: span
  in_body_complete :: bool
  in_timestamp_ns :: int

section \<open>Session identities\<close>

record npm_identity =
  id_key :: npm_session_key
  id_charge :: nat

type_synonym identities = "(u64, npm_identity) omap"

text \<open>
  RememberSession: \<open>owned\<close> is the charge of a key, the size of the table's node and of the key's
  allocation, which the C++ library fixes; \<open>accepts\<close> is the module's test of the protocol.
\<close>

definition remember_session ::
  "(u8 \<Rightarrow> bool) \<Rightarrow> (npm_session_key \<Rightarrow> nat) \<Rightarrow> session_view \<Rightarrow> identities \<Rightarrow> npm_task_budget option
    \<Rightarrow> errno \<times> identities \<times> npm_task_budget option" where
  "remember_session accepts owned view ids b =
     (case (b, sv_key view) of
        (Some _, Some key) \<Rightarrow>
          if sv_session_id view = 0 then (E_INVAL, ids, b)
          else if omap_find ids (sv_session_id view) \<noteq> None then (E_OK, ids, b)
          else
            (case opt_charge (owned key) b of None \<Rightarrow> (E_NOSPC, ids, b)
             | Some b' \<Rightarrow>
                 if \<not> accepts (sk_protocol key) then (E_INVAL, ids, opt_refund (owned key) b')
                 else (E_OK, omap_put (sv_session_id view) \<lparr>id_key = key, id_charge = owned key\<rparr> ids, b'))
      | _ \<Rightarrow> (E_INVAL, ids, b))"

definition forget_session ::
  "u64 \<Rightarrow> identities \<Rightarrow> npm_task_budget option \<Rightarrow> identities \<times> npm_task_budget option" where
  "forget_session sid ids b =
     (case omap_find ids sid of None \<Rightarrow> (ids, b)
      | Some i \<Rightarrow> (omap_erase sid ids, opt_refund (id_charge i) b))"

text \<open>The loop of Abort takes the first identity until none is left.\<close>

fun forget_all :: "identities \<Rightarrow> npm_task_budget option \<Rightarrow> npm_task_budget option" where
  "forget_all [] b = b"
| "forget_all ((sid, i) # ids) b = forget_all ids (opt_refund (id_charge i) b)"

definition identity_share :: "identities \<Rightarrow> nat" where
  "identity_share ids = omap_sum id_charge ids"

lemma remember_session_spec:
  assumes "remember_session accepts owned view ids b = (e, ids', b')"
    "omap_wf ids" "backed b (identity_share ids + c) base"
  shows "omap_wf ids' \<and> backed b' (identity_share ids' + c) base \<and> (b' = None) = (b = None) \<and> e \<noteq> E_UNCAUGHT \<and>
    (e \<noteq> E_OK \<longrightarrow> ids' = ids) \<and>
    (e = E_OK \<longrightarrow> sv_session_id view \<noteq> 0 \<and> sv_key view \<noteq> None \<and>
       set (omap_keys ids') = insert (sv_session_id view) (set (omap_keys ids)))"
proof (cases "b = None \<or> sv_key view = None \<or> sv_session_id view = 0 \<or> omap_find ids (sv_session_id view) \<noteq> None")
  case True
  with assms show ?thesis
    by (auto simp: remember_session_def omap_find_keys split: option.splits if_splits)
next
  case False
  then obtain tb key where s: "b = Some tb" "sv_key view = Some key" "sv_session_id view \<noteq> 0"
      "omap_find ids (sv_session_id view) = None" by auto
  show ?thesis
  proof (cases "opt_charge (owned key) b")
    case None
    with assms s show ?thesis by (auto simp: remember_session_def)
  next
    case (Some b1)
    have charged: "backed b1 (identity_share ids + c + owned key) base"
      using backed_charge [OF assms(3) Some] .
    have ne: "(b1 = None) = (b = None)" using Some by (auto simp: opt_charge_def s)
    show ?thesis
    proof (cases "accepts (sk_protocol key)")
      case True
      then have "ids' = omap_put (sv_session_id view) \<lparr>id_key = key, id_charge = owned key\<rparr> ids" "b' = b1" "e = E_OK"
        using assms(1) s Some by (auto simp: remember_session_def)
      then show ?thesis
        using assms(2) charged ne s omap_sum_put_new [OF s(4), of id_charge]
        by (auto simp: om.wf_put om.keys_put identity_share_def ac_simps)
    next
      case False
      then have "ids' = ids" "b' = opt_refund (owned key) b1" "e = E_INVAL"
        using assms(1) s Some by (auto simp: remember_session_def)
      then show ?thesis using assms(2) backed_refund [OF charged] ne by (simp add: opt_refund_def)
    qed
  qed
qed

lemma forget_session_spec:
  assumes "forget_session sid ids b = (ids', b')" "omap_wf ids" "backed b (identity_share ids + c) base"
  shows "omap_wf ids' \<and> backed b' (identity_share ids' + c) base \<and> (b' = None) = (b = None) \<and>
    set (omap_keys ids') = set (omap_keys ids) - {sid}"
proof (cases "omap_find ids sid")
  case None
  with assms show ?thesis by (auto simp: forget_session_def omap_find_keys)
next
  case (Some i)
  then have eq: "ids' = omap_erase sid ids" "b' = opt_refund (id_charge i) b"
    using assms(1) by (auto simp: forget_session_def)
  have "identity_share ids + c = identity_share ids' + c + id_charge i"
    using omap_sum_erase [OF Some, of id_charge] by (simp add: eq identity_share_def ac_simps)
  with assms show ?thesis
    by (auto simp: eq om.wf_erase om.keys_erase opt_refund_def intro: backed_refund [unfolded opt_refund_def])
qed

lemma forget_all_spec:
  "backed b (identity_share ids + c) base \<Longrightarrow>
     backed (forget_all ids b) c base \<and> (forget_all ids b = None) = (b = None)"
proof (induction ids b rule: forget_all.induct)
  case (2 sid i ids b)
  have "backed b (identity_share ids + c + id_charge i) base"
    using "2.prems" by (simp add: identity_share_def ac_simps)
  from "2.IH" [OF backed_refund [OF this]] show ?case by (simp add: opt_refund_def)
qed (simp add: identity_share_def)

end
