(* ===== verification/StreamCursor.thy ===== *)
theory StreamCursor
  imports TcpStreamContract
begin

text \<open>
  A consumer's cursor over the events of a stream direction that it has not consumed yet, as
  core/npm_tcp_stream_shared.cpp implements the interface of npm_tcp_stream_contract.h: the reader's
  position is an event and an offset into it. The cursor is the list of the events from there on, the
  first one shortened by what has been consumed of it. The failure that a direction latches, which ends
  every cursor on it, is not part of the model.
\<close>

fun span_drop :: "nat \<Rightarrow> span \<Rightarrow> span" where
  "span_drop n (NullSpan k) = NullSpan (k - n)"
| "span_drop n (Bytes bs) = Bytes (drop n bs)"

fun span_take :: "nat \<Rightarrow> span \<Rightarrow> span" where
  "span_take n (NullSpan k) = NullSpan (min n k)"
| "span_take n (Bytes bs) = Bytes (take n bs)"

lemma span_size_take [simp]: "span_size (span_take n s) = min n (span_size s)"
  by (cases s) (simp_all add: min.commute)

lemma span_size_drop [simp]: "span_size (span_drop n s) = span_size s - n"
  by (cases s) simp_all

definition cursor_peek :: "tcp_stream_event list \<Rightarrow> tcp_stream_event option" where
  "cursor_peek evs = (case evs of [] \<Rightarrow> None | ev # _ \<Rightarrow> Some ev)"

text \<open>Data is consumed in part or in full, anything else is acknowledged with 0.\<close>

definition cursor_consume :: "nat \<Rightarrow> tcp_stream_event list \<Rightarrow> errno \<times> tcp_stream_event list" where
  "cursor_consume n evs =
     (case evs of [] \<Rightarrow> (E_INVAL, [])
      | ev # rest \<Rightarrow>
          if ev_kind ev = EventData then
            (if n = 0 \<or> n > span_size (ev_bytes ev) then (E_INVAL, evs)
             else if n < span_size (ev_bytes ev)
             then (E_OK, ev\<lparr>ev_begin := ev_begin ev + n, ev_bytes := span_drop n (ev_bytes ev)\<rparr> # rest)
             else (E_OK, rest))
          else if n \<noteq> 0 then (E_INVAL, evs) else (E_OK, rest))"

definition cursor_size :: "tcp_stream_event list \<Rightarrow> nat" where
  "cursor_size evs = sum_list (map (\<lambda>ev. Suc (span_size (ev_bytes ev))) evs)"

lemma cursor_consume_smaller: "cursor_consume n evs = (E_OK, evs') \<Longrightarrow> cursor_size evs' < cursor_size evs"
  by (auto simp: cursor_consume_def cursor_size_def split: list.splits if_splits)

end
