(* ===== verification/Http1Module.thy ===== *)
theory Http1Module
  imports Http1Transactions ModuleHost StreamCursor
begin

text \<open>
  The HTTP/1 protocol module, modules/http1/npm_http1_module.cpp, with the row check and the build
  charge of its encoder (npm_http1_result_encoder.cpp): each callback runs the transaction tracker,
  emits the rows it wrote for the identities of their sessions, and releases the rows' charge.
\<close>

section \<open>Rows\<close>

text \<open>
  Parameters: the charge of an identity, which depends on the sizes of the library's nodes and of the
  key, the UTF-8 check of Arrow, and what building the batch and emitting it returns.
\<close>

record http1_host =
  hw_owned :: "npm_session_key \<Rightarrow> nat"
  hw_utf8 :: "string \<Rightarrow> bool"
  hw_emit :: "npm_session_key \<Rightarrow> http1_result \<Rightarrow> errno"

definition valid_text :: "(string \<Rightarrow> bool) \<Rightarrow> string option \<Rightarrow> nat \<Rightarrow> bool" where
  "valid_text utf8 v max_bytes = (case v of None \<Rightarrow> True | Some s \<Rightarrow> length s \<le> max_bytes \<and> utf8 s)"

definition valid_texts :: "(string \<Rightarrow> bool) \<Rightarrow> http1_result \<Rightarrow> bool" where
  "valid_texts utf8 r \<longleftrightarrow>
     valid_text utf8 (Option.bind (hr_request r) mh_method) 1024 \<and>
     valid_text utf8 (Option.bind (hr_request r) mh_target) (4 * 1048576) \<and>
     valid_text utf8 (Option.bind (hr_request r) mh_host) (4 * 1048576)"

definition valid_request :: "http1_message_head \<Rightarrow> bool" where
  "valid_request q \<longleftrightarrow>
     \<not> (mh_is_response q \<or> mh_method q = None \<or> mh_target q = None \<or>
        mh_status_code q \<noteq> None)"

definition valid_response :: "http1_message_head \<Rightarrow> bool" where
  "valid_response a \<longleftrightarrow>
     \<not> (\<not> mh_is_response a \<or> (case mh_status_code a of None \<Rightarrow> True | Some c \<Rightarrow> c < 100 \<or> c > 599))"

definition valid_outcome :: "http1_result \<Rightarrow> bool" where
  "valid_outcome r =
     (case hr_outcome r of
        Matched \<Rightarrow>
          hr_request r \<noteq> None \<and> hr_response r \<noteq> None \<and> hr_request_direction r \<noteq> None \<and>
          hr_response_direction r \<noteq> None \<and> hr_request_direction r \<noteq> hr_response_direction r \<and>
          hr_incomplete_reason r = ReasonNone
      | RequestOnly \<Rightarrow>
          hr_request r \<noteq> None \<and> hr_response r = None \<and> hr_request_direction r \<noteq> None \<and>
          hr_response_direction r = None \<and> hr_incomplete_reason r \<noteq> ReasonNone \<and>
          hr_incomplete_reason r \<noteq> NoPendingRequest \<and> hr_latency_ns r = None
      | ResponseOnly \<Rightarrow>
          hr_request r = None \<and> hr_response r \<noteq> None \<and> hr_request_direction r = None \<and>
          hr_response_direction r \<noteq> None \<and> hr_incomplete_reason r = NoPendingRequest \<and> hr_latency_ns r = None)"

definition valid_http1_row :: "(string \<Rightarrow> bool) \<Rightarrow> http1_result \<Rightarrow> bool" where
  "valid_http1_row utf8 r \<longleftrightarrow>
     \<not> (hr_entity_instance_id r = 0 \<or> hr_session_id r = 0 \<or> \<not> valid_texts utf8 r) \<and>
     (case hr_request r of None \<Rightarrow> True | Some q \<Rightarrow> valid_request q) \<and>
     (case hr_response r of None \<Rightarrow> True | Some a \<Rightarrow> valid_response a) \<and>
     valid_outcome r"

text \<open>The method and the target are there when the row is valid.\<close>

definition text_bytes :: "http1_result \<Rightarrow> nat" where
  "text_bytes r =
     (case hr_request r of None \<Rightarrow> 0
      | Some q \<Rightarrow> length (the (mh_method q)) + length (the (mh_target q)) +
          (case mh_host q of None \<Rightarrow> 0 | Some h \<Rightarrow> length h))"

definition http1_build_charge :: "http1_result \<Rightarrow> nat" where
  "http1_build_charge r = 16 * 1024 + 2 * text_bytes r"

definition emit_http1_transaction ::
  "http1_host \<Rightarrow> npm_session_key \<Rightarrow> http1_result \<Rightarrow> npm_task_budget option \<Rightarrow> errno \<times> npm_task_budget option" where
  "emit_http1_transaction host key r b =
     (if b = None \<or> \<not> valid_http1_row (hw_utf8 host) r then (E_INVAL, b)
      else case opt_charge (http1_build_charge r) b of None \<Rightarrow> (E_NOSPC, b)
      | Some b' \<Rightarrow> (hw_emit host key r, opt_refund (http1_build_charge r) b'))"

section \<open>State\<close>

record http1_module =
  hm_tracker :: http1_tracker
  hm_identities :: identities
  hm_finished :: bool
  hm_aborted :: bool

definition new_http1_module :: "http1_config \<Rightarrow> npm_task_budget option \<Rightarrow> http1_module" where
  "new_http1_module c b =
     \<lparr>hm_tracker = new_http1_tracker c b, hm_identities = [], hm_finished = False, hm_aborted = False\<rparr>"

abbreviation hm_closed :: "http1_module \<Rightarrow> bool" where
  "hm_closed m \<equiv> hm_finished m \<or> hm_aborted m"

definition http1_remember_session :: "http1_host \<Rightarrow> session_view \<Rightarrow> http1_module \<Rightarrow> errno \<times> http1_module" where
  "http1_remember_session host view m =
     (case remember_session (\<lambda>p. p = 6) (hw_owned host) view (hm_identities m) (ht_budget (hm_tracker m)) of
        (e, ids, b) \<Rightarrow> (e, m\<lparr>hm_identities := ids, hm_tracker := (hm_tracker m)\<lparr>ht_budget := b\<rparr>\<rparr>))"

definition http1_forget_session :: "u64 \<Rightarrow> http1_module \<Rightarrow> http1_module" where
  "http1_forget_session sid m =
     (case forget_session sid (hm_identities m) (ht_budget (hm_tracker m)) of
        (ids, b) \<Rightarrow> m\<lparr>hm_identities := ids, hm_tracker := (hm_tracker m)\<lparr>ht_budget := b\<rparr>\<rparr>)"

section \<open>Emitting rows\<close>

type_synonym http1_emitted = "(npm_session_key \<times> http1_result) list"

fun http1_emit_loop ::
  "http1_host \<Rightarrow> identities \<Rightarrow> http1_result list \<Rightarrow> npm_task_budget option
    \<Rightarrow> errno \<times> npm_task_budget option \<times> http1_emitted" where
  "http1_emit_loop host ids [] b = (E_OK, b, [])"
| "http1_emit_loop host ids (r # rs) b =
     (case omap_find ids (hr_session_id r) of None \<Rightarrow> (E_INVAL, b, [])
      | Some i \<Rightarrow>
          (case emit_http1_transaction host (id_key i) r b of (e, b1) \<Rightarrow>
             if e \<noteq> E_OK then (e, b1, [])
             else case http1_emit_loop host ids rs b1 of (e', b2, out) \<Rightarrow> (e', b2, (id_key i, r) # out)))"

type_synonym http1_module_call = "errno \<times> http1_module \<times> http1_emitted"

definition http1_emit_rows :: "http1_host \<Rightarrow> http1_result list \<Rightarrow> http1_module \<Rightarrow> http1_module_call" where
  "http1_emit_rows host rows m =
     (case http1_emit_loop host (hm_identities m) rows (ht_budget (hm_tracker m)) of
        (e, b, out) \<Rightarrow>
          (e, m\<lparr>hm_tracker := fst (http1_release_results ((hm_tracker m)\<lparr>ht_budget := b\<rparr>) (Some rows))\<rparr>, out))"

text \<open>Rows that are not emitted are released all the same.\<close>

definition http1_drop_rows :: "http1_result list option \<Rightarrow> http1_module \<Rightarrow> http1_module" where
  "http1_drop_rows rows m = m\<lparr>hm_tracker := fst (http1_release_results (hm_tracker m) rows)\<rparr>"

definition http1_rows :: "http1_result list option \<Rightarrow> http1_result list" where
  "http1_rows rows = (case rows of None \<Rightarrow> [] | Some rs \<Rightarrow> rs)"

section \<open>Callbacks\<close>

definition http1_module_input :: "http1_host \<Rightarrow> npm_input \<Rightarrow> http1_module \<Rightarrow> errno \<times> http1_module" where
  "http1_module_input host input m =
     (case (in_session input, in_direction input) of
        (Some view, Some dir) \<Rightarrow>
          if hm_closed m \<or> in_kind input \<noteq> InTcpPacket then (E_INVAL, m) else http1_remember_session host view m
      | _ \<Rightarrow> (E_INVAL, m))"

definition http1_module_session_end ::
  "http1_host \<Rightarrow> session_view \<Rightarrow> session_end_reason \<Rightarrow> int \<Rightarrow> http1_module \<Rightarrow> http1_module_call" where
  "http1_module_session_end host view reason observed m =
     (if hm_closed m then (E_INVAL, m, [])
      else case http1_on_session_end (sv_session_id view) reason observed (hm_tracker m) (Some []) of
        (e, t, rows) \<Rightarrow>
          if e \<noteq> E_OK then (e, http1_drop_rows rows (m\<lparr>hm_tracker := t\<rparr>), [])
          else case http1_emit_rows host (http1_rows rows) (m\<lparr>hm_tracker := t\<rparr>) of (e', m', out) \<Rightarrow>
            (e', if e' = E_OK then http1_forget_session (sv_session_id view) m' else m', out))"

definition http1_module_deadline :: "http1_module \<Rightarrow> int option" where
  "http1_module_deadline m = (if hm_closed m then None else http1_next_event_deadline_ns (hm_tracker m))"

definition http1_module_time :: "http1_host \<Rightarrow> int option \<Rightarrow> http1_module \<Rightarrow> http1_module_call" where
  "http1_module_time host watermark m =
     (if hm_closed m then (E_INVAL, m, [])
      else case on_capture_watermark watermark (hm_tracker m) (Some []) of
        (e, t, rows) \<Rightarrow>
          if e \<noteq> E_OK then (e, http1_drop_rows rows (m\<lparr>hm_tracker := t\<rparr>), [])
          else http1_emit_rows host (http1_rows rows) (m\<lparr>hm_tracker := t\<rparr>))"

definition http1_module_finish :: "http1_module \<Rightarrow> errno \<times> http1_module" where
  "http1_module_finish m =
     (if hm_closed m \<or> hm_identities m \<noteq> [] \<or> http1_active_sessions (hm_tracker m) \<noteq> 0 then (E_INVAL, m)
      else (E_OK, m\<lparr>hm_finished := True\<rparr>))"

definition http1_module_abort :: "http1_module \<Rightarrow> http1_module" where
  "http1_module_abort m =
     (if hm_aborted m then m
      else
        (let t = http1_abort (hm_tracker m) in
         m\<lparr>hm_aborted := True, hm_identities := [],
           hm_tracker := t\<lparr>ht_budget := forget_all (hm_identities m) (ht_budget t)\<rparr>\<rparr>))"

section \<open>Readable streams\<close>

text \<open>One round of the loop: the error, the events left, the module and the rows.\<close>

definition http1_round ::
  "http1_host \<Rightarrow> session_view \<Rightarrow> tcp_stream_context \<Rightarrow> tcp_stream_event \<Rightarrow> tcp_stream_event list \<Rightarrow> http1_module
    \<Rightarrow> errno \<times> tcp_stream_event list \<times> http1_module \<times> http1_emitted" where
  "http1_round host view cx ev evs m =
     (case on_stream_event (sv_session_id view) (cx_direction cx) (cx_origin cx) ev (cx_observed_at_ns cx)
         (hm_tracker m) (Some []) of
        (e, t, rows) \<Rightarrow>
          let m1 = m\<lparr>hm_tracker := t\<rparr> in
          if e \<noteq> E_OK then (e, evs, http1_drop_rows rows m1, [])
          else case cursor_consume (if ev_kind ev = EventData then span_size (ev_bytes ev) else 0) evs of (e, evs') \<Rightarrow>
            if e \<noteq> E_OK then (e, evs', http1_drop_rows rows m1, [])
            else case http1_emit_rows host (http1_rows rows) m1 of (e, m2, out) \<Rightarrow> (e, evs', m2, out))"

lemma http1_round_smaller:
  "http1_round host view cx ev evs m = (E_OK, evs', m', out) \<Longrightarrow> cursor_size evs' < cursor_size evs"
  by (auto simp: http1_round_def Let_def dest: cursor_consume_smaller split: prod.splits if_splits)

function http1_readable_loop ::
  "http1_host \<Rightarrow> session_view \<Rightarrow> tcp_stream_context \<Rightarrow> tcp_stream_event list \<Rightarrow> http1_module \<Rightarrow> http1_module_call" where
  "http1_readable_loop host view cx [] m = (E_OK, m, [])"
| "http1_readable_loop host view cx (ev # evs) m =
     (case http1_round host view cx ev (ev # evs) m of (e, evs', m', out) \<Rightarrow>
        if e \<noteq> E_OK then (e, m', out)
        else case http1_readable_loop host view cx evs' m' of (e', m'', out') \<Rightarrow> (e', m'', out @ out'))"
  by pat_completeness auto

termination
  by (relation "measure (\<lambda>(host, view, cx, evs, m). cursor_size evs)") (simp, metis case_prod_conv in_measure http1_round_smaller)

definition http1_module_readable ::
  "http1_host \<Rightarrow> session_view option \<Rightarrow> tcp_stream_context \<Rightarrow> tcp_stream_event list \<Rightarrow> http1_module \<Rightarrow> http1_module_call" where
  "http1_module_readable host session cx evs m =
     (case session of None \<Rightarrow> (E_INVAL, m, [])
      | Some view \<Rightarrow>
          if hm_closed m then (E_INVAL, m, [])
          else case http1_remember_session host view m of (e, m1) \<Rightarrow>
            if e \<noteq> E_OK then (e, m1, []) else http1_readable_loop host view cx evs m1)"

end
