(* ===== verification/Http1TransactionsProps.thy ===== *)
theory Http1TransactionsProps
  imports Http1Transactions Http1FramerProps
begin

text \<open>
  The invariant of the HTTP/1 transaction tracker and what follows from it: the ledger records
  exactly what the sessions and the unreleased rows hold, entity ids are never used twice, no
  empty optional is dereferenced, and no overdue request survives a watermark.
\<close>

section \<open>The invariant\<close>

definition request_head :: "http1_message_head \<Rightarrow> bool" where
  "request_head h \<longleftrightarrow>
     \<not> mh_is_response h \<and> mh_method h \<noteq> None \<and> mh_target h \<noteq> None \<and> mh_status_code h = None"

definition response_head :: "http1_message_head \<Rightarrow> bool" where
  "response_head h \<longleftrightarrow> mh_is_response h \<and> (\<exists>c. mh_status_code h = Some c \<and> 100 \<le> c \<and> c \<le> 599)"

definition final_head :: "http1_message_head \<Rightarrow> bool" where
  "final_head h \<longleftrightarrow> response_head h \<and> (\<exists>c. mh_status_code h = Some c \<and> is_final c)"

definition pending_ok :: "http1_pending \<Rightarrow> bool" where
  "pending_ok p \<longleftrightarrow> request_head (pe_request p) \<and>
     (\<forall>r. pe_response p = Some r \<longrightarrow> final_head r)"

text \<open>Responses are assigned from the front: no answered request follows an unanswered one.\<close>

fun answered_prefix :: "http1_pending list \<Rightarrow> bool" where
  "answered_prefix [] = True"
| "answered_prefix (p # ps) =
     (if pe_response p = None then list_all (\<lambda>q. pe_response q = None) ps else answered_prefix ps)"

text \<open>What the columns of a row say together.\<close>

definition http1_row_ok :: "http1_result \<Rightarrow> bool" where
  "http1_row_ok r \<longleftrightarrow> (case hr_outcome r of
     Matched \<Rightarrow> hr_incomplete_reason r = ReasonNone \<and>
       (\<exists>d q a. hr_request_direction r = Some d \<and> hr_response_direction r = Some (opposite d) \<and>
          hr_request r = Some q \<and> request_head q \<and> hr_response r = Some a \<and> final_head a \<and>
          hr_latency_ns r = http1_latency (mh_complete_at_ns q) (mh_complete_at_ns a))
   | RequestOnly \<Rightarrow> hr_incomplete_reason r \<notin> {ReasonNone, NoPendingRequest} \<and>
       hr_request_direction r \<noteq> None \<and> hr_response_direction r = None \<and>
       (\<exists>q. hr_request r = Some q \<and> request_head q) \<and> hr_response r = None \<and>
       hr_latency_ns r = None
   | ResponseOnly \<Rightarrow> hr_incomplete_reason r = NoPendingRequest \<and> hr_request_direction r = None \<and>
       hr_response_direction r \<noteq> None \<and> hr_request r = None \<and> hr_latency_ns r = None \<and>
       (\<exists>a. hr_response r = Some a \<and> final_head a))"

lemma answered_prefix_tl: "answered_prefix (p # ps) \<Longrightarrow> answered_prefix ps"
  by (cases ps) (auto split: if_splits)

lemma answered_prefix_snoc: "answered_prefix ps \<Longrightarrow> pe_response q = None \<Longrightarrow> answered_prefix (ps @ [q])"
  by (induction ps) auto

definition seal_reason :: "http1_incomplete_reason \<Rightarrow> bool" where
  "seal_reason r \<longleftrightarrow> r \<notin> {ReasonNone, NoPendingRequest}"

lemma seal_reason_simps [simp]:
  "seal_reason ResponseNotObservedByDeadline" "seal_reason PipelineAlignmentLost"
  "seal_reason RequestPathGap" "seal_reason ResponsePathGap" "seal_reason CaptureTruncation"
  "seal_reason FramingUnsupported" "seal_reason HeaderLimitExceeded" "seal_reason MalformedResponse"
  "seal_reason ResponseStreamEnd" "seal_reason SessionEnd" "seal_reason (framing_reason e b)"
  by (simp_all add: seal_reason_def framing_reason_def)

lemma row_ok_request_only:
  "pending_ok p \<Longrightarrow> d \<noteq> None \<Longrightarrow> seal_reason reason \<Longrightarrow>
     http1_row_ok (request_only_row sid reason observed d p)"
  by (auto simp: http1_row_ok_def request_only_row_def pending_ok_def seal_reason_def)

lemma row_ok_matched:
  "pending_ok p \<Longrightarrow> d \<noteq> None \<Longrightarrow> pe_response p = Some response \<Longrightarrow>
     http1_row_ok (matched_row sid observed d p response)"
  by (auto simp: http1_row_ok_def matched_row_def pending_ok_def)

lemma row_ok_orphan:
  "final_head (or_response orp) \<Longrightarrow> d \<noteq> None \<Longrightarrow> http1_row_ok (orphan_row sid observed d orp)"
  by (auto simp: http1_row_ok_def orphan_row_def)

definition session_slots :: "http1_session \<Rightarrow> nat" where
  "session_slots s = length (ss_pending s) + (case ss_orphan s of None \<Rightarrow> 0 | Some orp \<Rightarrow> 1)"

definition session_ids :: "http1_session \<Rightarrow> u64 multiset" where
  "session_ids s = mset (map pe_entity_instance_id (ss_pending s)) +
     (case ss_orphan s of None \<Rightarrow> {#} | Some orp \<Rightarrow> {#or_entity_instance_id orp#})"

definition row_ids :: "http1_result list \<Rightarrow> u64 multiset" where
  "row_ids rows = mset (map hr_entity_instance_id rows)"

definition http1_session_ok :: "http1_config \<Rightarrow> http1_session \<Rightarrow> bool" where
  "http1_session_ok c s \<longleftrightarrow>
     ss_reserved_bytes s = session_charge c + pending_charge c * session_slots s \<and>
     length (ss_pending s) \<le> hc_max_pending_per_session c \<and> list_all pending_ok (ss_pending s) \<and>
     answered_prefix (ss_pending s) \<and>
     (\<forall>orp. ss_orphan s = Some orp \<longrightarrow> final_head (or_response orp)) \<and>
     (ss_request_direction s = None \<longrightarrow> session_slots s = 0) \<and>
     (ss_sealed s \<longrightarrow> session_slots s = 0)"

text \<open>What no handler changes while it works on one session.\<close>

definition control :: "http1_tracker \<Rightarrow> http1_config \<times> (u64, http1_session) omap \<times> int option \<times> bool" where
  "control t = (ht_config t, ht_sessions t, ht_watermark_ns t, ht_aborted t)"

text \<open>
  While a handler works on a session: the ledger holds \<open>base\<close> bytes of others, \<open>extra\<close> bytes of
  the other sessions and of the event, and what the session and the rows hold; \<open>M\<close> are the ids
  used by the other sessions and by rows released before.
\<close>

definition work_inv ::
  "http1_config \<times> (u64, http1_session) omap \<times> int option \<times> bool \<Rightarrow> nat \<Rightarrow> nat \<Rightarrow> u64 multiset
    \<Rightarrow> tracker_state \<Rightarrow> bool" where
  "work_inv k base extra M st \<longleftrightarrow> (case st of (s, t, rows) \<Rightarrow>
     control t = k \<and> http1_session_ok (ht_config t) s \<and>
     ht_result_charges t = pending_charge (ht_config t) * length rows \<and>
     backed (ht_budget t) (ss_reserved_bytes s + ht_result_charges t + extra) base \<and>
     ids_ok (ht_next_id t) (M + row_ids rows + session_ids s) \<and> list_all http1_row_ok rows)"

lemma row_ids_append [simp]: "row_ids (rows @ [r]) = add_mset (hr_entity_instance_id r) (row_ids rows)"
  by (simp add: row_ids_def)

text \<open>Moving the front pending request to the rows.\<close>

lemma work_inv_emit:
  assumes "work_inv k base extra M (s\<lparr>ss_pending := p # ps\<rparr>, t, rows)"
    "hr_entity_instance_id row = pe_entity_instance_id p"
    "pending_ok p \<Longrightarrow> ss_request_direction s \<noteq> None \<Longrightarrow> http1_row_ok row"
  shows "work_inv k base extra M
    ((s\<lparr>ss_reserved_bytes := ss_reserved_bytes s - pending_charge (ht_config t)\<rparr>)\<lparr>ss_pending := ps\<rparr>,
     t\<lparr>ht_result_charges := ht_result_charges t + pending_charge (ht_config t)\<rparr>, rows @ [row])"
  using assms
  by (auto simp: work_inv_def control_def http1_session_ok_def session_slots_def session_ids_def
      algebra_simps simp del: answered_prefix.simps dest: answered_prefix_tl split: option.splits)

lemma seal_pending_inv:
  assumes "work_inv k base extra M (s\<lparr>ss_pending := ps\<rparr>, t, rows)"
    "seal_pending sid reason later observed ps (s, t, rows) = (s', t', rows')"
    "seal_reason reason" "seal_reason later"
  shows "work_inv k base extra M (s', t', rows') \<and> ss_pending s' = [] \<and> ss_orphan s' = ss_orphan s \<and>
    ss_sealed s' = ss_sealed s"
  using assms
proof (induction ps arbitrary: reason s t rows)
  case Nil
  then show ?case by auto
next
  case (Cons p ps)
  let ?row = "request_only_row sid reason observed (ss_request_direction s) p"
  have "work_inv k base extra M
    ((s\<lparr>ss_reserved_bytes := ss_reserved_bytes s - pending_charge (ht_config t)\<rparr>)\<lparr>ss_pending := ps\<rparr>,
     t\<lparr>ht_result_charges := ht_result_charges t + pending_charge (ht_config t)\<rparr>, rows @ [?row])"
    by (rule work_inv_emit [OF Cons.prems(1)])
      (simp_all add: row_ok_request_only Cons.prems(3), simp add: request_only_row_def)
  from Cons.IH [OF this] Cons.prems(2-4) show ?case by simp
qed

lemma http1_release_simps [simp]:
  "control (http1_release n t) = control t" "ht_config (http1_release n t) = ht_config t"
  "ht_next_id (http1_release n t) = ht_next_id t"
  "ht_result_charges (http1_release n t) = ht_result_charges t"
  "ht_sessions (http1_release n t) = ht_sessions t"
  "ht_watermark_ns (http1_release n t) = ht_watermark_ns t" "ht_aborted (http1_release n t) = ht_aborted t"
  by (simp_all add: http1_release_def control_def)

lemma http1_release_backed:
  "backed (ht_budget t) (c + n) base \<Longrightarrow> backed (ht_budget (http1_release n t)) c base"
  by (auto simp: http1_release_def intro: backed_refund)

lemma seal_inv:
  assumes inv: "work_inv k base extra M st" and reasons: "seal_reason first" "seal_reason later"
  shows "work_inv k base extra M (seal sid first later observed st) \<and>
    ss_sealed (fst (seal sid first later observed st))"
proof (cases "ss_sealed (fst st)")
  case True
  with inv show ?thesis by (simp add: seal_def)
next
  case False
  obtain s t rows where st: "st = (s, t, rows)" by (metis prod.exhaust)
  obtain s' t' rows' where pend: "seal_pending sid first later observed (ss_pending s) (s, t, rows) = (s', t', rows')"
    by (metis prod.exhaust)
  from inv st have "work_inv k base extra M (s\<lparr>ss_pending := ss_pending s\<rparr>, t, rows)" by simp
  from seal_pending_inv [OF this pend reasons] have inv': "work_inv k base extra M (s', t', rows')"
    and s': "ss_pending s' = []" "ss_orphan s' = ss_orphan s" by auto
  show ?thesis
  proof (cases "ss_orphan s'")
    case None
    with inv' s' False st pend show ?thesis
      by (auto simp: seal_def work_inv_def http1_session_ok_def session_slots_def session_ids_def)
  next
    case (Some orp)
    let ?n = "pending_charge (ht_config t')"
    have res: "ss_reserved_bytes s' = session_charge (ht_config t') + ?n"
      using inv' s'(1) Some by (simp add: work_inv_def http1_session_ok_def session_slots_def)
    have "backed (ht_budget t') (session_charge (ht_config t') + ht_result_charges t' + extra + ?n) base"
      using inv' res by (auto simp: work_inv_def ac_simps)
    note b = http1_release_backed [OF this]
    have "ids_ok (ht_next_id t') (M + row_ids rows')"
      using inv' by (auto simp: work_inv_def intro: ids_ok_subset)
    with inv' s' False st pend Some b res show ?thesis
      by (auto simp: seal_def work_inv_def http1_session_ok_def session_slots_def session_ids_def)
  qed
qed

lemma emit_ready_pending_inv:
  assumes "work_inv k base extra M (s\<lparr>ss_pending := ps\<rparr>, t, rows)"
  shows "work_inv k base extra M (emit_ready_pending sid observed ps (s, t, rows)) \<and>
    ss_orphan (fst (emit_ready_pending sid observed ps (s, t, rows))) = ss_orphan s"
  using assms
proof (induction ps arbitrary: s t rows)
  case Nil
  then show ?case by simp
next
  case (Cons p ps)
  show ?case
  proof (cases "pe_response p")
    case None
    with Cons.prems show ?thesis by simp
  next
    case (Some response)
    let ?row = "matched_row sid observed (ss_request_direction s) p response"
    have "work_inv k base extra M
      ((s\<lparr>ss_reserved_bytes := ss_reserved_bytes s - pending_charge (ht_config t)\<rparr>)\<lparr>ss_pending := ps\<rparr>,
       t\<lparr>ht_result_charges := ht_result_charges t + pending_charge (ht_config t)\<rparr>, rows @ [?row])"
      by (rule work_inv_emit [OF Cons.prems]) (simp_all add: row_ok_matched Some, simp add: matched_row_def)
    from Cons.IH [OF this] Cons.prems Some show ?thesis by simp
  qed
qed

lemma emit_ready_inv:
  assumes inv: "work_inv k base extra M st"
  shows "work_inv k base extra M (emit_ready sid observed st)"
proof -
  obtain s t rows where st: "st = (s, t, rows)" by (metis prod.exhaust)
  obtain s' t' rows' where pend: "emit_ready_pending sid observed (ss_pending s) (s, t, rows) = (s', t', rows')"
    by (metis prod.exhaust)
  from inv st have "work_inv k base extra M (s\<lparr>ss_pending := ss_pending s\<rparr>, t, rows)" by simp
  from emit_ready_pending_inv [OF this, of sid observed] pend
  have inv': "work_inv k base extra M (s', t', rows')" by simp
  then have "work_inv k base extra M (s'\<lparr>ss_orphan := None,
        ss_reserved_bytes := ss_reserved_bytes s' - pending_charge (ht_config t')\<rparr>,
      t'\<lparr>ht_result_charges := ht_result_charges t' + pending_charge (ht_config t')\<rparr>,
      rows' @ [orphan_row sid observed (ss_request_direction s') orp])"
    if "ss_orphan s' = Some orp" for orp
    using that row_ok_orphan [of orp "ss_request_direction s'" sid observed]
    by (auto simp: work_inv_def control_def http1_session_ok_def session_slots_def session_ids_def
        algebra_simps simp flip: orphan_row_def) (auto simp: orphan_row_def)
  with inv' st pend show ?thesis by (auto simp: emit_ready_def split: option.split)
qed

section \<open>Messages\<close>

lemma http1_reserveD:
  assumes "http1_reserve n t = Some t1"
  shows "control t1 = control t" "ht_config t1 = ht_config t" "ht_next_id t1 = ht_next_id t"
    "ht_result_charges t1 = ht_result_charges t"
    "backed (ht_budget t) c base \<Longrightarrow> backed (ht_budget t1) (c + n) base"
  using assms by (auto simp: http1_reserve_def control_def intro: backed_charge)

lemma http1_next_idD:
  assumes "http1_next_id t = (i, t1)"
  shows "control t1 = control t" "ht_config t1 = ht_config t" "ht_budget t1 = ht_budget t"
    "ht_result_charges t1 = ht_result_charges t"
    "i = 0 \<Longrightarrow> ht_next_id t1 = ht_next_id t"
    "i \<noteq> 0 \<Longrightarrow> ids_ok (ht_next_id t) M \<Longrightarrow> ids_ok (ht_next_id t1) (add_mset i M)"
  using assms http1_id.draw_ok(1) [of "ht_next_id t" i] http1_id.draw_ok(2) [of "ht_next_id t" i _ M]
  by (auto simp: http1_next_id_def control_def split: if_splits)

text \<open>Drawing an id and charging a slot, with the three outcomes of the code.\<close>

lemma draw_slot:
  assumes inv: "work_inv k base extra M (s, t, rows)"
    and res: "http1_reserve (pending_charge (ht_config t)) t = Some t1"
    and draw: "http1_next_id t1 = (i, t2)"
  shows "i = 0 \<Longrightarrow> work_inv k base extra M (s, http1_release (pending_charge (ht_config t)) t2, rows)"
    "i \<noteq> 0 \<Longrightarrow> http1_session_ok (ht_config t) s' \<Longrightarrow>
       ss_reserved_bytes s' = ss_reserved_bytes s + pending_charge (ht_config t) \<Longrightarrow>
       session_ids s' = add_mset i (session_ids s) \<Longrightarrow> work_inv k base extra M (s', t2, rows)"
proof -
  let ?n = "pending_charge (ht_config t)"
  note r = http1_reserveD [OF res] and d = http1_next_idD [OF draw]
  have b: "backed (ht_budget t2) (ss_reserved_bytes s + ht_result_charges t + extra + ?n) base"
    using inv r(5) d(3) by (auto simp: work_inv_def)
  show "work_inv k base extra M (s, http1_release ?n t2, rows)" if "i = 0"
    using inv r d that http1_release_backed [OF b] by (auto simp: work_inv_def)
  show "work_inv k base extra M (s', t2, rows)"
    if "i \<noteq> 0" "http1_session_ok (ht_config t) s'" "ss_reserved_bytes s' = ss_reserved_bytes s + ?n"
      "session_ids s' = add_mset i (session_ids s)"
    using inv r d(1-4) d(6) [of "M + row_ids rows + session_ids s"] that b
    by (auto simp: work_inv_def ac_simps)
qed

lemma add_pending_inv:
  assumes inv: "work_inv k base extra M (s, t, rows)"
    and s: "ss_request_direction s \<noteq> None" "\<not> ss_sealed s" and m: "request_head (fm_head m)"
  shows "work_inv k base extra M (snd (add_pending m (s, t, rows))) \<and>
    fst (add_pending m (s, t, rows)) \<noteq> Return E_UNCAUGHT"
proof (cases "length (ss_pending s) \<ge> hc_max_pending_per_session (ht_config t)")
  case True
  with inv show ?thesis by (simp add: add_pending_def)
next
  case room: False
  show ?thesis
  proof (cases "http1_reserve (pending_charge (ht_config t)) t")
    case None
    with inv room show ?thesis by (simp add: add_pending_def)
  next
    case (Some t1)
    obtain i t2 where draw: "http1_next_id t1 = (i, t2)" by fastforce
    note slot = draw_slot [OF inv Some draw]
    have ok: "http1_session_ok (ht_config t) s" using inv by (simp add: work_inv_def)
    show ?thesis
      using room Some draw slot(1) ok s m
      by (auto simp: add_pending_def Let_def intro!: slot(2))
        (auto simp: http1_session_ok_def session_slots_def session_ids_def pending_ok_def
          intro!: answered_prefix_snoc)
  qed
qed

lemma add_orphan_inv:
  assumes inv: "work_inv k base extra M (s, t, rows)"
    and s: "ss_request_direction s \<noteq> None" "\<not> ss_sealed s" and m: "final_head (fm_head m)"
  shows "work_inv k base extra M (snd (add_orphan m (s, t, rows))) \<and>
    fst (add_orphan m (s, t, rows)) \<noteq> Return E_UNCAUGHT"
proof (cases "ss_orphan s")
  case (Some orp)
  with inv show ?thesis by (simp add: add_orphan_def)
next
  case none: None
  show ?thesis
  proof (cases "http1_reserve (pending_charge (ht_config t)) t")
    case None
    with inv none show ?thesis by (simp add: add_orphan_def)
  next
    case (Some t1)
    obtain i t2 where draw: "http1_next_id t1 = (i, t2)" by fastforce
    note slot = draw_slot [OF inv Some draw]
    have ok: "http1_session_ok (ht_config t) s" using inv by (simp add: work_inv_def)
    show ?thesis
      using none Some draw slot(1) ok s m
      by (auto simp: add_orphan_def intro!: slot(2))
        (auto simp: http1_session_ok_def session_slots_def session_ids_def)
  qed
qed

text \<open>Updates of the pending requests in place.\<close>

lemma answered_prefix_none: "list_all (\<lambda>q. pe_response q = None) ps \<Longrightarrow> answered_prefix ps"
  by (induction ps) auto

lemma answer_pending_ids:
  "answer_pending f ps = Some ps' \<Longrightarrow> (\<And>p. pe_entity_instance_id (f p) = pe_entity_instance_id p) \<Longrightarrow>
     (\<And>p. pending_ok p \<Longrightarrow> pending_ok (f p)) \<Longrightarrow> (\<And>p. pe_response (f p) \<noteq> None) \<Longrightarrow>
     length ps' = length ps \<and> map pe_entity_instance_id ps' = map pe_entity_instance_id ps \<and>
     (list_all pending_ok ps \<longrightarrow> list_all pending_ok ps') \<and> (answered_prefix ps \<longrightarrow> answered_prefix ps')"
  by (induction ps arbitrary: ps') (auto simp: answered_prefix_none split: if_splits)

lemma mark_first_ids:
  "(\<And>p. pe_entity_instance_id (f p) = pe_entity_instance_id p) \<Longrightarrow>
     (\<And>p. pe_response (f p) = pe_response p) \<Longrightarrow>
     (\<And>p. pending_ok p \<Longrightarrow> pending_ok (f p)) \<Longrightarrow>
     length (mark_first P f ps) = length ps \<and>
     map pe_entity_instance_id (mark_first P f ps) = map pe_entity_instance_id ps \<and>
     (list_all pending_ok ps \<longrightarrow> list_all pending_ok (mark_first P f ps)) \<and>
     list_all (\<lambda>q. pe_response q = None) (mark_first P f ps) = list_all (\<lambda>q. pe_response q = None) ps \<and>
     (answered_prefix ps \<longrightarrow> answered_prefix (mark_first P f ps))"
  by (induction ps) auto

lemma work_inv_pending:
  assumes "work_inv k base extra M (s, t, rows)"
    "length ps = length (ss_pending s)"
    "map pe_entity_instance_id ps = map pe_entity_instance_id (ss_pending s)"
    "list_all pending_ok (ss_pending s) \<Longrightarrow> list_all pending_ok ps"
    "answered_prefix (ss_pending s) \<Longrightarrow> answered_prefix ps"
  shows "work_inv k base extra M (s\<lparr>ss_pending := ps\<rparr>, t, rows)"
proof -
  have "session_ids (s\<lparr>ss_pending := ps\<rparr>) = session_ids s"
    using assms(3) by (simp add: session_ids_def del: mset_map)
  moreover have "session_slots (s\<lparr>ss_pending := ps\<rparr>) = session_slots s"
    using assms(2) by (simp add: session_slots_def)
  ultimately show ?thesis
    using assms by (auto simp: work_inv_def http1_session_ok_def)
qed

lemma process_response_inv:
  assumes inv: "work_inv k base extra M (s, t, rows)"
    and s: "ss_request_direction s \<noteq> None" "\<not> ss_sealed s" and m: "response_head (fm_head m)"
  shows "work_inv k base extra M (snd (process_response sid m observed (s, t, rows))) \<and>
    fst (process_response sid m observed (s, t, rows)) \<noteq> Return E_UNCAUGHT"
proof -
  obtain status where status: "mh_status_code (fm_head m) = Some status" using m by (auto simp: response_head_def)
  show ?thesis
  proof (cases "is_final status")
    case False
    show ?thesis
    proof (cases "ss_pending s")
      case Nil
      with False status inv show ?thesis by (simp add: process_response_def)
    next
      case (Cons p ps)
      have "work_inv k base extra M
        (s\<lparr>ss_pending := p\<lparr>pe_informational_count := pe_informational_count p + 1\<rparr> # ps\<rparr>, t, rows)"
        by (rule work_inv_pending [OF inv]) (use Cons in \<open>auto simp: pending_ok_def\<close>)
      with Cons False status inv show ?thesis by (simp add: process_response_def)
    qed
  next
    case True
    define f :: "http1_pending \<Rightarrow> http1_pending" where "f = (\<lambda>p. p\<lparr>pe_response_message_id := fm_message_id m,
        pe_response := Some (fm_head m),
        pe_response_body_complete := (mh_framing (fm_head m) = CloseDelimited)\<rparr>)"
    define r where "r = (case answer_pending f (ss_pending s) of
        Some ps \<Rightarrow> (Continue, s\<lparr>ss_pending := ps\<rparr>, t, rows) | None \<Rightarrow> add_orphan m (s, t, rows))"
    have r: "work_inv k base extra M (snd r) \<and> fst r \<noteq> Return E_UNCAUGHT"
    proof (cases "answer_pending f (ss_pending s)")
      case None
      then show ?thesis using add_orphan_inv [OF inv s] m status True by (simp add: r_def final_head_def)
    next
      case (Some ps)
      have "length ps = length (ss_pending s) \<and>
          map pe_entity_instance_id ps = map pe_entity_instance_id (ss_pending s) \<and>
          (list_all pending_ok (ss_pending s) \<longrightarrow> list_all pending_ok ps) \<and>
          (answered_prefix (ss_pending s) \<longrightarrow> answered_prefix ps)"
        by (rule answer_pending_ids [OF Some]) (auto simp: f_def pending_ok_def final_head_def status True m)
      with Some work_inv_pending [OF inv, of ps] show ?thesis by (simp add: r_def)
    qed
    have seal: "work_inv k base extra M (s2\<lparr>ss_seal_after_tunnel := b\<rparr>, t2, rows2)"
      if "work_inv k base extra M (s2, t2, rows2)" for s2 t2 rows2 b
      using that by (auto simp: work_inv_def http1_session_ok_def session_slots_def session_ids_def)
    show ?thesis
      using True r seal emit_ready_inv [of k base extra M "snd r" sid observed]
      unfolding process_response_def prod.case status option.case Let_def f_def [symmetric]
        r_def [symmetric]
      by (cases r; cases "emit_ready sid observed (snd r)") auto
  qed
qed

definition head_ok :: "http1_framed_message \<Rightarrow> bool" where
  "head_ok m \<longleftrightarrow> fm_headers_complete m \<longrightarrow>
     (if mh_is_response (fm_head m) then response_head (fm_head m) else request_head (fm_head m))"

lemma work_inv_direction:
  "work_inv k base extra M (s, t, rows) \<Longrightarrow>
     work_inv k base extra M (s\<lparr>ss_request_direction := Some d\<rparr>, t, rows)"
  by (auto simp: work_inv_def http1_session_ok_def session_slots_def session_ids_def)

lemma process_head_inv:
  assumes inv: "work_inv k base extra M (s, t, rows)" and s: "\<not> ss_sealed s"
    and m: "head_ok m" "fm_headers_complete m"
  shows "work_inv k base extra M (snd (process_head sid dir m observed (s, t, rows))) \<and>
    fst (process_head sid dir m observed (s, t, rows)) \<noteq> Return E_UNCAUGHT"
proof -
  define d where "d = (case ss_request_direction s of Some d \<Rightarrow> d
      | None \<Rightarrow> if mh_is_response (fm_head m) then opposite dir else dir)"
  let ?s = "s\<lparr>ss_request_direction := Some d\<rparr>"
  have inv': "work_inv k base extra M (?s, t, rows)" by (rule work_inv_direction [OF inv])
  have "\<not> ss_sealed ?s" "ss_request_direction ?s \<noteq> None" using s by auto
  note p = add_pending_inv [OF inv' this(2,1)] process_response_inv [OF inv' this(2,1)]
  show ?thesis
    using p m seal_inv [OF inv']
    by (auto simp: process_head_def Let_def d_def [symmetric] head_ok_def)
qed

lemma process_body_inv:
  assumes inv: "work_inv k base extra M (s, t, rows)"
  shows "work_inv k base extra M (snd (process_body sid dir m observed (s, t, rows))) \<and>
    fst (process_body sid dir m observed (s, t, rows)) \<noteq> Return E_UNCAUGHT"
proof (cases "ss_request_direction s")
  case None
  with inv show ?thesis by (simp add: process_body_def)
next
  case (Some request_dir)
  define s1 where "s1 = (if \<not> dir \<noteq> request_dir then
        s\<lparr>ss_pending := mark_first (\<lambda>p. pe_request_message_id p = fm_message_id m)
          (\<lambda>p. p\<lparr>pe_request_body_complete := True\<rparr>) (ss_pending s)\<rparr>
      else if (case ss_orphan s of None \<Rightarrow> False | Some orp \<Rightarrow> or_message_id orp = fm_message_id m)
      then s\<lparr>ss_orphan := map_option (\<lambda>orp. orp\<lparr>or_body_complete := True\<rparr>) (ss_orphan s)\<rparr>
      else s\<lparr>ss_pending := mark_first (\<lambda>p. pe_response_message_id p = fm_message_id m)
          (\<lambda>p. p\<lparr>pe_response_body_complete := True\<rparr>) (ss_pending s)\<rparr>)"
  have marked: "work_inv k base extra M (s\<lparr>ss_pending := mark_first P f (ss_pending s)\<rparr>, t, rows)"
    if "\<And>p. pe_entity_instance_id (f p) = pe_entity_instance_id p"
      "\<And>p. pe_response (f p) = pe_response p"
      "\<And>p. pending_ok p \<Longrightarrow> pending_ok (f p)" for P f
    using mark_first_ids [where f = f and P = P and ps = "ss_pending s", OF that]
    by (intro work_inv_pending [OF inv]) auto
  have orphan: "work_inv k base extra M
      (s\<lparr>ss_orphan := map_option (\<lambda>orp. orp\<lparr>or_body_complete := True\<rparr>) (ss_orphan s)\<rparr>, t, rows)"
    using inv by (cases "ss_orphan s")
      (auto simp: work_inv_def http1_session_ok_def session_slots_def session_ids_def)
  have s1: "work_inv k base extra M (s1, t, rows)"
    unfolding s1_def using marked orphan by (auto simp: pending_ok_def)
  show ?thesis
    unfolding process_body_def prod.case Some option.case Let_def s1_def [symmetric]
    using emit_ready_inv [OF s1, of sid observed] seal_inv [OF emit_ready_inv [OF s1, of sid observed]]
    by (cases "emit_ready sid observed (s1, t, rows)") simp
qed

lemma process_message_inv:
  assumes "work_inv k base extra M st" "\<not> ss_sealed (fst st)" "head_ok m"
  shows "work_inv k base extra M (snd (process_message sid dir m observed st)) \<and>
    fst (process_message sid dir m observed st) \<noteq> Return E_UNCAUGHT"
proof -
  obtain s t rows where st: "st = (s, t, rows)" by (metis prod.exhaust)
  show ?thesis
    using assms process_head_inv [of k base extra M s t rows m sid dir observed]
      process_body_inv [of k base extra M s t rows sid dir m observed]
    by (auto simp: st process_message_def)
qed

lemma process_messages_inv:
  assumes "work_inv k base extra M st" "list_all head_ok ms"
  shows "work_inv k base extra M (snd (process_messages sid dir ms observed st)) \<and>
    fst (process_messages sid dir ms observed st) \<noteq> E_UNCAUGHT"
  using assms
proof (induction ms arbitrary: st)
  case Nil
  then show ?case by simp
next
  case (Cons m ms)
  show ?case
  proof (cases "ss_sealed (fst st)")
    case True
    with Cons.prems show ?thesis by simp
  next
    case False
    obtain flow st' where step: "process_message sid dir m observed st = (flow, st')"
      by (metis prod.collapse)
    with process_message_inv [of k base extra M st m sid dir observed] Cons.prems False
    have "work_inv k base extra M st'" "flow \<noteq> Return E_UNCAUGHT" by auto
    with Cons False step show ?thesis by (cases flow) auto
  qed
qed

text \<open>The framer's heads have what the tracker dereferences.\<close>

lemma parse_start_line_head:
  "parse_start_line line = Inr h \<Longrightarrow>
     (if mh_is_response h then response_head h else request_head h)"
  by (auto simp: request_head_def response_head_def parse_start_line_def parse_status_line_def parse_request_line_def Let_def empty_head_def
      split: if_splits option.splits)

lemma finish_message_heads: "list_all head_ok ms \<Longrightarrow> list_all head_ok (snd (finish_message f ms))"
  by (simp add: finish_message_def head_ok_def)

lemma fail_with_messages [simp]: "snd (snd (fail_with e f ms)) = ms"
  by (simp add: fail_with_def framer_fail_def)

lemma accept_headers_heads:
  assumes "list_all head_ok ms"
    "if mh_is_response start then response_head start else request_head start"
  shows "list_all head_ok (snd (snd (accept_headers ctx start h f ms)))"
proof -
  have new: "list_all head_ok (ms @ [\<lparr>fm_message_id = i, fm_head = start\<lparr>mh_host := a,
      mh_complete_at_ns := b, mh_framing := c\<rparr>, fm_headers_complete = True, fm_body_complete = False\<rparr>])"
    for i a b c using assms by (auto simp: request_head_def response_head_def head_ok_def split: if_splits)
  show ?thesis
    using assms(1) new finish_message_heads [OF new]
    by (auto simp: accept_headers_def Let_def case_prod_unfold simp del: list_all_append)
qed

lemma parse_headers_heads:
  assumes "list_all head_ok ms"
  shows "list_all head_ok (snd (snd (parse_headers ctx f ms)))"
proof -
  have "list_all head_ok (snd (snd (accept_headers ctx start h f ms)))"
    if "parse_start_line line = Inr start" for line start h
    by (rule accept_headers_heads [OF assms parse_start_line_head [OF that]])
  with assms show ?thesis
    by (auto simp: parse_headers_def split: option.split sum.split)
qed

lemma handle_line_heads:
  "list_all head_ok ms \<Longrightarrow> list_all head_ok (snd (snd (handle_line content f ms)))"
  using finish_message_heads [of ms]
  by (auto simp: handle_line_def case_prod_unfold split: option.split sum.split)

lemma control_step_heads:
  "list_all head_ok ms \<Longrightarrow> list_all head_ok (snd (snd (control_step captured ctx b f ms)))"
  using parse_headers_heads [of ms] handle_line_heads [of ms]
  by (auto simp: control_step_def Let_def case_prod_unfold)

lemma body_step_heads: "list_all head_ok ms \<Longrightarrow> list_all head_ok (snd (body_step n f ms))"
  using finish_message_heads [of ms] by (auto simp: body_step_def Let_def)

lemma consume_loop_heads:
  "list_all head_ok ms \<Longrightarrow> list_all head_ok (snd (snd (consume_loop captured ctx bytes f ms)))"
proof (induction captured ctx bytes f ms rule: consume_loop.induct)
  case (1 captured ctx bytes f ms)
  consider (stop) "bytes = [] \<or> fr_stage f = StCloseBody"
    | (body) "bytes \<noteq> []" "fr_stage f \<noteq> StCloseBody" "in_body f"
    | (control) "bytes \<noteq> []" "fr_stage f \<noteq> StCloseBody" "\<not> in_body f"
    by blast
  then show ?case
  proof cases
    case stop
    with "1.prems" show ?thesis by (auto simp: consume_loop.simps [of captured ctx bytes])
  next
    case body
    with "1.IH"(1) [OF body refl refl] body_step_heads [OF "1.prems"]
    show ?thesis by (simp add: consume_loop.simps [of captured ctx bytes] Let_def)
  next
    case control
    obtain e f' ms' where step: "control_step captured ctx (hd bytes) f ms = (e, f', ms')"
      by (metis prod.exhaust)
    with control_step_heads [OF "1.prems", of captured ctx "hd bytes" f] have "list_all head_ok ms'" by simp
    with "1.IH"(2) [OF control step [symmetric] refl] control step "1.prems" show ?thesis
      by (simp add: consume_loop.simps [of captured ctx bytes])
  qed
qed

lemma framer_consume_heads:
  "\<exists>e f ms. framer_consume ev origin ctx g (Some []) = (e, f, Some ms) \<and> list_all head_ok ms"
proof -
  have "list_all head_ok (snd (snd (consume_loop captured ctx bytes f [])))" for captured bytes f
    by (rule consume_loop_heads) simp
  then show ?thesis
    by (cases "ev_kind ev"; cases "ev_bytes ev")
      (auto simp: framer_consume_def framer_on_end_def framer_on_gap_def framer_consume_bytes_def
        framer_fail_def fail_with_def case_prod_unfold head_ok_def)
qed

section \<open>Events of a session\<close>

lemma conclude_event_inv:
  "work_inv k base extra M st \<Longrightarrow> work_inv k base extra M (conclude_event sid dir ev observed e st)"
  using seal_inv [of k base extra M st] by (simp add: conclude_event_def Let_def)

lemma work_inv_framer:
  "work_inv k base extra M (s, t, rows) \<Longrightarrow> work_inv k base extra M (set_session_framer dir f s, t, rows)"
  by (cases dir) (auto simp: work_inv_def http1_session_ok_def session_slots_def session_ids_def)

lemma session_event_inv:
  assumes inv: "work_inv k base extra M (s, t, rows)"
  shows "work_inv k base extra M (snd (session_event sid dir origin ev observed (s, t, rows))) \<and>
    fst (session_event sid dir origin ev observed (s, t, rows)) \<noteq> E_UNCAUGHT"
proof (cases "ss_sealed s")
  case True
  with inv show ?thesis by (simp add: session_event_def)
next
  case False
  obtain e f ms where frame: "framer_consume ev origin (Some (response_context s)) (session_framer dir s) (Some [])
      = (e, f, Some ms)" "list_all head_ok ms"
    using framer_consume_heads by blast
  obtain processed st1 where proc: "process_messages sid dir ms observed (set_session_framer dir f s, t, rows)
      = (processed, st1)" by (metis prod.exhaust)
  from process_messages_inv [OF work_inv_framer [OF inv] frame(2), of sid dir observed dir f] proc
  have "work_inv k base extra M st1" "processed \<noteq> E_UNCAUGHT" by auto
  then show ?thesis
    using False frame(1) proc conclude_event_inv [of k base extra M st1]
    by (auto simp: session_event_def)
qed

section \<open>The tracker\<close>

text \<open>\<open>hist\<close> are the ids of the rows released so far.\<close>

definition tracker_inv :: "nat \<Rightarrow> u64 multiset \<Rightarrow> http1_tracker \<Rightarrow> http1_result list \<Rightarrow> bool" where
  "tracker_inv base hist t rows \<longleftrightarrow> omap_wf (ht_sessions t) \<and>
     (\<forall>(sid, s) \<in> set (ht_sessions t). http1_session_ok (ht_config t) s) \<and>
     ht_result_charges t = (if ht_aborted t then 0 else pending_charge (ht_config t) * length rows) \<and>
     backed (ht_budget t) (omap_sum ss_reserved_bytes (ht_sessions t) + ht_result_charges t) base \<and>
     ids_ok (ht_next_id t) (hist + row_ids rows + omap_sum session_ids (ht_sessions t)) \<and>
     list_all http1_row_ok rows \<and> (ht_aborted t \<longrightarrow> ht_sessions t = [])"

lemma tracker_inv_new: "backed tb 0 base \<Longrightarrow> tracker_inv base {#} (new_http1_tracker c tb) []"
  by (simp add: tracker_inv_def new_http1_tracker_def ids_ok_def row_ids_def)

lemma tracker_invD:
  assumes "tracker_inv base hist t rows"
  shows "omap_wf (ht_sessions t)"
    "backed (ht_budget t) (omap_sum ss_reserved_bytes (ht_sessions t) + ht_result_charges t) base"
    "ids_ok (ht_next_id t) (hist + row_ids rows + omap_sum session_ids (ht_sessions t))"
    "list_all http1_row_ok rows"
  using assms unfolding tracker_inv_def by blast+

lemma tracker_inv_session:
  "tracker_inv base hist t rows \<Longrightarrow> omap_find (ht_sessions t) sid = Some s \<Longrightarrow> http1_session_ok (ht_config t) s"
  by (auto simp: tracker_inv_def dest: omap_find_in)

text \<open>Putting the session of a handler back, and releasing the charge of the event.\<close>

lemma put_back:
  assumes inv: "tracker_inv base hist t rows" "\<not> ht_aborted t"
    and work: "work_inv (control t) base (rest + n) (hist + others) (s', t', rows')"
    and put: "omap_sum ss_reserved_bytes (omap_put sid s' (ht_sessions t)) = ss_reserved_bytes s' + rest"
      "omap_sum session_ids (omap_put sid s' (ht_sessions t)) = others + session_ids s'"
  shows "tracker_inv base hist
    (http1_release n (t'\<lparr>ht_sessions := omap_put sid s' (ht_sessions t')\<rparr>)) rows' \<and>
    ht_config t' = ht_config t \<and> ht_sessions t' = ht_sessions t"
proof -
  let ?t = "t'\<lparr>ht_sessions := omap_put sid s' (ht_sessions t')\<rparr>"
  have same: "ht_sessions t' = ht_sessions t" "ht_config t' = ht_config t" "\<not> ht_aborted t'"
    using work inv(2) by (auto simp: work_inv_def control_def)
  have "http1_session_ok (ht_config t) x" if "(k, x) \<in> set (omap_put sid s' (ht_sessions t))" for k x
    using omap_put_subset [of sid s' "ht_sessions t"] that inv(1) work same
    by (auto simp: tracker_inv_def work_inv_def)
  moreover have "backed (ht_budget t')
      (omap_sum ss_reserved_bytes (ht_sessions ?t) + ht_result_charges t' + n) base"
    using work by (auto simp: work_inv_def put same ac_simps)
  then have "backed (ht_budget (http1_release n ?t))
      (omap_sum ss_reserved_bytes (ht_sessions ?t) + ht_result_charges t') base"
    using http1_release_backed [of ?t] by simp
  ultimately show ?thesis
    using work inv same by (auto simp: tracker_inv_def work_inv_def put om.wf_put ac_simps)
qed

lemma on_stream_event_inv:
  assumes inv: "tracker_inv base hist t rows"
    and run: "on_stream_event sid dir origin ev observed t (Some rows) = (e, t', rows')"
  shows "\<exists>rs. rows' = Some rs \<and> tracker_inv base hist t' rs \<and> e \<noteq> E_UNCAUGHT \<and>
    ht_config t' = ht_config t \<and>
    set (omap_keys (ht_sessions t')) \<subseteq> insert sid (set (omap_keys (ht_sessions t)))"
proof (cases "ht_aborted t \<or> sid = 0")
  case True
  with inv run show ?thesis by (auto simp: on_stream_event_def)
next
  case False
  define n where "n = event_charge (if ev_kind ev = EventData then span_size (ev_bytes ev) else 0)"
  show ?thesis
  proof (cases "n = 0 \<or> http1_reserve n t = None")
    case True
    with inv run False show ?thesis
      by (auto simp: on_stream_event_def simp flip: n_def split: option.splits)
  next
    case charged: False
    then obtain t1 where t1: "http1_reserve n t = Some t1" "n \<noteq> 0" by auto
    note r = http1_reserveD [OF t1(1)]
    have find: "omap_find (ht_sessions t1) sid = omap_find (ht_sessions t) sid"
      and sess: "ht_sessions t1 = ht_sessions t" using r(1) by (auto simp: control_def)
    show ?thesis
    proof (cases "find_session sid t1")
      case None
      have "tracker_inv base hist (http1_release n t1) rows"
        using inv r http1_release_backed [OF r(5), of _ base]
        by (auto simp: tracker_inv_def control_def)
      with None run False t1 r(2) show ?thesis
        by (auto simp: on_stream_event_def sess simp flip: n_def)
    next
      case (Some st2)
      then obtain s t2 where st2: "find_session sid t1 = Some (s, t2)" by (cases st2) auto
      define rest others where
        "rest = omap_sum ss_reserved_bytes (omap_erase sid (ht_sessions t))"
        "others = omap_sum session_ids (omap_erase sid (ht_sessions t))"
      have wf: "omap_wf (ht_sessions t)" using inv by (simp add: tracker_inv_def)
      have put: "omap_sum ss_reserved_bytes (omap_put sid x (ht_sessions t)) = ss_reserved_bytes x + rest"
        "omap_sum session_ids (omap_put sid x (ht_sessions t)) = others + session_ids x" for x
        using omap_sum_put_erase [OF wf] by (simp_all add: rest_others_def ac_simps)
      have work: "work_inv (control t) base (rest + n) (hist + others) (s, t2, rows)"
      proof (cases "omap_find (ht_sessions t) sid")
        case None
        let ?s = "(new_http1_session (hc_max_header_bytes (ht_config t)))
            \<lparr>ss_reserved_bytes := session_charge (ht_config t)\<rparr>"
        from None st2 find r(2) have new: "http1_reserve (session_charge (ht_config t)) t1 = Some t2" "s = ?s"
          by (auto simp: find_session_def)
        note r2 = http1_reserveD [OF new(1)]
        have ok: "http1_session_ok (ht_config t) ?s" "session_ids ?s = {#}"
          by (simp_all add: http1_session_ok_def session_slots_def new_http1_session_def session_ids_def)
        have "backed (ht_budget t) (rest + ht_result_charges t) base"
          using tracker_invD(2) [OF inv] omap_erase_absent [OF None] by (simp add: rest_others_def)
        note b = r2(5) [OF r(5) [OF this]]
        show ?thesis
          using inv b r r2 ok new(2) omap_erase_absent [OF None] \<open>\<not> (ht_aborted t \<or> sid = 0)\<close>
          by (auto simp: work_inv_def tracker_inv_def rest_others_def ac_simps)
      next
        case (Some x)
        with st2 find have st: "s = x" "t2 = t1" by (auto simp: find_session_def)
        have sums: "omap_sum ss_reserved_bytes (ht_sessions t) = ss_reserved_bytes x + rest"
          "omap_sum session_ids (ht_sessions t) = others + session_ids x"
          using omap_sum_erase [OF Some, of ss_reserved_bytes] omap_sum_erase [OF Some, of session_ids]
          by (simp_all add: rest_others_def)
        have "backed (ht_budget t) (ss_reserved_bytes x + rest + ht_result_charges t) base"
          using tracker_invD(2) [OF inv] by (simp add: sums)
        note b = r(5) [OF this]
        show ?thesis
          using inv b r st tracker_inv_session [OF inv Some] \<open>\<not> (ht_aborted t \<or> sid = 0)\<close>
          by (auto simp: work_inv_def tracker_inv_def sums ac_simps)
      qed
      obtain e' s' t3 rows3 where ev: "session_event sid dir origin ev observed (s, t2, rows) = (e', s', t3, rows3)"
        by (metis prod.exhaust)
      from session_event_inv [OF work, of sid dir origin ev observed] ev
      have "work_inv (control t) base (rest + n) (hist + others) (s', t3, rows3)" "e' \<noteq> E_UNCAUGHT" by auto
      with put_back [OF inv _ this(1) put] False run t1 st2 ev show ?thesis
        by (auto simp: on_stream_event_def put_session_def omap_keys_put simp flip: n_def)
    qed
  qed
qed

text \<open>The watermark visits every session.\<close>

lemma expire_sessions_inv:
  assumes "expire_sessions w m t rows = (m', t', rows')"
    "\<forall>(sid, s) \<in> set m. http1_session_ok (ht_config t) s"
    "ht_result_charges t = pending_charge (ht_config t) * length rows" "list_all http1_row_ok rows"
    "backed (ht_budget t) (omap_sum ss_reserved_bytes m + ht_result_charges t + extra) base"
    "ids_ok (ht_next_id t) (M + row_ids rows + omap_sum session_ids m)"
  shows "control t' = control t \<and> omap_keys m' = omap_keys m \<and>
    (\<forall>(sid, s) \<in> set m'. http1_session_ok (ht_config t) s \<and> \<not> overdue w s) \<and>
    ht_result_charges t' = pending_charge (ht_config t) * length rows' \<and> list_all http1_row_ok rows' \<and>
    backed (ht_budget t') (omap_sum ss_reserved_bytes m' + ht_result_charges t' + extra) base \<and>
    ids_ok (ht_next_id t') (M + row_ids rows' + omap_sum session_ids m')"
  using assms
proof (induction w m t rows arbitrary: m' t' rows' extra M rule: expire_sessions.induct)
  case (1 w t rows)
  then show ?case by (auto simp: omap_keys_def)
next
  case (2 w sid s m t rows)
  define st1 where "st1 = (if overdue w s
      then seal sid ResponseNotObservedByDeadline PipelineAlignmentLost w (s, t, rows) else (s, t, rows))"
  obtain s1 t1 rows1 where st1: "st1 = (s1, t1, rows1)" by (metis prod.exhaust)
  obtain m2 t2 rows2 where tail: "expire_sessions w m t1 rows1 = (m2, t2, rows2)" by (metis prod.exhaust)
  have result: "m' = (sid, s1) # m2" "t' = t2" "rows' = rows2"
    using "2.prems"(1) st1 tail by (auto simp: st1_def [symmetric])
  have inv: "work_inv (control t) base (omap_sum ss_reserved_bytes m + extra) (M + omap_sum session_ids m) (s, t, rows)"
    using "2.prems" by (auto simp: work_inv_def ac_simps)
  have inv1: "work_inv (control t) base (omap_sum ss_reserved_bytes m + extra) (M + omap_sum session_ids m) (s1, t1, rows1)"
    and s1: "\<not> overdue w s1"
    using seal_inv [OF inv, of ResponseNotObservedByDeadline PipelineAlignmentLost sid w] inv st1
    by (auto simp: st1_def overdue_def split: if_splits)
  have "control t1 = control t" and cfg: "ht_config t1 = ht_config t"
    using inv1 by (auto simp: work_inv_def control_def)
  moreover have step: "(s1, t1, rows1) = (if overdue w s
      then seal sid ResponseNotObservedByDeadline PipelineAlignmentLost w (s, t, rows) else (s, t, rows))"
    using st1 by (simp add: st1_def)
  from "2.IH" [OF step refl tail, of "extra + ss_reserved_bytes s1" "M + session_ids s1"]
  have "control t2 = control t1 \<and> omap_keys m2 = omap_keys m \<and>
    (\<forall>(sid, s) \<in> set m2. http1_session_ok (ht_config t1) s \<and> \<not> overdue w s) \<and>
    ht_result_charges t2 = pending_charge (ht_config t1) * length rows2 \<and> list_all http1_row_ok rows2 \<and>
    backed (ht_budget t2) (omap_sum ss_reserved_bytes m2 + ht_result_charges t2 + (extra + ss_reserved_bytes s1)) base \<and>
    ids_ok (ht_next_id t2) (M + session_ids s1 + row_ids rows2 + omap_sum session_ids m2)"
    using inv1 "2.prems"(2) cfg
    by (auto simp: work_inv_def ac_simps)
  ultimately show ?case
    using inv1 s1 by (auto simp: result omap_keys_def work_inv_def ac_simps)
qed

lemma omap_wf_same_keys: "omap_keys m' = omap_keys m \<Longrightarrow> omap_wf m \<Longrightarrow> omap_wf m'"
  by (simp add: omap_wf_def)

lemma on_capture_watermark_inv:
  assumes inv: "tracker_inv base hist t rows"
    and run: "on_capture_watermark w t (Some rows) = (e, t', rows')"
  shows "\<exists>rs. rows' = Some rs \<and> tracker_inv base hist t' rs \<and> e \<noteq> E_UNCAUGHT \<and>
    ht_config t' = ht_config t \<and> omap_keys (ht_sessions t') = omap_keys (ht_sessions t) \<and>
    (\<forall>wv. \<not> ht_aborted t \<and> w = Some wv \<and> (\<forall>w0. ht_watermark_ns t = Some w0 \<longrightarrow> w0 < wv) \<longrightarrow>
       e = E_OK \<and> ht_watermark_ns t' = w \<and> (\<forall>(sid, s) \<in> set (ht_sessions t'). \<not> overdue wv s))"
proof (cases "ht_aborted t \<or> w = None \<or> (case ht_watermark_ns t of None \<Rightarrow> False | Some w0 \<Rightarrow> the w \<le> w0)")
  case True
  with inv run show ?thesis by (auto simp: on_capture_watermark_def split: option.splits if_splits)
next
  case False
  then obtain wv where w: "w = Some wv" by auto
  let ?t = "t\<lparr>ht_watermark_ns := w\<rparr>"
  obtain m2 t2 rows2 where ex: "expire_sessions wv (ht_sessions t) ?t rows = (m2, t2, rows2)"
    by (metis prod.exhaust)
  have *: "control t2 = control ?t \<and> omap_keys m2 = omap_keys (ht_sessions t) \<and>
    (\<forall>(sid, s) \<in> set m2. http1_session_ok (ht_config ?t) s \<and> \<not> overdue wv s) \<and>
    ht_result_charges t2 = pending_charge (ht_config ?t) * length rows2 \<and> list_all http1_row_ok rows2 \<and>
    backed (ht_budget t2) (omap_sum ss_reserved_bytes m2 + ht_result_charges t2 + 0) base \<and>
    ids_ok (ht_next_id t2) (hist + row_ids rows2 + omap_sum session_ids m2)"
    by (rule expire_sessions_inv [OF ex]) (use inv False in \<open>auto simp: tracker_inv_def\<close>)
  from * have "tracker_inv base hist (t2\<lparr>ht_sessions := m2\<rparr>) rows2"
    "\<forall>(sid, s) \<in> set m2. \<not> overdue wv s" "ht_config t2 = ht_config t"
    using inv False by (auto simp: tracker_inv_def control_def intro: omap_wf_same_keys)
  moreover have "ht_watermark_ns t2 = Some wv" "omap_keys m2 = omap_keys (ht_sessions t)"
    using * by (simp_all add: control_def w)
  moreover have "e = E_OK" "t' = t2\<lparr>ht_sessions := m2\<rparr>" "rows' = Some rows2"
    using run False w ex by (auto simp: on_capture_watermark_def split: option.splits)
  ultimately show ?thesis by (simp add: w)
qed

lemma http1_on_session_end_inv:
  assumes inv: "tracker_inv base hist t rows"
    and run: "http1_on_session_end sid reason observed t (Some rows) = (e, t', rows')"
  shows "\<exists>rs. rows' = Some rs \<and> tracker_inv base hist t' rs \<and> e \<noteq> E_UNCAUGHT \<and>
    ht_config t' = ht_config t \<and>
    set (omap_keys (ht_sessions t')) \<subseteq> set (omap_keys (ht_sessions t)) \<and>
    (e = E_OK \<longrightarrow> sid \<notin> set (omap_keys (ht_sessions t')))"
proof (cases "ht_aborted t \<or> sid = 0 \<or> omap_find (ht_sessions t) sid = None")
  case True
  with inv run show ?thesis by (auto simp: http1_on_session_end_def omap_find_keys split: if_splits)
next
  case False
  then obtain s where found: "omap_find (ht_sessions t) sid = Some s" by auto
  let ?rest = "omap_erase sid (ht_sessions t)"
  obtain s2 t2 rows2 where sl: "seal sid SessionEnd SessionEnd observed (s, t, rows) = (s2, t2, rows2)"
    by (metis prod.exhaust)
  have sums: "omap_sum ss_reserved_bytes (ht_sessions t) = ss_reserved_bytes s + omap_sum ss_reserved_bytes ?rest"
    "omap_sum session_ids (ht_sessions t) = omap_sum session_ids ?rest + session_ids s"
    using omap_sum_erase [OF found, of ss_reserved_bytes] omap_sum_erase [OF found, of session_ids]
    by simp_all
  have work: "work_inv (control t) base (omap_sum ss_reserved_bytes ?rest) (hist + omap_sum session_ids ?rest) (s, t, rows)"
    using inv tracker_inv_session [OF inv found] False
    by (auto simp: work_inv_def tracker_inv_def sums ac_simps)
  from seal_inv [OF this, of SessionEnd SessionEnd sid observed] sl
  have work2: "work_inv (control t) base (omap_sum ss_reserved_bytes ?rest) (hist + omap_sum session_ids ?rest) (s2, t2, rows2)"
    by simp
  then have b: "backed (ht_budget t2) (omap_sum ss_reserved_bytes ?rest + ht_result_charges t2 + ss_reserved_bytes s2) base"
    and same: "ht_sessions t2 = ht_sessions t" "ht_config t2 = ht_config t" "\<not> ht_aborted t2"
    using False by (auto simp: work_inv_def control_def ac_simps)
  have "ids_ok (ht_next_id t2) (hist + row_ids rows2 + omap_sum session_ids ?rest)"
    using work2 by (auto simp: work_inv_def ac_simps intro: ids_ok_subset)
  moreover have "\<forall>(k, x) \<in> set ?rest. http1_session_ok (ht_config t) x"
    using inv omap_erase_subset [of sid "ht_sessions t"] by (fastforce simp: tracker_inv_def)
  ultimately show ?thesis
    using run inv False found sl work2 same http1_release_backed [OF b]
    by (auto simp: http1_on_session_end_def tracker_inv_def work_inv_def om.wf_erase om.keys_erase)
qed

lemma release_sessions_backed:
  "backed (ht_budget t) (c + omap_sum ss_reserved_bytes m) base \<Longrightarrow>
     backed (ht_budget (fold (\<lambda>(sid, s). http1_release (ss_reserved_bytes s)) m t)) c base \<and>
     control (fold (\<lambda>(sid, s). http1_release (ss_reserved_bytes s)) m t) = control t \<and>
     ht_result_charges (fold (\<lambda>(sid, s). http1_release (ss_reserved_bytes s)) m t) = ht_result_charges t \<and>
     ht_next_id (fold (\<lambda>(sid, s). http1_release (ss_reserved_bytes s)) m t) = ht_next_id t"
proof (induction m arbitrary: t)
  case Nil
  then show ?case by simp
next
  case (Cons x m)
  obtain sid s where x: "x = (sid, s)" by (cases x)
  have "backed (ht_budget t) (c + omap_sum ss_reserved_bytes m + ss_reserved_bytes s) base"
    using Cons.prems by (simp add: x ac_simps)
  from Cons.IH [OF http1_release_backed [OF this]] show ?case by (simp add: x)
qed

lemma http1_abort_inv:
  assumes inv: "tracker_inv base hist t rows"
  shows "tracker_inv base hist (http1_abort t) rows \<and> ht_config (http1_abort t) = ht_config t"
proof -
  let ?t = "t\<lparr>ht_aborted := True\<rparr>"
  let ?t1 = "fold (\<lambda>(sid, s). http1_release (ss_reserved_bytes s)) (ht_sessions t) ?t"
  have "backed (ht_budget ?t) (ht_result_charges t + omap_sum ss_reserved_bytes (ht_sessions t)) base"
    using tracker_invD(2) [OF inv] by (simp add: ac_simps)
  note rel = release_sessions_backed [OF this]
  then have "backed (ht_budget (?t1\<lparr>ht_sessions := []\<rparr>)) (0 + ht_result_charges t) base" by simp
  note b = http1_release_backed [OF this]
  have "ids_ok (ht_next_id t) (hist + row_ids rows)"
    using inv by (auto simp: tracker_inv_def intro: ids_ok_subset)
  then show ?thesis
    using inv rel b by (auto simp: http1_abort_def Let_def tracker_inv_def control_def)
qed

lemma http1_release_results_inv:
  assumes inv: "tracker_inv base hist t rows"
  shows "tracker_inv base (hist + row_ids rows) (fst (http1_release_results t (Some rows))) [] \<and>
    ht_config (fst (http1_release_results t (Some rows))) = ht_config t"
proof -
  have "backed (ht_budget t) (omap_sum ss_reserved_bytes (ht_sessions t) + ht_result_charges t) base"
    by (rule tracker_invD(2) [OF inv])
  from http1_release_backed [OF this] inv show ?thesis
    by (auto simp: http1_release_results_def tracker_inv_def row_ids_def)
qed

end
