(* ===== verification/Http1TransactionsSafety.thy ===== *)
theory Http1TransactionsSafety
  imports Http1TransactionsProps
begin

text \<open>
  The HTTP/1 transaction tracker as a state machine: what its host may call, the states it can
  reach, and the properties of those states. A state is the tracker, the rows in the host's
  vector, and the rows released before.
\<close>

section \<open>Reachable states\<close>

datatype http1_op =
    HttpEvent u64 packet_direction tcp_stream_origin tcp_stream_event int
  | HttpWatermark "int option"
  | HttpSessionEnd u64 session_end_reason int
  | HttpReleaseResults
  | HttpAbort

type_synonym http1_world = "http1_tracker \<times> http1_result list \<times> http1_result list"

definition with_rows ::
  "http1_result list \<Rightarrow> errno \<times> http1_tracker \<times> http1_result list option \<Rightarrow> errno \<times> http1_world" where
  "with_rows released r = (case r of (e, t, rows) \<Rightarrow>
     (e, t, (case rows of None \<Rightarrow> [] | Some rs \<Rightarrow> rs), released))"

fun http1_step :: "http1_op \<Rightarrow> http1_world \<Rightarrow> errno \<times> http1_world" where
  "http1_step (HttpEvent sid dir origin ev observed) (t, rows, released) =
     with_rows released (on_stream_event sid dir origin ev observed t (Some rows))"
| "http1_step (HttpWatermark w) (t, rows, released) =
     with_rows released (on_capture_watermark w t (Some rows))"
| "http1_step (HttpSessionEnd sid reason observed) (t, rows, released) =
     with_rows released (http1_on_session_end sid reason observed t (Some rows))"
| "http1_step HttpReleaseResults (t, rows, released) =
     (case http1_release_results t (Some rows) of (t', rows') \<Rightarrow>
        (E_OK, t', (case rows' of None \<Rightarrow> [] | Some rs \<Rightarrow> rs), released @ rows))"
| "http1_step HttpAbort (t, rows, released) = (E_OK, http1_abort t, rows, released)"

inductive http1_reachable :: "http1_config \<Rightarrow> npm_task_budget option \<Rightarrow> http1_world \<Rightarrow> bool"
  for c tb where
  start: "http1_reachable c tb (new_http1_tracker c tb, [], [])"
| step: "http1_reachable c tb st \<Longrightarrow> http1_step op st = (e, st') \<Longrightarrow> http1_reachable c tb st'"

inductive_cases http1_reachableE: "http1_reachable c tb (t, rows, released)"

definition world_inv :: "nat \<Rightarrow> http1_config \<Rightarrow> http1_world \<Rightarrow> bool" where
  "world_inv base c st \<longleftrightarrow> (case st of (t, rows, released) \<Rightarrow>
     tracker_inv base (row_ids released) t rows \<and> ht_config t = c \<and> list_all http1_row_ok released)"

lemma http1_step_inv:
  assumes "world_inv base c st" "http1_step op st = (e, st')"
  shows "world_inv base c st' \<and> e \<noteq> E_UNCAUGHT"
proof -
  obtain t rows released where st: "st = (t, rows, released)" by (metis prod.exhaust)
  have inv: "tracker_inv base (row_ids released) t rows" "ht_config t = c" "list_all http1_row_ok released"
    using assms(1) by (simp_all add: world_inv_def st)
  show ?thesis
  proof (cases op)
    case (HttpEvent sid dir origin ev observed)
    obtain e1 t1 r1 where run: "on_stream_event sid dir origin ev observed t (Some rows) = (e1, t1, r1)"
      by (metis prod.exhaust)
    with on_stream_event_inv [OF inv(1) run] HttpEvent inv assms(2) st show ?thesis
      by (auto simp: world_inv_def with_rows_def)
  next
    case (HttpWatermark w)
    obtain e1 t1 r1 where run: "on_capture_watermark w t (Some rows) = (e1, t1, r1)"
      by (metis prod.exhaust)
    with on_capture_watermark_inv [OF inv(1) run] HttpWatermark inv assms(2) st show ?thesis
      by (auto simp: world_inv_def with_rows_def)
  next
    case (HttpSessionEnd sid reason observed)
    obtain e1 t1 r1 where run: "http1_on_session_end sid reason observed t (Some rows) = (e1, t1, r1)"
      by (metis prod.exhaust)
    with http1_on_session_end_inv [OF inv(1) run] HttpSessionEnd inv assms(2) st show ?thesis
      by (auto simp: world_inv_def with_rows_def)
  next
    case HttpReleaseResults
    with http1_release_results_inv [OF inv(1)] inv assms(2) st tracker_invD(4) [OF inv(1)] show ?thesis
      by (auto simp: world_inv_def http1_release_results_def row_ids_def)
  next
    case HttpAbort
    with http1_abort_inv [OF inv(1)] inv assms(2) st show ?thesis by (auto simp: world_inv_def)
  qed
qed

lemma http1_reachable_inv:
  assumes "http1_reachable c tb st" "backed tb 0 base"
  shows "world_inv base c st"
  using assms
proof (induction rule: http1_reachable.induct)
  case start
  then show ?case
    by (simp add: world_inv_def tracker_inv_new row_ids_def)
      (simp add: new_http1_tracker_def)
next
  case (step st op e st')
  then show ?case using http1_step_inv by blast
qed

lemma backed_start: "budget_wf tb \<Longrightarrow> backed (Some tb) 0 (module_held tb)"
  by (simp add: backed_def)

section \<open>Properties\<close>

text \<open>
  The ledger is exact and nothing leaks: in every reachable state the module-state bytes of
  the task ledger are what others held at the start, one session charge for each session, one
  pending charge for each pending request or orphan response, and one for each row not yet
  released; and an abort gives all of them back.
\<close>

theorem http1_ledger_exact:
  assumes "http1_reachable c (Some tb) (t, rows, released)" "budget_wf tb"
    "ht_budget t = Some tb'" "ht_budget (http1_abort t) = Some tb''"
  shows "budget_wf tb' \<and>
    module_held tb' = module_held tb +
      omap_sum (\<lambda>s. session_charge c + pending_charge c * session_slots s) (ht_sessions t) +
      (if ht_aborted t then 0 else pending_charge c * length rows) \<and>
    module_held tb'' = module_held tb"
proof -
  have inv: "tracker_inv (module_held tb) (row_ids released) t rows" "ht_config t = c"
    using http1_reachable_inv [OF assms(1) backed_start [OF assms(2)]] by (simp_all add: world_inv_def)
  have "omap_sum ss_reserved_bytes m = omap_sum (\<lambda>s. session_charge c + pending_charge c * session_slots s) m"
    if "\<forall>(sid, s) \<in> set m. http1_session_ok c s" for m :: "(u64, http1_session) omap"
    using that by (induction m) (auto simp: http1_session_ok_def omap_sum_def)
  then have "omap_sum ss_reserved_bytes (ht_sessions t) =
      omap_sum (\<lambda>s. session_charge c + pending_charge c * session_slots s) (ht_sessions t)"
    using inv by (simp add: tracker_inv_def)
  moreover have "ht_result_charges t = (if ht_aborted t then 0 else pending_charge c * length rows)"
    using inv by (simp add: tracker_inv_def)
  moreover have "backed (Some tb'') 0 (module_held tb)"
    using tracker_invD(2) [OF http1_abort_inv [OF inv(1), THEN conjunct1]] assms(4)
    by (simp add: http1_abort_def Let_def)
  ultimately show ?thesis
    using tracker_invD(2) [OF inv(1)] assms(3) by (simp add: backed_def)
qed


text \<open>
  Entity ids are never reused: the ids of all rows ever emitted, released or not, are
  pairwise distinct and nonzero, and no pending request or orphan response shares one of them.
\<close>

theorem http1_entity_ids_unique:
  assumes "http1_reachable c tb (t, rows, released)" "backed tb 0 base"
  shows "distinct (map hr_entity_instance_id (released @ rows)) \<and>
    0 \<notin> set (map hr_entity_instance_id (released @ rows)) \<and>
    (\<forall>(sid, s) \<in> set (ht_sessions t). \<forall>p \<in> set (ss_pending s).
       pe_entity_instance_id p \<notin> set (map hr_entity_instance_id (released @ rows)))"
proof -
  let ?ids = "map hr_entity_instance_id (released @ rows)"
  let ?held = "omap_sum session_ids (ht_sessions t)"
  have ids: "ids_ok (ht_next_id t) (mset ?ids + ?held)"
    using http1_reachable_inv [OF assms] tracker_invD(3)
    by (fastforce simp: world_inv_def row_ids_def)
  have held: "pe_entity_instance_id p \<in># ?held"
    if "(sid, s) \<in> set (ht_sessions t)" "p \<in> set (ss_pending s)" for sid s p
  proof -
    have "pe_entity_instance_id p \<in># session_ids s" using that(2) by (simp add: session_ids_def)
    with that(1) show ?thesis by (force simp: omap_sum_def)
  qed
  show ?thesis using ids_ok_distinct [OF ids] held by blast
qed

text \<open>
  C11. Every row is consistent: its outcome fixes which columns are present, directions are
  opposite, a matched response is final, and the latency of a matched pair is the exact time
  between the two headers whenever both are known 64-bit times in order.
\<close>

theorem http1_rows_consistent:
  assumes "http1_reachable c tb (t, rows, released)" "backed tb 0 base" "r \<in> set (released @ rows)"
  shows "http1_row_ok r \<and>
    (hr_outcome r = Matched \<longrightarrow> (\<exists>q a. hr_request r = Some q \<and> hr_response r = Some a \<and>
       (\<forall>t0 t1. mh_complete_at_ns q = Some t0 \<longrightarrow> mh_complete_at_ns a = Some t1 \<longrightarrow> in_i64 t0 \<longrightarrow> in_i64 t1 \<longrightarrow>
          hr_latency_ns r = (if t0 \<le> t1 \<and> t1 - t0 \<le> i64_max then Some (t1 - t0) else None))))"
proof -
  have "list_all http1_row_ok (released @ rows)"
    using http1_reachable_inv [OF assms(1,2)] by (auto simp: world_inv_def dest: tracker_invD(4))
  then have ok: "http1_row_ok r" using assms(3) by (simp add: list_all_iff)
  then show ?thesis
    by (auto simp: http1_row_ok_def http1_latency_def http1_elapsed.elapsed_exact)
qed

lemma next_deadline_in:
  "next_deadline m nxt = Some d \<Longrightarrow> nxt = Some d \<or>
     (\<exists>(k, s) \<in> set m. \<not> ss_sealed s \<and> ss_pending s \<noteq> [] \<and> pe_response (hd (ss_pending s)) = None \<and>
        pe_deadline_ns (hd (ss_pending s)) = Some d)"
  by (induction m nxt rule: next_deadline.induct) (fastforce split: if_splits option.splits)+

text \<open>
  Deadlines are honoured: when the capture watermark advances to \<open>w\<close>, every session whose
  oldest unanswered request was due by \<open>w\<close> is sealed, so the deadline announced next is after \<open>w\<close>.
\<close>

theorem http1_watermark_expires:
  assumes "http1_reachable c tb (t, rows, released)" "backed tb 0 base" "\<not> ht_aborted t"
    "\<forall>w0. ht_watermark_ns t = Some w0 \<longrightarrow> w0 < w"
    "on_capture_watermark (Some w) t (Some rows) = (e, t', rows')"
  shows "e = E_OK \<and> ht_watermark_ns t' = Some w \<and>
    (\<forall>d. http1_next_event_deadline_ns t' = Some d \<longrightarrow> w < d)"
proof -
  have inv: "tracker_inv base (row_ids released) t rows"
    using http1_reachable_inv [OF assms(1,2)] by (simp add: world_inv_def)
  have ok: "e = E_OK" "ht_watermark_ns t' = Some w"
    "\<forall>(sid, s) \<in> set (ht_sessions t'). \<not> overdue w s"
    using on_capture_watermark_inv [OF inv assms(5)] assms(3,4) by auto
  then have "\<forall>(sid, s) \<in> set (ht_sessions t'). \<not> overdue w s"
    by simp
  then show ?thesis
    using ok next_deadline_in [of "ht_sessions t'" None]
    by (fastforce simp: http1_next_event_deadline_ns_def overdue_def not_le)
qed

section \<open>Witnesses\<close>

text \<open>A session whose client sends one request; nobody answers.\<close>

definition demo_http1_config :: http1_config where
  "demo_http1_config = \<lparr>hc_response_timeout_ns = 10, hc_max_pending_per_session = 4,
     hc_max_header_bytes = 1024\<rparr>"

definition demo_request :: tcp_stream_event where
  "demo_request = default_event\<lparr>ev_captured_at_ns := Some 5,
     ev_bytes := Bytes (map (\<lambda>c. of_nat (of_char c)) (''G / HTTP/1.1'' @ crlf @ crlf))\<rparr>"

lemma text_of_bytes_back: "text_of_bytes (map (\<lambda>c. of_nat (of_char c)) cs) = cs"
proof -
  have "unat (of_nat (of_char c) :: u8) = of_char c" for c :: char
  proof -
    have "of_char c < (256 :: nat)" by simp
    then show ?thesis by (simp add: unat_of_nat)
  qed
  then show ?thesis by (simp add: text_of_bytes_def comp_def)
qed

definition demo_head :: http1_message_head where
  "demo_head = empty_head\<lparr>mh_method := Some ''G'', mh_target := Some ''/'', mh_complete_at_ns := Some 5\<rparr>"

definition demo_framer :: http1_framer where
  "demo_framer = (new_http1_framer 1024)\<lparr>fr_started := True, fr_next_message_id := 2\<rparr>"

lemma consume_header_byte:
  assumes "fr_stage f = StHeaders" "fr_control_bytes_seen f < fr_max_header_bytes f"
    "(b = line_feed) = (fr_header f \<noteq> [] \<and> last (fr_header f) = carriage_return)"
    "b \<noteq> line_feed \<or> drop (length (fr_header f) - 3) (fr_header f @ [b]) \<noteq> crlf @ crlf"
  shows "consume_loop captured ctx (b # bs) f ms =
    consume_loop captured ctx bs (f\<lparr>fr_control_bytes_seen := fr_control_bytes_seen f + 1,
      fr_header := fr_header f @ [b],
      fr_header_clock := mark_header_time captured (fr_header_clock f)\<rparr>) ms"
proof -
  have "drop (length (fr_header f) - 3) (fr_header f @ [b]) \<noteq> crlf @ crlf" if "b \<noteq> line_feed"
  proof
    assume "drop (length (fr_header f) - 3) (fr_header f @ [b]) = crlf @ crlf"
    then have "last (drop (length (fr_header f) - 3) (fr_header f @ [b])) = line_feed"
      by (simp add: crlf_def)
    with that show False by (simp add: last_drop)
  qed
  then show ?thesis
    using assms by (auto simp: consume_loop.simps [of captured ctx "b # bs"] in_body_def
        control_step_def append_control_byte_def Let_def)
qed

definition demo_header_done :: http1_framer where
  "demo_header_done = (new_http1_framer 1024)\<lparr>fr_started := True, fr_control_bytes_seen := 15,
     fr_header := ''G / HTTP/1.1'' @ crlf @ [carriage_return], fr_header_clock := (True, Some 5)\<rparr>"

lemma demo_header:
  "consume_loop (Some 5) ctx (''G / HTTP/1.1'' @ crlf @ crlf) ((new_http1_framer 1024)\<lparr>fr_started := True\<rparr>) ms =
   consume_loop (Some 5) ctx [line_feed] demo_header_done ms"
  by (simp add: consume_header_byte control_chars new_http1_framer_def demo_header_done_def
      flip: numeral_2_eq_2)

lemma demo_last_byte:
  "consume_loop (Some 5) ctx [line_feed] demo_header_done [] =
     (FramerNone, demo_framer,
      [\<lparr>fm_message_id = 1, fm_head = demo_head, fm_headers_complete = True, fm_body_complete = False\<rparr>,
       \<lparr>fm_message_id = 1, fm_head = empty_head, fm_headers_complete = False, fm_body_complete = True\<rparr>])"
  by (simp add: consume_loop.simps [of "Some 5"] in_body_def demo_header_done_def
      new_http1_framer_def control_step_def append_control_byte_def control_chars)
    (simp add: parse_headers_def control_chars parse_start_line_def parse_request_line_def
      token_byte_def byte_value_def escape_display_def Let_def scan_fields.simps accept_headers_def
      finish_message_def select_framing_def clock_reading_def empty_head_def connect_tunnel_def
      demo_head_def demo_framer_def consume_loop.simps [of "Some 5"] new_http1_framer_def)

lemma demo_framed:
  "framer_consume demo_request OriginSyn ctx (new_http1_framer 1024) (Some []) =
     (FramerNone, demo_framer,
      Some [\<lparr>fm_message_id = 1, fm_head = demo_head, fm_headers_complete = True, fm_body_complete = False\<rparr>,
            \<lparr>fm_message_id = 1, fm_head = empty_head, fm_headers_complete = False, fm_body_complete = True\<rparr>])"
proof -
  have "ev_bytes demo_request = Bytes (map (\<lambda>c. of_nat (of_char c)) (''G / HTTP/1.1'' @ crlf @ crlf))"
    "ev_kind demo_request = EventData" "ev_captured_at_ns demo_request = Some 5"
    by (simp_all add: demo_request_def default_event_def)
  moreover have "fr_stage (new_http1_framer 1024) = StHeaders" by (simp add: new_http1_framer_def)
  ultimately show ?thesis
    unfolding framer_consume_def framer_consume_bytes_def
    by (simp only: text_of_bytes_back span_data.simps option.case tcp_stream_event_kind.case demo_header demo_last_byte) simp
qed

definition demo_tb :: npm_task_budget where
  "demo_tb = new_task_budget \<lparr>max_tracked_bytes = 100000, max_pending_output_bytes = 10\<rparr>"

definition demo_world :: http1_world where
  "demo_world = snd (http1_step (HttpEvent 7 AToB OriginSyn demo_request 6)
     (new_http1_tracker demo_http1_config (Some demo_tb), [], []))"

lemma demo_reachable: "http1_reachable demo_http1_config (Some demo_tb) demo_world"
  unfolding demo_world_def
  by (rule http1_reachable.step [OF http1_reachable.start]) (rule surjective_pairing)

definition demo_session :: http1_session where
  "demo_session = (new_http1_session 1024)\<lparr>ss_framer_ab := demo_framer, ss_request_direction := Some AToB,
     ss_pending := [\<lparr>pe_entity_instance_id = 1, pe_request_message_id = 1, pe_request = demo_head,
       pe_request_body_complete = True, pe_deadline_ns = Some 15, pe_informational_count = 0,
       pe_response_message_id = 0, pe_response = None, pe_response_body_complete = False\<rparr>],
     ss_reserved_bytes := 11264\<rparr>"

lemma demo_request_simps:
  "ev_kind demo_request = EventData" "span_size (ev_bytes demo_request) = 16"
  by (simp_all add: demo_request_def default_event_def control_chars)

lemmas http1_eval = new_http1_tracker_def on_stream_event_def event_charge_def u64_max_def Let_def
  http1_reserve_def opt_charge_def module_charge_def demo_tb_def task_reserve_def new_task_budget_def
  reserve_npm_budget_def saturating_add_def npm_tracked_budget_bytes_def raise_high_water_def
  find_session_def session_charge_def demo_http1_config_def session_event_def new_http1_session_def
  demo_framed process_message_def process_head_def process_body_def add_pending_def emit_ready_def
  http1_next_id_def pending_charge_def http1_deadline_def i64_max_def conclude_event_def
  demo_request_simps put_session_def

lemma demo_head_simps [simp]:
  "\<not> mh_is_response demo_head" "mh_method demo_head = Some ''G''" "mh_complete_at_ns demo_head = Some 5"
  by (simp_all add: demo_head_def empty_head_def)

definition demo_tracker :: http1_tracker where
  "demo_tracker = (new_http1_tracker demo_http1_config (Some demo_tb))
     \<lparr>ht_budget := Some (demo_tb\<lparr>tb_usage := (tb_usage demo_tb)\<lparr>module_state_bytes := 11264\<rparr>,
        tb_high_water := \<lparr>hw_tracked_bytes = 15872, hw_input_batch_bytes = 0, hw_pending_output_bytes = 0\<rparr>\<rparr>),
      ht_sessions := [(7, demo_session)], ht_next_id := 2\<rparr>"

lemma demo_eval: "demo_world = (demo_tracker, [], [])"
  by (simp add: demo_world_def with_rows_def http1_eval)
    (simp add: demo_tracker_def demo_session_def http1_eval http1_release_def opt_refund_def
      module_refund_def task_release_def release_npm_budget_def)

lemma demo_tb_wf: "budget_wf demo_tb"
  by (simp add: demo_tb_def budget_wf_new u64_max_def)

lemmas demo_run = demo_reachable [unfolded demo_eval]

text \<open>The request expires: its row is the one the watermark emits.\<close>

definition demo_row :: http1_result where
  "demo_row = request_only_row 7 ResponseNotObservedByDeadline 20 (Some AToB) (hd (ss_pending demo_session))"

definition demo_expired :: http1_world where
  "demo_expired = snd (http1_step (HttpWatermark (Some 20)) demo_world)"

lemma demo_expired_reachable: "http1_reachable demo_http1_config (Some demo_tb) demo_expired"
  unfolding demo_expired_def
  by (rule http1_reachable.step [OF demo_reachable]) (rule surjective_pairing)

lemma demo_expired_rows: "fst (snd demo_expired) = [demo_row]"
  by (simp add: demo_expired_def demo_eval with_rows_def on_capture_watermark_def demo_tracker_def
      demo_session_def overdue_def seal_def demo_row_def http1_eval)

lemma http1_release_budget: "(ht_budget (http1_release n t) = None) = (ht_budget t = None)"
  by (simp add: http1_release_def opt_refund_def)

lemma http1_release_all_budget:
  "(ht_budget (fold (\<lambda>(sid, s). http1_release (ss_reserved_bytes s)) m t) = None) = (ht_budget t = None)"
  by (induction m arbitrary: t) (simp_all add: case_prod_unfold http1_release_budget del: not_None_eq)

lemma http1_abort_budget: "(ht_budget (http1_abort t) = None) = (ht_budget t = None)"
  by (simp add: http1_abort_def Let_def http1_release_budget http1_release_all_budget del: not_None_eq)

theorem http1_ledger_exact_witness:
  "\<exists>tb' tb''. ht_budget demo_tracker = Some tb' \<and> ht_budget (http1_abort demo_tracker) = Some tb'' \<and>
     module_held tb' = module_held tb'' + 11264"
proof -
  obtain tb' where tb': "ht_budget demo_tracker = Some tb'" by (simp add: demo_tracker_def)
  then obtain tb'' where tb'': "ht_budget (http1_abort demo_tracker) = Some tb''"
    using http1_abort_budget [of demo_tracker] by auto
  from http1_ledger_exact [OF demo_run demo_tb_wf tb' tb''] tb' tb'' show ?thesis
    by (simp add: demo_tracker_def demo_session_def session_slots_def session_charge_def
        pending_charge_def demo_http1_config_def new_http1_session_def new_http1_tracker_def)
qed


theorem http1_entity_ids_unique_witness: "1 \<notin> set (map hr_entity_instance_id ([] :: http1_result list))"
  using http1_entity_ids_unique [OF demo_run backed_start [OF demo_tb_wf]]
  by (simp add: demo_tracker_def demo_session_def)

theorem http1_rows_consistent_witness: "http1_row_ok demo_row"
proof -
  obtain t released where w: "demo_expired = (t, [demo_row], released)"
    using demo_expired_rows by (metis prod.collapse)
  show ?thesis
    by (rule http1_rows_consistent [OF demo_expired_reachable [unfolded w] backed_start [OF demo_tb_wf], THEN conjunct1])
      simp
qed

theorem http1_watermark_expires_witness:
  "fst (on_capture_watermark (Some 20) demo_tracker (Some [])) = E_OK"
  by (rule http1_watermark_expires [OF demo_run backed_start [OF demo_tb_wf], THEN conjunct1])
    (simp_all add: demo_tracker_def new_http1_tracker_def prod_eq_iff)

end
