(* ===== verification/Http1ModuleProps.thy ===== *)
theory Http1ModuleProps
  imports Http1Module Http1TransactionsSafety
begin

text \<open>
  The HTTP/1 module: whose rows the tracker writes, what a call of the tracker and the emission of its
  rows keep, and the invariant of the callbacks.
\<close>

section \<open>Whose rows\<close>

definition rows_in :: "u64 set \<Rightarrow> http1_result list \<Rightarrow> bool" where
  "rows_in S rows \<longleftrightarrow> (\<forall>r \<in> set rows. hr_session_id r \<in> S)"

definition state_in :: "u64 set \<Rightarrow> tracker_state \<Rightarrow> bool" where
  "state_in S st \<longleftrightarrow> rows_in S (snd (snd st))"

lemma rows_in_simps [simp]:
  "rows_in S []" "rows_in S (rows @ rows') \<longleftrightarrow> rows_in S rows \<and> rows_in S rows'"
  "rows_in S (r # rows) \<longleftrightarrow> hr_session_id r \<in> S \<and> rows_in S rows"
  by (auto simp: rows_in_def)

lemma state_in_triple [simp]: "state_in S (s, t, rows) = rows_in S rows"
  by (simp add: state_in_def)

lemma row_constructors [simp]:
  "hr_session_id (request_only_row sid reason observed d p) = sid"
  "hr_session_id (matched_row sid observed d p response) = sid"
  "hr_session_id (orphan_row sid observed d orp) = sid"
  by (simp_all add: request_only_row_def matched_row_def orphan_row_def)

lemma seal_pending_in:
  "state_in S st \<Longrightarrow> sid \<in> S \<Longrightarrow> state_in S (seal_pending sid reason later observed ps st)"
  by (induction sid reason later observed ps st rule: seal_pending.induct) simp_all

lemma seal_in: "state_in S st \<Longrightarrow> sid \<in> S \<Longrightarrow> state_in S (seal sid first later observed st)"
  using seal_pending_in [of S st sid first later observed "ss_pending (fst st)"]
  by (auto simp: seal_def split: prod.splits)

lemma emit_ready_pending_in:
  "state_in S st \<Longrightarrow> sid \<in> S \<Longrightarrow> state_in S (emit_ready_pending sid observed ps st)"
  by (induction sid observed ps st rule: emit_ready_pending.induct) (simp_all split: option.split)

lemma emit_ready_in: "state_in S st \<Longrightarrow> sid \<in> S \<Longrightarrow> state_in S (emit_ready sid observed st)"
  using emit_ready_pending_in [of S st sid observed "ss_pending (fst st)"]
  by (auto simp: emit_ready_def split: prod.splits option.splits)

lemma add_in: "state_in S st \<Longrightarrow> state_in S (snd (add_pending m st))" "state_in S st \<Longrightarrow> state_in S (snd (add_orphan m st))"
  by (auto simp: add_pending_def add_orphan_def state_in_def split: prod.splits option.splits)

lemma process_response_in:
  assumes "state_in S st" "sid \<in> S"
  shows "state_in S (snd (process_response sid m observed st))"
proof -
  obtain s t rows where st: "st = (s, t, rows)" by (metis prod.exhaust)
  have rows: "rows_in S rows" using assms(1) by (simp add: st)
  have "state_in S (snd (add_orphan m (s, t, rows)))" using add_in(2) assms(1) st by blast
  then have orphan: "state_in S (emit_ready sid observed (snd (add_orphan m (s, t, rows))))"
    "state_in S (snd (add_orphan m (s, t, rows)))"
    using emit_ready_in assms(2) by blast+
  have matched: "state_in S (emit_ready sid observed (s', t, rows))" for s'
    by (rule emit_ready_in) (simp_all add: rows assms(2))
  show ?thesis
    using orphan matched rows
    by (auto simp: st process_response_def Let_def state_in_def case_prod_beta split: option.split list.split)
qed

lemma process_message_in:
  assumes "state_in S st" "sid \<in> S"
  shows "state_in S (snd (process_message sid dir m observed st))"
proof -
  obtain s t rows where st: "st = (s, t, rows)" by (metis prod.exhaust)
  have rows: "rows_in S rows" using assms(1) by (simp add: st)
  have seal: "state_in S (seal sid first later observed (s', t, rows))" for first later s'
    by (rule seal_in) (simp_all add: rows assms(2))
  have ready: "state_in S (emit_ready sid observed (s', t, rows))" for s'
    by (rule emit_ready_in) (simp_all add: rows assms(2))
  have "state_in S (seal sid first later observed (emit_ready sid observed (s', t, rows)))" for first later s'
    by (rule seal_in [OF ready assms(2)])
  moreover have "state_in S (snd (process_response sid m observed (s', t, rows)))" for s'
    by (rule process_response_in) (simp_all add: rows assms(2))
  moreover have "state_in S (snd (add_pending m (s', t, rows)))" for s'
    by (rule add_in) (simp add: rows)
  ultimately show ?thesis
    using seal ready rows
    by (cases "ss_request_direction s") (simp_all add: st process_message_def process_head_def process_body_def Let_def)
qed

lemma process_messages_in:
  "state_in S st \<Longrightarrow> sid \<in> S \<Longrightarrow> state_in S (snd (process_messages sid dir ms observed st))"
proof (induction ms arbitrary: st)
  case (Cons m ms)
  obtain flow st1 where m: "process_message sid dir m observed st = (flow, st1)" by (metis prod.exhaust)
  have "state_in S st1" using process_message_in [OF Cons.prems, of dir m observed] m by simp
  with Cons m show ?case by (simp split: loop_flow.split)
qed simp

lemma conclude_event_in: "state_in S st \<Longrightarrow> sid \<in> S \<Longrightarrow> state_in S (conclude_event sid dir ev observed e st)"
  by (simp add: conclude_event_def Let_def seal_in)

lemma session_event_in:
  "rows_in S rows \<Longrightarrow> sid \<in> S \<Longrightarrow> state_in S (snd (session_event sid dir origin ev observed (s, t, rows)))"
  by (simp add: session_event_def case_prod_beta conclude_event_in process_messages_in)

section \<open>Calls of the tracker\<close>

lemma on_stream_event_in:
  assumes "on_stream_event sid dir origin ev observed t (Some []) = (e, t', rows)"
  shows "rows_in (insert sid S) (http1_rows rows)" "sid = 0 \<Longrightarrow> http1_rows rows = []"
proof -
  have "state_in (insert sid S) (snd (session_event sid dir origin ev observed (s, t2, [])))" for s t2
    by (rule session_event_in) simp_all
  then show "rows_in (insert sid S) (http1_rows rows)"
    using assms by (auto simp: on_stream_event_def put_session_def http1_rows_def state_in_def Let_def case_prod_beta
        split: if_splits option.splits)
  show "sid = 0 \<Longrightarrow> http1_rows rows = []"
    using assms by (auto simp: on_stream_event_def http1_rows_def)
qed

lemma expire_sessions_in:
  "expire_sessions w m t rows = (m', t', rows') \<Longrightarrow> rows_in S rows \<Longrightarrow> set (omap_keys m) \<subseteq> S \<Longrightarrow> rows_in S rows'"
proof (induction w m t rows arbitrary: m' t' rows' rule: expire_sessions.induct)
  case (2 w sid s m t rows)
  obtain s1 t1 rows1 where h: "(if overdue w s then seal sid ResponseNotObservedByDeadline PipelineAlignmentLost w (s, t, rows)
      else (s, t, rows)) = (s1, t1, rows1)" by (metis prod.exhaust)
  obtain m2 t2 rows2 where r: "expire_sessions w m t1 rows1 = (m2, t2, rows2)" by (metis prod.exhaust)
  have "sid \<in> S" "set (omap_keys m) \<subseteq> S" using 2(4) by (simp_all add: omap_keys_def)
  moreover from this have "rows_in S rows1"
    using h seal_in [of S "(s, t, rows)" sid ResponseNotObservedByDeadline PipelineAlignmentLost w] 2(3)
    by (auto split: if_splits)
  ultimately have "rows_in S rows2" using 2(1) [OF h [symmetric] refl r] by simp
  with 2(2) h r show ?case by simp
qed simp

lemma on_capture_watermark_in:
  "on_capture_watermark w t (Some []) = (e, t', rows) \<Longrightarrow> rows_in (set (omap_keys (ht_sessions t))) (http1_rows rows)"
  by (auto simp: on_capture_watermark_def http1_rows_def split: if_splits option.splits prod.splits
      dest!: expire_sessions_in [of _ _ _ _ _ _ _ "set (omap_keys (ht_sessions t))"])

lemma http1_on_session_end_in:
  assumes "http1_on_session_end sid reason observed t (Some []) = (e, t', rows)"
  shows "rows_in (set (omap_keys (ht_sessions t))) (http1_rows rows)"
proof (cases "omap_find (ht_sessions t) sid")
  case None
  with assms show ?thesis by (auto simp: http1_on_session_end_def http1_rows_def split: if_splits)
next
  case (Some s)
  then have "sid \<in> set (omap_keys (ht_sessions t))" by (simp add: omap_find_keys)
  then have "state_in (set (omap_keys (ht_sessions t))) (seal sid SessionEnd SessionEnd observed (s, t, []))"
    by (intro seal_in) simp_all
  with assms Some show ?thesis
    by (auto simp: http1_on_session_end_def http1_rows_def split: if_splits prod.splits)
qed

section \<open>The row check\<close>

text \<open>Of a row that the tracker wrote, the encoder's check can only refuse the texts.\<close>

lemma http1_row_valid:
  assumes "http1_row_ok r" "hr_entity_instance_id r \<noteq> 0" "hr_session_id r \<noteq> 0"
  shows "valid_http1_row utf8 r \<longleftrightarrow> valid_texts utf8 r"
proof (cases "hr_outcome r")
  case Matched
  then obtain d q a where r: "hr_request_direction r = Some d" "hr_response_direction r = Some (opposite d)"
      "hr_request r = Some q" "request_head q" "hr_response r = Some a" "final_head a" "hr_incomplete_reason r = ReasonNone"
    using assms(1) by (auto simp: http1_row_ok_def)
  have "d \<noteq> opposite d" by (cases d) simp_all
  with r Matched assms show ?thesis
    by (auto simp: valid_http1_row_def valid_outcome_def valid_request_def valid_response_def request_head_def
        final_head_def response_head_def)
qed (use assms in \<open>auto simp: http1_row_ok_def valid_http1_row_def valid_outcome_def valid_request_def
      valid_response_def request_head_def final_head_def response_head_def\<close>)

section \<open>Emitting\<close>

lemma emit_http1_transaction_backed:
  assumes "emit_http1_transaction host key r b = (e, b')" "backed b c base"
  shows "backed b' c base"
proof (cases "opt_charge (http1_build_charge r) b")
  case None
  with assms show ?thesis by (auto simp: emit_http1_transaction_def split: if_splits)
next
  case (Some b1)
  with assms backed_refund [OF backed_charge [OF assms(2) Some]] show ?thesis
    by (auto simp: emit_http1_transaction_def split: if_splits)
qed

lemma http1_emit_loop_spec:
  "http1_emit_loop host ids rows b = (e, b', out) \<Longrightarrow> backed b c base \<Longrightarrow>
     backed b' c base \<and> (\<exists>rest. rows = map snd out @ rest \<and> (e = E_OK \<longrightarrow> rest = []))"
proof (induction host ids rows b arbitrary: e b' out rule: http1_emit_loop.induct)
  case (2 host ids r rs b)
  show ?case
  proof (cases "omap_find ids (hr_session_id r)")
    case None
    with 2 show ?thesis by auto
  next
    case (Some i)
    obtain e1 b1 where em: "emit_http1_transaction host (id_key i) r b = (e1, b1)" by (metis prod.exhaust)
    note b1 = emit_http1_transaction_backed [OF em 2(3)]
    obtain e2 b2 out2 where l: "http1_emit_loop host ids rs b1 = (e2, b2, out2)" by (metis prod.exhaust)
    show ?thesis
    proof (cases "e1 = E_OK")
      case True
      then show ?thesis using 2(1) [OF Some em [symmetric] _ l b1] 2(2) Some em l by auto
    next
      case False
      with 2(2) Some em b1 show ?thesis by auto
    qed
  qed
qed auto

end
