(* ===== verification/Http1ModuleSafety.thy ===== *)
theory Http1ModuleSafety
  imports Http1ModuleProps
begin

text \<open>
  The runs of an HTTP/1 module: the invariant over tracker, identities and ledger, and what follows
  of every state its host can bring it to.
\<close>

section \<open>The invariant\<close>

text \<open>Between two callbacks; \<open>log\<close> are the rows that have been emitted.\<close>

definition http1_module_ok :: "http1_config \<Rightarrow> nat \<Rightarrow> http1_module \<times> http1_emitted \<Rightarrow> bool" where
  "http1_module_ok c base s \<longleftrightarrow> (case s of (m, log) \<Rightarrow>
     \<exists>hist. tracker_inv (base + identity_share (hm_identities m)) hist (hm_tracker m) [] \<and>
       row_ids (map snd log) \<subseteq># hist \<and> ht_config (hm_tracker m) = c \<and> omap_wf (hm_identities m) \<and>
       0 \<notin> set (omap_keys (hm_identities m)) \<and>
       set (omap_keys (ht_sessions (hm_tracker m))) \<subseteq> set (omap_keys (hm_identities m)) \<and>
       (\<forall>(key, r) \<in> set log. http1_row_ok r) \<and> (hm_aborted m \<longrightarrow> hm_identities m = []))"

text \<open>While a callback has rows in hand.\<close>

definition http1_working :: "http1_config \<Rightarrow> nat \<Rightarrow> http1_result list \<Rightarrow> http1_module \<times> http1_emitted \<Rightarrow> bool" where
  "http1_working c base rows s \<longleftrightarrow> (case s of (m, log) \<Rightarrow>
     \<exists>hist. tracker_inv (base + identity_share (hm_identities m)) hist (hm_tracker m) rows \<and>
       row_ids (map snd log) \<subseteq># hist \<and> ht_config (hm_tracker m) = c \<and> omap_wf (hm_identities m) \<and>
       0 \<notin> set (omap_keys (hm_identities m)) \<and>
       set (omap_keys (ht_sessions (hm_tracker m))) \<subseteq> set (omap_keys (hm_identities m)) \<and>
       (\<forall>(key, r) \<in> set log. http1_row_ok r) \<and> \<not> hm_aborted m)"

lemma working_start: "http1_module_ok c base (m, log) \<Longrightarrow> \<not> hm_aborted m \<Longrightarrow> http1_working c base [] (m, log)"
  by (auto simp: http1_module_ok_def http1_working_def)

lemma tracker_inv_budget:
  assumes "tracker_inv base hist t rows"
    "backed b (omap_sum ss_reserved_bytes (ht_sessions t) + ht_result_charges t) base'"
  shows "tracker_inv base' hist (t\<lparr>ht_budget := b\<rparr>) rows"
  using assms by (simp add: tracker_inv_def)

lemma drop_rows_ok:
  assumes "http1_working c base (http1_rows rows) (m, log)"
  shows "http1_module_ok c base (http1_drop_rows rows m, log)"
proof -
  have eq: "fst (http1_release_results t rows) = fst (http1_release_results t (Some rs))" for t rs
    by (simp add: http1_release_results_def)
  obtain hist where h: "tracker_inv (base + identity_share (hm_identities m)) hist (hm_tracker m) (http1_rows rows)"
      "row_ids (map snd log) \<subseteq># hist" using assms by (auto simp: http1_working_def)
  have "row_ids (map snd log) \<subseteq># hist + row_ids (http1_rows rows)" using h(2) by (simp add: subset_mset.add_increasing2)
  moreover note http1_release_results_inv [OF h(1)]
  moreover have "ht_sessions (fst (http1_release_results t (Some rs))) = ht_sessions t" for t rs
    by (simp add: http1_release_results_def)
  ultimately show ?thesis
    using assms unfolding http1_module_ok_def http1_working_def http1_drop_rows_def
    by (auto simp: eq [of _ "http1_rows rows"] intro!: exI [of _ "hist + row_ids (http1_rows rows)"])
qed

lemma emit_rows_ok:
  assumes "http1_emit_rows host rows m = (e, m', out)" "http1_working c base rows (m, log)"
  shows "http1_module_ok c base (m', log @ out) \<and> hm_identities m' = hm_identities m \<and> hm_finished m' = hm_finished m \<and>
    hm_aborted m' = hm_aborted m \<and> ht_sessions (hm_tracker m') = ht_sessions (hm_tracker m) \<and>
    map snd out = take (length out) rows \<and> (e = E_OK \<longrightarrow> map snd out = rows)"
proof -
  let ?t = "hm_tracker m" and ?ids = "hm_identities m"
  obtain b where l: "http1_emit_loop host ?ids rows (ht_budget ?t) = (e, b, out)"
      and m': "m' = m\<lparr>hm_tracker := fst (http1_release_results (?t\<lparr>ht_budget := b\<rparr>) (Some rows))\<rparr>"
    using assms(1) by (auto simp: http1_emit_rows_def split: prod.splits)
  obtain hist where h: "tracker_inv (base + identity_share ?ids) hist ?t rows" "row_ids (map snd log) \<subseteq># hist"
    using assms(2) by (auto simp: http1_working_def)
  from http1_emit_loop_spec [OF l tracker_invD(2) [OF h(1)]] obtain rest where
    loop: "backed b (omap_sum ss_reserved_bytes (ht_sessions ?t) + ht_result_charges ?t) (base + identity_share ?ids)"
      "rows = map snd out @ rest" "e = E_OK \<Longrightarrow> rest = []" by auto
  note inv = http1_release_results_inv [OF tracker_inv_budget [OF h(1) loop(1)]]
  have ids: "row_ids (map snd (log @ out)) \<subseteq># hist + row_ids rows"
  proof -
    have "row_ids (map snd out) \<subseteq># row_ids rows" by (simp add: row_ids_def loop(2))
    from subset_mset.add_mono [OF h(2) this] show ?thesis by (simp add: row_ids_def)
  qed
  have "list_all http1_row_ok rows" by (rule tracker_invD(4) [OF h(1)])
  then have "\<forall>(key, r) \<in> set out. http1_row_ok r" by (force simp: loop(2) list_all_iff)
  with assms(2) inv ids have "http1_module_ok c base (m', log @ out)"
    unfolding http1_module_ok_def http1_working_def m'
    by (auto simp: http1_release_results_def intro!: exI [of _ "hist + row_ids rows"])
  with loop(2,3) m' show ?thesis by (auto simp: http1_release_results_def)
qed

lemma remember_http1_ok:
  assumes "http1_remember_session host view m = (e, m')" "http1_module_ok c base (m, log)" "\<not> hm_aborted m"
  shows "http1_module_ok c base (m', log) \<and> \<not> hm_aborted m' \<and>
    (e = E_OK \<longrightarrow> sv_session_id view \<in> set (omap_keys (hm_identities m')))"
proof -
  let ?t = "hm_tracker m" and ?ids = "hm_identities m"
  obtain ids b where r: "remember_session (\<lambda>p. p = 6) (hw_owned host) view ?ids (ht_budget ?t) = (e, ids, b)"
      and m': "m' = m\<lparr>hm_identities := ids, hm_tracker := ?t\<lparr>ht_budget := b\<rparr>\<rparr>"
    using assms(1) by (auto simp: http1_remember_session_def split: prod.splits)
  let ?held = "omap_sum ss_reserved_bytes (ht_sessions ?t) + ht_result_charges ?t"
  obtain hist where h: "tracker_inv (base + identity_share ?ids) hist ?t []" "row_ids (map snd log) \<subseteq># hist" "omap_wf ?ids"
    using assms(2) by (auto simp: http1_module_ok_def)
  have "backed (ht_budget ?t) (identity_share ?ids + ?held) base"
    using tracker_invD(2) [OF h(1)] by (simp add: backed_def ac_simps)
  note spec = remember_session_spec [OF r h(3) this]
  then have "backed b ?held (base + identity_share ids)" by (simp add: backed_def ac_simps)
  note inv = tracker_inv_budget [OF h(1) this]
  show ?thesis
    using inv spec assms(2,3) h unfolding http1_module_ok_def m' by (cases "e = E_OK") auto
qed

lemma forget_http1_ok:
  assumes "http1_module_ok c base (m, log)" "sid \<notin> set (omap_keys (ht_sessions (hm_tracker m)))"
  shows "http1_module_ok c base (http1_forget_session sid m, log)"
proof -
  let ?t = "hm_tracker m" and ?ids = "hm_identities m"
  obtain ids b where r: "forget_session sid ?ids (ht_budget ?t) = (ids, b)" by fastforce
  let ?held = "omap_sum ss_reserved_bytes (ht_sessions ?t) + ht_result_charges ?t"
  obtain hist where h: "tracker_inv (base + identity_share ?ids) hist ?t []" "row_ids (map snd log) \<subseteq># hist" "omap_wf ?ids"
    using assms(1) by (auto simp: http1_module_ok_def)
  have "backed (ht_budget ?t) (identity_share ?ids + ?held) base"
    using tracker_invD(2) [OF h(1)] by (simp add: backed_def ac_simps)
  note spec = forget_session_spec [OF r h(3) this]
  then have "backed b ?held (base + identity_share ids)" by (simp add: backed_def ac_simps)
  note inv = tracker_inv_budget [OF h(1) this]
  have "ids = [] \<or> \<not> hm_aborted m"
    using r assms(1) by (auto simp: http1_module_ok_def forget_session_def)
  with inv spec assms h show ?thesis
    unfolding http1_module_ok_def http1_forget_session_def by (auto simp: r)
qed

section \<open>The callbacks keep the invariant\<close>

text \<open>What a call of the tracker that ends in rows keeps, if it keeps the tracker's own invariant.\<close>

lemma tracker_call_ok:
  assumes "http1_module_ok c base (m, log)" "\<not> hm_aborted m"
    "\<And>hist base'. tracker_inv base' hist (hm_tracker m) [] \<Longrightarrow>
       \<exists>rs. rows = Some rs \<and> tracker_inv base' hist t rs \<and> ht_config t = ht_config (hm_tracker m)"
    "set (omap_keys (ht_sessions t)) \<subseteq> set (omap_keys (hm_identities m))"
  shows "http1_working c base (http1_rows rows) (m\<lparr>hm_tracker := t\<rparr>, log)"
  using assms unfolding http1_module_ok_def http1_working_def http1_rows_def by fastforce

lemma http1_round_ok:
  assumes "http1_round host view cx ev evs m = (e, evs', m', out)" "http1_module_ok c base (m, log)" "\<not> hm_aborted m"
    "sv_session_id view \<in> set (omap_keys (hm_identities m))"
  shows "http1_module_ok c base (m', log @ out) \<and> hm_identities m' = hm_identities m \<and> \<not> hm_aborted m'"
proof -
  obtain e1 t rows where call: "on_stream_event (sv_session_id view) (cx_direction cx) (cx_origin cx) ev (cx_observed_at_ns cx)
      (hm_tracker m) (Some []) = (e1, t, rows)" by (metis prod.exhaust)
  have inv: "\<exists>rs. rows = Some rs \<and> tracker_inv base' hist t rs \<and> ht_config t = ht_config (hm_tracker m)"
    if "tracker_inv base' hist (hm_tracker m) []" for hist base'
    using on_stream_event_inv [OF that call] by auto
  have "set (omap_keys (ht_sessions t)) \<subseteq> set (omap_keys (hm_identities m))"
    using assms(2,4) on_stream_event_inv [OF _ call] by (fastforce simp: http1_module_ok_def)
  note working = tracker_call_ok [OF assms(2,3) inv this]
  obtain e2 evs2 where k: "cursor_consume (if ev_kind ev = EventData then span_size (ev_bytes ev) else 0) evs = (e2, evs2)"
    by (metis prod.exhaust)
  show ?thesis
  proof (cases "e1 = E_OK \<and> e2 = E_OK")
    case True
    obtain e3 m3 out3 where em: "http1_emit_rows host (http1_rows rows) (m\<lparr>hm_tracker := t\<rparr>) = (e3, m3, out3)"
      by (metis prod.exhaust)
    from emit_rows_ok [OF em working] assms(1,3) call k em True show ?thesis
      by (auto simp: http1_round_def)
  next
    case False
    with assms(1,3) call k drop_rows_ok [OF working] show ?thesis
      by (auto simp: http1_round_def http1_drop_rows_def Let_def split: if_splits)
  qed
qed

lemma http1_readable_loop_ok:
  "http1_readable_loop host view cx evs m = (e, m', out) \<Longrightarrow> http1_module_ok c base (m, log) \<Longrightarrow> \<not> hm_aborted m \<Longrightarrow>
     sv_session_id view \<in> set (omap_keys (hm_identities m)) \<Longrightarrow> http1_module_ok c base (m', log @ out) \<and> \<not> hm_aborted m'"
proof (induction host view cx evs m arbitrary: e m' out log rule: http1_readable_loop.induct)
  case (2 host view cx ev evs m)
  obtain e1 evs1 m1 out1 where r: "http1_round host view cx ev (ev # evs) m = (e1, evs1, m1, out1)"
    by (metis prod.exhaust)
  note ok = http1_round_ok [OF r 2(3-5)]
  show ?case
  proof (cases "e1 = E_OK")
    case True
    obtain e2 m2 out2 where l: "http1_readable_loop host view cx evs1 m1 = (e2, m2, out2)" by (metis prod.exhaust)
    have "http1_module_ok c base (m2, (log @ out1) @ out2) \<and> \<not> hm_aborted m2"
      by (rule 2(1) [OF r [symmetric] refl refl _ l]) (use ok 2(5) True in auto)
    with 2(2) r l True show ?thesis by auto
  next
    case False
    with 2(2) r ok show ?thesis by auto
  qed
qed auto

lemma http1_readable_ok:
  assumes "http1_module_readable host session cx evs m = (e, m', out)" "http1_module_ok c base (m, log)"
  shows "http1_module_ok c base (m', log @ out)"
proof (cases "session = None \<or> hm_closed m")
  case True
  with assms show ?thesis by (auto simp: http1_module_readable_def split: option.splits)
next
  case False
  then obtain view where v: "session = Some view" "\<not> hm_aborted m" by auto
  obtain e1 m1 where r: "http1_remember_session host view m = (e1, m1)" by (metis prod.exhaust)
  note ok = remember_http1_ok [OF r assms(2) v(2)]
  with assms(1) False v r http1_readable_loop_ok [of host view cx evs m1 e m' out c base log] show ?thesis
    by (auto simp: http1_module_readable_def split: if_splits)
qed

lemma http1_session_end_ok:
  assumes "http1_module_session_end host view reason observed m = (e, m', out)" "http1_module_ok c base (m, log)"
  shows "http1_module_ok c base (m', log @ out)"
proof (cases "hm_closed m")
  case True
  with assms show ?thesis by (auto simp: http1_module_session_end_def)
next
  case False
  obtain e1 t rows where call: "http1_on_session_end (sv_session_id view) reason observed (hm_tracker m) (Some []) = (e1, t, rows)"
    by (metis prod.exhaust)
  have inv: "\<exists>rs. rows = Some rs \<and> tracker_inv base' hist t rs \<and> ht_config t = ht_config (hm_tracker m)"
    if "tracker_inv base' hist (hm_tracker m) []" for hist base'
    using http1_on_session_end_inv [OF that call] by auto
  have keys: "set (omap_keys (ht_sessions t)) \<subseteq> set (omap_keys (hm_identities m))"
    "e1 = E_OK \<Longrightarrow> sv_session_id view \<notin> set (omap_keys (ht_sessions t))"
    using assms(2) http1_on_session_end_inv [OF _ call] by (fastforce simp: http1_module_ok_def)+
  have working: "http1_working c base (http1_rows rows) (m\<lparr>hm_tracker := t\<rparr>, log)"
    by (rule tracker_call_ok [OF assms(2) _ inv keys(1)]) (use False in auto)
  show ?thesis
  proof (cases "e1 = E_OK")
    case True
    obtain e3 m3 out3 where em: "http1_emit_rows host (http1_rows rows) (m\<lparr>hm_tracker := t\<rparr>) = (e3, m3, out3)"
      by (metis prod.exhaust)
    note ok = emit_rows_ok [OF em working]
    then have "http1_module_ok c base (http1_forget_session (sv_session_id view) m3, log @ out3)"
      using forget_http1_ok [of c base m3 "log @ out3" "sv_session_id view"] keys(2) True by auto
    with assms(1) False call em True ok show ?thesis
      by (auto simp: http1_module_session_end_def split: if_splits)
  next
    case e: False
    with assms(1) False call drop_rows_ok [OF working] show ?thesis by (auto simp: http1_module_session_end_def)
  qed
qed

lemma http1_time_ok:
  assumes "http1_module_time host w m = (e, m', out)" "http1_module_ok c base (m, log)"
  shows "http1_module_ok c base (m', log @ out)"
proof (cases "hm_closed m")
  case True
  with assms show ?thesis by (auto simp: http1_module_time_def)
next
  case False
  obtain e1 t rows where call: "on_capture_watermark w (hm_tracker m) (Some []) = (e1, t, rows)" by (metis prod.exhaust)
  have inv: "\<exists>rs. rows = Some rs \<and> tracker_inv base' hist t rs \<and> ht_config t = ht_config (hm_tracker m)"
    if "tracker_inv base' hist (hm_tracker m) []" for hist base'
    using on_capture_watermark_inv [OF that call] by auto
  have keys: "set (omap_keys (ht_sessions t)) \<subseteq> set (omap_keys (hm_identities m))"
    using assms(2) on_capture_watermark_inv [OF _ call] by (fastforce simp: http1_module_ok_def)
  have working: "http1_working c base (http1_rows rows) (m\<lparr>hm_tracker := t\<rparr>, log)"
    by (rule tracker_call_ok [OF assms(2) _ inv keys]) (use False in auto)
  show ?thesis
    using assms(1) False call drop_rows_ok [OF working] emit_rows_ok [OF _ working, of host e m' out]
    by (cases "e1 = E_OK") (auto simp: http1_module_time_def)
qed

lemma http1_input_ok:
  "http1_module_input host input m = (e, m') \<Longrightarrow> http1_module_ok c base (m, log) \<Longrightarrow> http1_module_ok c base (m', log)"
  using remember_http1_ok by (fastforce simp: http1_module_input_def split: option.splits if_splits)

lemma http1_finish_ok:
  "http1_module_finish m = (e, m') \<Longrightarrow> http1_module_ok c base (m, log) \<Longrightarrow> http1_module_ok c base (m', log)"
  by (auto simp: http1_module_finish_def http1_module_ok_def split: if_splits)

lemma http1_abort_sessions: "ht_sessions (http1_abort t) = []"
  by (simp add: http1_abort_def Let_def)

lemma http1_module_abort_ok:
  assumes "http1_module_ok c base (m, log)"
  shows "http1_module_ok c base (http1_module_abort m, log)"
proof (cases "hm_aborted m")
  case True
  with assms show ?thesis by (simp add: http1_module_abort_def)
next
  case False
  let ?t = "http1_abort (hm_tracker m)"
  obtain hist where h: "tracker_inv (base + identity_share (hm_identities m)) hist (hm_tracker m) []"
      "row_ids (map snd log) \<subseteq># hist" "ht_config (hm_tracker m) = c" "\<forall>(key, r) \<in> set log. http1_row_ok r"
    using assms by (auto simp: http1_module_ok_def)
  note inv = http1_abort_inv [OF h(1)]
  have "backed (ht_budget ?t) (identity_share (hm_identities m) + ht_result_charges ?t) base"
    using tracker_invD(2) [OF conjunct1 [OF inv]] by (simp add: http1_abort_sessions backed_def ac_simps)
  from forget_all_spec [OF this] tracker_inv_budget [OF conjunct1 [OF inv], of "forget_all (hm_identities m) (ht_budget ?t)" base]
  have "tracker_inv base hist (?t\<lparr>ht_budget := forget_all (hm_identities m) (ht_budget ?t)\<rparr>) []"
    by (simp add: http1_abort_sessions)
  with False h inv show ?thesis
    by (auto simp: http1_module_abort_def http1_module_ok_def Let_def identity_share_def omap_keys_def http1_abort_sessions)
qed

section \<open>Runs\<close>

text \<open>A state is the module and the rows it has emitted.\<close>

inductive http1_module_step :: "http1_host \<Rightarrow> http1_module \<times> http1_emitted \<Rightarrow> http1_module \<times> http1_emitted \<Rightarrow> bool" for host where
  input: "http1_module_input host input m = (e, m') \<Longrightarrow> http1_module_step host (m, log) (m', log)"
| readable: "http1_module_readable host session cx evs m = (e, m', out) \<Longrightarrow> http1_module_step host (m, log) (m', log @ out)"
| session_end:
    "http1_module_session_end host view reason observed m = (e, m', out) \<Longrightarrow> http1_module_step host (m, log) (m', log @ out)"
| time: "http1_module_time host w m = (e, m', out) \<Longrightarrow> http1_module_step host (m, log) (m', log @ out)"
| finish: "http1_module_finish m = (e, m') \<Longrightarrow> http1_module_step host (m, log) (m', log)"
| abort: "http1_module_step host (m, log) (http1_module_abort m, log)"

definition http1_module_reachable ::
  "http1_host \<Rightarrow> http1_config \<Rightarrow> npm_task_budget option \<Rightarrow> http1_module \<times> http1_emitted \<Rightarrow> bool" where
  "http1_module_reachable host c tb s \<longleftrightarrow> (http1_module_step host)\<^sup>*\<^sup>* (new_http1_module c tb, []) s"

lemma http1_module_start: "backed tb 0 base \<Longrightarrow> http1_module_ok c base (new_http1_module c tb, [])"
  using tracker_inv_new [of tb base c]
  by (auto simp: http1_module_ok_def new_http1_module_def identity_share_def omap_keys_def row_ids_def)
    (simp_all add: new_http1_tracker_def)

lemma http1_module_step_ok: "http1_module_step host s s' \<Longrightarrow> http1_module_ok c base s \<Longrightarrow> http1_module_ok c base s'"
  by (induction rule: http1_module_step.induct)
    (blast intro: http1_input_ok http1_readable_ok http1_session_end_ok http1_time_ok http1_finish_ok http1_module_abort_ok)+

lemma http1_module_reachable_ok:
  assumes "http1_module_reachable host c tb s" "backed tb 0 base"
  shows "http1_module_ok c base s"
proof -
  have "(http1_module_step host)\<^sup>*\<^sup>* (new_http1_module c tb, []) s" using assms(1) by (simp add: http1_module_reachable_def)
  then show ?thesis
    by (induction rule: rtranclp_induct) (use http1_module_start [OF assms(2)] http1_module_step_ok in blast)+
qed

lemma http1_session_bytes:
  "\<forall>(sid, s) \<in> set m. http1_session_ok c s \<Longrightarrow>
     omap_sum ss_reserved_bytes m = omap_sum (\<lambda>s. session_charge c + pending_charge c * session_slots s) m"
  by (induction m) (auto simp: http1_session_ok_def omap_sum_def)

text \<open>
  C12. Whatever the callbacks of an HTTP/1 module deliver, in whatever order and whatever its host answers:
  between two callbacks the budget holds for it exactly the charges of its identities, its sessions and
  their pending requests; a module that finishes cleanly or is aborted has returned all of it.
\<close>

theorem http1_module_ledger_exact:
  assumes "http1_module_reachable host c (Some tb) (m, log)" "budget_wf tb" "ht_budget (hm_tracker m) = Some tb'"
  shows "module_held tb' = module_held tb + identity_share (hm_identities m) +
      omap_sum (\<lambda>s. session_charge c + pending_charge c * session_slots s) (ht_sessions (hm_tracker m)) \<and>
    (fst (http1_module_finish m) = E_OK \<longrightarrow> module_held tb' = module_held tb) \<and>
    backed (ht_budget (hm_tracker (http1_module_abort m))) 0 (module_held tb) \<and>
    ht_sessions (hm_tracker (http1_module_abort m)) = [] \<and> hm_identities (http1_module_abort m) = []"
proof -
  have start: "backed (Some tb) 0 (module_held tb)" using assms(2) by (simp add: backed_def)
  note ok = http1_module_reachable_ok [OF assms(1) start]
  then obtain hist where inv: "tracker_inv (module_held tb + identity_share (hm_identities m)) hist (hm_tracker m) []"
      "ht_config (hm_tracker m) = c" by (auto simp: http1_module_ok_def)
  have sessions: "\<forall>(sid, s) \<in> set (ht_sessions (hm_tracker m)). http1_session_ok c s"
    using inv by (auto simp: tracker_inv_def)
  have held: "module_held tb' = module_held tb + identity_share (hm_identities m) +
      omap_sum (\<lambda>s. session_charge c + pending_charge c * session_slots s) (ht_sessions (hm_tracker m))"
    using inv(1) assms(3) by (simp add: tracker_inv_def backed_def http1_session_bytes [OF sessions])
  have gone: "ht_sessions (hm_tracker (http1_module_abort m)) = []" "hm_identities (http1_module_abort m) = []"
    using ok inv(1) by (auto simp: http1_module_abort_def http1_abort_sessions Let_def http1_module_ok_def omap_keys_def)
  obtain hist' where "tracker_inv (module_held tb) hist' (hm_tracker (http1_module_abort m)) []"
    using http1_module_abort_ok [OF ok] gone(2) by (auto simp: http1_module_ok_def identity_share_def)
  then have "backed (ht_budget (hm_tracker (http1_module_abort m))) 0 (module_held tb)"
    using gone(1) by (auto simp: tracker_inv_def split: if_splits)
  then show ?thesis using held gone
    by (auto simp: http1_module_finish_def http1_active_sessions_def identity_share_def)
qed

text \<open>The rows of one call of the tracker.\<close>

lemma http1_step_rows:
  assumes inv: "tracker_inv base hist t0 []" and call: "http1_step op (t0, [], []) = (e, t, rows, released)" "r \<in> set rows"
    and keys: "0 \<notin> set (omap_keys (ht_sessions t0))"
  shows "hr_session_id r \<noteq> 0 \<and> (\<exists>hist'. tracker_inv base hist' t rows)"
proof (cases op)
  case (HttpEvent sid dir origin ev observed)
  obtain e1 t1 rs where call: "on_stream_event sid dir origin ev observed t0 (Some []) = (e1, t1, rs)"
    by (metis prod.exhaust)
  from on_stream_event_inv [OF inv call] obtain rows1 where "rs = Some rows1"
      "tracker_inv base hist t1 rows1" by auto
  moreover from this have "t = t1" "rows = rows1" using assms(2) HttpEvent call by (auto simp: with_rows_def)
  ultimately show ?thesis
    using on_stream_event_in(1) [OF call, of "{}"] on_stream_event_in(2) [OF call] assms(3) by (auto simp: http1_rows_def rows_in_def)
next
  case (HttpWatermark w)
  obtain e1 t1 rs where call: "on_capture_watermark w t0 (Some []) = (e1, t1, rs)" by (metis prod.exhaust)
  from on_capture_watermark_inv [OF inv call] obtain rows1 where "rs = Some rows1"
      "tracker_inv base hist t1 rows1" by auto
  moreover from this have "t = t1" "rows = rows1" using assms(2) HttpWatermark call by (auto simp: with_rows_def)
  ultimately show ?thesis
    using on_capture_watermark_in [OF call] assms(3,4) by (auto simp: http1_rows_def rows_in_def)
next
  case (HttpSessionEnd sid reason observed)
  obtain e1 t1 rs where call: "http1_on_session_end sid reason observed t0 (Some []) = (e1, t1, rs)"
    by (metis prod.exhaust)
  from http1_on_session_end_inv [OF inv call] obtain rows1 where "rs = Some rows1"
      "tracker_inv base hist t1 rows1" by auto
  moreover from this have "t = t1" "rows = rows1" using assms(2) HttpSessionEnd call by (auto simp: with_rows_def)
  ultimately show ?thesis
    using http1_on_session_end_in [OF call] assms(3,4) by (auto simp: http1_rows_def rows_in_def)
qed (use assms(2,3) in \<open>auto simp: http1_release_results_def\<close>)

text \<open>
  C13. The rows of an HTTP/1 module carry pairwise distinct nonzero entity identifiers, and of any row
  that its tracker writes the encoder's check can only refuse the texts: it fails exactly when the
  method, the target or the host is too long or not UTF-8.
\<close>

theorem http1_row_check_texts:
  assumes "http1_module_reachable host c tb (m, log)" "backed tb 0 base"
    "http1_step op (hm_tracker m, [], []) = (e, t, rows, released)" "r \<in> set rows"
  shows "distinct (map (hr_entity_instance_id \<circ> snd) log) \<and> 0 \<notin> set (map (hr_entity_instance_id \<circ> snd) log) \<and>
    (valid_http1_row utf8 r \<longleftrightarrow> valid_texts utf8 r)"
proof -
  note ok = http1_module_reachable_ok [OF assms(1,2)]
  then obtain hist where inv: "tracker_inv (base + identity_share (hm_identities m)) hist (hm_tracker m) []"
      and log: "row_ids (map snd log) \<subseteq># hist" and ids: "0 \<notin> set (omap_keys (hm_identities m))"
      "set (omap_keys (ht_sessions (hm_tracker m))) \<subseteq> set (omap_keys (hm_identities m))"
    by (auto simp: http1_module_ok_def)
  have "ids_ok (ht_next_id (hm_tracker m)) (hist + omap_sum session_ids (ht_sessions (hm_tracker m)))"
    using tracker_invD(3) [OF inv] by (simp add: row_ids_def)
  then have "ids_ok (ht_next_id (hm_tracker m)) (mset (map (hr_entity_instance_id \<circ> snd) log) + {#})"
    by (rule ids_ok_subset) (use log in \<open>simp add: row_ids_def subset_mset.add_increasing2\<close>)
  note distinct = ids_ok_distinct(1,2) [OF this]
  obtain hist' where r: "hr_session_id r \<noteq> 0" "tracker_inv (base + identity_share (hm_identities m)) hist' t rows"
    using http1_step_rows [OF inv assms(3,4)] ids by blast
  have "http1_row_ok r" using tracker_invD(4) [OF r(2)] assms(4) by (simp add: list_all_iff)
  moreover have "hr_entity_instance_id r \<noteq> 0"
    using tracker_invD(3) [OF r(2)] assms(4) by (auto simp: ids_ok_def row_ids_def)
  ultimately show ?thesis using http1_row_valid r(1) distinct by blast
qed

text \<open>
  And the texts are not bounded by what the parser accepts: a request line may carry a method of any
  length, which then makes the module fail on its own row.
\<close>

lemma long_method_refused:
  assumes "list_all token_byte m" "1024 < length m" "take 5 m \<noteq> ''HTTP/''"
  shows "\<exists>h. parse_start_line (m @ '' / HTTP/1.1'') = Inr h \<and> mh_method h = Some m \<and>
    (\<forall>r. hr_request r = Some (h\<lparr>mh_complete_at_ns := at\<rparr>) \<longrightarrow> \<not> valid_http1_row utf8 r)"
proof -
  have no_space: "\<forall>x \<in> set m. x \<noteq> CHR '' ''"
    using assms(1) by (auto simp: list_all_iff token_byte_def byte_value_def)
  have "takeWhile (\<lambda>x. x \<noteq> CHR '' '') (m @ '' / HTTP/1.1'') = m"
    "dropWhile (\<lambda>x. x \<noteq> CHR '' '') (m @ '' / HTTP/1.1'') = '' / HTTP/1.1''"
    using no_space by (simp_all add: takeWhile_append2 dropWhile_append2)
  moreover have "take 5 (m @ '' / HTTP/1.1'') \<noteq> ''HTTP/''" "m \<noteq> []" using assms(2,3) by auto
  ultimately have "parse_start_line (m @ '' / HTTP/1.1'') =
      Inr (empty_head\<lparr>mh_version := Http11, mh_method := Some m, mh_target := Some (escape_display ''/'')\<rparr>)"
    using assms(1) by (simp add: parse_start_line_def parse_request_line_def byte_value_def)
  then show ?thesis
    using assms(2) by (auto simp: valid_http1_row_def valid_texts_def valid_text_def)
qed

section \<open>A run\<close>

text \<open>A client sends one request, and then its session ends.\<close>

definition http1_demo_view :: session_view where
  "http1_demo_view = \<lparr>sv_session_id = 7, sv_key = Some
     \<lparr>sk_family = IPv4, sk_a_ip = [10, 0, 0, 1], sk_b_ip = [10, 0, 0, 2], sk_namespace = ''n'', sk_domain = 1,
      sk_a_port = 4000, sk_b_port = 80, sk_protocol = 6\<rparr>\<rparr>"

definition http1_demo_host :: http1_host where
  "http1_demo_host = \<lparr>hw_owned = (\<lambda>_. 100), hw_utf8 = (\<lambda>_. True), hw_emit = (\<lambda>_ _. E_OK)\<rparr>"

definition http1_demo_context :: tcp_stream_context where
  "http1_demo_context =
     \<lparr>cx_session = Some 7, cx_direction = AToB, cx_origin = OriginSyn, cx_capture_truncation_seen = False,
      cx_final_drain = False, cx_observed_at_ns = 6\<rparr>"

definition http1_demo_call :: http1_module_call where
  "http1_demo_call = http1_module_readable http1_demo_host (Some http1_demo_view) http1_demo_context [demo_request]
     (new_http1_module demo_http1_config (Some demo_tb))"

lemma http1_demo_eval:
  "\<exists>m tb. http1_demo_call = (E_OK, m, []) \<and> ht_budget (hm_tracker m) = Some tb \<and> module_held tb = 11364 \<and>
     ht_sessions (hm_tracker m) = [(7, demo_session)] \<and> \<not> ht_aborted (hm_tracker m) \<and> \<not> hm_aborted m \<and>
     ht_config (hm_tracker m) = demo_http1_config \<and> identity_share (hm_identities m) = 100"
  by (simp add: http1_demo_call_def http1_module_readable_def http1_remember_session_def remember_session_def
      http1_demo_view_def http1_demo_host_def new_http1_module_def http1_round_def cursor_consume_def http1_demo_context_def
      http1_rows_def http1_emit_rows_def http1_release_results_def http1_eval)
    (simp add: demo_session_def http1_eval http1_release_def opt_refund_def module_refund_def task_release_def
      release_npm_budget_def module_held_def identity_share_def)

lemma http1_demo_run:
  obtains m tb where "http1_module_reachable http1_demo_host demo_http1_config (Some demo_tb) (m, [])"
    "ht_budget (hm_tracker m) = Some tb" "module_held tb = 11364" "ht_sessions (hm_tracker m) = [(7, demo_session)]"
    "\<not> ht_aborted (hm_tracker m)" "ht_config (hm_tracker m) = demo_http1_config" "identity_share (hm_identities m) = 100"
proof -
  obtain m tb where m: "http1_demo_call = (E_OK, m, [])" "ht_budget (hm_tracker m) = Some tb" "module_held tb = 11364"
      "ht_sessions (hm_tracker m) = [(7, demo_session)]" "\<not> ht_aborted (hm_tracker m)" "ht_config (hm_tracker m) = demo_http1_config"
      "identity_share (hm_identities m) = 100"
    using http1_demo_eval by blast
  have "http1_module_reachable http1_demo_host demo_http1_config (Some demo_tb) (m, [])"
    using http1_module_step.readable [OF m(1) [unfolded http1_demo_call_def], of "[]"]
    by (simp add: http1_module_reachable_def r_into_rtranclp)
  then show ?thesis using m(2-) by (rule that)
qed

theorem http1_module_ledger_exact_witness:
  "\<exists>m tb. http1_module_reachable http1_demo_host demo_http1_config (Some demo_tb) (m, []) \<and>
     ht_budget (hm_tracker m) = Some tb \<and> module_held tb = 11364 \<and> ht_sessions (hm_tracker m) \<noteq> [] \<and>
     backed (ht_budget (hm_tracker (http1_module_abort m))) 0 0"
proof -
  obtain m tb where m: "http1_module_reachable http1_demo_host demo_http1_config (Some demo_tb) (m, [])"
      "ht_budget (hm_tracker m) = Some tb" "module_held tb = 11364" "ht_sessions (hm_tracker m) = [(7, demo_session)]"
    by (rule http1_demo_run)
  have "module_held demo_tb = 0" by (simp add: demo_tb_def module_held_def new_task_budget_def)
  then show ?thesis using http1_module_ledger_exact [OF m(1) demo_tb_wf m(2)] m by auto
qed

theorem http1_row_check_texts_witness:
  "\<exists>m e t r released. http1_module_reachable http1_demo_host demo_http1_config (Some demo_tb) (m, []) \<and>
     http1_step (HttpSessionEnd 7 SessionIdleTimeout 9) (hm_tracker m, [], []) = (e, t, [r], released) \<and>
     hr_outcome r = RequestOnly \<and> valid_http1_row (\<lambda>_. True) r"
proof -
  obtain m tb where m: "http1_module_reachable http1_demo_host demo_http1_config (Some demo_tb) (m, [])"
      "ht_budget (hm_tracker m) = Some tb" "ht_sessions (hm_tracker m) = [(7, demo_session)]" "\<not> ht_aborted (hm_tracker m)"
    by (rule http1_demo_run)
  let ?r = "request_only_row 7 SessionEnd 9 (Some AToB) (hd (ss_pending demo_session))"
  obtain e t released where call: "http1_step (HttpSessionEnd 7 SessionIdleTimeout 9) (hm_tracker m, [], []) = (e, t, [?r], released)"
    using m(3,4) by (simp add: with_rows_def http1_on_session_end_def seal_def demo_session_def new_http1_session_def)
  have "valid_texts (\<lambda>_. True) ?r"
    by (simp add: valid_texts_def valid_text_def request_only_row_def demo_session_def demo_head_def empty_head_def)
  with http1_row_check_texts [OF m(1) backed_start [OF demo_tb_wf] call, of ?r] have "valid_http1_row (\<lambda>_. True) ?r" by simp
  moreover have "hr_outcome ?r = RequestOnly" by (simp add: request_only_row_def)
  ultimately show ?thesis using m(1) call by blast
qed

end
