(* ===== verification/DnsMessage.thy ===== *)
theory DnsMessage
  imports FlowPrelude
begin

unbundle bit_operations_syntax

text \<open>
  The DNS message parser, modules/dns/npm_dns_udp.cpp lines 15-203: big-endian integers, names
  with compression pointers, the question, and the walk over the resource records with the
  checks on the OPT record. A body is a list of bytes and an offset into it. Names are kept as
  they travel, with ASCII case folded, and separately in display form.
\<close>

section \<open>Integers\<close>

definition read16 :: "u8 list \<Rightarrow> nat \<Rightarrow> (u16 \<times> nat) option" where
  "read16 body offset =
     (if offset > length body \<or> length body - offset < 2 then None
      else Some (push_bit 8 (ucast (body ! offset)) OR ucast (body ! (offset + 1)), offset + 2))"

definition read32 :: "u8 list \<Rightarrow> nat \<Rightarrow> (u32 \<times> nat) option" where
  "read32 body offset =
     (case read16 body offset of None \<Rightarrow> None
      | Some (high, offset1) \<Rightarrow>
          (case read16 body offset1 of None \<Rightarrow> None
           | Some (low, offset2) \<Rightarrow> Some (push_bit 16 (ucast high) OR ucast low, offset2)))"

section \<open>Names\<close>

definition fold_ascii :: "u8 \<Rightarrow> u8" where
  "fold_ascii b = (if b \<ge> 65 \<and> b \<le> 90 then b + 32 else b)"

definition display_byte :: "u8 \<Rightarrow> string" where
  "display_byte b =
     (if b \<ge> 33 \<and> b \<le> 126 \<and> b \<noteq> 46 \<and> b \<noteq> 92 then [char_of (unat b)]
      else if b = 46 \<or> b = 92 then [CHR 0x5C, char_of (unat b)]
      else [CHR 0x5C, char_of (48 + unat b div 100), char_of (48 + (unat b div 10) mod 10),
            char_of (48 + unat b mod 10)])"

text \<open>
  What ReadName leaves behind: the offset, and the strings it appended to, which the callers
  see also when it fails. A null display pointer is \<open>None\<close>; the wire pointer is never null.
\<close>

record name_read =
  nr_ok :: bool
  nr_offset :: nat
  nr_wire :: "u8 list"
  nr_display :: "string option"

text \<open>
  The loop: \<open>cursor\<close> jumps back at a compression pointer, at most 255 times; until the first
  jump the offset follows it.
\<close>

function read_name_loop ::
  "u8 list \<Rightarrow> nat \<Rightarrow> nat \<Rightarrow> bool \<Rightarrow> nat \<Rightarrow> nat \<Rightarrow> nat \<Rightarrow> u8 list \<Rightarrow> string option \<Rightarrow> name_read" where
  "read_name_loop body offset cursor jumped expanded labels pointers wire display =
     (let failed = \<lparr>nr_ok = False, nr_offset = offset, nr_wire = wire, nr_display = display\<rparr> in
      if cursor \<ge> length body then failed
      else
        let len = body ! cursor in
        if len AND 0xC0 = 0xC0 then
          (if pointers + 1 > 255 then failed
           else if length body - cursor < 2 then failed
           else
             let target = unat (push_bit 8 (ucast (len AND 0x3F)) OR ucast (body ! (cursor + 1)) :: u16) in
             if target \<ge> cursor \<or> target \<ge> length body then failed
             else read_name_loop body (if jumped then offset else cursor + 2) target True
                    expanded labels (pointers + 1) wire display)
        else if len AND 0xC0 \<noteq> 0 \<or> len > 63 then failed
        else if len = 0 then
          \<lparr>nr_ok = True, nr_offset = (if jumped then offset else cursor + 1), nr_wire = wire @ [0],
           nr_display = (if labels = 0 then map_option (\<lambda>_. ''.'') display else display)\<rparr>
        else
          let n = unat len; start = cursor + 1 in
          if length body - start < n \<or> expanded + 1 + n > 255 then failed
          else
            let bytes = take n (drop start body) in
            read_name_loop body offset (start + n) jumped (expanded + 1 + n) (labels + 1) pointers
              (wire @ [len] @ map fold_ascii bytes)
              (map_option (\<lambda>d. d @ (if labels \<noteq> 0 then ''.'' else []) @ concat (map display_byte bytes)) display))"
  by pat_completeness auto

termination
  by (relation "measures [\<lambda>(body, offset, cursor, jumped, expanded, labels, pointers, wire, display). 256 - pointers,
      \<lambda>(body, offset, cursor, jumped, expanded, labels, pointers, wire, display). length body - cursor]")
    (auto simp: Let_def unat_eq_0)

declare read_name_loop.simps [simp del]

definition read_name :: "u8 list \<Rightarrow> nat \<Rightarrow> string option \<Rightarrow> name_read" where
  "read_name body offset display = read_name_loop body offset offset False 1 0 0 [] display"

section \<open>Messages\<close>

datatype dns_message_status = DnsComplete | DnsUnsupported | DnsCaptureTruncated | DnsMalformed

record dns_message =
  dm_dns_id :: u16
  dm_opcode :: u8
  dm_is_response :: bool
  dm_truncated :: bool
  dm_response_rcode :: u16
  dm_wire_qname :: "u8 list option"
  dm_qtype :: "u16 option"
  dm_qclass :: "u16 option"

record dns_parsed =
  dp_message :: dns_message
  dp_key_available :: bool
  dp_qname_display :: string

definition blank_parsed :: dns_parsed where
  "blank_parsed = \<lparr>dp_message = \<lparr>dm_dns_id = 0, dm_opcode = 0, dm_is_response = False,
     dm_truncated = False, dm_response_rcode = 0, dm_wire_qname = None, dm_qtype = None,
     dm_qclass = None\<rparr>, dp_key_available = False, dp_qname_display = []\<rparr>"

text \<open>The options inside an OPT record fill it exactly.\<close>

function read_options :: "u8 list \<Rightarrow> nat \<Rightarrow> nat \<Rightarrow> bool" where
  "read_options body option end =
     (if option \<ge> end then True
      else if end - option < 4 then False
      else case read16 body option of None \<Rightarrow> False
      | Some (code, option1) \<Rightarrow>
          (case read16 body option1 of None \<Rightarrow> False
           | Some (len, option2) \<Rightarrow>
               if end - option2 < unat len then False
               else read_options body (option2 + unat len) end))"
  by pat_completeness auto

termination
  by (relation "measure (\<lambda>(body, option, end). end - option)") (auto simp: read16_def split: if_splits)

declare read_options.simps [simp del]

text \<open>The record walk carries the offset, whether an OPT record was seen, and the response code.\<close>

type_synonym record_walk = "nat \<times> bool \<times> u16"

definition read_record :: "u8 list \<Rightarrow> nat \<Rightarrow> record_walk \<Rightarrow> record_walk option" where
  "read_record body section_index w = (case w of (offset, seen_opt, rcode) \<Rightarrow>
     let owner = read_name body offset None in
     if \<not> nr_ok owner then None
     else case read16 body (nr_offset owner) of None \<Rightarrow> None
     | Some (type, o1) \<Rightarrow>
         (case read16 body o1 of None \<Rightarrow> None
          | Some (rr_class, o2) \<Rightarrow>
              (case read32 body o2 of None \<Rightarrow> None
               | Some (ttl, o3) \<Rightarrow>
                   (case read16 body o3 of None \<Rightarrow> None
                    | Some (rdlength, o4) \<Rightarrow>
                        if o4 > length body \<or> length body - o4 < unat rdlength then None
                        else if type = 41 then
                          (if section_index \<noteq> 2 \<or> seen_opt \<or> nr_wire owner \<noteq> [0]
                              \<or> drop_bit 16 ttl AND 0xFF \<noteq> 0 then None
                           else if \<not> read_options body o4 (o4 + unat rdlength) then None
                           else Some (o4 + unat rdlength, True,
                                  rcode OR ucast (push_bit 4 (drop_bit 24 ttl))))
                        else Some (o4 + unat rdlength, seen_opt, rcode)))))"

text \<open>On failure the response code found so far stays in the message: \<open>Inl\<close> carries it.\<close>

fun read_records :: "u8 list \<Rightarrow> nat \<Rightarrow> nat \<Rightarrow> record_walk \<Rightarrow> u16 + record_walk" where
  "read_records body section_index 0 w = Inr w"
| "read_records body section_index (Suc n) w =
     (case read_record body section_index w of None \<Rightarrow> Inl (snd (snd w))
      | Some w' \<Rightarrow> read_records body section_index n w')"

fun read_sections :: "u8 list \<Rightarrow> nat \<Rightarrow> nat list \<Rightarrow> record_walk \<Rightarrow> u16 + record_walk" where
  "read_sections body section_index [] w = Inr w"
| "read_sections body section_index (n # ns) w =
     (case read_records body section_index n w of Inl rcode \<Rightarrow> Inl rcode
      | Inr w' \<Rightarrow> read_sections body (Suc section_index) ns w')"

definition header_word :: "u8 list \<Rightarrow> nat \<Rightarrow> u16" where
  "header_word body offset = (case read16 body offset of None \<Rightarrow> 0 | Some (v, _) \<Rightarrow> v)"

text \<open>The six header words of a body of at least 12 bytes.\<close>

definition parse_dns_header :: "u8 list \<Rightarrow> dns_parsed" where
  "parse_dns_header body =
     (let flags = header_word body 2 in
      blank_parsed\<lparr>dp_message := (dp_message blank_parsed)\<lparr>
        dm_dns_id := header_word body 0,
        dm_is_response := (flags AND 0x8000 \<noteq> 0),
        dm_opcode := ucast (drop_bit 11 flags AND 0x0F),
        dm_truncated := (flags AND 0x0200 \<noteq> 0),
        dm_response_rcode := flags AND 0x000F\<rparr>\<rparr>)"

text \<open>The part after the question, for a complete body.\<close>

definition finish_dns_message ::
  "u8 list \<Rightarrow> nat \<Rightarrow> dns_parsed \<Rightarrow> dns_message_status \<times> dns_parsed" where
  "finish_dns_message body offset parsed =
     (let m = dp_message parsed;
          counts = map (\<lambda>i. unat (header_word body i)) [6, 8, 10] in
      case read_sections body 0 counts (offset, False, dm_response_rcode m) of
        Inl rcode \<Rightarrow> (DnsMalformed, parsed\<lparr>dp_message := m\<lparr>dm_response_rcode := rcode\<rparr>\<rparr>)
      | Inr (o1, seen_opt, rcode) \<Rightarrow>
          let parsed' = parsed\<lparr>dp_message := m\<lparr>dm_response_rcode := rcode\<rparr>\<rparr> in
          if o1 \<noteq> length body then (DnsMalformed, parsed')
          else if dm_opcode m \<noteq> 0 \<or> dm_qtype m = Some 251 \<or> dm_qtype m = Some 252
          then (DnsUnsupported, parsed')
          else (DnsComplete, parsed'))"

text \<open>ParseNpmDnsUdpMessageV1 for a non-null output.\<close>

definition parse_dns_message :: "span \<Rightarrow> bool \<Rightarrow> dns_message_status \<times> dns_parsed" where
  "parse_dns_message span body_complete =
     (case span_data span of
        None \<Rightarrow> (DnsMalformed, blank_parsed)
      | Some body \<Rightarrow>
          if length body > 65535 \<or> length body < 12 then (DnsMalformed, blank_parsed)
          else
            let parsed = parse_dns_header body in
            if header_word body 4 \<noteq> 1 then (DnsMalformed, parsed)
            else
              let name = read_name body 12 (Some []);
                  parsed1 = parsed\<lparr>dp_qname_display := (case nr_display name of None \<Rightarrow> [] | Some d \<Rightarrow> d)\<rparr> in
              if \<not> nr_ok name then (DnsMalformed, parsed1)
              else case read16 body (nr_offset name) of None \<Rightarrow> (DnsMalformed, parsed1)
              | Some (qtype, o1) \<Rightarrow>
                  (case read16 body o1 of None \<Rightarrow> (DnsMalformed, parsed1)
                   | Some (qclass, o2) \<Rightarrow>
                       let parsed2 = parsed1\<lparr>dp_message := (dp_message parsed1)\<lparr>
                              dm_wire_qname := Some (nr_wire name), dm_qtype := Some qtype,
                              dm_qclass := Some qclass\<rparr>, dp_key_available := True\<rparr> in
                       if \<not> body_complete then (DnsCaptureTruncated, parsed2)
                       else finish_dns_message body o2 parsed2))"

end
