(* ===== verification/DnsTracker.thy ===== *)
theory DnsTracker
  imports DnsMessage OrderedMap TaskBudget EntityIds
begin

text \<open>
  The DNS transaction tracker, modules/dns/npm_dns_udp.cpp lines 86-112 and 205-477: per session
  a list of pending queries, matched by the whole question; retransmissions count, responses
  take the query out, deadlines and gaps and the session's end turn queries into rows. Every
  pending query and every row is charged to the task ledger.
\<close>

section \<open>State\<close>

record dns_question_key =
  qk_session_id :: u64
  qk_query_direction :: packet_direction
  qk_dns_id :: u16
  qk_opcode :: u8
  qk_wire_qname :: "u8 list"
  qk_qtype :: u16
  qk_qclass :: u16

record dns_transaction =
  tx_entity_instance_id :: u64
  tx_key :: dns_question_key
  tx_query_at_ns :: "int option"
  tx_deadline_ns :: "int option"
  tx_query_retries :: nat
  tx_qname_display :: string

record dns_result =
  dr_entity_instance_id :: u64
  dr_session_id :: u64
  dr_dns_id :: u16
  dr_outcome :: string
  dr_incomplete_reason :: "string option"
  dr_query_retries :: nat
  dr_query_direction :: "packet_direction option"
  dr_response_direction :: "packet_direction option"
  dr_qname :: "string option"
  dr_qtype :: "u16 option"
  dr_qclass :: "u16 option"
  dr_query_at_ns :: "int option"
  dr_response_at_ns :: "int option"
  dr_latency_ns :: "int option"
  dr_response_rcode :: "u16 option"
  dr_response_tc :: "bool option"
  dr_observed_at_ns :: int

definition default_dns_result :: dns_result where
  "default_dns_result = \<lparr>dr_entity_instance_id = 0, dr_session_id = 0, dr_dns_id = 0,
     dr_outcome = [], dr_incomplete_reason = None, dr_query_retries = 0, dr_query_direction = None,
     dr_response_direction = None, dr_qname = None, dr_qtype = None, dr_qclass = None,
     dr_query_at_ns = None, dr_response_at_ns = None, dr_latency_ns = None,
     dr_response_rcode = None, dr_response_tc = None, dr_observed_at_ns = 0\<rparr>"

record dns_config =
  dc_response_timeout_ns :: int
  dc_max_pending_per_session :: nat

record dns_tracker =
  dt_config :: dns_config
  dt_budget :: "npm_task_budget option"
  dt_next_id :: u64
  dt_watermark_ns :: "int option"
  dt_result_charge_bytes :: nat
  dt_pending :: "(u64, dns_transaction list) omap"

definition new_dns_tracker :: "dns_config \<Rightarrow> npm_task_budget option \<Rightarrow> dns_tracker" where
  "new_dns_tracker config budget = \<lparr>dt_config = config, dt_budget = budget, dt_next_id = 1,
     dt_watermark_ns = None, dt_result_charge_bytes = 0, dt_pending = []\<rparr>"

definition dns_pending_charge :: nat where "dns_pending_charge = 4096"
definition dns_result_charge :: nat where "dns_result_charge = 4096"

definition same_question :: "dns_question_key \<Rightarrow> dns_question_key \<Rightarrow> bool" where
  "same_question left right \<longleftrightarrow>
     qk_session_id left = qk_session_id right \<and> qk_query_direction left = qk_query_direction right \<and>
     qk_dns_id left = qk_dns_id right \<and> qk_opcode left = qk_opcode right \<and>
     qk_wire_qname left = qk_wire_qname right \<and> qk_qtype left = qk_qtype right \<and>
     qk_qclass left = qk_qclass right"

definition query_result :: "dns_transaction \<Rightarrow> int \<Rightarrow> string \<Rightarrow> dns_result" where
  "query_result tx observed reason = default_dns_result\<lparr>
     dr_entity_instance_id := tx_entity_instance_id tx, dr_session_id := qk_session_id (tx_key tx),
     dr_dns_id := qk_dns_id (tx_key tx), dr_outcome := ''query_only'',
     dr_incomplete_reason := Some reason, dr_query_retries := tx_query_retries tx,
     dr_query_direction := Some (qk_query_direction (tx_key tx)), dr_qname := Some (tx_qname_display tx),
     dr_qtype := Some (qk_qtype (tx_key tx)), dr_qclass := Some (qk_qclass (tx_key tx)),
     dr_query_at_ns := tx_query_at_ns tx, dr_observed_at_ns := observed\<rparr>"

section \<open>Ledger and identifiers\<close>

definition charge_pending :: "dns_tracker \<Rightarrow> dns_tracker option" where
  "charge_pending t = map_option (\<lambda>b. t\<lparr>dt_budget := b\<rparr>) (opt_charge dns_pending_charge (dt_budget t))"

definition release_pending :: "nat \<Rightarrow> dns_tracker \<Rightarrow> dns_tracker" where
  "release_pending n t =
     (if n = 0 then t else t\<lparr>dt_budget := opt_refund (n * dns_pending_charge) (dt_budget t)\<rparr>)"

definition charge_result :: "dns_tracker \<Rightarrow> dns_tracker option" where
  "charge_result t =
     (case dt_budget t of None \<Rightarrow> Some t
      | Some tb \<Rightarrow>
          map_option (\<lambda>b. t\<lparr>dt_budget := b,
              dt_result_charge_bytes := dt_result_charge_bytes t + dns_result_charge\<rparr>)
            (opt_charge dns_result_charge (dt_budget t)))"

fun dns_id :: "u64 \<Rightarrow> u64 \<times> u64" where
  "dns_id c = (c, if c \<noteq> 0 then c + 1 else c)"

interpretation dns_id: id_allocator dns_id
  by unfold_locales auto

definition dns_next_id :: "dns_tracker \<Rightarrow> u64 \<times> dns_tracker" where
  "dns_next_id t = (case dns_id (dt_next_id t) of (i, c) \<Rightarrow> (i, t\<lparr>dt_next_id := c\<rparr>))"

definition dns_deadline :: "int \<Rightarrow> int \<Rightarrow> int" where
  "dns_deadline complete_at timeout =
     (if complete_at > i64_max - timeout then i64_max else complete_at + timeout)"

interpretation dns_deadline: saturating_deadline dns_deadline
  by unfold_locales (simp add: dns_deadline_def)

definition dns_elapsed :: "int \<Rightarrow> int \<Rightarrow> int option" where
  "dns_elapsed query_at complete_at =
     (if complete_at \<ge> query_at then
        (let difference = u64_sub_i64 complete_at query_at in
         if difference \<le> i64_max then Some difference else None)
      else None)"

interpretation dns_elapsed: elapsed_time dns_elapsed
  by unfold_locales (simp add: dns_elapsed_def Let_def)

section \<open>The pending list of one session\<close>

definition session_pending :: "u64 \<Rightarrow> dns_tracker \<Rightarrow> dns_transaction list" where
  "session_pending sid t = (case omap_find (dt_pending t) sid of None \<Rightarrow> [] | Some ps \<Rightarrow> ps)"

definition find_question :: "dns_question_key \<Rightarrow> dns_transaction list \<Rightarrow> dns_transaction option" where
  "find_question key ps = find (\<lambda>p. same_question (tx_key p) key) ps"

text \<open>Erasing the first match of the list.\<close>

fun erase_question :: "dns_question_key \<Rightarrow> dns_transaction list \<Rightarrow> dns_transaction list" where
  "erase_question key [] = []"
| "erase_question key (p # ps) =
     (if same_question (tx_key p) key then ps else p # erase_question key ps)"

fun retry_question :: "dns_question_key \<Rightarrow> dns_transaction list \<Rightarrow> dns_transaction list" where
  "retry_question key [] = []"
| "retry_question key (p # ps) =
     (if same_question (tx_key p) key then p\<lparr>tx_query_retries := tx_query_retries p + 1\<rparr> # ps
      else p # retry_question key ps)"

text \<open>Stores a session's list; an empty list leaves the map.\<close>

definition store_pending :: "u64 \<Rightarrow> dns_transaction list \<Rightarrow> dns_tracker \<Rightarrow> dns_tracker" where
  "store_pending sid ps t =
     t\<lparr>dt_pending := (if ps = [] then omap_erase sid (dt_pending t) else omap_put sid ps (dt_pending t))\<rparr>"

definition take_question :: "u64 \<Rightarrow> dns_question_key \<Rightarrow> dns_tracker \<Rightarrow> dns_tracker" where
  "take_question sid key t = release_pending 1 (store_pending sid (erase_question key (session_pending sid t)) t)"

section \<open>Messages\<close>

type_synonym dns_outcome = "errno \<times> dns_tracker \<times> dns_result list"

definition dns_damaged ::
  "u64 \<Rightarrow> dns_question_key \<Rightarrow> dns_message_status \<Rightarrow> bool \<Rightarrow> int \<Rightarrow> dns_tracker \<Rightarrow> dns_result list
    \<Rightarrow> dns_outcome" where
  "dns_damaged sid key status is_response observed t rows =
     (if \<not> is_response then (E_OK, t, rows)
      else case find_question key (session_pending sid t) of None \<Rightarrow> (E_OK, t, rows)
      | Some p \<Rightarrow>
          (case charge_result t of None \<Rightarrow> (E_NOSPC, t, rows)
           | Some t1 \<Rightarrow>
               (E_OK, take_question sid key t1,
                rows @ [query_result p observed
                  (if status = DnsCaptureTruncated then ''capture_truncation'' else ''malformed_response'')])))"

definition dns_unsupported ::
  "u64 \<Rightarrow> packet_direction \<Rightarrow> dns_parsed \<Rightarrow> int option \<Rightarrow> int \<Rightarrow> dns_tracker \<Rightarrow> dns_result list
    \<Rightarrow> dns_outcome" where
  "dns_unsupported sid dir parsed complete_at observed t rows =
     (case charge_result t of None \<Rightarrow> (E_NOSPC, t, rows)
      | Some t1 \<Rightarrow>
          (case dns_next_id t1 of (i, t2) \<Rightarrow>
             if i = 0 then (E_OVERFLOW, t2, rows)
             else
               let m = dp_message parsed; response = dm_is_response m in
               (E_OK, t2, rows @ [default_dns_result\<lparr>dr_entity_instance_id := i,
                  dr_session_id := sid, dr_dns_id := dm_dns_id m, dr_outcome := ''unsupported_message'',
                  dr_incomplete_reason := Some ''unsupported_opcode_or_transfer'',
                  dr_response_direction := (if response then Some dir else None),
                  dr_query_direction := (if response then None else Some dir),
                  dr_qname := Some (dp_qname_display parsed), dr_qtype := dm_qtype m,
                  dr_qclass := dm_qclass m,
                  dr_response_at_ns := (if response then complete_at else None),
                  dr_query_at_ns := (if response then None else complete_at),
                  dr_observed_at_ns := observed\<rparr>])))"

definition dns_query ::
  "u64 \<Rightarrow> dns_question_key \<Rightarrow> string \<Rightarrow> int option \<Rightarrow> dns_tracker \<Rightarrow> dns_result list \<Rightarrow> dns_outcome" where
  "dns_query sid key display complete_at t rows =
     (let ps = session_pending sid t in
      case find_question key ps of
        Some p \<Rightarrow>
          if tx_query_retries p = u32_max then (E_OVERFLOW, t, rows)
          else (E_OK, store_pending sid (retry_question key ps) t, rows)
      | None \<Rightarrow>
          if omap_find (dt_pending t) sid \<noteq> None \<and> length ps \<ge> dc_max_pending_per_session (dt_config t) then (E_OVERFLOW, t, rows)
          else case charge_pending t of None \<Rightarrow> (E_NOSPC, t, rows)
          | Some t1 \<Rightarrow>
              (case dns_next_id t1 of (i, t2) \<Rightarrow>
                 if i = 0 then (E_OVERFLOW, release_pending 1 t2, rows)
                 else
                   (E_OK, store_pending sid (ps @ [\<lparr>tx_entity_instance_id = i, tx_key = key,
                      tx_query_at_ns = complete_at,
                      tx_deadline_ns = map_option (\<lambda>c. dns_deadline c (dc_response_timeout_ns (dt_config t2)))
                        complete_at,
                      tx_query_retries = 0, tx_qname_display = display\<rparr>]) t2, rows)))"

definition response_base ::
  "u64 \<Rightarrow> packet_direction \<Rightarrow> dns_parsed \<Rightarrow> int option \<Rightarrow> int \<Rightarrow> dns_result" where
  "response_base sid dir parsed complete_at observed =
     (let m = dp_message parsed in
      default_dns_result\<lparr>dr_session_id := sid, dr_dns_id := dm_dns_id m,
        dr_response_direction := Some dir, dr_response_at_ns := complete_at,
        dr_response_rcode := Some (dm_response_rcode m), dr_response_tc := Some (dm_truncated m),
        dr_observed_at_ns := observed, dr_qname := Some (dp_qname_display parsed),
        dr_qtype := dm_qtype m, dr_qclass := dm_qclass m\<rparr>)"

definition matched_response ::
  "dns_transaction \<Rightarrow> bool \<Rightarrow> int option \<Rightarrow> dns_result \<Rightarrow> dns_result" where
  "matched_response p truncated complete_at r =
     r\<lparr>dr_entity_instance_id := tx_entity_instance_id p,
       dr_query_direction := Some (qk_query_direction (tx_key p)),
       dr_query_at_ns := tx_query_at_ns p, dr_query_retries := tx_query_retries p,
       dr_qname := Some (tx_qname_display p),
       dr_latency_ns := (case complete_at of None \<Rightarrow> None
         | Some c \<Rightarrow> (case tx_query_at_ns p of None \<Rightarrow> None | Some q \<Rightarrow> dns_elapsed q c)),
       dr_outcome := (if truncated then ''truncated_response'' else ''matched''),
       dr_incomplete_reason := (if truncated then Some ''dns_tc_set'' else dr_incomplete_reason r)\<rparr>"

definition dns_response ::
  "u64 \<Rightarrow> packet_direction \<Rightarrow> dns_question_key \<Rightarrow> dns_parsed \<Rightarrow> int option \<Rightarrow> int \<Rightarrow> dns_tracker
    \<Rightarrow> dns_result list \<Rightarrow> dns_outcome" where
  "dns_response sid dir key parsed complete_at observed t rows =
     (case charge_result t of None \<Rightarrow> (E_NOSPC, t, rows)
      | Some t1 \<Rightarrow>
          let r = response_base sid dir parsed complete_at observed in
          (case find_question key (session_pending sid t) of
             Some p \<Rightarrow>
               (E_OK, take_question sid key t1,
                rows @ [matched_response p (dm_truncated (dp_message parsed)) complete_at r])
           | None \<Rightarrow>
               (case dns_next_id t1 of (i, t2) \<Rightarrow>
                  if i = 0 then (E_OVERFLOW, t2, rows)
                  else (E_OK, t2, rows @ [r\<lparr>dr_entity_instance_id := i, dr_outcome := ''response_only'',
                         dr_incomplete_reason := Some ''no_pending_query''\<rparr>]))))"

definition question_key ::
  "u64 \<Rightarrow> packet_direction \<Rightarrow> dns_message \<Rightarrow> u8 list \<Rightarrow> u16 \<Rightarrow> u16 \<Rightarrow> dns_question_key" where
  "question_key sid dir m wire qtype qclass =
     \<lparr>qk_session_id = sid, qk_query_direction = (if dm_is_response m then opposite dir else dir),
      qk_dns_id = dm_dns_id m, qk_opcode = dm_opcode m, qk_wire_qname = wire, qk_qtype = qtype,
      qk_qclass = qclass\<rparr>"

text \<open>An available key without name, type or class would be an empty optional read.\<close>

definition dns_keyed_message ::
  "u64 \<Rightarrow> packet_direction \<Rightarrow> dns_message_status \<Rightarrow> dns_parsed \<Rightarrow> int option \<Rightarrow> int \<Rightarrow> dns_tracker
    \<Rightarrow> dns_result list \<Rightarrow> dns_outcome" where
  "dns_keyed_message sid dir status parsed complete_at observed t rows =
     (let m = dp_message parsed in
      case (dm_wire_qname m, dm_qtype m, dm_qclass m) of
        (Some wire, Some qtype, Some qclass) \<Rightarrow>
          let key = question_key sid dir m wire qtype qclass in
          if status = DnsMalformed \<or> status = DnsCaptureTruncated
          then dns_damaged sid key status (dm_is_response m) observed t rows
          else if status = DnsUnsupported then dns_unsupported sid dir parsed complete_at observed t rows
          else if \<not> dm_is_response m then dns_query sid key (dp_qname_display parsed) complete_at t rows
          else dns_response sid dir key parsed complete_at observed t rows
      | _ \<Rightarrow> (E_UNCAUGHT, t, rows))"

type_synonym dns_call = "errno \<times> dns_tracker \<times> dns_result list option"

text \<open>The row list goes through as an option: \<open>None\<close> is a null results pointer.\<close>

definition returning :: "dns_outcome \<Rightarrow> dns_call" where
  "returning r = (case r of (e, t, rows) \<Rightarrow> (e, t, Some rows))"

definition dns_on_message ::
  "u64 \<Rightarrow> packet_direction \<Rightarrow> span \<Rightarrow> bool \<Rightarrow> int option \<Rightarrow> int \<Rightarrow> dns_tracker \<Rightarrow> dns_result list option
    \<Rightarrow> dns_call" where
  "dns_on_message sid dir body body_complete complete_at observed t results =
     (case results of None \<Rightarrow> (E_INVAL, t, None)
      | Some rows \<Rightarrow>
          if sid = 0 then (E_INVAL, t, results)
          else
            (case parse_dns_message body body_complete of (status, parsed) \<Rightarrow>
               if \<not> dp_key_available parsed then (E_OK, t, results)
               else returning (dns_keyed_message sid dir status parsed complete_at observed t rows)))"

definition dns_on_datagram ::
  "u64 \<Rightarrow> packet_direction \<Rightarrow> span \<Rightarrow> bool \<Rightarrow> int \<Rightarrow> dns_tracker \<Rightarrow> dns_result list option \<Rightarrow> dns_call" where
  "dns_on_datagram sid dir body body_complete captured t results =
     dns_on_message sid dir body body_complete (Some captured) captured t results"

section \<open>Gaps, time and ends\<close>

text \<open>
  The loop that OnResponsePathGap and OnCaptureWatermark share: pending queries that satisfy a
  test become rows, in order; it stops where the ledger refuses a row.
\<close>

fun expire_pending ::
  "(dns_transaction \<Rightarrow> bool) \<Rightarrow> int \<Rightarrow> string \<Rightarrow> dns_transaction list \<Rightarrow> dns_tracker \<Rightarrow> dns_result list
    \<Rightarrow> errno \<times> dns_transaction list \<times> dns_tracker \<times> dns_result list" where
  "expire_pending P observed reason [] t rows = (E_OK, [], t, rows)"
| "expire_pending P observed reason (p # ps) t rows =
     (if \<not> P p then
        (case expire_pending P observed reason ps t rows of (e, ps', t', rows') \<Rightarrow> (e, p # ps', t', rows'))
      else case charge_result t of None \<Rightarrow> (E_NOSPC, p # ps, t, rows)
      | Some t1 \<Rightarrow>
          expire_pending P observed reason ps (release_pending 1 t1) (rows @ [query_result p observed reason]))"

definition dns_on_response_path_gap ::
  "u64 \<Rightarrow> packet_direction \<Rightarrow> int \<Rightarrow> dns_tracker \<Rightarrow> dns_result list option \<Rightarrow> dns_call" where
  "dns_on_response_path_gap sid response_dir observed t results =
     (case results of None \<Rightarrow> (E_INVAL, t, None)
      | Some rows \<Rightarrow>
          if sid = 0 then (E_INVAL, t, results)
          else case omap_find (dt_pending t) sid of None \<Rightarrow> (E_OK, t, results)
          | Some ps \<Rightarrow>
              (case expire_pending (\<lambda>p. qk_query_direction (tx_key p) \<noteq> response_dir) observed
                  ''response_path_gap'' ps t rows of
                 (e, ps', t', rows') \<Rightarrow> (e, store_pending sid ps' t', Some rows')))"

fun earliest :: "int option \<Rightarrow> dns_transaction list \<Rightarrow> int option" where
  "earliest nxt [] = nxt"
| "earliest nxt (p # ps) =
     earliest (case tx_deadline_ns p of None \<Rightarrow> nxt
       | Some d \<Rightarrow> (case nxt of None \<Rightarrow> Some d | Some n \<Rightarrow> if d < n then Some d else nxt)) ps"

definition dns_next_event_deadline_ns :: "dns_tracker \<Rightarrow> int option" where
  "dns_next_event_deadline_ns t = fold (\<lambda>(sid, ps) nxt. earliest nxt ps) (dt_pending t) None"

definition due :: "int \<Rightarrow> dns_transaction \<Rightarrow> bool" where
  "due w p \<longleftrightarrow> (case tx_deadline_ns p of None \<Rightarrow> False | Some d \<Rightarrow> d \<le> w)"

fun expire_all ::
  "int \<Rightarrow> (u64, dns_transaction list) omap \<Rightarrow> dns_tracker \<Rightarrow> dns_result list
    \<Rightarrow> errno \<times> (u64, dns_transaction list) omap \<times> dns_tracker \<times> dns_result list" where
  "expire_all w [] t rows = (E_OK, [], t, rows)"
| "expire_all w ((sid, ps) # m) t rows =
     (case expire_pending (due w) w ''response_not_observed_by_deadline'' ps t rows of
        (e, ps', t', rows') \<Rightarrow>
          if e \<noteq> E_OK then (e, (sid, ps') # m, t', rows')
          else case expire_all w m t' rows' of
            (e'', m'', t'', rows'') \<Rightarrow> (e'', (if ps' = [] then m'' else (sid, ps') # m''), t'', rows''))"

definition dns_on_capture_watermark ::
  "int \<Rightarrow> dns_tracker \<Rightarrow> dns_result list option \<Rightarrow> dns_call" where
  "dns_on_capture_watermark w t results =
     (case results of None \<Rightarrow> (E_INVAL, t, None)
      | Some rows \<Rightarrow>
          if (case dt_watermark_ns t of None \<Rightarrow> False | Some w0 \<Rightarrow> w \<le> w0) then (E_OK, t, results)
          else
            (case expire_all w (dt_pending t) (t\<lparr>dt_watermark_ns := Some w\<rparr>) rows of
               (e, m, t', rows') \<Rightarrow> (e, t'\<lparr>dt_pending := m\<rparr>, Some rows')))"

text \<open>At the session's end a refused row leaves the list in place.\<close>

fun end_pending ::
  "int \<Rightarrow> dns_transaction list \<Rightarrow> dns_tracker \<Rightarrow> dns_result list \<Rightarrow> errno \<times> dns_tracker \<times> dns_result list" where
  "end_pending observed [] t rows = (E_OK, t, rows)"
| "end_pending observed (p # ps) t rows =
     (case charge_result t of None \<Rightarrow> (E_NOSPC, t, rows)
      | Some t1 \<Rightarrow> end_pending observed ps t1 (rows @ [query_result p observed ''session_end'']))"

definition dns_on_session_end ::
  "u64 \<Rightarrow> int \<Rightarrow> dns_tracker \<Rightarrow> dns_result list option \<Rightarrow> dns_call" where
  "dns_on_session_end sid observed t results =
     (case results of None \<Rightarrow> (E_INVAL, t, None)
      | Some rows \<Rightarrow>
          if sid = 0 then (E_INVAL, t, results)
          else case omap_find (dt_pending t) sid of None \<Rightarrow> (E_OK, t, results)
          | Some ps \<Rightarrow>
              (case end_pending observed ps t rows of (e, t', rows') \<Rightarrow>
                 if e \<noteq> E_OK then (e, t', Some rows')
                 else (E_OK, release_pending (length ps) (t'\<lparr>dt_pending := omap_erase sid (dt_pending t')\<rparr>),
                       Some rows')))"

definition dns_pending_count :: "u64 \<Rightarrow> dns_tracker \<Rightarrow> nat" where
  "dns_pending_count sid t = (case omap_find (dt_pending t) sid of None \<Rightarrow> 0 | Some ps \<Rightarrow> length ps)"

definition dns_release_results ::
  "dns_tracker \<Rightarrow> dns_result list option \<Rightarrow> dns_tracker \<times> dns_result list option" where
  "dns_release_results t results =
     ((if dt_result_charge_bytes t = 0 then t
       else t\<lparr>dt_budget := opt_refund (dt_result_charge_bytes t) (dt_budget t)\<rparr>)
      \<lparr>dt_result_charge_bytes := 0\<rparr>, map_option (\<lambda>_. []) results)"

definition dns_abort :: "dns_tracker \<Rightarrow> dns_tracker" where
  "dns_abort t =
     (let t1 = fold (\<lambda>(sid, ps). release_pending (length ps)) (dt_pending t) t in
      (fst (dns_release_results (t1\<lparr>dt_pending := []\<rparr>) None))\<lparr>dt_watermark_ns := None\<rparr>)"

end
