(* ===== verification/DnsTcp.thy ===== *)
theory DnsTcp
  imports DnsTracker TcpStreamContract "HOL-Library.Product_Lexorder"
begin

text \<open>
  The DNS/TCP framer, modules/dns/npm_dns_tcp.cpp: per direction of a TCP stream it cuts the byte
  events into length-prefixed messages and hands each to the tracker, whose ledger it shares.
\<close>

section \<open>Directions are ordered\<close>

instantiation packet_direction :: linorder
begin

definition less_eq_packet_direction :: "packet_direction \<Rightarrow> packet_direction \<Rightarrow> bool" where
  "less_eq_packet_direction d e \<longleftrightarrow> d = AToB \<or> e = BToA"

definition less_packet_direction :: "packet_direction \<Rightarrow> packet_direction \<Rightarrow> bool" where
  "less_packet_direction d e \<longleftrightarrow> d = AToB \<and> e = BToA"

instance
proof
  fix d e f :: packet_direction
  show "(d < e) = (d \<le> e \<and> \<not> e \<le> d)"
    by (cases d; cases e) (simp_all add: less_eq_packet_direction_def less_packet_direction_def)
  show "d \<le> d" by (cases d) (simp_all add: less_eq_packet_direction_def)
  show "d \<le> e \<Longrightarrow> e \<le> f \<Longrightarrow> d \<le> f" by (auto simp: less_eq_packet_direction_def)
  show "d \<le> e \<Longrightarrow> e \<le> d \<Longrightarrow> d = e" by (auto simp: less_eq_packet_direction_def)
  show "d \<le> e \<or> e \<le> d" by (cases d; cases e) (simp_all add: less_eq_packet_direction_def)
qed

end

section \<open>State\<close>

text \<open>The prefix array with its fill count is the list of the bytes read so far.\<close>

record dns_stream =
  ds_disabled :: bool
  ds_prefix :: "u8 list"
  ds_frame_length :: nat
  ds_frame_charge :: nat
  ds_frame :: "u8 list"
  ds_clock :: "bool \<times> int option"

definition new_dns_stream :: dns_stream where
  "new_dns_stream = \<lparr>ds_disabled = False, ds_prefix = [], ds_frame_length = 0, ds_frame_charge = 0,
     ds_frame = [], ds_clock = (True, None)\<rparr>"

type_synonym direction_key = "u64 \<times> packet_direction"

type_synonym dns_framer = "(direction_key, dns_stream) omap"

definition direction_charge :: nat where "direction_charge = 256"

fun observe_time :: "int option \<Rightarrow> bool \<times> int option \<Rightarrow> bool \<times> int option" where
  "observe_time None (known, maximum) = (False, maximum)"
| "observe_time (Some t) (known, maximum) =
     (known, if maximum = None \<or> t > the maximum then Some t else maximum)"

interpretation observe_time: capture_clock observe_time
  by unfold_locales (auto split: option.split)

definition forget_frame :: "dns_stream \<Rightarrow> dns_tracker \<Rightarrow> dns_stream \<times> dns_tracker" where
  "forget_frame st t =
     (st\<lparr>ds_frame := [], ds_frame_charge := 0\<rparr>,
      if ds_frame_charge st = 0 then t else t\<lparr>dt_budget := opt_refund (ds_frame_charge st) (dt_budget t)\<rparr>)"

definition erase_direction :: "direction_key \<Rightarrow> dns_framer \<Rightarrow> dns_tracker \<Rightarrow> dns_framer \<times> dns_tracker" where
  "erase_direction key fr t =
     (case omap_find fr key of None \<Rightarrow> (fr, t)
      | Some st \<Rightarrow>
          (case forget_frame st t of (_, t1) \<Rightarrow>
             (omap_erase key fr, t1\<lparr>dt_budget := opt_refund direction_charge (dt_budget t1)\<rparr>)))"

section \<open>Bytes of one event\<close>

text \<open>The context of a readable stream, as far as one event needs it.\<close>

record dns_read =
  rd_session_id :: u64
  rd_direction :: packet_direction
  rd_captured_at_ns :: "int option"
  rd_observed_at_ns :: int

type_synonym dns_consumed = "errno \<times> dns_stream \<times> dns_tracker \<times> dns_result list option"

text \<open>
  One round of the loop. The prefix is completed first, and the frame's length charged; then the
  frame is filled, and a full frame is a message. \<open>Inl\<close> leaves the loop, \<open>Inr\<close> goes round with
  the bytes that remain.
\<close>

type_synonym dns_round = "dns_consumed + u8 list \<times> dns_stream \<times> dns_tracker \<times> dns_result list option"

definition open_frame :: "u8 list \<Rightarrow> dns_stream \<Rightarrow> dns_tracker \<Rightarrow> dns_result list option \<Rightarrow> dns_round" where
  "open_frame rest st t rows =
     (if length (ds_prefix st) < 2 then Inl (E_OK, st, t, rows)
      else
        let len = unat (push_bit 8 (ucast (ds_prefix st ! 0)) OR ucast (ds_prefix st ! 1) :: u16);
            st1 = st\<lparr>ds_frame_length := len\<rparr> in
        if len = 0 then Inl (E_OK, st1\<lparr>ds_disabled := True\<rparr>, t, rows)
        else case opt_charge len (dt_budget t) of None \<Rightarrow> Inl (E_NOSPC, st1, t, rows)
        | Some b \<Rightarrow>
            Inr (rest, st1\<lparr>ds_frame_charge := (if dt_budget t = None then 0 else len)\<rparr>,
              t\<lparr>dt_budget := b\<rparr>, rows))"

definition fill_prefix ::
  "dns_read \<Rightarrow> u8 list \<Rightarrow> dns_stream \<Rightarrow> dns_tracker \<Rightarrow> dns_result list option \<Rightarrow> dns_round" where
  "fill_prefix rd bs st t rows =
     (if length (ds_prefix st) \<ge> 2 then Inr (bs, st, t, rows)
      else
        let count = min (2 - length (ds_prefix st)) (length bs) in
        open_frame (drop count bs)
          (st\<lparr>ds_prefix := ds_prefix st @ take count bs,
              ds_clock := observe_time (rd_captured_at_ns rd) (ds_clock st)\<rparr>) t rows)"

definition close_frame ::
  "dns_read \<Rightarrow> u8 list \<Rightarrow> dns_stream \<Rightarrow> dns_tracker \<Rightarrow> dns_result list option \<Rightarrow> dns_round" where
  "close_frame rd rest st t rows =
     (if length (ds_frame st) \<noteq> ds_frame_length st then Inl (E_OK, st, t, rows)
      else
        let complete_at = clock_reading (ds_clock st) in
        case dns_on_message (rd_session_id rd) (rd_direction rd) (Bytes (ds_frame st)) True complete_at
            (case complete_at of None \<Rightarrow> rd_observed_at_ns rd | Some c \<Rightarrow> c) t rows of
          (e, t1, rows1) \<Rightarrow>
            if e \<noteq> E_OK then Inl (e, st, t1, rows1)
            else
              (case forget_frame (st\<lparr>ds_prefix := [], ds_frame_length := 0\<rparr>) t1 of
                 (st2, t2) \<Rightarrow> Inr (rest, st2\<lparr>ds_clock := (True, None)\<rparr>, t2, rows1)))"

definition fill_frame ::
  "dns_read \<Rightarrow> u8 list \<Rightarrow> dns_stream \<Rightarrow> dns_tracker \<Rightarrow> dns_result list option \<Rightarrow> dns_round" where
  "fill_frame rd bs st t rows =
     (let count = min (ds_frame_length st - length (ds_frame st)) (length bs) in
      close_frame rd (drop count bs)
        (st\<lparr>ds_frame := ds_frame st @ take count bs,
            ds_clock := (if count \<noteq> 0 then observe_time (rd_captured_at_ns rd) (ds_clock st)
                         else ds_clock st)\<rparr>) t rows)"

definition dns_frame_step ::
  "dns_read \<Rightarrow> u8 list \<Rightarrow> dns_stream \<Rightarrow> dns_tracker \<Rightarrow> dns_result list option \<Rightarrow> dns_round" where
  "dns_frame_step rd bs st t rows =
     (case fill_prefix rd bs st t rows of Inl r \<Rightarrow> Inl r
      | Inr (bs1, st1, t1, rows1) \<Rightarrow> fill_frame rd bs1 st1 t1 rows1)"

lemma close_frame_Inr:
  "close_frame rd rest st t rows = Inr (bs', st', t', rows') \<Longrightarrow>
     bs' = rest \<and> ds_prefix st' = [] \<and> ds_frame st' = [] \<and> length (ds_frame st) = ds_frame_length st"
  by (auto simp: close_frame_def forget_frame_def Let_def split: if_splits prod.splits)

lemma open_frame_Inr:
  "open_frame rest st t rows = Inr (bs', st', t', rows') \<Longrightarrow>
     bs' = rest \<and> ds_prefix st' = ds_prefix st \<and> ds_frame st' = ds_frame st \<and>
     \<not> length (ds_prefix st) < 2 \<and> 0 < ds_frame_length st'"
  by (auto simp: open_frame_def Let_def split: if_splits option.splits)

text \<open>Every round consumes a byte or resets a full prefix.\<close>

lemma dns_frame_step_decreases:
  assumes "dns_frame_step rd bs st t rows = Inr (bs', st', t', rows')" "bs \<noteq> []"
  shows "2 * length bs' + (if length (ds_prefix st') \<ge> 2 then 1 else 0) <
    2 * length bs + (if length (ds_prefix st) \<ge> 2 then 1 else (0 :: nat))"
proof -
  obtain bs1 st1 t1 rows1 where p: "fill_prefix rd bs st t rows = Inr (bs1, st1, t1, rows1)"
    and f: "fill_frame rd bs1 st1 t1 rows1 = Inr (bs', st', t', rows')"
    using assms(1) by (auto simp: dns_frame_step_def split: sum.splits)
  have "length bs1 \<le> length bs \<and> (length (ds_prefix st) < 2 \<longrightarrow> length bs1 < length bs)"
    using p assms(2) by (auto simp: fill_prefix_def Let_def split: if_splits dest!: open_frame_Inr)
  moreover have "length bs' \<le> length bs1 \<and> ds_prefix st' = []"
    using f by (auto simp: fill_frame_def Let_def dest!: close_frame_Inr)
  ultimately show ?thesis by auto
qed

function dns_consume ::
  "dns_read \<Rightarrow> u8 list \<Rightarrow> dns_stream \<Rightarrow> dns_tracker \<Rightarrow> dns_result list option \<Rightarrow> dns_consumed" where
  "dns_consume rd bs st t rows =
     (if bs = [] \<or> ds_disabled st then (E_OK, st, t, rows)
      else case dns_frame_step rd bs st t rows of Inl r \<Rightarrow> r
      | Inr (bs', st', t', rows') \<Rightarrow> dns_consume rd bs' st' t' rows')"
  by pat_completeness auto

termination
  by (relation "measure (\<lambda>(rd, bs, st, t, rows). 2 * length bs + (if length (ds_prefix st) \<ge> 2 then 1 else 0))")
    (use dns_frame_step_decreases in fastforce)+

declare dns_consume.simps [simp del]

definition consume_dns_data ::
  "dns_read \<Rightarrow> span \<Rightarrow> dns_stream \<Rightarrow> dns_tracker \<Rightarrow> dns_result list option \<Rightarrow> dns_consumed" where
  "consume_dns_data rd bytes st t rows =
     (case span_data bytes of None \<Rightarrow> (E_INVAL, st, t, rows)
      | Some bs \<Rightarrow> if bs = [] then (E_INVAL, st, t, rows) else dns_consume rd bs st t rows)"

section \<open>A readable stream\<close>

text \<open>
  The cursor is the list of the events it will show; by its contract Consume accepts a whole data
  event and acknowledges a gap or an end, and answers an empty data event with an error.
\<close>

definition dns_stream_event ::
  "tcp_stream_context \<Rightarrow> u64 \<Rightarrow> tcp_stream_event \<Rightarrow> dns_stream \<Rightarrow> dns_tracker \<Rightarrow> dns_result list option
    \<Rightarrow> dns_consumed" where
  "dns_stream_event ctx sid ev st t rows =
     (case ev_kind ev of
        EventData \<Rightarrow>
          (case (if ds_disabled st then (E_OK, st, t, rows)
                 else consume_dns_data \<lparr>rd_session_id = sid, rd_direction = cx_direction ctx,
                        rd_captured_at_ns = ev_captured_at_ns ev, rd_observed_at_ns = cx_observed_at_ns ctx\<rparr>
                        (ev_bytes ev) st t rows) of
             (e, st1, t1, rows1) \<Rightarrow>
               if e \<noteq> E_OK then (e, st1, t1, rows1)
               else if span_size (ev_bytes ev) = 0 then (E_INVAL, st1, t1, rows1)
               else (E_OK, st1, t1, rows1))
      | EventGap \<Rightarrow>
          (case forget_frame (st\<lparr>ds_disabled := True, ds_prefix := []\<rparr>) t of
             (st1, t1) \<Rightarrow>
               (case dns_on_response_path_gap sid (cx_direction ctx) (cx_observed_at_ns ctx) t1 rows of
                  (e, t2, rows2) \<Rightarrow> (e, st1, t2, rows2)))
      | EventEnd \<Rightarrow>
          (case forget_frame (st\<lparr>ds_disabled := True, ds_prefix := []\<rparr>) t of
             (st1, t1) \<Rightarrow> (E_OK, st1, t1, rows)))"

fun dns_stream_events ::
  "tcp_stream_context \<Rightarrow> u64 \<Rightarrow> tcp_stream_event list \<Rightarrow> dns_stream \<Rightarrow> dns_tracker \<Rightarrow> dns_result list option
    \<Rightarrow> dns_consumed" where
  "dns_stream_events ctx sid [] st t rows = (E_OK, st, t, rows)"
| "dns_stream_events ctx sid (ev # evs) st t rows =
     (case dns_stream_event ctx sid ev st t rows of
        (e, st1, t1, rows1) \<Rightarrow>
          if e \<noteq> E_OK then (e, st1, t1, rows1) else dns_stream_events ctx sid evs st1 t1 rows1)"

type_synonym dns_framed = "errno \<times> dns_framer \<times> dns_tracker \<times> dns_result list option"

definition dns_on_readable ::
  "tcp_stream_context \<Rightarrow> tcp_stream_event list \<Rightarrow> dns_framer \<Rightarrow> dns_tracker \<Rightarrow> dns_result list option
    \<Rightarrow> dns_framed" where
  "dns_on_readable ctx evs fr t results =
     (case (results, cx_session ctx) of
        (Some _, Some sid) \<Rightarrow>
          if sid = 0 then (E_INVAL, fr, t, results)
          else
            let key = (sid, cx_direction ctx) in
            (case (case omap_find fr key of Some st \<Rightarrow> Some (st, t)
                   | None \<Rightarrow> map_option (\<lambda>b. (new_dns_stream, t\<lparr>dt_budget := b\<rparr>))
                       (opt_charge direction_charge (dt_budget t))) of
               None \<Rightarrow> (E_NOSPC, fr, t, results)
             | Some (st, t1) \<Rightarrow>
                 (case dns_stream_events ctx sid evs
                     (if cx_origin ctx \<noteq> OriginSyn then st\<lparr>ds_disabled := True\<rparr> else st) t1 results of
                    (e, st2, t2, rows2) \<Rightarrow>
                      let fr2 = omap_put key st2 fr in
                      if e \<noteq> E_OK then (e, fr2, t2, rows2)
                      else if ds_disabled st2 \<and> cx_final_drain ctx then
                        (case erase_direction key fr2 t2 of (fr3, t3) \<Rightarrow> (E_OK, fr3, t3, rows2))
                      else (E_OK, fr2, t2, rows2)))
      | _ \<Rightarrow> (E_INVAL, fr, t, results))"

definition dns_framer_session_end ::
  "u64 \<Rightarrow> int \<Rightarrow> dns_framer \<Rightarrow> dns_tracker \<Rightarrow> dns_result list option \<Rightarrow> dns_framed" where
  "dns_framer_session_end sid observed fr t results =
     (if results = None \<or> sid = 0 then (E_INVAL, fr, t, results)
      else case dns_on_session_end sid observed t results of
        (e, t1, rows1) \<Rightarrow>
          if e \<noteq> E_OK then (e, fr, t1, rows1)
          else case erase_direction (sid, AToB) fr t1 of
            (fr2, t2) \<Rightarrow>
              (case erase_direction (sid, BToA) fr2 t2 of (fr3, t3) \<Rightarrow> (E_OK, fr3, t3, rows1)))"

definition dns_framer_abort :: "dns_framer \<Rightarrow> dns_tracker \<Rightarrow> dns_framer \<times> dns_tracker" where
  "dns_framer_abort fr t =
     ([], fold (\<lambda>(key, st) t. case forget_frame st t of
        (_, t1) \<Rightarrow> t1\<lparr>dt_budget := opt_refund direction_charge (dt_budget t1)\<rparr>) fr t)"

end
