(* ===== verification/DnsModule.thy ===== *)
theory DnsModule
  imports DnsTcp ModuleHost
begin

text \<open>
  The DNS protocol module, modules/dns/npm_dns_module.cpp, and the checks of its row encoder
  (npm_dns_result_encoder.cpp): the module owns a tracker, a TCP framer and the identities of the
  sessions it has seen; each callback runs the tracker, emits the rows it wrote and releases
  their charge.
\<close>

record dns_module =
  dq_tracker :: dns_tracker
  dq_framer :: dns_framer
  dq_identities :: identities
  dq_finished :: bool
  dq_aborted :: bool

definition new_dns_module :: "dns_config \<Rightarrow> npm_task_budget option \<Rightarrow> dns_module" where
  "new_dns_module c b = \<lparr>dq_tracker = new_dns_tracker c b, dq_framer = [], dq_identities = [],
     dq_finished = False, dq_aborted = False\<rparr>"

text \<open>
  What is not code of the repository, or is its host, comes as parameters: the size of a key, the
  UTF-8 check of Arrow, and what building and emitting the one-row batch returns.
\<close>

record dns_host =
  ho_owned :: "npm_session_key \<Rightarrow> nat"
  ho_utf8 :: "string \<Rightarrow> bool"
  ho_emit :: "npm_session_key \<Rightarrow> dns_result \<Rightarrow> errno"

section \<open>Emitting rows\<close>

definition single_row_build_charge :: nat where "single_row_build_charge = 16384"

definition encodable :: "(string \<Rightarrow> bool) \<Rightarrow> npm_session_key \<Rightarrow> dns_result \<Rightarrow> bool" where
  "encodable utf8 key r \<longleftrightarrow>
     \<not> (dr_entity_instance_id r = 0 \<or> dr_session_id r = 0 \<or>
        (sk_protocol key \<noteq> 6 \<and> sk_protocol key \<noteq> 17) \<or> dr_outcome r = [] \<or> length (dr_outcome r) > 32 \<or>
        (case dr_qname r of None \<Rightarrow> False | Some q \<Rightarrow> length q > 1024) \<or>
        (case dr_incomplete_reason r of None \<Rightarrow> False | Some i \<Rightarrow> length i > 64) \<or>
        \<not> utf8 (dr_outcome r) \<or> (case dr_qname r of None \<Rightarrow> False | Some q \<Rightarrow> \<not> utf8 q) \<or>
        (case dr_incomplete_reason r of None \<Rightarrow> False | Some i \<Rightarrow> \<not> utf8 i))"

text \<open>The build charge is released when the call returns, whatever it returns.\<close>

definition emit_dns_transaction ::
  "dns_host \<Rightarrow> npm_session_key \<Rightarrow> dns_result \<Rightarrow> npm_task_budget option \<Rightarrow> errno \<times> npm_task_budget option" where
  "emit_dns_transaction host key r b =
     (if b = None \<or> \<not> encodable (ho_utf8 host) key r then (E_INVAL, b)
      else case opt_charge single_row_build_charge b of None \<Rightarrow> (E_NOSPC, b)
      | Some b' \<Rightarrow> (ho_emit host key r, opt_refund single_row_build_charge b'))"

text \<open>The rows emitted so far go along as a log.\<close>

fun emit_loop ::
  "dns_host \<Rightarrow> identities \<Rightarrow> dns_result list \<Rightarrow> npm_task_budget option \<Rightarrow> errno \<times> npm_task_budget option \<times> dns_result list" where
  "emit_loop host ids [] b = (E_OK, b, [])"
| "emit_loop host ids (r # rs) b =
     (case omap_find ids (dr_session_id r) of None \<Rightarrow> (E_INVAL, b, [])
      | Some i \<Rightarrow>
          (case emit_dns_transaction host (id_key i) r b of (e, b1) \<Rightarrow>
             if e \<noteq> E_OK then (e, b1, [])
             else case emit_loop host ids rs b1 of (e', b2, out) \<Rightarrow> (e', b2, r # out)))"

type_synonym dns_module_call = "errno \<times> dns_module \<times> dns_result list"

definition dns_emit_rows :: "dns_host \<Rightarrow> dns_result list \<Rightarrow> dns_module \<Rightarrow> dns_module_call" where
  "dns_emit_rows host rows m =
     (case emit_loop host (dq_identities m) rows (dt_budget (dq_tracker m)) of
        (e, b, out) \<Rightarrow>
          (e, m\<lparr>dq_tracker := fst (dns_release_results ((dq_tracker m)\<lparr>dt_budget := b\<rparr>) (Some rows))\<rparr>, out))"

text \<open>What every callback does with the rows of the tracker's call.\<close>

definition deliver :: "dns_host \<Rightarrow> errno \<Rightarrow> dns_result list option \<Rightarrow> dns_module \<Rightarrow> dns_module_call" where
  "deliver host e rows m =
     (if e \<noteq> E_OK then (e, m\<lparr>dq_tracker := fst (dns_release_results (dq_tracker m) rows)\<rparr>, [])
      else dns_emit_rows host (case rows of None \<Rightarrow> [] | Some rs \<Rightarrow> rs) m)"

section \<open>Sessions\<close>

definition dns_protocol :: "u8 \<Rightarrow> bool" where
  "dns_protocol p \<longleftrightarrow> p = 6 \<or> p = 17"

definition dns_remember_session :: "dns_host \<Rightarrow> session_view \<Rightarrow> dns_module \<Rightarrow> errno \<times> dns_module" where
  "dns_remember_session host view m =
     (case remember_session dns_protocol (ho_owned host) view (dq_identities m) (dt_budget (dq_tracker m)) of
        (e, ids, b) \<Rightarrow> (e, m\<lparr>dq_identities := ids, dq_tracker := (dq_tracker m)\<lparr>dt_budget := b\<rparr>\<rparr>))"

definition dns_forget_session :: "u64 \<Rightarrow> dns_module \<Rightarrow> dns_module" where
  "dns_forget_session sid m =
     (case forget_session sid (dq_identities m) (dt_budget (dq_tracker m)) of
        (ids, b) \<Rightarrow> m\<lparr>dq_identities := ids, dq_tracker := (dq_tracker m)\<lparr>dt_budget := b\<rparr>\<rparr>)"

section \<open>Callbacks\<close>

definition closed :: "dns_module \<Rightarrow> bool" where
  "closed m \<longleftrightarrow> dq_finished m \<or> dq_aborted m"

definition dns_module_input :: "dns_host \<Rightarrow> npm_input \<Rightarrow> dns_module \<Rightarrow> dns_module_call" where
  "dns_module_input host input m =
     (case (in_session input, in_direction input) of
        (Some view, Some dir) \<Rightarrow>
          if closed m then (E_INVAL, m, [])
          else (case dns_remember_session host view m of (e, m1) \<Rightarrow>
            if e \<noteq> E_OK then (e, m1, [])
            else if in_kind input = InTcpPacket then (E_OK, m1, [])
            else if in_kind input \<noteq> InUdpDatagram \<or> (case sv_key view of None \<Rightarrow> True | Some key \<Rightarrow> sk_protocol key \<noteq> 17)
            then (E_INVAL, m1, [])
            else
              (case dns_on_datagram (sv_session_id view) dir (in_body input) (in_body_complete input)
                  (in_timestamp_ns input) (dq_tracker m1) (Some []) of
                 (e, t, rows) \<Rightarrow> deliver host e rows (m1\<lparr>dq_tracker := t\<rparr>)))
      | _ \<Rightarrow> (E_INVAL, m, []))"

text \<open>The context of a readable stream carries the session view here, not only its identifier.\<close>

definition dns_module_readable ::
  "dns_host \<Rightarrow> session_view option \<Rightarrow> tcp_stream_context \<Rightarrow> tcp_stream_event list \<Rightarrow> dns_module \<Rightarrow> dns_module_call" where
  "dns_module_readable host session ctx evs m =
     (case session of None \<Rightarrow> (E_INVAL, m, [])
      | Some view \<Rightarrow>
          if closed m then (E_INVAL, m, [])
          else (case dns_remember_session host view m of (e, m1) \<Rightarrow>
            if e \<noteq> E_OK then (e, m1, [])
            else
              (case dns_on_readable (ctx\<lparr>cx_session := Some (sv_session_id view)\<rparr>) evs (dq_framer m1)
                  (dq_tracker m1) (Some []) of
                 (e, fr, t, rows) \<Rightarrow> deliver host e rows (m1\<lparr>dq_framer := fr, dq_tracker := t\<rparr>))))"

definition dns_module_session_end :: "dns_host \<Rightarrow> session_view \<Rightarrow> int \<Rightarrow> dns_module \<Rightarrow> dns_module_call" where
  "dns_module_session_end host view observed m =
     (if closed m then (E_INVAL, m, [])
      else case dns_framer_session_end (sv_session_id view) observed (dq_framer m) (dq_tracker m) (Some []) of
        (e, fr, t, rows) \<Rightarrow>
          (case deliver host e rows (m\<lparr>dq_framer := fr, dq_tracker := t\<rparr>) of
             (e', m', out) \<Rightarrow> (e', if e' = E_OK then dns_forget_session (sv_session_id view) m' else m', out)))"

definition dns_module_next_deadline :: "dns_module \<Rightarrow> int option" where
  "dns_module_next_deadline m = (if closed m then None else dns_next_event_deadline_ns (dq_tracker m))"

definition dns_module_time :: "dns_host \<Rightarrow> int option \<Rightarrow> dns_module \<Rightarrow> dns_module_call" where
  "dns_module_time host watermark m =
     (if closed m then (E_INVAL, m, [])
      else case watermark of None \<Rightarrow> (E_OK, m, [])
      | Some w \<Rightarrow>
          (case dns_on_capture_watermark w (dq_tracker m) (Some []) of
             (e, t, rows) \<Rightarrow> deliver host e rows (m\<lparr>dq_tracker := t\<rparr>)))"

definition dns_module_finish :: "dns_module \<Rightarrow> errno \<times> dns_module" where
  "dns_module_finish m =
     (if closed m then (E_INVAL, m)
      else if dq_identities m \<noteq> [] then (E_INVAL, m)
      else (E_OK, m\<lparr>dq_finished := True\<rparr>))"

definition dns_module_abort :: "dns_module \<Rightarrow> dns_module" where
  "dns_module_abort m =
     (if dq_aborted m then m
      else
        (case dns_framer_abort (dq_framer m) (dq_tracker m) of (fr, t) \<Rightarrow>
           let t1 = dns_abort t in
           m\<lparr>dq_framer := fr, dq_identities := [], dq_aborted := True,
             dq_tracker := t1\<lparr>dt_budget := forget_all (dq_identities m) (dt_budget t1)\<rparr>\<rparr>))"

end
