(* ===== verification/DnsMessageProps.thy ===== *)
theory DnsMessageProps
  imports DnsMessage
begin

text \<open>
  What the DNS parser guarantees of the names it accepts, and that it reads back what a client
  writes: names, and whole queries.
\<close>

section \<open>Labels on the wire\<close>

definition wire_label :: "u8 list \<Rightarrow> u8 list" where
  "wire_label l = of_nat (length l) # l"

definition wire_name :: "u8 list list \<Rightarrow> u8 list" where
  "wire_name ls = concat (map wire_label ls) @ [0]"

definition label_ok :: "u8 list \<Rightarrow> bool" where
  "label_ok l \<longleftrightarrow> l \<noteq> [] \<and> length l \<le> 63"

definition fold_label :: "u8 list \<Rightarrow> u8 list" where
  "fold_label l = map fold_ascii l"

definition display_label :: "u8 list \<Rightarrow> string" where
  "display_label l = concat (map display_byte l)"

text \<open>The display form that \<open>labels\<close> more labels produce after the first \<open>n\<close>.\<close>

fun display_labels :: "nat \<Rightarrow> u8 list list \<Rightarrow> string" where
  "display_labels n [] = []"
| "display_labels n (l # ls) = (if n \<noteq> 0 then ''.'' else []) @ display_label l @ display_labels (Suc n) ls"

definition display_name :: "u8 list list \<Rightarrow> string" where
  "display_name ls = (if ls = [] then ''.'' else display_labels 0 ls)"

lemma small_no_top_bits: "b \<le> 63 \<Longrightarrow> b AND 0xC0 = 0" for b :: u8
proof (rule bit_word_eqI)
  fix n assume b: "b \<le> 63" and n: "n < LENGTH(8)"
  have "unat b \<le> 63" using b by (simp add: word_le_nat_alt)
  then have "unat (take_bit 6 b) = unat b" by (simp add: unsigned_take_bit_eq take_bit_nat_eq_self)
  then have "take_bit 6 b = b" by (simp add: word_unat_eq_iff)
  then have "bit b n \<Longrightarrow> n < 6" by (metis bit_take_bit_iff)
  moreover have "n < 6 \<Longrightarrow> \<not> bit (0xC0 :: u8) n"
    by (auto simp: less_Suc_eq numeral_eq_Suc)
  ultimately show "bit (b AND 0xC0) n = bit (0 :: u8) n" by (auto simp: bit_and_iff)
qed

lemma label_length:
  assumes "label_ok l"
  shows "of_nat (length l) AND (0xC0 :: u8) = 0" "of_nat (length l) \<le> (63 :: u8)"
    "of_nat (length l) \<noteq> (0 :: u8)" "unat (of_nat (length l) :: u8) = length l"
proof -
  have n: "0 < length l" "length l \<le> 63" using assms by (simp_all add: label_ok_def)
  then show u: "unat (of_nat (length l) :: u8) = length l" by (simp add: unat_of_nat)
  then show le: "of_nat (length l) \<le> (63 :: u8)" using n by (simp add: word_le_nat_alt)
  show "of_nat (length l) AND (0xC0 :: u8) = 0" by (rule small_no_top_bits [OF le])
  show "of_nat (length l) \<noteq> (0 :: u8)" using u n by (metis less_not_refl unat_0)
qed

lemma wire_label_fold: "wire_label (fold_label l) = of_nat (length l) # map fold_ascii l"
  by (simp add: wire_label_def fold_label_def)

section \<open>Accepted names are bounded\<close>

text \<open>A name as the parser stores it: labels in lower case, the root label, at most 255 bytes.\<close>

definition wire_name_wf :: "u8 list \<Rightarrow> bool" where
  "wire_name_wf w \<longleftrightarrow> (\<exists>ls. w = wire_name (map fold_label ls) \<and> list_all label_ok ls) \<and> length w \<le> 255"

definition name_result_ok :: "u8 list \<Rightarrow> nat \<Rightarrow> nat \<Rightarrow> bool \<Rightarrow> name_read \<Rightarrow> bool" where
  "name_result_ok body offset cursor jumped r \<longleftrightarrow>
     wire_name_wf (nr_wire r) \<and>
     (if jumped then nr_offset r = offset else cursor < nr_offset r \<and> nr_offset r \<le> length body)"

lemma read_name_loop_bounds:
  assumes "read_name_loop body offset cursor jumped expanded labels pointers wire display = r" "nr_ok r"
    "wire = concat (map wire_label (map fold_label ls))" "list_all label_ok ls"
    "expanded = length wire + 1" "expanded \<le> 255"
  shows "name_result_ok body offset cursor jumped r"
  using assms
proof (induction body offset cursor jumped expanded labels pointers wire display arbitrary: ls
    rule: read_name_loop.induct)
  case (1 body offset cursor jumped expanded labels pointers wire display)
  define len where "len = body ! cursor"
  have cur: "cursor < length body"
  proof (rule ccontr)
    assume "\<not> cursor < length body"
    with "1.prems"(1,2) show False by (auto simp: read_name_loop.simps [of body offset cursor])
  qed
  note unfold = "1.prems"(1) [unfolded read_name_loop.simps [of body offset cursor] Let_def, folded len_def]
  consider (jump) "len AND 0xC0 = 0xC0" | (stop) "len AND 0xC0 \<noteq> 0xC0" "len = 0"
    | (label) "len AND 0xC0 \<noteq> 0xC0" "len \<noteq> 0" by blast
  then show ?case
  proof cases
    case jump
    define target where "target = unat (push_bit 8 (ucast (len AND 0x3F)) OR ucast (body ! (cursor + 1)) :: u16)"
    have ok: "\<not> pointers + 1 > 255" "\<not> length body - cursor < 2" "\<not> (target \<ge> cursor \<or> target \<ge> length body)"
      using unfold "1.prems"(2) cur jump unfolding target_def [symmetric]
      by (auto simp del: not_le not_less split: if_split_asm)
    then have rest: "read_name_loop body (if jumped then offset else cursor + 2) target True expanded labels
        (pointers + 1) wire display = r"
      using unfold cur jump unfolding target_def [symmetric] by (simp split del: if_split)
    have "name_result_ok body (if jumped then offset else cursor + 2) target True r"
      unfolding target_def len_def
      by (rule "1.IH"(1) [OF refl _ refl _ _ _ refl _ rest [unfolded target_def len_def] "1.prems"(2-)])
        (use cur jump ok in \<open>auto simp: len_def target_def\<close>)
    then show ?thesis using ok(2) by (auto simp: name_result_ok_def split: if_splits)
  next
    case stop
    then have "r = \<lparr>nr_ok = True, nr_offset = (if jumped then offset else cursor + 1), nr_wire = wire @ [0],
           nr_display = (if labels = 0 then map_option (\<lambda>_. ''.'') display else display)\<rparr>"
      using unfold cur by (simp split del: if_split)
    then show ?thesis
      using "1.prems"(3-) cur by (auto simp: name_result_ok_def wire_name_wf_def wire_name_def intro!: exI [of _ ls])
  next
    case label
    define n start bytes where "n = unat len" "start = cursor + 1" "bytes = take n (drop start body)"
    have ok: "\<not> (len AND 0xC0 \<noteq> 0 \<or> len > 63)" "\<not> (length body - start < n \<or> expanded + 1 + n > 255)"
      using unfold "1.prems"(2) cur label unfolding n_start_bytes_def [symmetric]
      by (auto simp del: not_le not_less split: if_split_asm)
    then have rest: "read_name_loop body offset (start + n) jumped (expanded + 1 + n) (labels + 1) pointers
          (wire @ [len] @ map fold_ascii bytes)
          (map_option (\<lambda>d. d @ (if labels \<noteq> 0 then ''.'' else []) @ concat (map display_byte bytes)) display) = r"
      using unfold cur label unfolding n_start_bytes_def [symmetric] by (simp split del: if_split)
    have n: "0 < n" "n \<le> 63" "length bytes = n" "of_nat n = len"
      using label ok by (auto simp: n_start_bytes_def word_le_nat_alt unat_gt_0 not_less)
    have "name_result_ok body offset (start + n) jumped r"
    proof (rule "1.IH"(2) [OF refl _ _ _ _ _ _ _ _ _ rest "1.prems"(2)])
      show "wire @ [len] @ map fold_ascii bytes = concat (map wire_label (map fold_label (ls @ [bytes])))"
        using "1.prems"(3) n by (simp add: wire_label_fold)
      show "list_all label_ok (ls @ [bytes])" using "1.prems"(4) n by (auto simp: label_ok_def [of bytes])
    qed (use cur label ok "1.prems"(5) n in \<open>auto simp: len_def n_start_bytes_def\<close>)
    then show ?thesis by (auto simp: name_result_ok_def n_start_bytes_def split: if_splits)
  qed
qed

lemma read_name_bounds:
  assumes "nr_ok (read_name body offset display)"
  shows "wire_name_wf (nr_wire (read_name body offset display)) \<and>
    offset < nr_offset (read_name body offset display) \<and>
    nr_offset (read_name body offset display) \<le> length body"
  using read_name_loop_bounds [of body offset offset False 1 0 0 "[]" display "read_name body offset display" "[]"]
    assms
  by (simp add: read_name_def name_result_ok_def)

text \<open>
  C14. Names are bounded whatever the bytes say: compression loops cannot keep ReadName from
  returning (it is a total function), and a name it accepts is a sequence of labels of 1 to 63
  bytes, folded to lower case and closed by the root label, at most 255 bytes long, with the
  offset moved forward and still inside the body.
\<close>

theorem dns_name_bounded:
  assumes "nr_ok (read_name body offset display)"
  shows "wire_name_wf (nr_wire (read_name body offset display)) \<and>
    offset < nr_offset (read_name body offset display) \<and>
    nr_offset (read_name body offset display) \<le> length body"
  by (rule read_name_bounds [OF assms])

text \<open>Display names are printable ASCII.\<close>

definition shown :: "char \<Rightarrow> bool" where
  "shown c \<longleftrightarrow> 33 \<le> (of_char c :: nat) \<and> (of_char c :: nat) \<le> 126"

lemma of_char_digit: "n < 10 \<Longrightarrow> (of_char (char_of (48 + n :: nat)) :: nat) = 48 + n"
  by simp

lemma display_byte_shown: "list_all shown (display_byte b)"
proof -
  have "unat b < 2 ^ LENGTH(8)" by (rule unsigned_less)
  then have "unat b < 256" by simp
  then have "unat b div 100 < 10" "unat b div 10 mod 10 < 10" "unat b mod 10 < 10" by auto
  then have "shown (char_of (48 + unat b div 100))" "shown (char_of (48 + unat b div 10 mod 10))"
    "shown (char_of (48 + unat b mod 10))"
    by (simp_all add: shown_def)
  moreover have "shown (char_of (unat b))" if "b \<ge> 33" "b \<le> 126"
    using that by (simp add: shown_def word_le_nat_alt)
  moreover have "shown CHR 0x5C" by (simp add: shown_def)
  ultimately show ?thesis by (auto simp: display_byte_def)
qed

definition shown_read :: "name_read \<Rightarrow> bool" where
  "shown_read r \<longleftrightarrow> (\<exists>d. nr_display r = Some d \<and> list_all shown d)"

lemma shown_readI: "(b \<Longrightarrow> shown_read x) \<Longrightarrow> (\<not> b \<Longrightarrow> shown_read y) \<Longrightarrow> shown_read (if b then x else y)"
  by simp

lemma read_name_loop_display:
  assumes "list_all shown d"
  shows "shown_read (read_name_loop body offset cursor jumped expanded labels pointers wire (Some d))"
  using assms
proof (induction body offset cursor jumped expanded labels pointers wire "Some d" arbitrary: d
    rule: read_name_loop.induct)
  case (1 body offset cursor jumped expanded labels pointers wire)
  have dot: "shown (CHR ''.'')" by (simp add: shown_def)
  have grown: "list_all shown (d @ (if labels \<noteq> 0 then ''.'' else []) @ concat (map display_byte bs))" for bs
    using "1.prems" dot display_byte_shown by (auto simp: list_all_iff)
  have same: "shown_read \<lparr>nr_ok = b, nr_offset = i, nr_wire = w, nr_display = Some d\<rparr>" for b i w
    using "1.prems" by (simp add: shown_read_def)
  have root: "shown_read \<lparr>nr_ok = b, nr_offset = i, nr_wire = w,
      nr_display = if labels = 0 then map_option (\<lambda>_. ''.'') (Some d) else Some d\<rparr>" for b i w
    using "1.prems" dot by (simp add: shown_read_def)
  show ?case
    unfolding read_name_loop.simps [of body offset cursor jumped expanded labels pointers wire "Some d"]
      Let_def
    apply (intro shown_readI same root)
    subgoal by (rule "1.hyps"(1) [OF refl _ refl _ _ _ refl _ "1.prems"])
    subgoal by (simp only: option.map, rule "1.hyps"(2) [OF refl _ refl _ _ _ refl refl _ refl _ grown]) simp_all
    done
qed

section \<open>Reading back what was written\<close>

lemma read_name_loop_labels:
  assumes "list_all label_ok ls" "drop cursor body = wire_name ls @ post"
    "expanded + length (concat (map wire_label ls)) \<le> 255"
  shows "read_name_loop body offset cursor jumped expanded labels pointers wire display =
    \<lparr>nr_ok = True, nr_offset = (if jumped then offset else cursor + length (wire_name ls)),
     nr_wire = wire @ wire_name (map fold_label ls),
     nr_display = map_option (\<lambda>d. if labels = 0 \<and> ls = [] then ''.'' else d @ display_labels labels ls) display\<rparr>"
  using assms
proof (induction ls arbitrary: cursor expanded labels wire display)
  case Nil
  have cur: "cursor < length body" using Nil.prems(2) by (metis drop_eq_Nil not_le wire_name_def append_is_Nil_conv not_Cons_self2)
  have "body ! cursor = hd (drop cursor body)" using cur by (simp add: hd_drop_conv_nth)
  then have "body ! cursor = 0" using Nil.prems(2) by (simp add: wire_name_def)
  then show ?case
    using cur by (simp add: read_name_loop.simps [of body offset cursor] Let_def wire_name_def option.map_ident)
next
  case (Cons l ls)
  have l: "label_ok l" "list_all label_ok ls" using Cons.prems(1) by simp_all
  have at: "drop cursor body = of_nat (length l) # l @ wire_name ls @ post"
    using Cons.prems(2) by (simp add: wire_name_def wire_label_def)
  then have cur: "cursor < length body" by (metis drop_eq_Nil not_le list.distinct(1))
  have "body ! cursor = hd (drop cursor body)" using cur by (simp add: hd_drop_conv_nth)
  then have len: "body ! cursor = of_nat (length l)" using at by simp
  have after: "drop (cursor + 1) body = l @ wire_name ls @ post"
    using at by (metis Suc_eq_plus1 drop_Suc list.sel(3) tl_drop)
  then have "length body - (cursor + 1) = length (l @ wire_name ls @ post)" by (metis length_drop)
  then have room: "\<not> length body - (cursor + 1) < length l" "take (length l) (drop (cursor + 1) body) = l"
    using after by simp_all
  have "drop (length l) (drop (cursor + 1) body) = wire_name ls @ post" using after by simp
  then have next_at: "drop (Suc (cursor + length l)) body = wire_name ls @ post"
    by (simp add: add.commute)
  have fits: "\<not> 255 < expanded + 1 + length l" "Suc (expanded + length l) + length (concat (map wire_label ls)) \<le> 255"
    using Cons.prems(3) by (simp_all add: wire_label_def [of l])
  note IH = Cons.IH [OF l(2) next_at fits(2)]
  show ?case
    using cur len room fits(1) label_length [OF l(1)] after
    by (simp add: read_name_loop.simps [of body offset cursor] Let_def IH wire_name_def wire_label_fold
        wire_label_def [of l] display_label_def option.map_comp comp_def not_less [symmetric])
qed

lemma read_name_labels:
  assumes "list_all label_ok ls" "length (wire_name ls) \<le> 255" "drop offset body = wire_name ls @ post"
  shows "read_name body offset (Some []) =
    \<lparr>nr_ok = True, nr_offset = offset + length (wire_name ls), nr_wire = wire_name (map fold_label ls),
     nr_display = Some (display_name ls)\<rparr>"
  using read_name_loop_labels [of ls offset body post 1 offset False 0 0 "[]" "Some []"] assms
  by (simp add: read_name_def display_name_def wire_name_def)

lemma nibble: "unat (w AND 0x0F) < 16" for w :: u16
proof -
  have "(0x0F :: u16) = mask 4" by (simp add: mask_eq_exp_minus_1)
  then have "w AND 0x0F = take_bit 4 w" by (simp only: take_bit_eq_mask)
  then have "unat (w AND 0x0F) = take_bit 4 (unat w)" by (simp only: unsigned_take_bit_eq)
  then show ?thesis using take_bit_nat_less_exp [of 4 "unat w"] by simp
qed

lemma ucast_nibble: "unat x < 16 \<Longrightarrow> ucast x = (0 :: u8) \<longleftrightarrow> x = 0" for x :: u16
  by (simp add: word_unat_eq_iff unsigned_ucast_eq take_bit_nat_eq_self)

lemma read16_write16:
  assumes "drop offset body = write16 w @ post"
  shows "read16 body offset = Some (w, offset + 2)"
proof -
  have len: "length body - offset = 2 + length post" using assms by (metis length_drop length_append length_write16)
  then have "\<not> (offset > length body \<or> length body - offset < 2)" by linarith
  moreover have "body ! offset = (drop offset body) ! 0" "body ! (offset + 1) = (drop offset body) ! 1"
    using len by (simp_all add: nth_drop)
  ultimately show ?thesis using assms word_halves [of w] by (simp add: read16_def write16_def)
qed

text \<open>A message with one question and no records, as a client or a server writes it.\<close>

definition dns_question_bytes :: "u16 \<Rightarrow> u16 \<Rightarrow> u8 list list \<Rightarrow> u16 \<Rightarrow> u16 \<Rightarrow> u8 list" where
  "dns_question_bytes dns_id flags ls qtype qclass =
     concat (map write16 [dns_id, flags, 1, 0, 0, 0]) @ wire_name ls @ write16 qtype @ write16 qclass"

lemma parse_question:
  assumes "list_all label_ok ls" "length (wire_name ls) \<le> 255"
  shows "parse_dns_message (Bytes (dns_question_bytes dns_id flags ls qtype qclass)) True =
    (if drop_bit 11 flags AND 0x0F \<noteq> 0 \<or> qtype = 251 \<or> qtype = 252 then DnsUnsupported else DnsComplete,
     \<lparr>dp_message = \<lparr>dm_dns_id = dns_id, dm_opcode = ucast (drop_bit 11 flags AND 0x0F),
        dm_is_response = (flags AND 0x8000 \<noteq> 0), dm_truncated = (flags AND 0x0200 \<noteq> 0),
        dm_response_rcode = flags AND 0x000F, dm_wire_qname = Some (wire_name (map fold_label ls)),
        dm_qtype = Some qtype, dm_qclass = Some qclass\<rparr>,
      dp_key_available = True, dp_qname_display = display_name ls\<rparr>)"
proof -
  let ?body = "dns_question_bytes dns_id flags ls qtype qclass"
  have len: "length ?body = 16 + length (wire_name ls)"
    by (simp add: dns_question_bytes_def)
  have drops: "drop 0 ?body = write16 dns_id @ drop 2 ?body" "drop 2 ?body = write16 flags @ drop 4 ?body"
    "drop 4 ?body = write16 1 @ drop 6 ?body" "drop 6 ?body = write16 0 @ drop 8 ?body"
    "drop 8 ?body = write16 0 @ drop 10 ?body" "drop 10 ?body = write16 0 @ drop 12 ?body"
    "drop 12 ?body = wire_name ls @ write16 qtype @ write16 qclass"
    by (simp_all add: dns_question_bytes_def write16_def numeral_eq_Suc)
  have words: "header_word ?body 0 = dns_id" "header_word ?body 2 = flags" "header_word ?body 4 = 1"
    "header_word ?body 6 = 0" "header_word ?body 8 = 0" "header_word ?body 10 = 0"
    using drops(1-6) [THEN read16_write16] by (simp_all add: header_word_def)
  have name: "read_name ?body 12 (Some []) =
    \<lparr>nr_ok = True, nr_offset = 12 + length (wire_name ls), nr_wire = wire_name (map fold_label ls),
     nr_display = Some (display_name ls)\<rparr>"
    by (rule read_name_labels [OF assms drops(7)])
  have q: "drop (12 + length (wire_name ls)) ?body = write16 qtype @ write16 qclass"
    "drop (12 + length (wire_name ls) + 2) ?body = write16 qclass @ []"
    by (simp_all add: dns_question_bytes_def)
  have "ucast x = (0 :: u8) \<longleftrightarrow> x = 0" if "x = drop_bit 11 flags AND 0x0F" for x :: u16
    by (rule ucast_nibble) (use that nibble in simp)
  then show ?thesis
    using len assms(2) words name q [THEN read16_write16]
    by (simp add: parse_dns_message_def parse_dns_header_def blank_parsed_def finish_dns_message_def Let_def)
qed

text \<open>
  C15. A question round-trips: the parser gives back the identifier, the flag bits, the name
  folded to lower case (and in display form as it was written), type and class, for every list
  of labels that fits a name; opcodes other than QUERY and zone transfers are recognised as
  unsupported and everything else is complete.
\<close>

theorem dns_question_roundtrip:
  assumes "list_all label_ok ls" "length (wire_name ls) \<le> 255"
  shows "parse_dns_message (Bytes (dns_question_bytes dns_id flags ls qtype qclass)) True =
    (if drop_bit 11 flags AND 0x0F \<noteq> 0 \<or> qtype = 251 \<or> qtype = 252 then DnsUnsupported else DnsComplete,
     \<lparr>dp_message = \<lparr>dm_dns_id = dns_id, dm_opcode = ucast (drop_bit 11 flags AND 0x0F),
        dm_is_response = (flags AND 0x8000 \<noteq> 0), dm_truncated = (flags AND 0x0200 \<noteq> 0),
        dm_response_rcode = flags AND 0x000F, dm_wire_qname = Some (wire_name (map fold_label ls)),
        dm_qtype = Some qtype, dm_qclass = Some qclass\<rparr>,
      dp_key_available = True, dp_qname_display = display_name ls\<rparr>)"
  by (rule parse_question [OF assms])

lemma finish_dns_keeps:
  assumes "finish_dns_message body offset parsed = (status, p)"
  shows "dp_qname_display p = dp_qname_display parsed \<and> dp_key_available p = dp_key_available parsed \<and>
    dm_wire_qname (dp_message p) = dm_wire_qname (dp_message parsed) \<and>
    dm_qtype (dp_message p) = dm_qtype (dp_message parsed) \<and>
    dm_qclass (dp_message p) = dm_qclass (dp_message parsed) \<and> status \<noteq> DnsCaptureTruncated"
  using assms by (auto simp: finish_dns_message_def Let_def split: sum.splits if_splits)

lemma parse_dns_sound:
  assumes "parse_dns_message span body_complete = (status, parsed)"
  shows "list_all shown (dp_qname_display parsed) \<and>
    (dp_key_available parsed \<longrightarrow>
       (\<exists>w. dm_wire_qname (dp_message parsed) = Some w \<and> wire_name_wf w) \<and>
       dm_qtype (dp_message parsed) \<noteq> None \<and> dm_qclass (dp_message parsed) \<noteq> None) \<and>
    (status = DnsComplete \<or> status = DnsUnsupported \<longrightarrow> body_complete \<and> dp_key_available parsed) \<and>
    (status = DnsCaptureTruncated \<longrightarrow> \<not> body_complete \<and> dp_key_available parsed)"
proof -
  define name where "name = read_name (case span_data span of None \<Rightarrow> [] | Some body \<Rightarrow> body) 12 (Some [])"
  obtain d where d: "nr_display name = Some d" "list_all shown d"
    using read_name_loop_display [of "[]" _ 12 12 False 1 0 0 "[]"] by (auto simp: read_name_def name_def shown_read_def)
  have wf: "nr_ok name \<Longrightarrow> wire_name_wf (nr_wire name)"
    using read_name_bounds [of _ 12 "Some []"] unfolding name_def by blast
  show ?thesis
    using assms d wf
    by (auto simp: parse_dns_message_def parse_dns_header_def blank_parsed_def name_def Let_def
        split: option.splits if_splits dest!: finish_dns_keeps)
qed

text \<open>
  C16. What the parser promises of any body: the display name is printable ASCII; when it says the
  question key is available then name, type and class are there and the name is well formed;
  only a complete body is reported complete or unsupported, and then the key is available.
\<close>

theorem dns_parse_sound:
  assumes "parse_dns_message span body_complete = (status, parsed)"
  shows "list_all shown (dp_qname_display parsed) \<and>
    (dp_key_available parsed \<longrightarrow>
       (\<exists>w. dm_wire_qname (dp_message parsed) = Some w \<and> wire_name_wf w) \<and>
       dm_qtype (dp_message parsed) \<noteq> None \<and> dm_qclass (dp_message parsed) \<noteq> None) \<and>
    (status = DnsComplete \<or> status = DnsUnsupported \<longrightarrow> body_complete \<and> dp_key_available parsed) \<and>
    (status = DnsCaptureTruncated \<longrightarrow> \<not> body_complete \<and> dp_key_available parsed)"
  by (rule parse_dns_sound [OF assms])

section \<open>Witnesses\<close>

theorem dns_name_bounded_witness: "wire_name_wf (nr_wire (read_name [1, 87, 0] 0 None))"
  by (rule dns_name_bounded [THEN conjunct1]) (simp add: read_name_def read_name_loop.simps Let_def)

theorem dns_question_roundtrip_witness:
  "fst (parse_dns_message (Bytes (dns_question_bytes 7 0 [[87], [99, 110]] 1 1)) True) = DnsComplete"
  by (subst dns_question_roundtrip)
    (simp_all add: label_ok_def wire_name_def wire_label_def)

theorem dns_parse_sound_witness:
  "list_all shown (dp_qname_display (snd (parse_dns_message
     (Bytes (dns_question_bytes 7 0x0100 [[87], [99, 110]] 1 1)) True)))"
  by (rule dns_parse_sound [OF prod.collapse [symmetric], THEN conjunct1])

end
