(* ===== verification/DnsTrackerProps.thy ===== *)
theory DnsTrackerProps
  imports DnsTracker DnsMessageProps "HOL-Library.Sublist"
begin

text \<open>
  The invariant of the DNS tracker: which queries can be pending together, what the ledger
  records, which identifiers are in use, and what the columns of a row say. Every operation
  keeps it.
\<close>

section \<open>The invariant\<close>

definition list_ok :: "dns_config \<Rightarrow> u64 \<Rightarrow> dns_transaction list \<Rightarrow> bool" where
  "list_ok c sid ps \<longleftrightarrow> length ps \<le> max 1 (dc_max_pending_per_session c) \<and> distinct (map tx_key ps) \<and>
     (\<forall>p \<in> set ps. qk_session_id (tx_key p) = sid)"

definition pending_shape :: "dns_config \<Rightarrow> (u64, dns_transaction list) omap \<Rightarrow> bool" where
  "pending_shape c m \<longleftrightarrow> omap_wf m \<and> (\<forall>(sid, ps) \<in> set m. ps \<noteq> [] \<and> list_ok c sid ps)"

definition tx_ids :: "dns_transaction list \<Rightarrow> u64 multiset" where
  "tx_ids ps = mset (map tx_entity_instance_id ps)"

definition dns_row_ids :: "dns_result list \<Rightarrow> u64 multiset" where
  "dns_row_ids rows = mset (map dr_entity_instance_id rows)"

text \<open>What the columns of a row say together.\<close>

definition dns_row_ok :: "dns_result \<Rightarrow> bool" where
  "dns_row_ok r \<longleftrightarrow>
     (if dr_outcome r = ''matched'' \<or> dr_outcome r = ''truncated_response'' then
        dr_incomplete_reason r = (if dr_outcome r = ''matched'' then None else Some ''dns_tc_set'') \<and>
        dr_response_tc r = Some (dr_outcome r = ''truncated_response'') \<and>
        (\<exists>d. dr_query_direction r = Some d \<and> dr_response_direction r = Some (opposite d)) \<and>
        dr_latency_ns r = (case dr_response_at_ns r of None \<Rightarrow> None
          | Some t1 \<Rightarrow> (case dr_query_at_ns r of None \<Rightarrow> None | Some t0 \<Rightarrow> dns_elapsed t0 t1))
      else if dr_outcome r = ''query_only'' then
        dr_incomplete_reason r \<noteq> None \<and> dr_query_direction r \<noteq> None \<and> dr_response_direction r = None \<and>
        dr_response_at_ns r = None \<and> dr_latency_ns r = None
      else if dr_outcome r = ''response_only'' then
        dr_incomplete_reason r = Some ''no_pending_query'' \<and> dr_query_direction r = None \<and>
        dr_response_direction r \<noteq> None \<and> dr_latency_ns r = None
      else dr_outcome r = ''unsupported_message'' \<and> dr_latency_ns r = None)"

text \<open>
  \<open>base\<close> bytes of the ledger belong to others, \<open>hist\<close> are the ids of rows already released. A
  refused identifier can leave a row charged that was never written, so the row charge is a
  bound, not an equality.
\<close>

definition dns_inv :: "nat \<Rightarrow> u64 multiset \<Rightarrow> dns_tracker \<Rightarrow> dns_result list \<Rightarrow> bool" where
  "dns_inv base hist t rows \<longleftrightarrow> pending_shape (dt_config t) (dt_pending t) \<and>
     backed (dt_budget t)
       (dns_pending_charge * omap_sum length (dt_pending t) + dt_result_charge_bytes t) base \<and>
     (dt_budget t \<noteq> None \<longrightarrow> dns_result_charge * length rows \<le> dt_result_charge_bytes t) \<and>
     ids_ok (dt_next_id t) (hist + dns_row_ids rows + omap_sum tx_ids (dt_pending t)) \<and>
     list_all dns_row_ok rows"

lemma dns_inv_new: "backed tb 0 base \<Longrightarrow> dns_inv base {#} (new_dns_tracker c tb) []"
  by (simp add: dns_inv_def new_dns_tracker_def pending_shape_def dns_row_ids_def)

lemma dns_row_ids_append [simp]:
  "dns_row_ids (rows @ [r]) = add_mset (dr_entity_instance_id r) (dns_row_ids rows)"
  by (simp add: dns_row_ids_def)

section \<open>The pending list\<close>

lemma same_question_eq: "same_question a b \<longleftrightarrow> a = b"
  by (auto simp: same_question_def)

lemma find_question_Some:
  assumes "find_question key ps = Some p"
  shows "p \<in> set ps" "tx_key p = key"
    "mset ps = add_mset p (mset (erase_question key ps))"
  using assms unfolding find_question_def same_question_eq
  by (induction ps) (auto simp: same_question_eq find_Some_iff split: if_splits)

lemma find_question_None: "find_question key ps = None \<longleftrightarrow> key \<notin> tx_key ` set ps"
  by (auto simp: find_question_def find_None_iff same_question_eq)

lemma erase_question_sublist:
  "set (erase_question key ps) \<subseteq> set ps" "length (erase_question key ps) \<le> length ps"
  "distinct (map tx_key ps) \<Longrightarrow> distinct (map tx_key (erase_question key ps))"
  by (induction ps) auto

lemma retry_question_same:
  "map tx_key (retry_question key ps) = map tx_key ps"
  "map tx_entity_instance_id (retry_question key ps) = map tx_entity_instance_id ps"
  "length (retry_question key ps) = length ps" "retry_question key ps = [] \<longleftrightarrow> ps = []"
  by (induction ps) auto

lemma list_ok_cong:
  "list_ok c sid ps \<Longrightarrow> map tx_key ps' = map tx_key ps \<Longrightarrow> list_ok c sid ps'"
proof -
  assume ok: "list_ok c sid ps" and keys: "map tx_key ps' = map tx_key ps"
  have "length ps' = length ps" "tx_key ` set ps' = tx_key ` set ps"
    using arg_cong [OF keys, of length] arg_cong [OF keys, of set] by simp_all
  then show ?thesis using ok keys unfolding list_ok_def by (metis (no_types) imageE image_eqI)
qed

lemma pending_shape_find: "pending_shape c (dt_pending t) \<Longrightarrow> list_ok c sid (session_pending sid t)"
  by (auto simp: session_pending_def pending_shape_def list_ok_def dest: omap_find_in split: option.split)

lemma store_pending_simps [simp]:
  "dt_config (store_pending sid ps t) = dt_config t" "dt_budget (store_pending sid ps t) = dt_budget t"
  "dt_next_id (store_pending sid ps t) = dt_next_id t"
  "dt_watermark_ns (store_pending sid ps t) = dt_watermark_ns t"
  "dt_result_charge_bytes (store_pending sid ps t) = dt_result_charge_bytes t"
  by (simp_all add: store_pending_def)

lemma store_pending_shape:
  "pending_shape c (dt_pending t) \<Longrightarrow> list_ok c sid ps \<Longrightarrow> pending_shape c (dt_pending (store_pending sid ps t))"
  using omap_put_subset [of sid ps "dt_pending t"] omap_erase_subset [of sid "dt_pending t"]
  by (fastforce simp: store_pending_def pending_shape_def om.wf_put om.wf_erase)

lemma store_pending_sum:
  fixes f :: "dns_transaction list \<Rightarrow> 'a::cancel_comm_monoid_add"
  assumes "omap_wf (dt_pending t)" "f [] = 0"
  shows "omap_sum f (dt_pending (store_pending sid ps t)) + f (session_pending sid t) =
    omap_sum f (dt_pending t) + f ps"
proof -
  have "omap_sum f (omap_erase sid (dt_pending t)) + f (session_pending sid t) = omap_sum f (dt_pending t)"
    using omap_sum_erase [of "dt_pending t" sid _ f] omap_erase_absent [of "dt_pending t" sid] assms(2)
    by (auto simp: session_pending_def split: option.split)
  then show ?thesis
    using omap_sum_put_erase [OF assms(1), of f sid ps] assms(2)
    by (auto simp: store_pending_def ac_simps)
qed

section \<open>The ledger\<close>

lemma charge_resultD:
  assumes "charge_result t = Some t1"
  shows "dt_config t1 = dt_config t" "dt_pending t1 = dt_pending t" "dt_next_id t1 = dt_next_id t"
    "dt_watermark_ns t1 = dt_watermark_ns t" "(dt_budget t1 = None) = (dt_budget t = None)"
    "backed (dt_budget t) (c + dt_result_charge_bytes t) base \<Longrightarrow>
       backed (dt_budget t1) (c + dt_result_charge_bytes t1) base"
    "dt_budget t \<noteq> None \<Longrightarrow> dt_result_charge_bytes t1 = dt_result_charge_bytes t + dns_result_charge"
  using assms backed_charge [of "dt_budget t" "c + dt_result_charge_bytes t" base dns_result_charge "dt_budget t1"]
  by (auto simp: charge_result_def opt_charge_def add.assoc split: option.splits)

lemma release_pending_simps [simp]:
  "dt_config (release_pending n t) = dt_config t" "dt_pending (release_pending n t) = dt_pending t"
  "dt_next_id (release_pending n t) = dt_next_id t"
  "dt_watermark_ns (release_pending n t) = dt_watermark_ns t"
  "dt_result_charge_bytes (release_pending n t) = dt_result_charge_bytes t"
  "(dt_budget (release_pending n t) = None) = (dt_budget t = None)"
  by (simp_all add: release_pending_def opt_refund_def)

lemma release_pending_backed:
  "backed (dt_budget t) (c + n * dns_pending_charge) base \<Longrightarrow> backed (dt_budget (release_pending n t)) c base"
  by (auto simp: release_pending_def intro: backed_refund)

lemma session_pending_cong:
  "dt_pending t' = dt_pending t \<Longrightarrow> session_pending sid t' = session_pending sid t"
  by (simp add: session_pending_def)

text \<open>
  A pending query is taken out and its row written: the step of every branch that ends a query.
\<close>

definition dns_mid :: "nat \<Rightarrow> u64 multiset \<Rightarrow> dns_tracker \<Rightarrow> dns_result list \<Rightarrow> bool" where
  "dns_mid base hist t rows \<longleftrightarrow> pending_shape (dt_config t) (dt_pending t) \<and>
     backed (dt_budget t)
       (dns_pending_charge * omap_sum length (dt_pending t) + dt_result_charge_bytes t) base \<and>
     (dt_budget t \<noteq> None \<longrightarrow> dns_result_charge * (length rows + 1) \<le> dt_result_charge_bytes t) \<and>
     ids_ok (dt_next_id t) (hist + dns_row_ids rows + omap_sum tx_ids (dt_pending t)) \<and>
     list_all dns_row_ok rows"

lemma dns_inv_charge: "dns_inv base hist t rows \<Longrightarrow> charge_result t = Some t1 \<Longrightarrow> dns_mid base hist t1 rows"
  using charge_resultD [of t t1] by (auto simp: dns_inv_def dns_mid_def)

lemma dns_mid_inv: "dns_mid base hist t rows \<Longrightarrow> dns_inv base hist t rows"
  by (auto simp: dns_inv_def dns_mid_def)

lemma take_question_inv:
  assumes mid: "dns_mid base hist t rows" and found: "find_question key (session_pending sid t) = Some p"
    and row: "dns_row_ok row" "dr_entity_instance_id row = tx_entity_instance_id p"
  shows "dns_inv base hist (take_question sid key t) (rows @ [row])"
proof -
  let ?ps = "session_pending sid t" and ?t = "store_pending sid (erase_question key (session_pending sid t)) t"
  note f = find_question_Some [OF found]
  have wf: "omap_wf (dt_pending t)" using mid by (simp add: dns_mid_def pending_shape_def)
  have "length ?ps = Suc (length (erase_question key ?ps))" using f(3) by (metis size_mset size_add_mset)
  then have len: "omap_sum length (dt_pending t) = omap_sum length (dt_pending ?t) + 1"
    using store_pending_sum [OF wf, of length sid "erase_question key ?ps"] by simp
  have "tx_ids ?ps = add_mset (tx_entity_instance_id p) (tx_ids (erase_question key ?ps))"
    using f(3) by (simp add: tx_ids_def)
  then have ids: "omap_sum tx_ids (dt_pending t) = add_mset (tx_entity_instance_id p) (omap_sum tx_ids (dt_pending ?t))"
    using store_pending_sum [OF wf, of tx_ids sid "erase_question key ?ps"] by (simp add: tx_ids_def)
  have "list_ok (dt_config t) sid (erase_question key ?ps)"
    using pending_shape_find [of "dt_config t" t sid] mid erase_question_sublist [where key = key and ps = ?ps]
    by (auto simp: list_ok_def dns_mid_def)
  then have shape: "pending_shape (dt_config t) (dt_pending ?t)"
    using mid by (intro store_pending_shape) (simp_all add: dns_mid_def)
  have "backed (dt_budget ?t) (dns_pending_charge * omap_sum length (dt_pending ?t) + dt_result_charge_bytes t
      + 1 * dns_pending_charge) base"
    using mid by (simp add: dns_mid_def len algebra_simps)
  from release_pending_backed [OF this] shape mid ids row show ?thesis
    by (auto simp: take_question_def dns_inv_def dns_mid_def ids)
qed

text \<open>A row for something that was not pending, under a fresh identifier.\<close>

lemma dns_next_idD:
  assumes "dns_next_id t = (i, t1)"
  shows "dt_config t1 = dt_config t" "dt_pending t1 = dt_pending t" "dt_budget t1 = dt_budget t"
    "dt_watermark_ns t1 = dt_watermark_ns t" "dt_result_charge_bytes t1 = dt_result_charge_bytes t"
    "i = 0 \<Longrightarrow> dt_next_id t1 = dt_next_id t"
    "i \<noteq> 0 \<Longrightarrow> ids_ok (dt_next_id t) M \<Longrightarrow> ids_ok (dt_next_id t1) (add_mset i M)"
  using assms dns_id.draw_ok(1) [of "dt_next_id t" i] dns_id.draw_ok(2) [of "dt_next_id t" i _ M]
  by (auto simp: dns_next_id_def simp del: dns_id.simps split: prod.splits)

lemma fresh_row_inv:
  assumes mid: "dns_mid base hist t rows" and draw: "dns_next_id t = (i, t1)"
  shows "i = 0 \<Longrightarrow> dns_inv base hist t1 rows"
    "i \<noteq> 0 \<Longrightarrow> dns_row_ok row \<Longrightarrow> dr_entity_instance_id row = i \<Longrightarrow> dns_inv base hist t1 (rows @ [row])"
proof -
  note d = dns_next_idD [OF draw]
  show "i = 0 \<Longrightarrow> dns_inv base hist t1 rows"
    using mid d(1-6) by (auto simp: dns_inv_def dns_mid_def)
  show "i \<noteq> 0 \<Longrightarrow> dns_row_ok row \<Longrightarrow> dr_entity_instance_id row = i \<Longrightarrow> dns_inv base hist t1 (rows @ [row])"
    using mid d(1-5) d(7) [of "hist + dns_row_ids rows + omap_sum tx_ids (dt_pending t)"]
    by (auto simp: dns_inv_def dns_mid_def ac_simps)
qed

section \<open>Messages\<close>

text \<open>What every handler guarantees.\<close>

definition dns_kept :: "nat \<Rightarrow> u64 multiset \<Rightarrow> dns_config \<Rightarrow> dns_outcome \<Rightarrow> bool" where
  "dns_kept base hist c r \<longleftrightarrow> (case r of (e, t, rows) \<Rightarrow>
     dns_inv base hist t rows \<and> e \<noteq> E_UNCAUGHT \<and> dt_config t = c)"

lemma dns_keptI: "dns_inv base hist t rows \<Longrightarrow> e \<noteq> E_UNCAUGHT \<Longrightarrow> dt_config t = c \<Longrightarrow> dns_kept base hist c (e, t, rows)"
  by (simp add: dns_kept_def)

lemma take_question_config [simp]: "dt_config (take_question sid key t) = dt_config t"
  by (simp add: take_question_def)

lemma query_row_ok: "dns_row_ok (query_result p observed reason)"
  "dr_entity_instance_id (query_result p observed reason) = tx_entity_instance_id p"
  by (simp_all add: query_result_def dns_row_ok_def default_dns_result_def)

lemma dns_damaged_kept:
  assumes inv: "dns_inv base hist t rows"
  shows "dns_kept base hist (dt_config t) (dns_damaged sid key status resp observed t rows)"
proof -
  have "dns_kept base hist (dt_config t) (E_OK, take_question sid key t1, rows @ [query_result p observed reason])"
    if "charge_result t = Some t1" "find_question key (session_pending sid t) = Some p" for t1 p reason
  proof -
    have "session_pending sid t1 = session_pending sid t"
      using charge_resultD(2) [OF that(1)] by (rule session_pending_cong)
    with take_question_inv [OF dns_inv_charge [OF inv that(1)], of key sid p] that query_row_ok
    show ?thesis using charge_resultD(1) [OF that(1)] by (auto intro!: dns_keptI)
  qed
  with inv show ?thesis
    by (auto simp: dns_damaged_def intro: dns_keptI split: option.split)
qed

lemma dns_unsupported_kept:
  assumes inv: "dns_inv base hist t rows"
  shows "dns_kept base hist (dt_config t) (dns_unsupported sid dir parsed complete_at observed t rows)"
proof (cases "charge_result t")
  case None
  with inv show ?thesis by (simp add: dns_unsupported_def dns_keptI)
next
  case (Some t1)
  obtain i t2 where draw: "dns_next_id t1 = (i, t2)" by fastforce
  note fresh = fresh_row_inv [OF dns_inv_charge [OF inv Some] draw]
  show ?thesis
    using Some draw fresh(1) charge_resultD(1) [OF Some] dns_next_idD(1) [OF draw]
    by (auto simp: dns_unsupported_def Let_def intro!: dns_keptI fresh(2))
      (simp_all add: dns_row_ok_def default_dns_result_def)
qed

lemma dns_query_kept:
  assumes inv: "dns_inv base hist t rows" and key: "qk_session_id key = sid"
  shows "dns_kept base hist (dt_config t) (dns_query sid key display complete_at t rows)"
proof -
  let ?ps = "session_pending sid t"
  have shape: "pending_shape (dt_config t) (dt_pending t)" using inv by (simp add: dns_inv_def)
  then have wf: "omap_wf (dt_pending t)" by (simp add: pending_shape_def)
  note ok = pending_shape_find [OF shape, of sid]
  show ?thesis
  proof (cases "find_question key ?ps")
    case (Some p)
    have retry: "list_ok (dt_config t) sid (retry_question key ?ps)"
      by (rule list_ok_cong [OF ok retry_question_same(1)])
    have "omap_sum length (dt_pending (store_pending sid (retry_question key ?ps) t)) = omap_sum length (dt_pending t)"
      using store_pending_sum [OF wf, of length sid "retry_question key ?ps"] by (simp add: retry_question_same)
    moreover have "tx_ids (retry_question key ?ps) = tx_ids ?ps"
      by (simp add: tx_ids_def retry_question_same del: mset_map)
    then have "omap_sum tx_ids (dt_pending (store_pending sid (retry_question key ?ps) t)) = omap_sum tx_ids (dt_pending t)"
      using store_pending_sum [OF wf, of tx_ids sid "retry_question key ?ps"] by (simp add: tx_ids_def)
    ultimately have "dns_inv base hist (store_pending sid (retry_question key ?ps) t) rows"
      using inv store_pending_shape [OF shape retry] by (simp add: dns_inv_def)
    with inv Some show ?thesis by (auto simp: dns_query_def Let_def intro: dns_keptI)
  next
    case none: None
    show ?thesis
    proof (cases "omap_find (dt_pending t) sid \<noteq> None \<and> length ?ps \<ge> dc_max_pending_per_session (dt_config t)
        \<or> charge_pending t = None")
      case True
      with inv none show ?thesis by (auto simp: dns_query_def Let_def intro: dns_keptI split: option.split)
    next
      case False
      then obtain t1 where t1: "charge_pending t = Some t1" by auto
      obtain i t2 where draw: "dns_next_id t1 = (i, t2)" by fastforce
      note d = dns_next_idD [OF draw]
      have c: "dt_config t1 = dt_config t" "dt_pending t1 = dt_pending t" "dt_next_id t1 = dt_next_id t"
        "dt_result_charge_bytes t1 = dt_result_charge_bytes t" "(dt_budget t1 = None) = (dt_budget t = None)"
        using t1 by (auto simp: charge_pending_def opt_charge_def split: option.splits)
      have b: "backed (dt_budget t2) (dns_pending_charge * omap_sum length (dt_pending t) +
          dt_result_charge_bytes t + 1 * dns_pending_charge) base"
        using inv t1 d(3) by (auto simp: dns_inv_def charge_pending_def intro: backed_charge)
      show ?thesis
      proof (cases "i = 0")
        case True
        then have "dns_inv base hist (release_pending 1 t2) rows"
          using inv c d release_pending_backed [OF b] by (auto simp: dns_inv_def)
        with False none t1 draw True c d show ?thesis
          by (auto simp: dns_query_def Let_def intro!: dns_keptI)
      next
        case fresh: False
        define p where "p = \<lparr>tx_entity_instance_id = i, tx_key = key, tx_query_at_ns = complete_at,
          tx_deadline_ns = map_option (\<lambda>c. dns_deadline c (dc_response_timeout_ns (dt_config t2))) complete_at,
          tx_query_retries = 0, tx_qname_display = display\<rparr>"
        have sp: "session_pending sid t2 = ?ps" using c d by (intro session_pending_cong) simp
        have "length ?ps < max 1 (dc_max_pending_per_session (dt_config t))"
          using False by (auto simp: session_pending_def split: option.splits)
        then have new: "list_ok (dt_config t) sid (?ps @ [p])"
          using ok none key by (auto simp: list_ok_def find_question_None p_def)
        have wf2: "omap_wf (dt_pending t2)" using wf c d by simp
        have "omap_sum length (dt_pending (store_pending sid (?ps @ [p]) t2)) = omap_sum length (dt_pending t) + 1"
          using store_pending_sum [OF wf2, of length sid "?ps @ [p]"] c d by (simp add: sp)
        moreover have "omap_sum tx_ids (dt_pending (store_pending sid (?ps @ [p]) t2)) =
            add_mset i (omap_sum tx_ids (dt_pending t))"
          using store_pending_sum [OF wf2, of tx_ids sid "?ps @ [p]"] c d by (simp add: sp tx_ids_def p_def)
        moreover have "pending_shape (dt_config t) (dt_pending (store_pending sid (?ps @ [p]) t2))"
          using store_pending_shape [of "dt_config t" t2 sid "?ps @ [p]"] shape new c d by simp
        ultimately have "dns_inv base hist (store_pending sid (?ps @ [p]) t2) rows"
          using inv c d b fresh d(7) [of "hist + dns_row_ids rows + omap_sum tx_ids (dt_pending t)"]
          by (auto simp: dns_inv_def ac_simps)
        with False none t1 draw fresh c d show ?thesis
          by (auto simp: dns_query_def Let_def p_def intro!: dns_keptI)
      qed
    qed
  qed
qed

lemma matched_row_ok:
  "tx_key p = key \<Longrightarrow> qk_query_direction key = opposite dir \<Longrightarrow>
     dns_row_ok (matched_response p (dm_truncated (dp_message parsed)) complete_at
       (response_base sid dir parsed complete_at observed))"
  by (auto simp: dns_row_ok_def matched_response_def response_base_def default_dns_result_def Let_def
      split: option.split)

lemma matched_response_id:
  "dr_entity_instance_id (matched_response p truncated complete_at r) = tx_entity_instance_id p"
  by (simp add: matched_response_def)

lemma dns_response_kept:
  assumes inv: "dns_inv base hist t rows" and key: "qk_query_direction key = opposite dir"
  shows "dns_kept base hist (dt_config t) (dns_response sid dir key parsed complete_at observed t rows)"
proof (cases "charge_result t")
  case None
  with inv show ?thesis by (simp add: dns_response_def dns_keptI)
next
  case (Some t1)
  note mid = dns_inv_charge [OF inv Some] and c = charge_resultD [OF Some]
  have sp: "session_pending sid t1 = session_pending sid t" using c(2) by (rule session_pending_cong)
  show ?thesis
  proof (cases "find_question key (session_pending sid t)")
    case found: (Some p)
    have "tx_key p = key" by (rule find_question_Some [OF found])
    from matched_row_ok [OF this key] take_question_inv [OF mid, of key sid p] found sp
    show ?thesis
      using Some c(1) by (simp add: dns_response_def dns_kept_def matched_response_id)
  next
    case None
    obtain i t2 where draw: "dns_next_id t1 = (i, t2)" by fastforce
    note fresh = fresh_row_inv [OF mid draw]
    show ?thesis
      using Some None draw fresh(1) c(1) dns_next_idD(1) [OF draw]
      by (auto simp: dns_response_def Let_def intro!: dns_keptI fresh(2))
        (simp_all add: dns_row_ok_def response_base_def default_dns_result_def Let_def)
  qed
qed

lemma dns_on_message_inv:
  assumes inv: "dns_inv base hist t rows"
    and run: "dns_on_message sid dir body complete complete_at observed t (Some rows) = (e, t', rows')"
  shows "\<exists>rs. rows' = Some rs \<and> dns_kept base hist (dt_config t) (e, t', rs)"
proof (cases "sid = 0")
  case True
  with inv run show ?thesis by (auto simp: dns_on_message_def intro: dns_keptI)
next
  case False
  obtain status parsed where parse: "parse_dns_message body complete = (status, parsed)" by fastforce
  show ?thesis
  proof (cases "dp_key_available parsed")
    case unkeyed: False
    with inv run False parse show ?thesis by (auto simp: dns_on_message_def intro: dns_keptI)
  next
    case True
    with parse_dns_sound [OF parse] obtain wire qtype qclass where
      opt: "dm_wire_qname (dp_message parsed) = Some wire" "dm_qtype (dp_message parsed) = Some qtype"
        "dm_qclass (dp_message parsed) = Some qclass" by auto
    have "dns_kept base hist (dt_config t) (dns_keyed_message sid dir status parsed complete_at observed t rows)"
      using dns_damaged_kept [OF inv] dns_unsupported_kept [OF inv] dns_query_kept [OF inv]
        dns_response_kept [OF inv]
      by (simp add: dns_keyed_message_def Let_def opt question_key_def)
    with run False True parse show ?thesis
      by (cases "dns_keyed_message sid dir status parsed complete_at observed t rows")
        (auto simp: dns_on_message_def returning_def)
  qed
qed

section \<open>Gaps, time, ends\<close>

text \<open>
  The expiry loop on one list, with \<open>extra\<close> bytes and ids \<open>M\<close> for the other sessions and the
  rows written before.
\<close>

lemma expire_pending_inv:
  assumes "expire_pending P observed reason ps t rows = (e, ps', t', rows')"
    "backed (dt_budget t) (dns_pending_charge * length ps + extra + dt_result_charge_bytes t) base"
    "dt_budget t \<noteq> None \<longrightarrow> dns_result_charge * length rows \<le> dt_result_charge_bytes t"
    "ids_ok (dt_next_id t) (M + dns_row_ids rows + tx_ids ps)" "list_all dns_row_ok rows"
  shows "dt_config t' = dt_config t \<and> dt_pending t' = dt_pending t \<and> dt_next_id t' = dt_next_id t \<and>
    dt_watermark_ns t' = dt_watermark_ns t \<and> e \<noteq> E_UNCAUGHT \<and>
    subseq ps' ps \<and> (e = E_OK \<longrightarrow> list_all (\<lambda>p. \<not> P p) ps') \<and> (e \<noteq> E_OK \<longrightarrow> ps' \<noteq> []) \<and>
    backed (dt_budget t') (dns_pending_charge * length ps' + extra + dt_result_charge_bytes t') base \<and>
    (dt_budget t' \<noteq> None \<longrightarrow> dns_result_charge * length rows' \<le> dt_result_charge_bytes t') \<and>
    ids_ok (dt_next_id t) (M + dns_row_ids rows' + tx_ids ps') \<and> list_all dns_row_ok rows'"
  using assms
proof (induction P observed reason ps t rows arbitrary: e ps' t' rows' extra M rule: expire_pending.induct)
  case (1 P observed reason t rows)
  then show ?case by (auto simp: tx_ids_def)
next
  case (2 P observed reason p ps t rows)
  show ?case
  proof (cases "P p")
    case False
    obtain e1 ps1 t1 rows1 where tail: "expire_pending P observed reason ps t rows = (e1, ps1, t1, rows1)"
      by (metis prod.exhaust)
    with "2.prems"(1) False have r: "e = e1" "ps' = p # ps1" "t' = t1" "rows' = rows1" by auto
    from "2.IH"(1) [OF False tail, of "extra + dns_pending_charge" "add_mset (tx_entity_instance_id p) M"] "2.prems"(2-)
    show ?thesis using False by (auto simp: r tx_ids_def ac_simps)
  next
    case True
    show ?thesis
    proof (cases "charge_result t")
      case None
      with True "2.prems" show ?thesis by auto
    next
      case (Some t1)
      let ?t = "release_pending 1 t1" and ?rows = "rows @ [query_result p observed reason]"
      note c = charge_resultD [OF Some]
      have tail: "expire_pending P observed reason ps ?t ?rows = (e, ps', t', rows')"
        using "2.prems"(1) True Some by simp
      have "backed (dt_budget t) (dns_pending_charge * length ps + extra + 1 * dns_pending_charge
          + dt_result_charge_bytes t) base"
        using "2.prems"(2) by (simp add: algebra_simps)
      from c(6) [OF this] have "backed (dt_budget t1) (dns_pending_charge * length ps + extra +
          dt_result_charge_bytes t1 + 1 * dns_pending_charge) base"
        by (simp add: ac_simps)
      note b = release_pending_backed [OF this]
      have "dt_config t' = dt_config ?t \<and> dt_pending t' = dt_pending ?t \<and> dt_next_id t' = dt_next_id ?t \<and>
        dt_watermark_ns t' = dt_watermark_ns ?t \<and> e \<noteq> E_UNCAUGHT \<and>
        subseq ps' ps \<and> (e = E_OK \<longrightarrow> list_all (\<lambda>p. \<not> P p) ps') \<and> (e \<noteq> E_OK \<longrightarrow> ps' \<noteq> []) \<and>
        backed (dt_budget t') (dns_pending_charge * length ps' + extra + dt_result_charge_bytes t') base \<and>
        (dt_budget t' \<noteq> None \<longrightarrow> dns_result_charge * length rows' \<le> dt_result_charge_bytes t') \<and>
        ids_ok (dt_next_id ?t) (M + dns_row_ids rows' + tx_ids ps') \<and> list_all dns_row_ok rows'"
      proof (rule "2.IH"(2) [OF _ Some tail])
        show "backed (dt_budget ?t) (dns_pending_charge * length ps + extra + dt_result_charge_bytes ?t) base"
          using b by simp
        show "dt_budget ?t \<noteq> None \<longrightarrow> dns_result_charge * length ?rows \<le> dt_result_charge_bytes ?t"
          using "2.prems"(3) c(5,7) by auto
        show "ids_ok (dt_next_id ?t) (M + dns_row_ids ?rows + tx_ids ps)"
          using "2.prems"(4) c(3) by (simp add: tx_ids_def query_row_ok)
      qed (use True "2.prems"(5) query_row_ok in auto)
      then show ?thesis using c(1-4) by auto
    qed
  qed
qed

lemma subseq_keys:
  "subseq ps' ps \<Longrightarrow> set ps' \<subseteq> set ps \<and> length ps' \<le> length ps \<and>
     (distinct (map f ps) \<longrightarrow> distinct (map f ps'))"
  by (induction rule: list_emb.induct) auto

lemma subseq_list_ok: "list_ok c sid ps \<Longrightarrow> subseq ps' ps \<Longrightarrow> list_ok c sid ps'"
  using subseq_keys [of ps' ps tx_key] by (auto simp: list_ok_def)

lemma dns_on_response_path_gap_inv:
  assumes inv: "dns_inv base hist t rows"
    and run: "dns_on_response_path_gap sid dir observed t (Some rows) = (e, t', rows')"
  shows "\<exists>rs. rows' = Some rs \<and> dns_kept base hist (dt_config t) (e, t', rs)"
proof (cases "sid = 0 \<or> omap_find (dt_pending t) sid = None")
  case True
  with inv run show ?thesis by (auto simp: dns_on_response_path_gap_def intro: dns_keptI split: if_splits)
next
  case False
  then obtain ps where found: "omap_find (dt_pending t) sid = Some ps" by auto
  define P :: "dns_transaction \<Rightarrow> bool" where "P = (\<lambda>p. qk_query_direction (tx_key p) \<noteq> dir)"
  obtain e1 ps1 t1 rows1 where ex: "expire_pending P observed ''response_path_gap'' ps t rows = (e1, ps1, t1, rows1)"
    by (metis prod.exhaust)
  have result: "e = e1" "t' = store_pending sid ps1 t1" "rows' = Some rows1"
    using run False found ex by (auto simp: dns_on_response_path_gap_def P_def)
  let ?rest = "omap_erase sid (dt_pending t)"
  have sums: "omap_sum length (dt_pending t) = length ps + omap_sum length ?rest"
    "omap_sum tx_ids (dt_pending t) = tx_ids ps + omap_sum tx_ids ?rest"
    using omap_sum_erase [OF found, of length] omap_sum_erase [OF found, of tx_ids] by (simp_all add: ac_simps)
  have exp: "dt_config t1 = dt_config t \<and> dt_pending t1 = dt_pending t \<and> dt_next_id t1 = dt_next_id t \<and>
    dt_watermark_ns t1 = dt_watermark_ns t \<and> e1 \<noteq> E_UNCAUGHT \<and>
    subseq ps1 ps \<and> (e1 = E_OK \<longrightarrow> list_all (\<lambda>p. \<not> P p) ps1) \<and> (e1 \<noteq> E_OK \<longrightarrow> ps1 \<noteq> []) \<and>
    backed (dt_budget t1) (dns_pending_charge * length ps1 + dns_pending_charge * omap_sum length ?rest
      + dt_result_charge_bytes t1) base \<and>
    (dt_budget t1 \<noteq> None \<longrightarrow> dns_result_charge * length rows1 \<le> dt_result_charge_bytes t1) \<and>
    ids_ok (dt_next_id t) (hist + omap_sum tx_ids ?rest + dns_row_ids rows1 + tx_ids ps1) \<and>
    list_all dns_row_ok rows1"
    by (rule expire_pending_inv [OF ex])
      (use inv in \<open>auto simp: dns_inv_def sums algebra_simps\<close>)
  have sp: "session_pending sid t1 = ps" using exp found by (simp add: session_pending_def)
  have shape: "pending_shape (dt_config t) (dt_pending t)" using inv by (simp add: dns_inv_def)
  then have wf: "omap_wf (dt_pending t1)" using exp by (simp add: pending_shape_def)
  have "list_ok (dt_config t) sid ps1"
    using subseq_list_ok pending_shape_find [OF shape, of sid] exp found by (auto simp: session_pending_def)
  then have "pending_shape (dt_config t) (dt_pending (store_pending sid ps1 t1))"
    using exp shape by (intro store_pending_shape) auto
  moreover have "omap_sum length (dt_pending (store_pending sid ps1 t1)) = length ps1 + omap_sum length ?rest"
    "omap_sum tx_ids (dt_pending (store_pending sid ps1 t1)) = tx_ids ps1 + omap_sum tx_ids ?rest"
    using store_pending_sum [OF wf, of length sid ps1] store_pending_sum [OF wf, of tx_ids sid ps1] exp sums
    by (auto simp: sp tx_ids_def ac_simps)
  ultimately have "dns_inv base hist (store_pending sid ps1 t1) rows1"
    using exp by (auto simp: dns_inv_def algebra_simps)
  with exp show ?thesis by (auto simp: result intro!: dns_keptI)
qed

text \<open>The books without the pending map: \<open>held\<close> bytes and the ids \<open>M\<close> are pending.\<close>

definition dns_books :: "nat \<Rightarrow> nat \<Rightarrow> u64 multiset \<Rightarrow> dns_tracker \<Rightarrow> dns_result list \<Rightarrow> bool" where
  "dns_books base held M t rows \<longleftrightarrow> backed (dt_budget t) (held + dt_result_charge_bytes t) base \<and>
     (dt_budget t \<noteq> None \<longrightarrow> dns_result_charge * length rows \<le> dt_result_charge_bytes t) \<and>
     ids_ok (dt_next_id t) (M + dns_row_ids rows) \<and> list_all dns_row_ok rows"

lemma dns_inv_books:
  "dns_inv base hist t rows \<longleftrightarrow> pending_shape (dt_config t) (dt_pending t) \<and>
     dns_books base (dns_pending_charge * omap_sum length (dt_pending t))
       (hist + omap_sum tx_ids (dt_pending t)) t rows"
  by (auto simp: dns_inv_def dns_books_def ac_simps)

lemma dns_books_cong:
  "dns_books base held M t rows \<Longrightarrow> dt_budget t' = dt_budget t \<Longrightarrow> dt_next_id t' = dt_next_id t \<Longrightarrow>
     dt_result_charge_bytes t' = dt_result_charge_bytes t \<Longrightarrow> held' = held \<Longrightarrow> M' = M \<Longrightarrow>
     dns_books base held' M' t' rows"
  by (simp add: dns_books_def)

definition same_tracker :: "dns_tracker \<Rightarrow> dns_tracker \<Rightarrow> bool" where
  "same_tracker t t' \<longleftrightarrow> dt_config t' = dt_config t \<and> dt_pending t' = dt_pending t \<and>
     dt_next_id t' = dt_next_id t \<and> dt_watermark_ns t' = dt_watermark_ns t"

lemma expire_pending_books:
  assumes "expire_pending P observed reason ps t rows = (e, ps', t', rows')"
    "dns_books base (dns_pending_charge * length ps + extra) (M + tx_ids ps) t rows"
  shows "same_tracker t t' \<and> e \<noteq> E_UNCAUGHT \<and> subseq ps' ps \<and> (e = E_OK \<longrightarrow> list_all (\<lambda>p. \<not> P p) ps') \<and>
    (e \<noteq> E_OK \<longrightarrow> ps' \<noteq> []) \<and>
    dns_books base (dns_pending_charge * length ps' + extra) (M + tx_ids ps') t' rows'"
  using expire_pending_inv [OF assms(1), of extra base M] assms(2)
  by (auto simp: dns_books_def same_tracker_def ac_simps)

lemma omap_wf_keys: "sorted_wrt (<) (map fst m) \<longleftrightarrow> omap_wf m"
  by (simp add: omap_wf_def omap_keys_def)

lemma expire_all_books:
  assumes "expire_all w m t rows = (e, m', t', rows')" "pending_shape c m"
    "dns_books base (dns_pending_charge * omap_sum length m + extra) (M + omap_sum tx_ids m) t rows"
  shows "same_tracker t t' \<and> e \<noteq> E_UNCAUGHT \<and> pending_shape c m' \<and> set (omap_keys m') \<subseteq> set (omap_keys m) \<and>
    (e = E_OK \<longrightarrow> (\<forall>(sid, ps) \<in> set m'. \<forall>p \<in> set ps. \<not> due w p)) \<and>
    dns_books base (dns_pending_charge * omap_sum length m' + extra) (M + omap_sum tx_ids m') t' rows'"
  using assms
proof (induction w m t rows arbitrary: e m' t' rows' extra M rule: expire_all.induct)
  case (1 w t rows)
  then show ?case by (auto simp: same_tracker_def)
next
  case (2 w sid ps m t rows)
  obtain e1 ps1 t1 rows1 where head:
      "expire_pending (due w) w ''response_not_observed_by_deadline'' ps t rows = (e1, ps1, t1, rows1)"
    by (metis prod.exhaust)
  have "dns_books base (dns_pending_charge * length ps + (dns_pending_charge * omap_sum length m + extra))
      (M + omap_sum tx_ids m + tx_ids ps) t rows"
    using "2.prems"(3) by (simp add: algebra_simps)
  note h = expire_pending_books [OF head this]
  have shape: "list_ok c sid ps" "pending_shape c m" "\<forall>k \<in> set (omap_keys m). sid < k"
    using "2.prems"(2) by (auto simp: pending_shape_def omap_wf_Cons)
  then have ps1: "list_ok c sid ps1" using h subseq_list_ok by blast
  show ?case
  proof (cases "e1 = E_OK")
    case False
    then have "e = e1" "m' = (sid, ps1) # m" "t' = t1" "rows' = rows1" using "2.prems"(1) head by auto
    with False h ps1 shape show ?thesis
      by (auto simp: pending_shape_def omap_wf_Cons omap_keys_def algebra_simps)
  next
    case True
    obtain e2 m2 t2 rows2 where tail: "expire_all w m t1 rows1 = (e2, m2, t2, rows2)" by (metis prod.exhaust)
    then have r: "e = e2" "m' = (if ps1 = [] then m2 else (sid, ps1) # m2)" "t' = t2" "rows' = rows2"
      using "2.prems"(1) head True by auto
    have "dns_books base (dns_pending_charge * omap_sum length m + (dns_pending_charge * length ps1 + extra))
        (M + tx_ids ps1 + omap_sum tx_ids m) t1 rows1"
      using h by (simp add: algebra_simps)
    note i = "2.IH" [OF head [symmetric] refl refl _ tail shape(2) this]
    have "\<forall>k \<in> set (omap_keys m2). sid < k" using i True shape(3) by auto
    moreover have "list_all (\<lambda>p. \<not> due w p) ps1" using h True by blast
    moreover have "same_tracker t t2" using h i True by (simp add: same_tracker_def)
    ultimately show ?thesis
      using i True ps1
      by (auto simp: r pending_shape_def omap_wf_Cons omap_keys_def algebra_simps list_all_iff tx_ids_def)
  qed
qed

lemma dns_on_capture_watermark_inv:
  assumes inv: "dns_inv base hist t rows"
    and run: "dns_on_capture_watermark w t (Some rows) = (e, t', rows')"
  shows "\<exists>rs. rows' = Some rs \<and> dns_kept base hist (dt_config t) (e, t', rs) \<and>
    ((\<forall>w0. dt_watermark_ns t = Some w0 \<longrightarrow> w0 < w) \<longrightarrow> dt_watermark_ns t' = Some w \<and>
      (e = E_OK \<longrightarrow> (\<forall>(sid, ps) \<in> set (dt_pending t'). \<forall>p \<in> set ps. \<not> due w p)))"
proof (cases "case dt_watermark_ns t of None \<Rightarrow> False | Some w0 \<Rightarrow> w \<le> w0")
  case True
  with inv run show ?thesis
    by (auto simp: dns_on_capture_watermark_def intro: dns_keptI split: option.splits)
next
  case False
  obtain e1 m1 t1 rows1 where ex: "expire_all w (dt_pending t) (t\<lparr>dt_watermark_ns := Some w\<rparr>) rows = (e1, m1, t1, rows1)"
    by (metis prod.exhaust)
  have r: "e = e1" "t' = t1\<lparr>dt_pending := m1\<rparr>" "rows' = Some rows1"
    using run False ex by (auto simp: dns_on_capture_watermark_def)
  have "dns_books base (dns_pending_charge * omap_sum length (dt_pending t) + 0)
      (hist + omap_sum tx_ids (dt_pending t)) (t\<lparr>dt_watermark_ns := Some w\<rparr>) rows"
    using inv by (auto simp: dns_inv_books elim: dns_books_cong)
  from expire_all_books [OF ex _ this, of "dt_config t"] inv
  have x: "same_tracker (t\<lparr>dt_watermark_ns := Some w\<rparr>) t1" "e1 \<noteq> E_UNCAUGHT" "pending_shape (dt_config t) m1"
    "e1 = E_OK \<longrightarrow> (\<forall>(sid, ps) \<in> set m1. \<forall>p \<in> set ps. \<not> due w p)"
    "dns_books base (dns_pending_charge * omap_sum length m1 + 0) (hist + omap_sum tx_ids m1) t1 rows1"
    by (auto simp: dns_inv_books)
  then have "dns_inv base hist t' rows1"
    by (auto simp: r dns_inv_books same_tracker_def elim: dns_books_cong)
  then show ?thesis using x(1,2,4) by (auto simp: r same_tracker_def intro!: dns_keptI)
qed

text \<open>
  The rows of a session's end: on success one for every pending query; otherwise the list stays,
  and the ids of the rows already written are still the ids of the list.
\<close>

lemma end_pending_spec:
  "end_pending observed ps t rows = (e, t', rows') \<Longrightarrow>
     same_tracker t t' \<and> e \<in> {E_OK, E_NOSPC} \<and>
     (e = E_OK \<longrightarrow> rows' = rows @ map (\<lambda>p. query_result p observed ''session_end'') ps) \<and>
     (\<exists>n \<le> length ps. rows' = rows @ map (\<lambda>p. query_result p observed ''session_end'') (take n ps)) \<and>
     (\<forall>c base. backed (dt_budget t) (c + dt_result_charge_bytes t) base \<longrightarrow>
          backed (dt_budget t') (c + dt_result_charge_bytes t') base) \<and>
     (dt_budget t = None \<longleftrightarrow> dt_budget t' = None) \<and>
     (dt_budget t \<noteq> None \<longrightarrow>
       dt_result_charge_bytes t' + dns_result_charge * length rows =
       dt_result_charge_bytes t + dns_result_charge * length rows')"
proof (induction observed ps t rows rule: end_pending.induct)
  case (1 observed t rows)
  then show ?case by (auto simp: same_tracker_def)
next
  case (2 observed p ps t rows)
  show ?case
  proof (cases "charge_result t")
    case None
    with "2.prems" show ?thesis by (auto simp: same_tracker_def intro: exI [of _ 0])
  next
    case (Some t1)
    note c = charge_resultD [OF Some]
    have "end_pending observed ps t1 (rows @ [query_result p observed ''session_end'']) = (e, t', rows')"
      using "2.prems" Some by simp
    note i = "2.IH" [OF Some this]
    then obtain n where n: "n \<le> length ps" "rows' = (rows @ [query_result p observed ''session_end'']) @
        map (\<lambda>p. query_result p observed ''session_end'') (take n ps)" by auto
    have "\<exists>n \<le> length (p # ps). rows' = rows @ map (\<lambda>p. query_result p observed ''session_end'') (take n (p # ps))"
      using n by (intro exI [of _ "Suc n"]) simp
    moreover have "same_tracker t t'" using i c by (simp add: same_tracker_def)
    ultimately show ?thesis using i c(5-7) by auto
  qed
qed

text \<open>
  What survives even a refused session end: the ledger, so that an abort still settles it.
\<close>

definition dns_ledger :: "nat \<Rightarrow> dns_tracker \<Rightarrow> bool" where
  "dns_ledger base t \<longleftrightarrow> pending_shape (dt_config t) (dt_pending t) \<and>
     backed (dt_budget t)
       (dns_pending_charge * omap_sum length (dt_pending t) + dt_result_charge_bytes t) base"

lemma dns_inv_ledger: "dns_inv base hist t rows \<Longrightarrow> dns_ledger base t"
  by (simp add: dns_inv_def dns_ledger_def)

lemma dns_on_session_end_inv:
  assumes inv: "dns_inv base hist t rows"
    and run: "dns_on_session_end sid observed t (Some rows) = (e, t', rows')"
  shows "\<exists>rs. rows' = Some rs \<and> e \<noteq> E_UNCAUGHT \<and> dt_config t' = dt_config t \<and> dns_ledger base t' \<and>
    list_all dns_row_ok rs \<and>
    (e = E_OK \<longrightarrow> dns_inv base hist t' rs \<and> dns_pending_count sid t' = 0 \<and>
       rs = rows @ map (\<lambda>p. query_result p observed ''session_end'') (session_pending sid t))"
proof (cases "sid = 0 \<or> omap_find (dt_pending t) sid = None")
  case True
  with inv run show ?thesis
    by (auto simp: dns_on_session_end_def dns_inv_ledger dns_inv_def dns_pending_count_def
        session_pending_def split: if_splits intro: dns_inv_ledger)
next
  case False
  then obtain ps where found: "omap_find (dt_pending t) sid = Some ps" by auto
  obtain e1 t1 rows1 where ex: "end_pending observed ps t rows = (e1, t1, rows1)" by (metis prod.exhaust)
  note x = end_pending_spec [OF ex]
  have rows_ok: "list_all dns_row_ok rows1" using x inv query_row_ok(1) by (auto simp: dns_inv_def list_all_iff)
  have led: "dns_ledger base t1" using x inv by (auto simp: dns_inv_def dns_ledger_def same_tracker_def)
  show ?thesis
  proof (cases "e1 = E_OK")
    case False
    with run found ex \<open>\<not> (sid = 0 \<or> _)\<close> have "e = e1" "t' = t1" "rows' = Some rows1"
      by (auto simp: dns_on_session_end_def)
    with x led rows_ok False show ?thesis by (auto simp: same_tracker_def)
  next
    case True
    let ?t = "t1\<lparr>dt_pending := omap_erase sid (dt_pending t1)\<rparr>"
    have r: "e = E_OK" "t' = release_pending (length ps) ?t" "rows' = Some rows1"
      using run found ex True \<open>\<not> (sid = 0 \<or> _)\<close> by (auto simp: dns_on_session_end_def)
    have wf: "omap_wf (dt_pending t)" using inv by (simp add: dns_inv_def pending_shape_def)
    have eq: "rows1 = rows @ map (\<lambda>p. query_result p observed ''session_end'') ps" using x True by simp
    have shape: "pending_shape (dt_config t) (dt_pending ?t)"
      using inv x omap_erase_subset [of sid "dt_pending t"]
      by (auto simp: dns_inv_def pending_shape_def same_tracker_def om.wf_erase)
    have sums: "omap_sum length (dt_pending t) = length ps + omap_sum length (dt_pending ?t)"
      "omap_sum tx_ids (dt_pending t) = tx_ids ps + omap_sum tx_ids (dt_pending ?t)"
      using omap_sum_erase [OF found, of length] omap_sum_erase [OF found, of tx_ids] x
      by (simp_all add: same_tracker_def ac_simps)
    have "backed (dt_budget ?t) (dns_pending_charge * omap_sum length (dt_pending ?t) +
        dt_result_charge_bytes ?t + length ps * dns_pending_charge) base"
      using x led by (simp add: dns_ledger_def same_tracker_def sums algebra_simps)
    note b = release_pending_backed [OF this]
    have "dns_row_ids rows1 = dns_row_ids rows + tx_ids ps"
      by (simp add: eq dns_row_ids_def tx_ids_def query_row_ok(2) comp_def)
    then have "dns_inv base hist t' rows1"
      using inv x b rows_ok shape by (auto simp: r dns_inv_def same_tracker_def sums ac_simps)
    moreover have "dns_pending_count sid t' = 0"
      using x wf by (simp add: r dns_pending_count_def same_tracker_def om.find_erase)
    ultimately show ?thesis
      using x found rows_ok by (auto simp: r eq same_tracker_def session_pending_def intro: dns_inv_ledger)
  qed
qed

lemma dns_release_results_inv:
  assumes inv: "dns_inv base hist t rows"
    and run: "dns_release_results t (Some rows) = (t', rows')"
  shows "rows' = Some [] \<and> dt_config t' = dt_config t \<and> dns_inv base (hist + dns_row_ids rows) t' []"
proof -
  have "backed (dt_budget t') (dns_pending_charge * omap_sum length (dt_pending t)) base"
    using inv run opt_refund_0 [of "dt_budget t" _ base]
    by (auto simp: dns_inv_def dns_release_results_def intro: backed_refund)
  with inv run show ?thesis by (auto simp: dns_inv_def dns_release_results_def dns_row_ids_def)
qed

lemma release_all_backed:
  "backed (dt_budget t) (dns_pending_charge * omap_sum length m + dt_result_charge_bytes t) base \<Longrightarrow>
     (let t' = fold (\<lambda>(sid, ps). release_pending (length ps)) m t in
        backed (dt_budget t') (dt_result_charge_bytes t') base \<and> dt_config t' = dt_config t \<and>
        dt_next_id t' = dt_next_id t \<and> dt_result_charge_bytes t' = dt_result_charge_bytes t)"
proof (induction m arbitrary: t)
  case (Cons x m)
  obtain sid ps where x: "x = (sid, ps)" by fastforce
  have "backed (dt_budget t) (dns_pending_charge * omap_sum length m + dt_result_charge_bytes t
      + length ps * dns_pending_charge) base"
    using Cons.prems by (simp add: x algebra_simps)
  from Cons.IH [of "release_pending (length ps) t"] release_pending_backed [OF this]
  show ?case by (auto simp: x Let_def)
qed simp

text \<open>An abort settles the ledger from whatever state the tracker is in.\<close>

lemma dns_abort_settles:
  assumes "dns_ledger base t"
  shows "backed (dt_budget (dns_abort t)) 0 base \<and> dt_pending (dns_abort t) = [] \<and>
    dt_config (dns_abort t) = dt_config t \<and> dt_next_id (dns_abort t) = dt_next_id t \<and>
    dt_result_charge_bytes (dns_abort t) = 0"
  using release_all_backed [of t "dt_pending t" base] assms
  by (auto simp: dns_abort_def dns_ledger_def Let_def dns_release_results_def
      intro: backed_refund [where c = 0, simplified])

end
