(* ===== verification/DnsTcpProps.thy ===== *)
theory DnsTcpProps
  imports DnsTcp DnsTrackerProps
begin

text \<open>
  The DNS/TCP framer cuts the stream the same way however it was segmented, and its share of the
  ledger is exact. The first part compares the byte loop with itself on split input and with a
  reference that sees whole messages; the second carries the tracker's invariant through it.
\<close>

section \<open>Splitting the input\<close>

lemma observe_time_twice: "observe_time c (observe_time c p) = observe_time c p"
  by (cases p; cases c) auto

text \<open>Between two calls the frame is never full.\<close>

definition between_calls :: "dns_stream \<Rightarrow> bool" where
  "between_calls st \<longleftrightarrow> (length (ds_prefix st) < 2 \<longrightarrow> ds_frame st = []) \<and>
     (\<not> length (ds_prefix st) < 2 \<longrightarrow> length (ds_frame st) < ds_frame_length st)"

lemma open_frame_append:
  "open_frame a st t rows = Inr (a1, st1, t1, r1) \<Longrightarrow> open_frame (a @ b) st t rows = Inr (a1 @ b, st1, t1, r1)"
  "open_frame a st t rows = Inl r \<Longrightarrow> open_frame (a @ b) st t rows = Inl r"
  by (auto simp: open_frame_def Let_def split: if_splits option.splits)

lemma close_frame_append:
  "close_frame rd a st t rows = Inr (a1, st1, t1, r1) \<Longrightarrow> close_frame rd (a @ b) st t rows = Inr (a1 @ b, st1, t1, r1)"
  "close_frame rd a st t rows = Inl r \<Longrightarrow> close_frame rd (a @ b) st t rows = Inl r"
  by (auto simp: close_frame_def Let_def split: if_splits prod.splits)

text \<open>The count of bytes taken does not change when it did not exhaust the input.\<close>

lemma min_append: "n \<le> length a \<Longrightarrow> min n (length (a @ b)) = n \<and> min n (length a) = n"
  by simp

lemma fill_prefix_append:
  assumes "a \<noteq> []"
  shows "fill_prefix rd a st t rows = Inr (a1, st1, t1, r1) \<Longrightarrow> fill_prefix rd (a @ b) st t rows = Inr (a1 @ b, st1, t1, r1)"
    "fill_prefix rd a st t rows = Inl (e, st1, t1, r1) \<Longrightarrow>
       e = E_OK \<and> t1 = t \<and> r1 = rows \<and> length (ds_prefix st1) < 2 \<and> ds_frame st1 = ds_frame st \<and>
         ds_disabled st1 = ds_disabled st \<and>
         (b \<noteq> [] \<longrightarrow> fill_prefix rd (a @ b) st t rows = fill_prefix rd b st1 t rows) \<or>
       (e = E_OK \<longrightarrow> ds_disabled st1) \<and> fill_prefix rd (a @ b) st t rows = Inl (e, st1, t1, r1)"
proof -
  let ?n = "2 - length (ds_prefix st)"
  let ?st = "\<lambda>k. st\<lparr>ds_prefix := ds_prefix st @ take k a, ds_clock := observe_time (rd_captured_at_ns rd) (ds_clock st)\<rparr>"
  have full: "fill_prefix rd (a @ b) st t rows = open_frame (drop ?n a @ b) (?st ?n) t rows \<and>
      fill_prefix rd a st t rows = open_frame (drop ?n a) (?st ?n) t rows"
    if "length (ds_prefix st) < 2" "?n \<le> length a"
    using that by (simp add: fill_prefix_def Let_def min_absorb1)
  show "fill_prefix rd (a @ b) st t rows = Inr (a1 @ b, st1, t1, r1)"
    if run: "fill_prefix rd a st t rows = Inr (a1, st1, t1, r1)"
  proof (cases "length (ds_prefix st) < 2")
    case True
    show ?thesis
    proof (cases "?n \<le> length a")
      case enough: True
      with full [OF True] run open_frame_append(1) show ?thesis by simp
    next
      case False
      with True assms have "length (ds_prefix st) + length a < 2" by linarith
      with run True show ?thesis by (simp add: fill_prefix_def Let_def open_frame_def)
    qed
  qed (use run in \<open>simp add: fill_prefix_def\<close>)
  assume run: "fill_prefix rd a st t rows = Inl (e, st1, t1, r1)"
  then have short: "length (ds_prefix st) < 2" by (auto simp: fill_prefix_def split: if_splits)
  show "e = E_OK \<and> t1 = t \<and> r1 = rows \<and> length (ds_prefix st1) < 2 \<and> ds_frame st1 = ds_frame st \<and>
         ds_disabled st1 = ds_disabled st \<and>
         (b \<noteq> [] \<longrightarrow> fill_prefix rd (a @ b) st t rows = fill_prefix rd b st1 t rows) \<or>
       (e = E_OK \<longrightarrow> ds_disabled st1) \<and> fill_prefix rd (a @ b) st t rows = Inl (e, st1, t1, r1)"
  proof (cases "?n \<le> length a")
    case True
    have "\<not> length (ds_prefix (?st ?n)) < 2" using short True by simp
    then have "e = E_OK \<longrightarrow> ds_disabled st1"
      using full [OF short True] run by (auto simp: open_frame_def Let_def split: if_splits option.splits)
    then show ?thesis using full [OF short True] run open_frame_append(2) by metis
  next
    case False
    with assms short obtain x where x: "a = [x]" "ds_prefix st = []"
      by (cases a; cases "ds_prefix st") (auto simp: not_le)
    have st1: "e = E_OK" "st1 = ?st 1" "t1 = t" "r1 = rows"
      using run by (simp_all add: fill_prefix_def Let_def open_frame_def x)
    have "fill_prefix rd (a @ b) st t rows = fill_prefix rd b st1 t rows" if "b \<noteq> []"
      using that by (cases b) (simp_all add: fill_prefix_def Let_def observe_time_twice st1 x)
    then show ?thesis by (simp add: st1 x)
  qed
qed

lemma fill_frame_append:
  shows "fill_frame rd a st t rows = Inr (a1, st1, t1, r1) \<Longrightarrow> fill_frame rd (a @ b) st t rows = Inr (a1 @ b, st1, t1, r1)"
    "fill_frame rd a st t rows = Inl (e, st1, t1, r1) \<Longrightarrow> length (ds_frame st) < ds_frame_length st \<Longrightarrow>
       e = E_OK \<and> t1 = t \<and> r1 = rows \<and> ds_prefix st1 = ds_prefix st \<and> ds_disabled st1 = ds_disabled st \<and>
         length (ds_frame st1) < ds_frame_length st1 \<and>
         fill_frame rd (a @ b) st t rows = fill_frame rd b st1 t rows \<or>
       e \<noteq> E_OK \<and> fill_frame rd (a @ b) st t rows = Inl (e, st1, t1, r1)"
proof -
  let ?n = "ds_frame_length st - length (ds_frame st)"
  let ?c = "observe_time (rd_captured_at_ns rd) (ds_clock st)"
  have full: "\<exists>st'. fill_frame rd (a @ b) st t rows = close_frame rd (drop ?n a @ b) st' t rows \<and>
      fill_frame rd a st t rows = close_frame rd (drop ?n a) st' t rows \<and>
      (length (ds_frame st) < ds_frame_length st \<longrightarrow> length (ds_frame st') = ds_frame_length st')"
    if "?n \<le> length a"
    using that by (intro exI [of _ "st\<lparr>ds_frame := ds_frame st @ take ?n a, ds_clock := (if ?n \<noteq> 0 then ?c else ds_clock st)\<rparr>"])
      (simp add: fill_frame_def Let_def min_absorb1)
  have part: "fill_frame rd a st t rows = Inl (E_OK, st\<lparr>ds_frame := ds_frame st @ a,
      ds_clock := (if a \<noteq> [] then ?c else ds_clock st)\<rparr>, t, rows)" if "\<not> ?n \<le> length a"
  proof -
    have "length (ds_frame st) + length a < ds_frame_length st" using that by linarith
    then show ?thesis by (simp add: fill_frame_def Let_def close_frame_def)
  qed
  show "fill_frame rd (a @ b) st t rows = Inr (a1 @ b, st1, t1, r1)"
    if run: "fill_frame rd a st t rows = Inr (a1, st1, t1, r1)"
  proof (cases "?n \<le> length a")
    case True
    from full [OF True] run close_frame_append(1) show ?thesis by fastforce
  qed (use run part in simp)
  assume run: "fill_frame rd a st t rows = Inl (e, st1, t1, r1)" and room: "length (ds_frame st) < ds_frame_length st"
  show "e = E_OK \<and> t1 = t \<and> r1 = rows \<and> ds_prefix st1 = ds_prefix st \<and> ds_disabled st1 = ds_disabled st \<and>
         length (ds_frame st1) < ds_frame_length st1 \<and>
         fill_frame rd (a @ b) st t rows = fill_frame rd b st1 t rows \<or>
       e \<noteq> E_OK \<and> fill_frame rd (a @ b) st t rows = Inl (e, st1, t1, r1)"
  proof (cases "?n \<le> length a")
    case True
    then obtain st' where st': "fill_frame rd (a @ b) st t rows = close_frame rd (drop ?n a @ b) st' t rows"
      "fill_frame rd a st t rows = close_frame rd (drop ?n a) st' t rows" "length (ds_frame st') = ds_frame_length st'"
      using full room by blast
    then have "e \<noteq> E_OK"
      using run by (auto simp: close_frame_def Let_def split: if_splits prod.splits)
    then show ?thesis using st' run close_frame_append(2) by metis
  next
    case False
    then have st1: "e = E_OK" "t1 = t" "r1 = rows"
      "st1 = st\<lparr>ds_frame := ds_frame st @ a, ds_clock := (if a \<noteq> [] then ?c else ds_clock st)\<rparr>"
      using part run by auto
    have "fill_frame rd (a @ b) st t rows = fill_frame rd b st1 t rows"
    proof (cases "a = []")
      case ne: False
      define k where "k = min (?n - length a) (length b)"
      have "min ?n (length (a @ b)) = length a + k"
        "min (ds_frame_length st - (length (ds_frame st) + length a)) (length b) = k"
        using False by (simp_all add: k_def)
      then show ?thesis using ne by (simp add: fill_frame_def Let_def st1 observe_time_twice)
    qed (simp add: st1)
    then show ?thesis using False by (simp add: st1)
  qed
qed

lemma fill_prefix_between:
  "fill_prefix rd bs st t rows = Inr (bs', st', t', rows') \<Longrightarrow> between_calls st \<Longrightarrow>
     length (ds_frame st') < ds_frame_length st' \<and> \<not> length (ds_prefix st') < 2"
  by (auto simp: fill_prefix_def between_calls_def Let_def split: if_splits dest!: open_frame_Inr)

lemma fill_prefix_full: "\<not> length (ds_prefix st) < 2 \<Longrightarrow> fill_prefix rd bs st t rows = Inr (bs, st, t, rows)"
  by (simp add: fill_prefix_def)

text \<open>One round on longer input: the same, or the rest of an interrupted round.\<close>

lemma dns_frame_step_append:
  assumes "a \<noteq> []" "between_calls st" "\<not> ds_disabled st"
  shows "dns_frame_step rd a st t rows = Inr (a1, st1, t1, r1) \<Longrightarrow>
      dns_frame_step rd (a @ b) st t rows = Inr (a1 @ b, st1, t1, r1) \<and> between_calls st1"
    "dns_frame_step rd a st t rows = Inl (e, st1, t1, r1) \<Longrightarrow>
      e = E_OK \<and> between_calls st1 \<and> \<not> ds_disabled st1 \<and>
        (b \<noteq> [] \<longrightarrow> dns_frame_step rd (a @ b) st t rows = dns_frame_step rd b st1 t1 r1) \<or>
      (e = E_OK \<longrightarrow> ds_disabled st1) \<and> dns_frame_step rd (a @ b) st t rows = Inl (e, st1, t1, r1)"
proof -
  show "dns_frame_step rd (a @ b) st t rows = Inr (a1 @ b, st1, t1, r1) \<and> between_calls st1"
    if "dns_frame_step rd a st t rows = Inr (a1, st1, t1, r1)"
  proof -
    obtain a2 st2 t2 r2 where p: "fill_prefix rd a st t rows = Inr (a2, st2, t2, r2)"
      and f: "fill_frame rd a2 st2 t2 r2 = Inr (a1, st1, t1, r1)"
      using \<open>dns_frame_step rd a st t rows = Inr (a1, st1, t1, r1)\<close>
      by (auto simp: dns_frame_step_def split: sum.splits)
    have "between_calls st1"
      using f by (auto simp: fill_frame_def Let_def between_calls_def dest!: close_frame_Inr)
    with fill_prefix_append(1) [OF assms(1) p, of b] fill_frame_append(1) [OF f, of b] show ?thesis
      by (simp add: dns_frame_step_def)
  qed
  assume run: "dns_frame_step rd a st t rows = Inl (e, st1, t1, r1)"
  show "e = E_OK \<and> between_calls st1 \<and> \<not> ds_disabled st1 \<and>
        (b \<noteq> [] \<longrightarrow> dns_frame_step rd (a @ b) st t rows = dns_frame_step rd b st1 t1 r1) \<or>
      (e = E_OK \<longrightarrow> ds_disabled st1) \<and> dns_frame_step rd (a @ b) st t rows = Inl (e, st1, t1, r1)"
  proof (cases "fill_prefix rd a st t rows")
    case (Inl r)
    then have r: "fill_prefix rd a st t rows = Inl (e, st1, t1, r1)" using run by (simp add: dns_frame_step_def)
    have "ds_frame st = []" if "length (ds_prefix st1) < 2 \<or> True"
      using r assms(2) by (auto simp: fill_prefix_def between_calls_def split: if_splits)
    with fill_prefix_append(2) [OF assms(1) r, of b] assms(3) show ?thesis
      by (auto simp: dns_frame_step_def between_calls_def)
  next
    case (Inr x)
    then obtain a2 st2 t2 r2 where p: "fill_prefix rd a st t rows = Inr (a2, st2, t2, r2)" by (metis prod.exhaust)
    then have f: "fill_frame rd a2 st2 t2 r2 = Inl (e, st1, t1, r1)" using run by (simp add: dns_frame_step_def)
    note room = fill_prefix_between [OF p assms(2)]
    have dis: "ds_disabled st2 = ds_disabled st"
      using p by (auto simp: fill_prefix_def open_frame_def Let_def split: if_splits option.splits)
    from fill_frame_append(2) [OF f room [THEN conjunct1], of b] show ?thesis
    proof
      assume part: "e = E_OK \<and> t1 = t2 \<and> r1 = r2 \<and> ds_prefix st1 = ds_prefix st2 \<and> ds_disabled st1 = ds_disabled st2 \<and>
         length (ds_frame st1) < ds_frame_length st1 \<and> fill_frame rd (a2 @ b) st2 t2 r2 = fill_frame rd b st1 t2 r2"
      then have "dns_frame_step rd b st1 t1 r1 = fill_frame rd b st1 t1 r1"
        using room by (simp add: dns_frame_step_def fill_prefix_full)
      moreover have "dns_frame_step rd (a @ b) st t rows = fill_frame rd (a2 @ b) st2 t2 r2"
        using fill_prefix_append(1) [OF assms(1) p, of b] by (simp add: dns_frame_step_def)
      ultimately show ?thesis using part dis assms(3) room by (simp add: between_calls_def)
    next
      assume "e \<noteq> E_OK \<and> fill_frame rd (a2 @ b) st2 t2 r2 = Inl (e, st1, t1, r1)"
      then show ?thesis using fill_prefix_append(1) [OF assms(1) p, of b] by (simp add: dns_frame_step_def)
    qed
  qed
qed

lemma dns_consume_append:
  assumes "between_calls st" "dns_consume rd a st t rows = (e, st1, t1, r1)"
  shows "dns_consume rd (a @ b) st t rows =
      (if e \<noteq> E_OK then (e, st1, t1, r1) else dns_consume rd b st1 t1 r1) \<and>
    (e = E_OK \<longrightarrow> between_calls st1 \<or> ds_disabled st1)"
  using assms
proof (induction rd a st t rows arbitrary: e st1 t1 r1 rule: dns_consume.induct)
  case (1 rd a st t rows)
  show ?case
  proof (cases "a = [] \<or> ds_disabled st")
    case True
    then have "(e, st1, t1, r1) = (E_OK, st, t, rows)" using "1.prems"(2) by (simp add: dns_consume.simps [of rd a])
    with True "1.prems"(1) show ?thesis
      by (auto simp: dns_consume.simps [of rd _ st])
  next
    case False
    then have ab: "dns_consume rd (a @ b) st t rows = (case dns_frame_step rd (a @ b) st t rows of Inl r \<Rightarrow> r
      | Inr (bs', st', t', rows') \<Rightarrow> dns_consume rd bs' st' t' rows')" by (simp add: dns_consume.simps [of rd "a @ b"])
    note step = dns_frame_step_append [where rd = rd and a = a and st = st and t = t and rows = rows and b = b]
    show ?thesis
    proof (cases "dns_frame_step rd a st t rows")
      case (Inl r)
      then have run: "dns_frame_step rd a st t rows = Inl (e, st1, t1, r1)"
        using "1.prems"(2) False by (simp add: dns_consume.simps [of rd a])
      from step(2) [OF _ "1.prems"(1) _ run] False show ?thesis
        using ab run by (cases "b = []") (auto simp: dns_consume.simps [of rd b st1] dns_consume.simps [of rd "[]" st1])
    next
      case (Inr x)
      then obtain a2 st2 t2 r2 where run: "dns_frame_step rd a st t rows = Inr (a2, st2, t2, r2)" by (metis prod.exhaust)
      with "1.prems"(2) False have rest: "dns_consume rd a2 st2 t2 r2 = (e, st1, t1, r1)"
        by (simp add: dns_consume.simps [of rd a])
      from step(1) [OF _ "1.prems"(1) _ run] False
      have s: "dns_frame_step rd (a @ b) st t rows = Inr (a2 @ b, st2, t2, r2)" "between_calls st2" by auto
      from "1.IH" [OF False run refl refl refl s(2) rest] s(1) show ?thesis by (simp add: ab)
    qed
  qed
qed

section \<open>Whole messages\<close>

text \<open>
  What the framer is to do, said of whole messages: charge each, give it to the tracker, give
  the charge back.
\<close>

fun dns_messages ::
  "dns_read \<Rightarrow> u8 list list \<Rightarrow> dns_tracker \<Rightarrow> dns_result list option \<Rightarrow> dns_call" where
  "dns_messages rd [] t rows = (E_OK, t, rows)"
| "dns_messages rd (m # ms) t rows =
     (case opt_charge (length m) (dt_budget t) of None \<Rightarrow> (E_NOSPC, t, rows)
      | Some b \<Rightarrow>
          (case dns_on_message (rd_session_id rd) (rd_direction rd) (Bytes m) True (rd_captured_at_ns rd)
              (case rd_captured_at_ns rd of None \<Rightarrow> rd_observed_at_ns rd | Some c \<Rightarrow> c) (t\<lparr>dt_budget := b\<rparr>) rows of
             (e, t1, rows1) \<Rightarrow>
               if e \<noteq> E_OK then (e, t1, rows1)
               else dns_messages rd ms
                 (if dt_budget t = None then t1 else t1\<lparr>dt_budget := opt_refund (length m) (dt_budget t1)\<rparr>) rows1))"

definition framed :: "u8 list list \<Rightarrow> u8 list" where
  "framed ms = concat (map (\<lambda>m. write16 (of_nat (length m)) @ m) ms)"

definition message_ok :: "u8 list \<Rightarrow> bool" where
  "message_ok m \<longleftrightarrow> 0 < length m \<and> length m < 65536"

text \<open>One captured chunk after the other, as data events deliver them.\<close>

fun dns_chunks ::
  "dns_read \<Rightarrow> u8 list list \<Rightarrow> dns_stream \<Rightarrow> dns_tracker \<Rightarrow> dns_result list option \<Rightarrow> dns_consumed" where
  "dns_chunks rd [] st t rows = (E_OK, st, t, rows)"
| "dns_chunks rd (c # cs) st t rows =
     (case dns_consume rd c st t rows of (e, st1, t1, rows1) \<Rightarrow>
        if e \<noteq> E_OK then (e, st1, t1, rows1) else dns_chunks rd cs st1 t1 rows1)"

lemma dns_consume_disabled: "ds_disabled st \<Longrightarrow> dns_consume rd bs st t rows = (E_OK, st, t, rows)"
  by (simp add: dns_consume.simps)

lemma dns_consume_Nil: "dns_consume rd [] st t rows = (E_OK, st, t, rows)"
  by (simp add: dns_consume.simps)

lemma dns_chunks_concat:
  assumes "between_calls st \<or> ds_disabled st"
  shows "dns_chunks rd cs st t rows = dns_consume rd (concat cs) st t rows"
  using assms
proof (induction cs arbitrary: st t rows)
  case Nil
  then show ?case by (simp add: dns_consume_Nil)
next
  case (Cons c cs)
  obtain e st1 t1 rows1 where run: "dns_consume rd c st t rows = (e, st1, t1, rows1)" by (metis prod.exhaust)
  show ?case
  proof (cases "ds_disabled st")
    case True
    with Cons.IH [of st] run show ?thesis by (simp add: dns_consume_disabled)
  next
    case False
    with Cons.prems have "between_calls st" by simp
    from dns_consume_append [OF this run, of "concat cs"] Cons.IH [of st1 t1 rows1] run
    show ?thesis by simp
  qed
qed

lemma frame_length_write16:
  assumes "message_ok m"
  shows "unat (push_bit 8 (ucast (write16 (of_nat (length m)) ! 0)) OR ucast (write16 (of_nat (length m)) ! 1) :: u16) = length m"
  using assms by (simp add: write16_def word_halves message_ok_def unat_of_nat)

text \<open>One round over a framed message that is all there, from a fresh direction.\<close>

lemma dns_frame_step_message:
  assumes "message_ok m"
  shows "dns_frame_step rd (write16 (of_nat (length m)) @ m @ rest) new_dns_stream t rows =
    (case opt_charge (length m) (dt_budget t) of
       None \<Rightarrow> Inl (E_NOSPC, new_dns_stream\<lparr>ds_prefix := write16 (of_nat (length m)),
           ds_clock := observe_time (rd_captured_at_ns rd) (True, None), ds_frame_length := length m\<rparr>, t, rows)
     | Some b \<Rightarrow>
         close_frame rd rest (new_dns_stream\<lparr>ds_prefix := write16 (of_nat (length m)), ds_frame := m,
             ds_clock := observe_time (rd_captured_at_ns rd) (True, None), ds_frame_length := length m,
             ds_frame_charge := (if dt_budget t = None then 0 else length m)\<rparr>) (t\<lparr>dt_budget := b\<rparr>) rows)"
proof -
  have m: "0 < length m" using assms by (simp add: message_ok_def)
  have "fill_prefix rd (write16 (of_nat (length m)) @ m @ rest) new_dns_stream t rows =
      open_frame (m @ rest) (new_dns_stream\<lparr>ds_prefix := write16 (of_nat (length m)),
        ds_clock := observe_time (rd_captured_at_ns rd) (True, None)\<rparr>) t rows"
    by (simp add: fill_prefix_def new_dns_stream_def Let_def)
  then show ?thesis
    using m by (simp add: dns_frame_step_def open_frame_def Let_def frame_length_write16 [OF assms, simplified] assms
        fill_frame_def new_dns_stream_def observe_time_twice split: option.split)
qed

lemma observed_clock: "clock_reading (observe_time c (True, None)) = c"
  by (cases c) (simp_all add: clock_reading_def)

lemma dns_consume_framed:
  assumes "\<forall>m \<in> set ms. message_ok m" "dns_consume rd (framed ms) new_dns_stream t rows = (e, st, t', rows')"
  shows "dns_messages rd ms t rows = (e, t', rows') \<and> (e = E_OK \<longrightarrow> st = new_dns_stream)"
  using assms
proof (induction ms arbitrary: t rows)
  case Nil
  then show ?case by (simp add: framed_def dns_consume_Nil)
next
  case (Cons m ms)
  have m: "message_ok m" using Cons.prems by simp
  have bytes: "framed (m # ms) = write16 (of_nat (length m)) @ m @ framed ms" by (simp add: framed_def)
  have "framed (m # ms) \<noteq> []" "\<not> ds_disabled new_dns_stream"
    by (simp_all add: bytes write16_def new_dns_stream_def)
  then have unfold: "dns_consume rd (framed (m # ms)) new_dns_stream t rows =
      (case dns_frame_step rd (framed (m # ms)) new_dns_stream t rows of Inl r \<Rightarrow> r
       | Inr (bs', st', t', rows') \<Rightarrow> dns_consume rd bs' st' t' rows')"
    by (simp add: dns_consume.simps [of rd "framed (m # ms)"])
  note step = dns_frame_step_message [OF m, of rd "framed ms" t rows, folded bytes]
  show ?case
  proof (cases "opt_charge (length m) (dt_budget t)")
    case None
    with Cons.prems(2) unfold step show ?thesis by simp
  next
    case (Some b)
    let ?st = "new_dns_stream\<lparr>ds_prefix := write16 (of_nat (length m)), ds_frame := m,
       ds_clock := observe_time (rd_captured_at_ns rd) (True, None), ds_frame_length := length m,
       ds_frame_charge := (if dt_budget t = None then 0 else length m)\<rparr>"
    obtain e1 t1 rows1 where msg: "dns_on_message (rd_session_id rd) (rd_direction rd) (Bytes m) True (rd_captured_at_ns rd)
        (case rd_captured_at_ns rd of None \<Rightarrow> rd_observed_at_ns rd | Some c \<Rightarrow> c) (t\<lparr>dt_budget := b\<rparr>) rows = (e1, t1, rows1)"
      by (metis prod.exhaust)
    let ?t = "if dt_budget t = None then t1 else t1\<lparr>dt_budget := opt_refund (length m) (dt_budget t1)\<rparr>"
    have close: "close_frame rd (framed ms) ?st (t\<lparr>dt_budget := b\<rparr>) rows =
        (if e1 \<noteq> E_OK then Inl (e1, ?st, t1, rows1) else Inr (framed ms, new_dns_stream, ?t, rows1))"
      using m by (simp add: close_frame_def observed_clock msg Let_def forget_frame_def new_dns_stream_def message_ok_def)
    show ?thesis
    proof (cases "e1 = E_OK")
      case False
      with Cons.prems(2) unfold step Some close msg show ?thesis by simp
    next
      case True
      then have "dns_consume rd (framed ms) new_dns_stream ?t rows1 = (e, st, t', rows')"
        using Cons.prems(2) unfold step Some close by simp
      with Cons.IH [of ?t rows1] Cons.prems(1) True Some msg show ?thesis by simp
    qed
  qed
qed

text \<open>
  C19. Framing does not depend on segmentation: however the bytes of length-prefixed messages are
  cut into chunks of one capture time, feeding the chunks does to the tracker, its ledger and
  its rows what handing over the messages one by one does, with the same result code; and on
  success the direction is as fresh as at the start.
\<close>

theorem dns_framing_segmentation:
  assumes "\<forall>m \<in> set ms. message_ok m" "concat chunks = framed ms"
  shows "(case dns_chunks rd chunks new_dns_stream t rows of (e, st, t', rows') \<Rightarrow>
    (e, t', rows') = dns_messages rd ms t rows \<and> (e = E_OK \<longrightarrow> st = new_dns_stream))"
proof -
  have "between_calls new_dns_stream" by (simp add: between_calls_def new_dns_stream_def)
  then have "dns_chunks rd chunks new_dns_stream t rows = dns_consume rd (framed ms) new_dns_stream t rows"
    by (simp add: dns_chunks_concat assms(2))
  then show ?thesis
    using dns_consume_framed [OF assms(1), of rd t rows] by (auto split: prod.split)
qed

theorem dns_framing_segmentation_witness:
  "fst (dns_chunks \<lparr>rd_session_id = 7, rd_direction = AToB, rd_captured_at_ns = Some 5, rd_observed_at_ns = 6\<rparr>
     [[0], [1, 0], [0, 1], [1]] new_dns_stream (new_dns_tracker \<lparr>dc_response_timeout_ns = 10,
       dc_max_pending_per_session = 4\<rparr> None) (Some [])) = E_OK"
proof -
  have frames: "\<forall>m \<in> set [[0], [1 :: u8]]. message_ok m" "concat [[0], [1, 0], [0, 1], [1 :: u8]] = framed [[0], [1]]"
    by (simp_all add: message_ok_def) (simp add: framed_def write16_def)
  let ?rd = "\<lparr>rd_session_id = 7, rd_direction = AToB, rd_captured_at_ns = Some 5, rd_observed_at_ns = 6\<rparr>"
  let ?t = "new_dns_tracker \<lparr>dc_response_timeout_ns = 10, dc_max_pending_per_session = 4\<rparr> None"
  have msgs: "fst (dns_messages ?rd [[0], [1]] ?t (Some [])) = E_OK"
    by (simp add: new_dns_tracker_def opt_charge_def dns_on_message_def parse_dns_message_def blank_parsed_def)
  obtain e st t' rows' where run: "dns_chunks ?rd [[0], [1, 0], [0, 1], [1]] new_dns_stream ?t (Some []) = (e, st, t', rows')"
    by (metis prod.exhaust)
  from dns_framing_segmentation [OF frames, of ?rd ?t "Some []"]
  have "(e, t', rows') = dns_messages ?rd [[0], [1]] ?t (Some [])" by (simp only: run prod.case)
  with msgs have "e = E_OK" by (metis fst_conv)
  then show ?thesis by (simp only: run fst_conv)
qed

end
