(* ===== verification/DnsModuleProps.thy ===== *)
theory DnsModuleProps
  imports DnsModule DnsTcpProps
begin

text \<open>
  The DNS module as a whole: tracker, framer and identities under one ledger. First the sessions
  that rows and pending queries belong to, then the framer's share of the ledger, then the
  callbacks and the runs of a module.
\<close>

section \<open>Whose rows and queries\<close>

definition within :: "u64 set \<Rightarrow> dns_tracker \<Rightarrow> dns_result list \<Rightarrow> bool" where
  "within S t rows \<longleftrightarrow> set (omap_keys (dt_pending t)) \<subseteq> S \<and> dr_session_id ` set rows \<subseteq> S"

lemma within_mono: "within S t rows \<Longrightarrow> S \<subseteq> S' \<Longrightarrow> within S' t rows"
  by (auto simp: within_def)

lemma within_budget [simp]: "within S (t\<lparr>dt_budget := b\<rparr>) rows = within S t rows"
  by (simp add: within_def)

lemma within_release [simp]: "within S (release_pending n t) rows = within S t rows"
  by (simp add: within_def)

lemma omap_keys_Cons: "omap_keys ((k, v) # m) = k # omap_keys m"
  by (simp add: omap_keys_def)

lemma omap_keys_erase_subset: "set (omap_keys (omap_erase k m)) \<subseteq> set (omap_keys m)"
  using omap_erase_subset [of k m] by (force simp: omap_keys_def)

lemma within_store: "within S t rows \<Longrightarrow> sid \<in> S \<Longrightarrow> within S (store_pending sid ps t) rows"
  using omap_keys_erase_subset [of sid "dt_pending t"]
  by (auto simp: within_def store_pending_def omap_keys_put)

lemma within_take: "within S t rows \<Longrightarrow> sid \<in> S \<Longrightarrow> within S (take_question sid key t) rows"
  using within_store [of S t rows sid "erase_question key (session_pending sid t)"]
  by (simp add: take_question_def within_def)

lemma within_cong: "within S t rows \<Longrightarrow> dt_pending t' = dt_pending t \<Longrightarrow> within S t' rows"
  by (simp add: within_def)

lemma within_append: "within S t (rows @ [r]) \<longleftrightarrow> within S t rows \<and> dr_session_id r \<in> S"
  by (auto simp: within_def)

lemma query_result_session [simp]: "dr_session_id (query_result p observed reason) = qk_session_id (tx_key p)"
  by (simp add: query_result_def)

lemma found_session:
  "pending_shape c (dt_pending t) \<Longrightarrow> find_question key (session_pending sid t) = Some p \<Longrightarrow>
     qk_session_id (tx_key p) = sid"
  using pending_shape_find [of c t sid] find_question_Some(1) by (fastforce simp: list_ok_def)

lemma charge_result_within: "charge_result t = Some t1 \<Longrightarrow> within S t rows \<Longrightarrow> within S t1 rows"
  by (erule within_cong [OF _ charge_resultD(2)])

lemma next_id_within: "dns_next_id t = (i, t1) \<Longrightarrow> within S t rows \<Longrightarrow> within S t1 rows"
  by (erule within_cong [OF _ dns_next_idD(2)])

definition call_within :: "u64 set \<Rightarrow> dns_outcome \<Rightarrow> bool" where
  "call_within S r \<longleftrightarrow> (case r of (e, t, rows) \<Rightarrow> within S t rows)"

lemma call_within [simp]: "call_within S (e, t, rows) = within S t rows"
  by (simp add: call_within_def)

lemma dns_damaged_within:
  "within S t rows \<Longrightarrow> sid \<in> S \<Longrightarrow> pending_shape c (dt_pending t) \<Longrightarrow>
     call_within S (dns_damaged sid key status resp observed t rows)"
  by (auto simp: dns_damaged_def within_append found_session intro: within_take charge_result_within split: option.split)

lemma dns_unsupported_within:
  "within S t rows \<Longrightarrow> sid \<in> S \<Longrightarrow> call_within S (dns_unsupported sid dir parsed complete_at observed t rows)"
  by (auto simp: dns_unsupported_def within_append Let_def split: option.split prod.split
      intro: charge_result_within next_id_within)

lemma dns_query_within:
  assumes "within S t rows" "sid \<in> S"
  shows "call_within S (dns_query sid key display complete_at t rows)"
proof -
  have "within S t2 rows" if "charge_pending t = Some t1" "dns_next_id t1 = (i, t2)" for t1 i t2
  proof -
    have "dt_pending t2 = dt_pending t" using that dns_next_idD(2) [OF that(2)] by (auto simp: charge_pending_def)
    then show ?thesis by (rule within_cong [OF assms(1)])
  qed
  then show ?thesis
    using assms by (auto simp: dns_query_def Let_def split: option.split prod.split intro: within_store)
qed

lemma dns_response_within:
  assumes "within S t rows" "sid \<in> S"
  shows "call_within S (dns_response sid dir key parsed complete_at observed t rows)"
proof -
  have "dr_session_id (matched_response p tr complete_at (response_base sid dir parsed complete_at observed)) = sid" for p tr
    by (simp add: matched_response_def response_base_def Let_def)
  moreover have "dr_session_id (response_base sid dir parsed complete_at observed) = sid"
    by (simp add: response_base_def Let_def)
  ultimately show ?thesis
    using assms by (auto simp: dns_response_def within_append Let_def split: option.split prod.split
        intro: charge_result_within next_id_within within_take)
qed

lemma dns_on_message_within:
  assumes "within S t rows" "sid \<in> S" "pending_shape c (dt_pending t)"
    "dns_on_message sid dir body complete complete_at observed t (Some rows) = (e, t', Some rs)"
  shows "within S t' rs"
proof -
  have "call_within S (dns_keyed_message sid dir status parsed complete_at observed t rows)" for status parsed
    using dns_damaged_within [OF assms(1-3)] dns_unsupported_within [OF assms(1,2)]
      dns_query_within [OF assms(1,2)] dns_response_within [OF assms(1,2)] assms(1)
    by (auto simp: dns_keyed_message_def Let_def split: option.split)
  from this [of "fst (parse_dns_message body complete)" "snd (parse_dns_message body complete)"] assms(1,4)
  show ?thesis
    by (auto simp: dns_on_message_def returning_def call_within_def split: if_splits prod.splits)
qed

lemma expire_pending_within:
  assumes "expire_pending P observed reason ps t rows = (e, ps', t', rows')" "within S t rows"
    "\<forall>p \<in> set ps. qk_session_id (tx_key p) \<in> S"
  shows "within S t' rows'"
  using assms
proof (induction P observed reason ps t rows arbitrary: e ps' t' rows' rule: expire_pending.induct)
  case (2 P observed reason p ps t rows)
  show ?case
  proof (cases "P p")
    case False
    with 2 show ?thesis by (auto split: prod.splits)
  next
    case True
    show ?thesis
    proof (cases "charge_result t")
      case None
      with True 2 show ?thesis by auto
    next
      case (Some t1)
      have "within S (release_pending 1 t1) (rows @ [query_result p observed reason])"
        using "2.prems"(2,3) charge_resultD(2) [OF Some] by (simp add: within_append) (simp add: within_def)
      with 2 True Some show ?thesis by auto
    qed
  qed
qed auto

lemma expire_all_within:
  assumes "expire_all w m t rows = (e, m', t', rows')" "within S t rows" "pending_shape c m" "set (omap_keys m) \<subseteq> S"
  shows "within S t' rows'"
  using assms
proof (induction w m t rows arbitrary: e m' t' rows' rule: expire_all.induct)
  case (2 w sid ps m t rows)
  obtain e1 ps1 t1 rows1 where head:
      "expire_pending (due w) w ''response_not_observed_by_deadline'' ps t rows = (e1, ps1, t1, rows1)"
    by (metis prod.exhaust)
  have ok: "list_ok c sid ps" "sid \<in> S" "pending_shape c m" "set (omap_keys m) \<subseteq> S"
    using "2.prems"(3,4) by (auto simp: pending_shape_def omap_wf_Cons omap_keys_def)
  then have "within S t1 rows1"
    by (intro expire_pending_within [OF head "2.prems"(2)]) (simp add: list_ok_def)
  with "2.IH" [OF head [symmetric] refl refl] "2.prems"(1) ok head show ?case
    by (auto split: if_splits prod.splits)
qed auto

lemma expire_all_keys: "expire_all w m t rows = (e, m', t', rows') \<Longrightarrow> set (omap_keys m') \<subseteq> set (omap_keys m)"
proof (induction w m t rows arbitrary: e m' t' rows' rule: expire_all.induct)
  case (2 w sid ps m t rows)
  obtain e1 ps1 t1 rows1 where head:
      "expire_pending (due w) w ''response_not_observed_by_deadline'' ps t rows = (e1, ps1, t1, rows1)"
    by (metis prod.exhaust)
  obtain e2 m2 t2 rows2 where tail: "expire_all w m t1 rows1 = (e2, m2, t2, rows2)" by (metis prod.exhaust)
  have "e1 = E_OK \<Longrightarrow> set (omap_keys m2) \<subseteq> set (omap_keys m)"
    using "2.IH" [OF head [symmetric] refl refl _ tail] by simp
  then show ?case
    using "2.prems" head tail by (auto simp: omap_keys_Cons split: if_splits)
qed auto

lemma dns_on_response_path_gap_within:
  assumes "within S t rows" "sid \<in> S" "pending_shape c (dt_pending t)"
    "dns_on_response_path_gap sid dir observed t (Some rows) = (e, t', Some rs)"
  shows "within S t' rs"
proof (cases "sid = 0 \<or> omap_find (dt_pending t) sid = None")
  case True
  with assms show ?thesis by (auto simp: dns_on_response_path_gap_def split: if_splits)
next
  case False
  then obtain ps where found: "omap_find (dt_pending t) sid = Some ps" by auto
  define P :: "dns_transaction \<Rightarrow> bool" where "P = (\<lambda>p. qk_query_direction (tx_key p) \<noteq> dir)"
  obtain e1 ps1 t1 rows1 where ex: "expire_pending P observed ''response_path_gap'' ps t rows = (e1, ps1, t1, rows1)"
    by (metis prod.exhaust)
  have "\<forall>p \<in> set ps. qk_session_id (tx_key p) \<in> S"
    using pending_shape_find [OF assms(3), of sid] found assms(2) by (simp add: session_pending_def list_ok_def)
  then have "within S t1 rows1" by (rule expire_pending_within [OF ex assms(1)])
  with assms(2,4) False found ex show ?thesis
    by (auto simp: dns_on_response_path_gap_def P_def intro: within_store)
qed

lemma dns_on_capture_watermark_within:
  assumes "within S t rows" "pending_shape c (dt_pending t)"
    "dns_on_capture_watermark w t (Some rows) = (e, t', Some rs)"
  shows "within S t' rs"
proof (cases "case dt_watermark_ns t of None \<Rightarrow> False | Some w0 \<Rightarrow> w \<le> w0")
  case True
  with assms show ?thesis by (auto simp: dns_on_capture_watermark_def split: option.splits)
next
  case False
  obtain e1 m1 t1 rows1 where ex: "expire_all w (dt_pending t) (t\<lparr>dt_watermark_ns := Some w\<rparr>) rows = (e1, m1, t1, rows1)"
    by (metis prod.exhaust)
  have w: "within S (t\<lparr>dt_watermark_ns := Some w\<rparr>) rows" "set (omap_keys (dt_pending t)) \<subseteq> S"
    using assms(1) by (simp_all add: within_def)
  note keys = expire_all_keys [OF ex]
  with expire_all_within [OF ex w(1) assms(2) w(2)] assms(3) False ex w(2) keys show ?thesis
    by (auto simp: dns_on_capture_watermark_def within_def)
qed

lemma dns_on_session_end_within:
  assumes "within S t rows" "sid \<in> S" "pending_shape c (dt_pending t)"
    "dns_on_session_end sid observed t (Some rows) = (E_OK, t', Some rs)"
  shows "within S t' rs \<and> sid \<notin> set (omap_keys (dt_pending t'))"
proof (cases "omap_find (dt_pending t) sid")
  case None
  with assms show ?thesis by (auto simp: dns_on_session_end_def omap_find_keys split: if_splits)
next
  case (Some ps)
  obtain e1 t1 rows1 where ex: "end_pending observed ps t rows = (e1, t1, rows1)" by (metis prod.exhaust)
  note spec = end_pending_spec [OF ex]
  have r: "e1 = E_OK" "rs = rows1" "dt_pending t' = omap_erase sid (dt_pending t)"
    using assms(4) Some ex spec by (auto simp: dns_on_session_end_def same_tracker_def split: if_splits)
  have "\<forall>p \<in> set ps. qk_session_id (tx_key p) \<in> S"
    using pending_shape_find [OF assms(3), of sid] Some assms(2) by (simp add: session_pending_def list_ok_def)
  then have "dr_session_id ` set rs \<subseteq> S" using spec r assms(1) by (auto simp: within_def)
  moreover have "omap_wf (dt_pending t)" using assms(3) by (simp add: pending_shape_def)
  ultimately show ?thesis
    using assms(1) r om.keys_erase [of "dt_pending t" sid] by (simp add: within_def) blast
qed

section \<open>The framer's share of the ledger\<close>

lemma dns_inv_lend:
  "dns_inv base hist t rows \<Longrightarrow> opt_charge n (dt_budget t) = Some b \<Longrightarrow>
     dns_inv (base + n) hist (t\<lparr>dt_budget := b\<rparr>) rows"
  using backed_charge [of "dt_budget t" _ base n b]
  by (auto simp: dns_inv_def backed_shift [symmetric] opt_charge_def split: option.splits)

lemma dns_inv_return:
  "dns_inv (base + n) hist t rows \<Longrightarrow> dns_inv base hist (t\<lparr>dt_budget := opt_refund n (dt_budget t)\<rparr>) rows"
  using backed_refund [of "dt_budget t" _ n base]
  by (auto simp: dns_inv_def backed_shift [symmetric] opt_refund_def)

lemma dns_inv_no_ledger: "dt_budget t = None \<Longrightarrow> dns_inv base hist t rows \<longleftrightarrow> dns_inv base' hist t rows"
  by (simp add: dns_inv_def backed_def)

text \<open>A direction between two calls, and the ledger with a direction at hand.\<close>

definition stream_ok :: "dns_stream \<Rightarrow> bool" where
  "stream_ok st \<longleftrightarrow> length (ds_prefix st) \<le> 2 \<and> ds_frame_length st < 65536 \<and>
     (length (ds_prefix st) < 2 \<longrightarrow> ds_frame st = [] \<and> ds_frame_charge st = 0) \<and>
     length (ds_frame st) \<le> ds_frame_length st"

text \<open>\<open>S\<close> are the sessions known, \<open>c\<close> is the configuration.\<close>

definition stream_inv :: "nat \<Rightarrow> u64 multiset \<Rightarrow> u64 set \<Rightarrow> dns_config \<Rightarrow> dns_stream \<Rightarrow> dns_tracker \<Rightarrow>
    dns_result list option \<Rightarrow> bool" where
  "stream_inv base hist S c st t rows \<longleftrightarrow> (\<exists>rs. rows = Some rs \<and>
     dns_inv (base + ds_frame_charge st) hist t rs \<and> within S t rs) \<and> stream_ok st \<and> dt_config t = c"

lemma forget_frame_inv:
  assumes "stream_inv base hist S c st t rows" "forget_frame st0 t = (st1, t1)"
    "ds_frame_charge st0 = ds_frame_charge st" "ds_prefix st0 = []" "ds_frame_length st0 < 65536"
  shows "stream_inv base hist S c (st1\<lparr>ds_clock := k\<rparr>) t1 rows" "stream_inv base hist S c st1 t1 rows"
  using assms dns_inv_return [of base "ds_frame_charge st" hist t]
  by (auto simp: stream_inv_def forget_frame_def stream_ok_def)

definition round_inv :: "nat \<Rightarrow> u64 multiset \<Rightarrow> u64 set \<Rightarrow> dns_config \<Rightarrow> dns_round \<Rightarrow> bool" where
  "round_inv base hist S c r \<longleftrightarrow> (case r of
     Inl (e, st, t, rows) \<Rightarrow> stream_inv base hist S c st t rows \<and> e \<noteq> E_UNCAUGHT
   | Inr (bs, st, t, rows) \<Rightarrow> stream_inv base hist S c st t rows)"

lemma open_frame_cases:
  assumes "\<not> length (ds_prefix st) < 2"
  obtains len where "len < 65536" "open_frame rest st t rows =
    (if len = 0 then Inl (E_OK, st\<lparr>ds_frame_length := len, ds_disabled := True\<rparr>, t, rows)
     else case opt_charge len (dt_budget t) of None \<Rightarrow> Inl (E_NOSPC, st\<lparr>ds_frame_length := len\<rparr>, t, rows)
     | Some b \<Rightarrow> Inr (rest, st\<lparr>ds_frame_length := len, ds_frame_charge := (if dt_budget t = None then 0 else len)\<rparr>,
         t\<lparr>dt_budget := b\<rparr>, rows))"
proof (rule that)
  let ?len = "unat (push_bit 8 (ucast (ds_prefix st ! 0)) OR ucast (ds_prefix st ! 1) :: u16)"
  show "?len < 65536" using unsigned_less [of "push_bit 8 (ucast (ds_prefix st ! 0)) OR ucast (ds_prefix st ! 1) :: u16"] by simp
  show "open_frame rest st t rows =
    (if ?len = 0 then Inl (E_OK, st\<lparr>ds_frame_length := ?len, ds_disabled := True\<rparr>, t, rows)
     else case opt_charge ?len (dt_budget t) of None \<Rightarrow> Inl (E_NOSPC, st\<lparr>ds_frame_length := ?len\<rparr>, t, rows)
     | Some b \<Rightarrow> Inr (rest, st\<lparr>ds_frame_length := ?len, ds_frame_charge := (if dt_budget t = None then 0 else ?len)\<rparr>,
         t\<lparr>dt_budget := b\<rparr>, rows))"
    unfolding open_frame_def Let_def using assms by (simp only: if_False)
qed

lemma open_frame_inv:
  assumes "stream_inv base hist S c st t rows" "ds_frame st = []" "ds_frame_charge st = 0"
  shows "round_inv base hist S c (open_frame rest st t rows)"
proof (cases "length (ds_prefix st) < 2")
  case True
  with assms show ?thesis by (simp add: round_inv_def open_frame_def)
next
  case False
  obtain len where len: "len < 65536" and eq: "open_frame rest st t rows =
    (if len = 0 then Inl (E_OK, st\<lparr>ds_frame_length := len, ds_disabled := True\<rparr>, t, rows)
     else case opt_charge len (dt_budget t) of None \<Rightarrow> Inl (E_NOSPC, st\<lparr>ds_frame_length := len\<rparr>, t, rows)
     | Some b \<Rightarrow> Inr (rest, st\<lparr>ds_frame_length := len, ds_frame_charge := (if dt_budget t = None then 0 else len)\<rparr>,
         t\<lparr>dt_budget := b\<rparr>, rows))"
    using open_frame_cases [OF False] by blast
  obtain rs where rs: "rows = Some rs" "dns_inv base hist t rs" "within S t rs"
      "dt_config t = c" "length (ds_prefix st) \<le> 2"
    using assms by (auto simp: stream_inv_def stream_ok_def)
  show ?thesis
  proof (cases "len = 0 \<or> opt_charge len (dt_budget t) = None")
    case True
    with False assms rs len show ?thesis unfolding eq
      by (auto simp: round_inv_def stream_inv_def stream_ok_def split: option.split)
  next
    case ok: False
    then obtain b where b: "opt_charge len (dt_budget t) = Some b" by auto
    have "(b = None) = (dt_budget t = None)" using b by (auto simp: opt_charge_def split: option.splits)
    then have "dns_inv (base + (if dt_budget t = None then 0 else len)) hist (t\<lparr>dt_budget := b\<rparr>) rs"
      using dns_inv_lend [OF rs(2) b] dns_inv_no_ledger [of "t\<lparr>dt_budget := b\<rparr>" base hist rs "base + len"]
      by (cases "dt_budget t = None") (simp_all, auto)
    then have "stream_inv base hist S c (st\<lparr>ds_frame_length := len,
        ds_frame_charge := (if dt_budget t = None then 0 else len)\<rparr>) (t\<lparr>dt_budget := b\<rparr>) rows"
      using False assms rs len by (simp add: stream_inv_def stream_ok_def)
    moreover have "open_frame rest st t rows = Inr (rest, st\<lparr>ds_frame_length := len,
        ds_frame_charge := (if dt_budget t = None then 0 else len)\<rparr>, t\<lparr>dt_budget := b\<rparr>, rows)"
      unfolding eq using ok by (simp only: b option.case if_False de_Morgan_disj)
    ultimately show ?thesis by (simp only: round_inv_def sum.case prod.case)
  qed
qed

lemma fill_prefix_inv:
  assumes "stream_inv base hist S c st t rows"
  shows "round_inv base hist S c (fill_prefix rd bs st t rows)"
proof (cases "length (ds_prefix st) < 2")
  case True
  define n where "n = min (2 - length (ds_prefix st)) (length bs)"
  have "n \<le> 2 - length (ds_prefix st)" by (simp add: n_def)
  then have "stream_inv base hist S c (st\<lparr>ds_prefix := ds_prefix st @ take n bs,
      ds_clock := observe_time (rd_captured_at_ns rd) (ds_clock st)\<rparr>) t rows"
    "ds_frame st = []" "ds_frame_charge st = 0"
    using assms True by (auto simp: stream_inv_def stream_ok_def)
  then show ?thesis
    using True by (auto simp: fill_prefix_def Let_def n_def [symmetric] intro!: open_frame_inv)
next
  case False
  with assms show ?thesis by (simp add: fill_prefix_full round_inv_def)
qed

lemma close_frame_inv:
  assumes "stream_inv base hist S c st t rows" "rd_session_id rd \<in> S"
  shows "round_inv base hist S c (close_frame rd rest st t rows)"
proof (cases "length (ds_frame st) = ds_frame_length st")
  case False
  with assms show ?thesis by (simp add: round_inv_def close_frame_def)
next
  case True
  let ?at = "clock_reading (ds_clock st)"
  let ?now = "case clock_reading (ds_clock st) of None \<Rightarrow> rd_observed_at_ns rd | Some c \<Rightarrow> c"
  obtain e t1 rows1 where call: "dns_on_message (rd_session_id rd) (rd_direction rd) (Bytes (ds_frame st)) True ?at ?now t rows = (e, t1, rows1)"
    by (metis prod.exhaust)
  obtain rs where rs: "rows = Some rs" "dns_inv (base + ds_frame_charge st) hist t rs" "within S t rs"
    using assms(1) by (auto simp: stream_inv_def)
  from dns_on_message_inv [OF rs(2) call [unfolded rs(1)]] obtain rs1 where rs1: "rows1 = Some rs1"
      "dns_inv (base + ds_frame_charge st) hist t1 rs1" "e \<noteq> E_UNCAUGHT" "dt_config t1 = dt_config t"
    by (auto simp: dns_kept_def)
  have "within S t1 rs1"
    by (rule dns_on_message_within [OF rs(3) assms(2) _ call [unfolded rs(1) rs1(1)]])
      (use rs(2) in \<open>auto simp: dns_inv_def\<close>)
  then have inv: "stream_inv base hist S c st t1 rows1"
    using assms(1) rs1 by (auto simp: stream_inv_def)
  show ?thesis
  proof (cases "e = E_OK")
    case False
    with inv call True rs1 show ?thesis by (simp add: round_inv_def close_frame_def Let_def)
  next
    case ok: True
    obtain st2 t2 where ff: "forget_frame (st\<lparr>ds_prefix := [], ds_frame_length := 0\<rparr>) t1 = (st2, t2)" by fastforce
    from forget_frame_inv(1) [OF inv ff] have "stream_inv base hist S c (st2\<lparr>ds_clock := (True, None)\<rparr>) t2 rows1"
      by simp
    then show ?thesis using call True ok ff by (simp add: round_inv_def close_frame_def Let_def)
  qed
qed

lemma fill_frame_inv:
  assumes "stream_inv base hist S c st t rows" "rd_session_id rd \<in> S" "\<not> length (ds_prefix st) < 2"
  shows "round_inv base hist S c (fill_frame rd bs st t rows)"
proof -
  define n where "n = min (ds_frame_length st - length (ds_frame st)) (length bs)"
  have "n \<le> ds_frame_length st - length (ds_frame st)" by (simp add: n_def)
  then have "stream_inv base hist S c (st\<lparr>ds_frame := ds_frame st @ take n bs, ds_clock := k\<rparr>) t rows" for k
    using assms by (auto simp: stream_inv_def stream_ok_def)
  then show ?thesis
    unfolding fill_frame_def Let_def n_def [symmetric] by (intro close_frame_inv assms(2))
qed

lemma dns_frame_step_inv:
  assumes "stream_inv base hist S c st t rows" "rd_session_id rd \<in> S"
  shows "round_inv base hist S c (dns_frame_step rd bs st t rows)"
proof (cases "fill_prefix rd bs st t rows")
  case (Inl r)
  with fill_prefix_inv [OF assms(1), of rd bs] show ?thesis by (simp add: dns_frame_step_def)
next
  case (Inr x)
  obtain bs1 st1 t1 rows1 where x: "x = (bs1, st1, t1, rows1)" by (metis prod.exhaust)
  have "stream_inv base hist S c st1 t1 rows1"
    using fill_prefix_inv [OF assms(1), of rd bs] Inr x by (simp add: round_inv_def)
  moreover have "\<not> length (ds_prefix st1) < 2"
    using Inr x by (auto simp: fill_prefix_def Let_def split: if_splits dest!: open_frame_Inr)
  ultimately show ?thesis using Inr x assms(2) by (simp add: dns_frame_step_def fill_frame_inv)
qed

lemma dns_consume_inv:
  "dns_consume rd bs st t rows = (e, st', t', rows') \<Longrightarrow> stream_inv base hist S c st t rows \<Longrightarrow> rd_session_id rd \<in> S \<Longrightarrow>
     stream_inv base hist S c st' t' rows' \<and> e \<noteq> E_UNCAUGHT"
proof (induction rd bs st t rows rule: dns_consume.induct)
  case (1 rd bs st t rows)
  note round = dns_frame_step_inv [OF "1.prems"(2,3), of bs]
  show ?case
  proof (cases "bs = [] \<or> ds_disabled st")
    case True
    with "1.prems" show ?thesis by (auto simp: dns_consume.simps [of rd bs])
  next
    case False
    show ?thesis
    proof (cases "dns_frame_step rd bs st t rows")
      case (Inl r)
      with round False "1.prems"(1) show ?thesis by (auto simp: dns_consume.simps [of rd bs] round_inv_def)
    next
      case (Inr x)
      obtain bs1 st1 t1 rows1 where x: "x = (bs1, st1, t1, rows1)" by (metis prod.exhaust)
      from "1.IH" [OF False Inr [unfolded x] refl refl refl] round False "1.prems"(1,3) Inr show ?thesis
        by (simp add: dns_consume.simps [of rd bs] round_inv_def x)
    qed
  qed
qed

section \<open>A readable stream\<close>

lemma dns_on_response_path_gap_stream:
  assumes "stream_inv base hist S c st t rows" "sid \<in> S"
    "dns_on_response_path_gap sid dir observed t rows = (e, t', rows')"
  shows "stream_inv base hist S c st t' rows' \<and> e \<noteq> E_UNCAUGHT"
proof -
  obtain rs where rs: "rows = Some rs" "dns_inv (base + ds_frame_charge st) hist t rs" "within S t rs"
    "stream_ok st" "dt_config t = c"
    using assms(1) by (auto simp: stream_inv_def)
  from dns_on_response_path_gap_inv [OF rs(2) assms(3) [unfolded rs(1)]] obtain rs' where rs': "rows' = Some rs'"
      "dns_inv (base + ds_frame_charge st) hist t' rs'" "e \<noteq> E_UNCAUGHT" "dt_config t' = dt_config t"
    by (auto simp: dns_kept_def)
  have "within S t' rs'"
    by (rule dns_on_response_path_gap_within [OF rs(3) assms(2) _ assms(3) [unfolded rs(1) rs'(1)]])
      (use rs(2) in \<open>auto simp: dns_inv_def\<close>)
  with rs rs' show ?thesis by (auto simp: stream_inv_def)
qed

lemma dns_stream_event_inv:
  assumes "stream_inv base hist S c st t rows" "sid \<in> S"
    "dns_stream_event ctx sid ev st t rows = (e, st', t', rows')"
  shows "stream_inv base hist S c st' t' rows' \<and> e \<noteq> E_UNCAUGHT"
proof (cases "ev_kind ev")
  case EventData
  let ?rd = "\<lparr>rd_session_id = sid, rd_direction = cx_direction ctx, rd_captured_at_ns = ev_captured_at_ns ev,
    rd_observed_at_ns = cx_observed_at_ns ctx\<rparr>"
  obtain e1 st1 t1 rows1 where c: "(if ds_disabled st then (E_OK, st, t, rows)
      else consume_dns_data ?rd (ev_bytes ev) st t rows) = (e1, st1, t1, rows1)" by (metis prod.exhaust)
  have "stream_inv base hist S c st1 t1 rows1 \<and> e1 \<noteq> E_UNCAUGHT"
    using c assms(1,2) by (auto simp: consume_dns_data_def split: if_splits option.splits dest!: dns_consume_inv)
  with assms(3) c EventData show ?thesis by (auto simp: dns_stream_event_def split: if_splits)
next
  case EventGap
  obtain st1 t1 where ff: "forget_frame (st\<lparr>ds_disabled := True, ds_prefix := []\<rparr>) t = (st1, t1)" by fastforce
  have "ds_frame_length st < 65536" using assms(1) by (simp add: stream_inv_def stream_ok_def)
  with forget_frame_inv(2) [OF assms(1) ff] have "stream_inv base hist S c st1 t1 rows" by simp
  moreover obtain e2 t2 rows2 where gap:
      "dns_on_response_path_gap sid (cx_direction ctx) (cx_observed_at_ns ctx) t1 rows = (e2, t2, rows2)"
    by (metis prod.exhaust)
  ultimately show ?thesis
    using assms(3) EventGap ff dns_on_response_path_gap_stream [OF _ assms(2) gap]
    by (simp add: dns_stream_event_def)
next
  case EventEnd
  obtain st1 t1 where ff: "forget_frame (st\<lparr>ds_disabled := True, ds_prefix := []\<rparr>) t = (st1, t1)" by fastforce
  have "ds_frame_length st < 65536" using assms(1) by (simp add: stream_inv_def stream_ok_def)
  with forget_frame_inv(2) [OF assms(1) ff] have "stream_inv base hist S c st1 t1 rows" by simp
  with assms(3) EventEnd ff show ?thesis by (auto simp: dns_stream_event_def)
qed

lemma dns_stream_events_inv:
  "dns_stream_events ctx sid evs st t rows = (e, st', t', rows') \<Longrightarrow> stream_inv base hist S c st t rows \<Longrightarrow> sid \<in> S \<Longrightarrow>
     stream_inv base hist S c st' t' rows' \<and> e \<noteq> E_UNCAUGHT"
proof (induction ctx sid evs st t rows rule: dns_stream_events.induct)
  case (2 ctx sid ev evs st t rows)
  obtain e1 st1 t1 rows1 where c: "dns_stream_event ctx sid ev st t rows = (e1, st1, t1, rows1)" by (metis prod.exhaust)
  from dns_stream_event_inv [OF "2.prems"(2,3) c] "2.IH" [OF c [symmetric] refl refl] "2.prems" c show ?case
    by (auto split: if_splits)
qed auto

section \<open>The directions\<close>

definition framer_share :: "dns_framer \<Rightarrow> nat" where
  "framer_share fr = omap_sum (\<lambda>st. direction_charge + ds_frame_charge st) fr"

definition framer_ok :: "u64 set \<Rightarrow> dns_framer \<Rightarrow> bool" where
  "framer_ok S fr \<longleftrightarrow> omap_wf fr \<and> fst ` set (omap_keys fr) \<subseteq> S \<and> (\<forall>(key, st) \<in> set fr. stream_ok st)"

definition framer_inv :: "nat \<Rightarrow> u64 multiset \<Rightarrow> u64 set \<Rightarrow> dns_config \<Rightarrow> dns_framer \<Rightarrow> dns_tracker \<Rightarrow>
    dns_result list option \<Rightarrow> bool" where
  "framer_inv base hist S c fr t rows \<longleftrightarrow> (\<exists>rs. rows = Some rs \<and> dns_inv (base + framer_share fr) hist t rs \<and>
     within S t rs) \<and> framer_ok S fr \<and> dt_config t = c"

lemma framer_ok_find: "framer_ok S fr \<Longrightarrow> omap_find fr key = Some st \<Longrightarrow> stream_ok st"
  using omap_find_in [of fr key st] by (auto simp: framer_ok_def)

lemma framer_ok_put: "framer_ok S fr \<Longrightarrow> stream_ok st \<Longrightarrow> fst key \<in> S \<Longrightarrow> framer_ok S (omap_put key st fr)"
  using omap_put_subset [of key st fr] by (fastforce simp: framer_ok_def om.wf_put omap_keys_put)

lemma framer_ok_erase: "framer_ok S fr \<Longrightarrow> framer_ok S (omap_erase key fr)"
  using omap_erase_subset [of key fr] omap_keys_erase_subset [of key fr] by (fastforce simp: framer_ok_def om.wf_erase)

lemma erase_direction_inv:
  assumes "framer_inv base hist S c fr t rows" "erase_direction key fr t = (fr', t')"
  shows "framer_inv base hist S c fr' t' rows \<and> set (omap_keys fr') = set (omap_keys fr) - {key} \<and>
    dt_pending t' = dt_pending t"
proof (cases "omap_find fr key")
  case None
  with assms show ?thesis by (auto simp: erase_direction_def omap_find_keys)
next
  case (Some st)
  obtain rs where rs: "rows = Some rs" "dns_inv (base + framer_share fr) hist t rs" "within S t rs" "framer_ok S fr"
      "dt_config t = c" using assms(1) by (auto simp: framer_inv_def)
  define t1 where "t1 = snd (forget_frame st t)"
  have r: "fr' = omap_erase key fr" "t' = t1\<lparr>dt_budget := opt_refund direction_charge (dt_budget t1)\<rparr>"
    using assms(2) Some by (auto simp: erase_direction_def t1_def split: prod.splits)
  have "framer_share fr = framer_share fr' + direction_charge + ds_frame_charge st"
    using omap_sum_erase [OF Some, of "\<lambda>st. direction_charge + ds_frame_charge st"] by (simp add: r framer_share_def)
  then have "dns_inv (base + framer_share fr' + direction_charge + ds_frame_charge st) hist t rs"
    using rs(2) by (simp add: ac_simps)
  from dns_inv_return [OF this]
  have "dns_inv (base + framer_share fr' + direction_charge) hist t1 rs"
    using \<open>dns_inv (base + framer_share fr' + direction_charge + ds_frame_charge st) hist t rs\<close>
    by (auto simp: t1_def forget_frame_def)
  from dns_inv_return [OF this] have "dns_inv (base + framer_share fr') hist t' rs" by (simp add: r)
  moreover have "dt_pending t' = dt_pending t" "dt_config t' = dt_config t" by (simp_all add: r t1_def forget_frame_def)
  ultimately show ?thesis
    using rs framer_ok_erase [OF rs(4), of key] om.keys_erase [of fr key]
    by (auto simp: framer_inv_def r within_cong framer_ok_def)
qed

lemma dns_on_readable_inv:
  assumes inv: "framer_inv base hist S c fr t (Some rs)" and sid: "\<And>sid. cx_session ctx = Some sid \<Longrightarrow> sid \<in> S"
    and run: "dns_on_readable ctx evs fr t (Some rs) = (e, fr', t', rows')"
  shows "framer_inv base hist S c fr' t' rows' \<and> e \<noteq> E_UNCAUGHT"
proof (cases "cx_session ctx = None \<or> cx_session ctx = Some 0")
  case True
  with inv run show ?thesis by (auto simp: dns_on_readable_def)
next
  case False
  then obtain sid where s: "cx_session ctx = Some sid" "sid \<noteq> 0" "sid \<in> S" using sid by auto
  let ?key = "(sid, cx_direction ctx)"
  have i: "dns_inv (base + framer_share fr) hist t rs" "within S t rs" "framer_ok S fr" "dt_config t = c"
    using inv by (auto simp: framer_inv_def)
  have wf: "omap_wf fr" using i(3) by (simp add: framer_ok_def)
  let ?found = "case omap_find fr ?key of Some st \<Rightarrow> Some (st, t)
    | None \<Rightarrow> map_option (\<lambda>b. (new_dns_stream, t\<lparr>dt_budget := b\<rparr>)) (opt_charge direction_charge (dt_budget t))"
  show ?thesis
  proof (cases ?found)
    case None
    with inv run s show ?thesis by (auto simp: dns_on_readable_def)
  next
    case (Some x)
    obtain st t1 where x: "x = (st, t1)" by fastforce
    let ?rest = "omap_erase ?key fr"
    let ?base = "base + framer_share ?rest + direction_charge"
    let ?st = "if cx_origin ctx \<noteq> OriginSyn then st\<lparr>ds_disabled := True\<rparr> else st"
    have start: "stream_inv ?base hist S c ?st t1 (Some rs)"
    proof (cases "omap_find fr ?key")
      case None
      with Some x obtain b where b: "opt_charge direction_charge (dt_budget t) = Some b" "st = new_dns_stream"
          "t1 = t\<lparr>dt_budget := b\<rparr>" by auto
      have "?rest = fr" using None by (rule omap_erase_absent)
      with dns_inv_lend [OF i(1) b(1)] i b show ?thesis
        by (simp add: stream_inv_def stream_ok_def new_dns_stream_def)
    next
      case found: (Some st')
      then have st: "st = st'" "t1 = t" using Some x by auto
      have "framer_share fr = framer_share ?rest + direction_charge + ds_frame_charge st'"
        using omap_sum_erase [OF found, of "\<lambda>st. direction_charge + ds_frame_charge st"] by (simp add: framer_share_def)
      with i framer_ok_find [OF i(3) found] show ?thesis
        by (auto simp: st stream_inv_def stream_ok_def ac_simps)
    qed
    obtain e2 st2 t2 rows2 where ev: "dns_stream_events ctx sid evs ?st t1 (Some rs) = (e2, st2, t2, rows2)"
      by (metis prod.exhaust)
    from dns_stream_events_inv [OF ev start s(3)] have st2: "stream_inv ?base hist S c st2 t2 rows2" "e2 \<noteq> E_UNCAUGHT" by auto
    let ?fr = "omap_put ?key st2 fr"
    have share: "framer_share ?fr = framer_share ?rest + direction_charge + ds_frame_charge st2"
      using omap_sum_put_erase [OF wf, of "\<lambda>st. direction_charge + ds_frame_charge st" ?key st2]
      by (simp add: framer_share_def)
    have put: "framer_inv base hist S c ?fr t2 rows2"
      using st2(1) framer_ok_put [OF i(3), of st2 ?key] s(3) by (auto simp: framer_inv_def stream_inv_def share ac_simps)
    have body: "(e, fr', t', rows') = (let fr2 = ?fr in
        if e2 \<noteq> E_OK then (e2, fr2, t2, rows2)
        else if ds_disabled st2 \<and> cx_final_drain ctx then
          (case erase_direction ?key fr2 t2 of (fr3, t3) \<Rightarrow> (E_OK, fr3, t3, rows2))
        else (E_OK, fr2, t2, rows2))"
      using run s Some x ev unfolding dns_on_readable_def by (simp add: Let_def)
    show ?thesis
    proof (cases "e2 = E_OK \<and> ds_disabled st2 \<and> cx_final_drain ctx")
      case True
      obtain fr3 t3 where er: "erase_direction ?key ?fr t2 = (fr3, t3)" by fastforce
      with body True erase_direction_inv [OF put er] show ?thesis by (simp add: Let_def)
    next
      case False
      with body put st2(2) show ?thesis by (auto simp: Let_def split: if_splits)
    qed
  qed
qed

lemma dns_framer_abort_settles:
  assumes "dns_ledger (base + framer_share fr) t" "dns_framer_abort fr t = (fr', t')"
  shows "dns_ledger base t' \<and> fr' = [] \<and> dt_next_id t' = dt_next_id t \<and> dt_config t' = dt_config t"
proof -
  let ?step = "\<lambda>(key :: direction_key, st) t. case forget_frame st t of
    (_, t1) \<Rightarrow> t1\<lparr>dt_budget := opt_refund direction_charge (dt_budget t1)\<rparr>"
  have "dns_ledger base (fold ?step fr t) \<and> dt_next_id (fold ?step fr t) = dt_next_id t \<and>
      dt_config (fold ?step fr t) = dt_config t"
    using assms(1)
  proof (induction fr arbitrary: t)
    case Nil
    then show ?case by (simp add: framer_share_def)
  next
    case (Cons x fr)
    obtain key st where x: "x = (key, st)" by fastforce
    have "backed (dt_budget t) (dns_pending_charge * omap_sum length (dt_pending t) + dt_result_charge_bytes t
        + direction_charge + ds_frame_charge st) (base + framer_share fr)"
      using Cons.prems by (simp add: dns_ledger_def framer_share_def x backed_def ac_simps)
    from backed_refund [OF backed_refund [OF this]] backed_refund [OF this]
    have "dns_ledger (base + framer_share fr) (?step x t)"
      using Cons.prems \<open>backed (dt_budget t) _ _\<close>
      by (auto simp: x dns_ledger_def forget_frame_def intro: backed_refund)
    from Cons.IH [OF this] show ?case by (simp add: x forget_frame_def)
  qed
  then show ?thesis using assms(2) by (auto simp: dns_framer_abort_def)
qed

section \<open>Rows leave the module\<close>

lemma emit_loop_spec:
  assumes "emit_loop host ids rows b = (e, b', out)" "backed b c base"
  shows "backed b' c base \<and> (\<exists>n. out = take n rows) \<and> (e = E_OK \<longrightarrow> out = rows)"
  using assms
proof (induction host ids rows b arbitrary: e b' out rule: emit_loop.induct)
  case (1 host ids b)
  then show ?case by auto
next
  case (2 host ids r rs b)
  show ?case
  proof (cases "omap_find ids (dr_session_id r)")
    case None
    with 2 show ?thesis by (auto intro: exI [of _ 0])
  next
    case (Some i)
    obtain e1 b1 where em: "emit_dns_transaction host (id_key i) r b = (e1, b1)" by fastforce
    have b1: "backed b1 c base"
      using em "2.prems"(2) backed_charge [OF "2.prems"(2), of single_row_build_charge]
      by (auto simp: emit_dns_transaction_def intro: backed_refund split: if_splits option.splits)
    show ?thesis
    proof (cases "e1 = E_OK")
      case False
      with em Some "2.prems"(1) b1 show ?thesis by (auto intro: exI [of _ 0])
    next
      case True
      obtain e2 b2 out2 where rest: "emit_loop host ids rs b1 = (e2, b2, out2)" by (metis prod.exhaust)
      with em Some True "2.prems"(1) have r: "e = e2" "b' = b2" "out = r # out2" by auto
      from "2.IH" [OF Some em [symmetric] _ rest b1] True
      have tail: "backed b2 c base \<and> (\<exists>n. out2 = take n rs) \<and> (e2 = E_OK \<longrightarrow> out2 = rs)" by simp
      then obtain n where "out2 = take n rs" by blast
      then have "out = take (Suc n) (r # rs)" by (simp add: r)
      with tail show ?thesis unfolding r by blast
    qed
  qed
qed

text \<open>The module between two callbacks.\<close>

definition dns_known :: "dns_module \<Rightarrow> u64 set" where
  "dns_known m = set (omap_keys (dq_identities m))"

definition dns_module_inv :: "nat \<Rightarrow> dns_config \<Rightarrow> dns_result list \<Rightarrow> dns_module \<Rightarrow> bool" where
  "dns_module_inv base c log m \<longleftrightarrow> omap_wf (dq_identities m) \<and> dt_result_charge_bytes (dq_tracker m) = 0 \<and>
     list_all dns_row_ok log \<and>
     (\<exists>hist. dns_row_ids log \<subseteq># hist \<and>
        framer_inv (base + identity_share (dq_identities m)) hist (dns_known m) c (dq_framer m) (dq_tracker m) (Some []))"

definition dns_module_ledger :: "nat \<Rightarrow> dns_module \<Rightarrow> bool" where
  "dns_module_ledger base m \<longleftrightarrow>
     dns_ledger (base + identity_share (dq_identities m) + framer_share (dq_framer m)) (dq_tracker m)"

lemma dns_module_inv_ledger: "dns_module_inv base c log m \<Longrightarrow> dns_module_ledger base m"
  by (auto simp: dns_module_inv_def dns_module_ledger_def framer_inv_def dest: dns_inv_ledger)

text \<open>Delivering the rows of a call: they are emitted or dropped, and their charge is released.\<close>

lemma deliver_inv:
  assumes inv: "framer_inv (base + identity_share (dq_identities m)) hist S c (dq_framer m) (dq_tracker m) rows"
    and run: "deliver host e rows m = (e', m', out)"
  shows "(\<exists>hist'. hist + dns_row_ids out \<subseteq># hist' \<and>
      framer_inv (base + identity_share (dq_identities m)) hist' S c (dq_framer m) (dq_tracker m') (Some [])) \<and>
    dq_framer m' = dq_framer m \<and> dq_identities m' = dq_identities m \<and> dt_result_charge_bytes (dq_tracker m') = 0 \<and>
    list_all dns_row_ok out \<and> dt_pending (dq_tracker m') = dt_pending (dq_tracker m) \<and>
    dq_finished m' = dq_finished m \<and> dq_aborted m' = dq_aborted m \<and> (e \<noteq> E_OK \<longrightarrow> e' = e)"
proof -
  let ?base = "base + identity_share (dq_identities m) + framer_share (dq_framer m)"
  obtain rs where rs: "rows = Some rs" "dns_inv ?base hist (dq_tracker m) rs" "within S (dq_tracker m) rs"
      "framer_ok S (dq_framer m)" "dt_config (dq_tracker m) = c"
    using inv by (auto simp: framer_inv_def)
  have released: "framer_inv (base + identity_share (dq_identities m)) (hist + dns_row_ids rs) S c (dq_framer m) t'' (Some []) \<and>
      dt_result_charge_bytes t'' = 0 \<and> dt_pending t'' = dt_pending (dq_tracker m)"
    if h: "dns_inv ?base hist t' rs" "dt_pending t' = dt_pending (dq_tracker m)" "dt_config t' = c"
      "t'' = fst (dns_release_results t' (Some rs))" for t' t''
  proof -
    obtain x where x: "dns_release_results t' (Some rs) = (t'', x)" using h(4) by (metis prod.collapse)
    from dns_release_results_inv [OF h(1) x] h(2,3) rs(3,4)
    show ?thesis using x by (auto simp: framer_inv_def within_def dns_release_results_def split: if_splits)
  qed
  show ?thesis
  proof (cases "e = E_OK")
    case False
    with run released [OF rs(2) refl rs(5) refl] rs(1) show ?thesis
      by (auto simp: deliver_def dns_row_ids_def intro!: exI [of _ "hist + dns_row_ids rs"])
  next
    case True
    obtain e1 b out1 where em: "emit_loop host (dq_identities m) rs (dt_budget (dq_tracker m)) = (e1, b, out1)"
      by (metis prod.exhaust)
    let ?t = "(dq_tracker m)\<lparr>dt_budget := b\<rparr>"
    have r: "e' = e1" "m' = m\<lparr>dq_tracker := fst (dns_release_results ?t (Some rs))\<rparr>" "out = out1"
      using run True rs(1) em by (auto simp: deliver_def dns_emit_rows_def)
    have none: "dt_budget (dq_tracker m) = None \<Longrightarrow> b = None"
      using emit_loop_spec [OF em, of 0 0] em by (cases rs) (auto simp: emit_dns_transaction_def split: option.splits)
    have "dns_inv ?base hist ?t rs"
      using rs(2) emit_loop_spec [OF em] none by (auto simp: dns_inv_def)
    note rel = released [OF this _ _ refl]
    have "list_all dns_row_ok out1" using emit_loop_spec [OF em, of _ ?base] rs(2)
      by (auto simp: dns_inv_def list_all_iff dest: in_set_takeD)
    moreover have "dns_row_ids out1 \<subseteq># dns_row_ids rs"
    proof -
      obtain n where "out1 = take n rs" using emit_loop_spec [OF em] rs(2) by (auto simp: dns_inv_def)
      then have "rs = out1 @ drop n rs" by simp
      then have "dns_row_ids rs = dns_row_ids out1 + dns_row_ids (drop n rs)"
        by (metis dns_row_ids_def map_append mset_append)
      then show ?thesis by simp
    qed
    ultimately show ?thesis
      using rel rs(5) True by (auto simp: r intro!: exI [of _ "hist + dns_row_ids rs"])
  qed
qed

section \<open>Callbacks\<close>

lemma framer_inv_ledger:
  "dns_inv base' hist t' rs \<Longrightarrow> framer_inv base hist S c fr t (Some []) \<Longrightarrow> dt_pending t' = dt_pending t \<Longrightarrow>
     dt_config t' = dt_config t \<Longrightarrow> base' = base1 + framer_share fr \<Longrightarrow> rs = [] \<Longrightarrow> framer_inv base1 hist S c fr t' (Some [])"
  by (auto simp: framer_inv_def within_def)

lemma framer_inv_mono: "framer_inv base hist S c fr t rows \<Longrightarrow> S \<subseteq> S' \<Longrightarrow> framer_inv base hist S' c fr t rows"
  by (auto simp: framer_inv_def framer_ok_def intro: within_mono)

lemma dns_inv_rebase:
  "dns_inv base hist t [] \<Longrightarrow> backed b (dns_pending_charge * omap_sum length (dt_pending t) + dt_result_charge_bytes t) base' \<Longrightarrow>
     dns_inv base' hist (t\<lparr>dt_budget := b\<rparr>) []"
  by (simp add: dns_inv_def)

lemma dns_remember_session_inv:
  assumes inv: "dns_module_inv base c log m" and run: "dns_remember_session host view m = (e, m')"
  shows "dns_module_inv base c log m' \<and> e \<noteq> E_UNCAUGHT \<and> dq_finished m' = dq_finished m \<and> dq_aborted m' = dq_aborted m \<and>
    (e = E_OK \<longrightarrow> sv_session_id view \<in> dns_known m')"
proof -
  obtain ids b where rem: "remember_session dns_protocol (ho_owned host) view (dq_identities m) (dt_budget (dq_tracker m)) = (e, ids, b)"
      and m': "m' = m\<lparr>dq_identities := ids, dq_tracker := (dq_tracker m)\<lparr>dt_budget := b\<rparr>\<rparr>"
    using run by (auto simp: dns_remember_session_def split: prod.splits)
  obtain hist where h: "dns_row_ids log \<subseteq># hist"
      "framer_inv (base + identity_share (dq_identities m)) hist (dns_known m) c (dq_framer m) (dq_tracker m) (Some [])"
    using inv by (auto simp: dns_module_inv_def)
  let ?c = "dns_pending_charge * omap_sum length (dt_pending (dq_tracker m)) + dt_result_charge_bytes (dq_tracker m)"
  have i: "dns_inv (base + identity_share (dq_identities m) + framer_share (dq_framer m)) hist (dq_tracker m) []"
    using h(2) by (simp add: framer_inv_def)
  then have "backed (dt_budget (dq_tracker m)) (identity_share (dq_identities m) + (framer_share (dq_framer m) + ?c)) base"
    by (simp add: dns_inv_def backed_def ac_simps)
  from remember_session_spec [OF rem _ this] inv
  have spec: "omap_wf ids" "backed b (identity_share ids + (framer_share (dq_framer m) + ?c)) base" "e \<noteq> E_UNCAUGHT"
    "e \<noteq> E_OK \<longrightarrow> ids = dq_identities m"
    "e = E_OK \<longrightarrow> set (omap_keys ids) = insert (sv_session_id view) (dns_known m)"
    by (auto simp: dns_module_inv_def dns_known_def)
  have "dns_inv (base + identity_share ids + framer_share (dq_framer m)) hist ((dq_tracker m)\<lparr>dt_budget := b\<rparr>) []"
    by (rule dns_inv_rebase [OF i]) (use spec(2) in \<open>simp add: backed_def ac_simps\<close>)
  from framer_inv_ledger [OF this h(2) _ _ refl refl]
  have "framer_inv (base + identity_share ids) hist (dns_known m) c (dq_framer m) (dq_tracker m') (Some [])"
    by (simp add: m')
  then have "framer_inv (base + identity_share ids) hist (dns_known m') c (dq_framer m) (dq_tracker m') (Some [])"
    by (rule framer_inv_mono) (use spec(4,5) in \<open>auto simp: m' dns_known_def\<close>)
  with inv h(1) spec show ?thesis by (auto simp: dns_module_inv_def m' dns_known_def)
qed

text \<open>From the tracker's call to the module's: what deliver makes of it.\<close>

lemma deliver_module:
  assumes inv: "dns_module_inv base c log m" and known: "omap_wf (dq_identities m)"
    and call: "framer_inv (base + identity_share (dq_identities m)) hist (dns_known m) c fr t rows"
    and hist: "dns_row_ids log \<subseteq># hist"
    and run: "deliver host e rows (m\<lparr>dq_framer := fr, dq_tracker := t\<rparr>) = (e', m', out)"
  shows "dns_module_inv base c (log @ out) m'"
proof -
  let ?m = "m\<lparr>dq_framer := fr, dq_tracker := t\<rparr>"
  have "framer_inv (base + identity_share (dq_identities ?m)) hist (dns_known m) c (dq_framer ?m) (dq_tracker ?m) rows"
    using call by simp
  note d = deliver_inv [OF this run]
  obtain hist' where h: "hist + dns_row_ids out \<subseteq># hist'"
      "framer_inv (base + identity_share (dq_identities m)) hist' (dns_known m) c fr (dq_tracker m') (Some [])"
    using d by auto
  have "dns_row_ids (log @ out) \<subseteq># hist'"
    using subset_mset.order_trans [OF _ h(1), of "dns_row_ids log + dns_row_ids out"] hist
    by (simp add: dns_row_ids_def subset_mset.add_mono)
  with h(2) d inv show ?thesis by (auto simp: dns_module_inv_def dns_known_def)
qed

lemma dns_module_input_inv:
  assumes inv: "dns_module_inv base c log m" and run: "dns_module_input host input m = (e, m', out)"
  shows "dns_module_inv base c (log @ out) m'"
proof -
  consider "(e, m', out) = (E_INVAL, m, [])"
    | view dir e1 m1 where "in_session input = Some view" "in_direction input = Some dir" "\<not> closed m"
      "dns_remember_session host view m = (e1, m1)"
    using run by (auto simp: dns_module_input_def split: option.splits if_splits prod.splits)
  then show ?thesis
  proof cases
    case 1
    with inv show ?thesis by simp
  next
    case 2
    note m1 = dns_remember_session_inv [OF inv 2(4)]
    obtain e2 t rows where call: "dns_on_datagram (sv_session_id view) dir (in_body input) (in_body_complete input)
        (in_timestamp_ns input) (dq_tracker m1) (Some []) = (e2, t, rows)" by (metis prod.exhaust)
    consider "m' = m1 \<and> out = []" | "e1 = E_OK" "deliver host e2 rows (m1\<lparr>dq_tracker := t\<rparr>) = (e, m', out)"
      using run 2 call unfolding dns_module_input_def by (auto split: if_splits)
    then show ?thesis
    proof cases
      case 1
      with m1 show ?thesis by simp
    next
      case deliver: 2
      obtain hist where h: "dns_row_ids log \<subseteq># hist"
          "framer_inv (base + identity_share (dq_identities m1)) hist (dns_known m1) c (dq_framer m1) (dq_tracker m1) (Some [])"
        using m1 by (auto simp: dns_module_inv_def)
      then have i: "dns_inv (base + identity_share (dq_identities m1) + framer_share (dq_framer m1)) hist (dq_tracker m1) []"
          "within (dns_known m1) (dq_tracker m1) []"
        by (auto simp: framer_inv_def)
      obtain rs where rs: "rows = Some rs" "dns_kept (base + identity_share (dq_identities m1) + framer_share (dq_framer m1)) hist
          (dt_config (dq_tracker m1)) (e2, t, rs)"
        using dns_on_message_inv [OF i(1) call [unfolded dns_on_datagram_def]] by auto
      have "within (dns_known m1) t rs"
        by (rule dns_on_message_within [OF i(2) _ _ call [unfolded dns_on_datagram_def rs(1)]])
          (use m1 deliver(1) i(1) in \<open>auto simp: dns_inv_def\<close>)
      with rs h(2) have "framer_inv (base + identity_share (dq_identities m1)) hist (dns_known m1) c (dq_framer m1) t rows"
        by (auto simp: framer_inv_def dns_kept_def)
      from deliver_module [OF _ _ this h(1), of host e2] m1 deliver(2) show ?thesis
        by (auto simp: dns_module_inv_def)
    qed
  qed
qed

lemma dns_module_readable_inv:
  assumes inv: "dns_module_inv base c log m" and run: "dns_module_readable host session ctx evs m = (e, m', out)"
  shows "dns_module_inv base c (log @ out) m'"
proof -
  consider "(e, m', out) = (E_INVAL, m, [])"
    | view e1 m1 where "session = Some view" "\<not> closed m" "dns_remember_session host view m = (e1, m1)"
    using run by (auto simp: dns_module_readable_def split: option.splits if_splits prod.splits)
  then show ?thesis
  proof cases
    case 1
    with inv show ?thesis by simp
  next
    case 2
    note m1 = dns_remember_session_inv [OF inv 2(3)]
    let ?ctx = "ctx\<lparr>cx_session := Some (sv_session_id view)\<rparr>"
    obtain e2 fr t rows where call: "dns_on_readable ?ctx evs (dq_framer m1) (dq_tracker m1) (Some []) = (e2, fr, t, rows)"
      by (metis prod.exhaust)
    consider "m' = m1 \<and> out = []" | "e1 = E_OK" "deliver host e2 rows (m1\<lparr>dq_framer := fr, dq_tracker := t\<rparr>) = (e, m', out)"
      using run 2 call unfolding dns_module_readable_def by (auto split: if_splits)
    then show ?thesis
    proof cases
      case 1
      with m1 show ?thesis by simp
    next
      case deliver: 2
      obtain hist where h: "dns_row_ids log \<subseteq># hist"
          "framer_inv (base + identity_share (dq_identities m1)) hist (dns_known m1) c (dq_framer m1) (dq_tracker m1) (Some [])"
        using m1 by (auto simp: dns_module_inv_def)
      from dns_on_readable_inv [OF h(2) _ call] m1 deliver(1)
      have "framer_inv (base + identity_share (dq_identities m1)) hist (dns_known m1) c fr t rows" by auto
      from deliver_module [OF _ _ this h(1), of host e2] m1 deliver(2) show ?thesis
        by (auto simp: dns_module_inv_def)
    qed
  qed
qed

lemma dns_module_time_inv:
  assumes inv: "dns_module_inv base c log m" and run: "dns_module_time host watermark m = (e, m', out)"
  shows "dns_module_inv base c (log @ out) m'"
proof (cases "closed m \<or> watermark = None")
  case True
  with inv run show ?thesis by (auto simp: dns_module_time_def split: if_splits)
next
  case False
  then obtain w where w: "watermark = Some w" "\<not> closed m" by auto
  obtain e2 t rows where call: "dns_on_capture_watermark w (dq_tracker m) (Some []) = (e2, t, rows)" by (metis prod.exhaust)
  have del: "deliver host e2 rows (m\<lparr>dq_framer := dq_framer m, dq_tracker := t\<rparr>) = (e, m', out)"
    using run w call by (simp add: dns_module_time_def)
  obtain hist where h: "dns_row_ids log \<subseteq># hist"
      "framer_inv (base + identity_share (dq_identities m)) hist (dns_known m) c (dq_framer m) (dq_tracker m) (Some [])"
    using inv by (auto simp: dns_module_inv_def)
  then have i: "dns_inv (base + identity_share (dq_identities m) + framer_share (dq_framer m)) hist (dq_tracker m) []"
      "within (dns_known m) (dq_tracker m) []" by (auto simp: framer_inv_def)
  obtain rs where rs: "rows = Some rs" "dns_kept (base + identity_share (dq_identities m) + framer_share (dq_framer m)) hist
      (dt_config (dq_tracker m)) (e2, t, rs)"
    using dns_on_capture_watermark_inv [OF i(1) call] by auto
  have "within (dns_known m) t rs"
    by (rule dns_on_capture_watermark_within [OF i(2) _ call [unfolded rs(1)]]) (use i(1) in \<open>auto simp: dns_inv_def\<close>)
  with rs h(2) have "framer_inv (base + identity_share (dq_identities m)) hist (dns_known m) c (dq_framer m) t rows"
    by (auto simp: framer_inv_def dns_kept_def)
  from deliver_module [OF inv _ this h(1) del] inv show ?thesis by (simp add: dns_module_inv_def)
qed

lemma framer_inv_drop:
  assumes "framer_inv base hist (insert sid S) c fr t rows" "sid \<notin> set (omap_keys (dt_pending t))" "rows = Some []"
    "(sid, AToB) \<notin> set (omap_keys fr)" "(sid, BToA) \<notin> set (omap_keys fr)"
  shows "framer_inv base hist (S - {sid}) c fr t rows"
proof -
  have "(sid, d) \<notin> set (omap_keys fr)" for d using assms(4,5) by (cases d) auto
  then have "fst ` set (omap_keys fr) \<subseteq> S - {sid}" using assms(1) by (force simp: framer_inv_def framer_ok_def)
  with assms(1-3) show ?thesis by (auto simp: framer_inv_def framer_ok_def within_def)
qed

text \<open>A session's end: on success the session is gone from all three tables.\<close>

lemma dns_module_session_end_inv:
  assumes inv: "dns_module_inv base c log m" and run: "dns_module_session_end host view observed m = (e, m', out)"
  shows "dns_module_ledger base m' \<and>
    (e = E_OK \<longrightarrow> dns_module_inv base c (log @ out) m' \<and> sv_session_id view \<notin> dns_known m')"
proof (cases "closed m")
  case True
  with inv run show ?thesis by (auto simp: dns_module_session_end_def dns_module_inv_ledger)
next
  case False
  let ?sid = "sv_session_id view" and ?B = "base + identity_share (dq_identities m)"
  obtain hist where h: "dns_row_ids log \<subseteq># hist"
      "framer_inv ?B hist (dns_known m) c (dq_framer m) (dq_tracker m) (Some [])"
    using inv by (auto simp: dns_module_inv_def)
  have i: "dns_inv (?B + framer_share (dq_framer m)) hist (dq_tracker m) []" "within (insert ?sid (dns_known m)) (dq_tracker m) []"
    "framer_ok (insert ?sid (dns_known m)) (dq_framer m)" "dt_config (dq_tracker m) = c"
    using framer_inv_mono [OF h(2), of "insert ?sid (dns_known m)"] by (auto simp: framer_inv_def)
  obtain e1 t1 rows1 where call: "dns_on_session_end ?sid observed (dq_tracker m) (Some []) = (e1, t1, rows1)"
    by (metis prod.exhaust)
  obtain rs1 where rs1: "rows1 = Some rs1" "dt_config t1 = c" "dns_ledger (?B + framer_share (dq_framer m)) t1"
      "e1 = E_OK \<longrightarrow> dns_inv (?B + framer_share (dq_framer m)) hist t1 rs1"
    using dns_on_session_end_inv [OF i(1) call] i(4) by auto
  obtain e2 fr2 t2 rows2 where fend: "dns_framer_session_end ?sid observed (dq_framer m) (dq_tracker m) (Some []) =
      (e2, fr2, t2, rows2)" by (metis prod.exhaust)
  obtain e3 m3 out3 where del: "deliver host e2 rows2 (m\<lparr>dq_framer := fr2, dq_tracker := t2\<rparr>) = (e3, m3, out3)"
    by (metis prod.exhaust)
  have r: "e = e3" "m' = (if e3 = E_OK then dns_forget_session ?sid m3 else m3)" "out = out3"
    using run False fend del by (auto simp: dns_module_session_end_def)
  show ?thesis
  proof (cases "?sid = 0 \<or> e1 \<noteq> E_OK")
    case True
    show ?thesis
    proof (cases "?sid = 0")
      case zero: True
      then have "e2 = E_INVAL" "fr2 = dq_framer m" "t2 = dq_tracker m" "rows2 = Some []"
        using fend by (auto simp: dns_framer_session_end_def)
      with del have m3: "e3 = E_INVAL" "m3 = m\<lparr>dq_tracker := fst (dns_release_results (dq_tracker m) (Some []))\<rparr>"
        by (auto simp: deliver_def)
      have "dt_result_charge_bytes (dq_tracker m) = 0" using inv by (simp add: dns_module_inv_def)
      then have "dq_tracker m3 = dq_tracker m" by (simp add: m3 dns_release_results_def)
      with dns_module_inv_ledger [OF inv] m3 show ?thesis by (simp add: r dns_module_ledger_def)
    next
      case nz: False
      with True fend call have e2: "e2 = e1" "fr2 = dq_framer m" "t2 = t1" "rows2 = rows1" "e1 \<noteq> E_OK"
        by (auto simp: dns_framer_session_end_def)
      then have m3: "e3 = e1" "m3 = m\<lparr>dq_framer := dq_framer m, dq_tracker := fst (dns_release_results t1 (Some rs1))\<rparr>"
        using del rs1(1) by (auto simp: deliver_def)
      have "dns_ledger (?B + framer_share (dq_framer m)) (fst (dns_release_results t1 (Some rs1)))"
        using rs1(3) by (auto simp: dns_release_results_def dns_ledger_def intro: backed_refund)
      with m3 e2 show ?thesis by (simp add: r dns_module_ledger_def)
    qed
  next
    case ok: False
    then have "dns_inv (?B + framer_share (dq_framer m)) hist t1 rs1" "e1 = E_OK" using rs1(4) by auto
    moreover note w = dns_on_session_end_within [OF i(2) insertI1 _ call [unfolded rs1(1) \<open>e1 = E_OK\<close>], of c]
    have w: "within (insert ?sid (dns_known m)) t1 rs1 \<and> ?sid \<notin> set (omap_keys (dt_pending t1))"
      by (rule w) (use i(1,4) in \<open>auto simp: dns_inv_def\<close>)
    ultimately have f1: "framer_inv ?B hist (insert ?sid (dns_known m)) c (dq_framer m) t1 rows1"
      using rs1 i(3) by (auto simp: framer_inv_def)
    obtain fr3 t3 where er1: "erase_direction (?sid, AToB) (dq_framer m) t1 = (fr3, t3)" by fastforce
    note f3 = erase_direction_inv [OF f1 er1]
    obtain fr4 t4 where er2: "erase_direction (?sid, BToA) fr3 t3 = (fr4, t4)" by fastforce
    note f4 = erase_direction_inv [OF f3 [THEN conjunct1] er2]
    have e2: "e2 = E_OK" "fr2 = fr4" "t2 = t4" "rows2 = rows1"
      using fend ok call er1 er2 \<open>e1 = E_OK\<close> by (auto simp: dns_framer_session_end_def)
    have "framer_inv (base + identity_share (dq_identities (m\<lparr>dq_framer := fr2, dq_tracker := t2\<rparr>))) hist
        (insert ?sid (dns_known m)) c (dq_framer (m\<lparr>dq_framer := fr2, dq_tracker := t2\<rparr>))
        (dq_tracker (m\<lparr>dq_framer := fr2, dq_tracker := t2\<rparr>)) rows2"
      using f4 by (simp add: e2)
    note d = deliver_inv [OF this del]
    obtain hist' where h': "hist + dns_row_ids out3 \<subseteq># hist'"
        "framer_inv ?B hist' (insert ?sid (dns_known m)) c fr2 (dq_tracker m3) (Some [])"
      using d by auto
    have ids: "dns_row_ids (log @ out3) \<subseteq># hist'"
      using subset_mset.order_trans [OF _ h'(1), of "dns_row_ids log + dns_row_ids out3"] h(1)
      by (simp add: dns_row_ids_def subset_mset.add_mono)
    have "framer_inv ?B hist' (dns_known m - {?sid}) c fr2 (dq_tracker m3) (Some [])"
      by (rule framer_inv_drop [OF h'(2) _ refl]) (use d e2 f3 f4 w in auto)
    note dropped = this
    show ?thesis
    proof (cases "e3 = E_OK")
      case False
      with h'(2) d show ?thesis
        by (auto simp: r dns_module_ledger_def framer_inv_def intro: dns_inv_ledger)
    next
      case True
      obtain ids b where fg: "forget_session ?sid (dq_identities m) (dt_budget (dq_tracker m3)) = (ids, b)" by fastforce
      have m': "m' = m3\<lparr>dq_identities := ids, dq_tracker := (dq_tracker m3)\<lparr>dt_budget := b\<rparr>\<rparr>"
        using True fg d by (simp add: r dns_forget_session_def)
      let ?c = "dns_pending_charge * omap_sum length (dt_pending (dq_tracker m3)) + dt_result_charge_bytes (dq_tracker m3)"
      have i3: "dns_inv (?B + framer_share fr2) hist' (dq_tracker m3) []" using h'(2) by (simp add: framer_inv_def)
      then have "backed (dt_budget (dq_tracker m3)) (identity_share (dq_identities m) + (framer_share fr2 + ?c)) base"
        by (simp add: dns_inv_def backed_def ac_simps)
      from forget_session_spec [OF fg _ this] inv
      have spec: "omap_wf ids" "backed b (identity_share ids + (framer_share fr2 + ?c)) base"
        "set (omap_keys ids) = dns_known m - {?sid}"
        by (auto simp: dns_module_inv_def dns_known_def)
      have "dns_inv (base + identity_share ids + framer_share fr2) hist' ((dq_tracker m3)\<lparr>dt_budget := b\<rparr>) []"
        by (rule dns_inv_rebase [OF i3]) (use spec(2) in \<open>simp add: backed_def ac_simps\<close>)
      from framer_inv_ledger [OF this dropped _ _ refl refl]
      have "framer_inv (base + identity_share ids) hist' (dns_known m') c (dq_framer m') (dq_tracker m') (Some [])"
        using d spec(3) by (simp add: m' dns_known_def)
      then have "dns_module_inv base c (log @ out) m'"
        using d ids inv spec(1) by (auto simp: dns_module_inv_def m' r)
      with spec(3) show ?thesis by (simp add: dns_module_inv_ledger) (simp add: m' dns_known_def)
    qed
  qed
qed

end
