(* ===== verification/DnsTrackerSafety.thy ===== *)
theory DnsTrackerSafety
  imports DnsTrackerProps
begin

text \<open>
  The DNS tracker as a state machine: what its module may call, the states it can reach, and the
  properties of those states; and a whole exchange, from the bytes on the wire to the row.
\<close>

section \<open>Reachable states\<close>

datatype dns_op =
    DnsMessage u64 packet_direction span bool "int option" int
  | DnsDatagram u64 packet_direction span bool int
  | DnsResponsePathGap u64 packet_direction int
  | DnsWatermark int
  | DnsSessionEnd u64 int
  | DnsReleaseResults
  | DnsAbort

type_synonym dns_world = "dns_tracker \<times> dns_result list \<times> dns_result list"

definition dns_rows :: "dns_result list \<Rightarrow> dns_call \<Rightarrow> errno \<times> dns_world" where
  "dns_rows released r = (case r of (e, t, rows) \<Rightarrow>
     (e, t, (case rows of None \<Rightarrow> [] | Some rs \<Rightarrow> rs), released))"

fun dns_step :: "dns_op \<Rightarrow> dns_world \<Rightarrow> errno \<times> dns_world" where
  "dns_step (DnsMessage sid dir body complete complete_at observed) (t, rows, released) =
     dns_rows released (dns_on_message sid dir body complete complete_at observed t (Some rows))"
| "dns_step (DnsDatagram sid dir body complete captured) (t, rows, released) =
     dns_rows released (dns_on_datagram sid dir body complete captured t (Some rows))"
| "dns_step (DnsResponsePathGap sid dir observed) (t, rows, released) =
     dns_rows released (dns_on_response_path_gap sid dir observed t (Some rows))"
| "dns_step (DnsWatermark w) (t, rows, released) = dns_rows released (dns_on_capture_watermark w t (Some rows))"
| "dns_step (DnsSessionEnd sid observed) (t, rows, released) =
     dns_rows released (dns_on_session_end sid observed t (Some rows))"
| "dns_step DnsReleaseResults (t, rows, released) =
     (case dns_release_results t (Some rows) of (t', rows') \<Rightarrow>
        (E_OK, t', (case rows' of None \<Rightarrow> [] | Some rs \<Rightarrow> rs), released @ rows))"
| "dns_step DnsAbort (t, rows, released) = (E_OK, dns_abort t, rows, released)"

text \<open>
  A session end that the ledger refuses has written part of its rows and kept the queries; the
  host gives the task up then, so that no run goes on from there, except into an abort, which is
  treated separately. Every other refusal may be followed by further calls.
\<close>

inductive dns_reachable :: "dns_config \<Rightarrow> npm_task_budget option \<Rightarrow> dns_world \<Rightarrow> bool"
  for c tb where
  start: "dns_reachable c tb (new_dns_tracker c tb, [], [])"
| step: "dns_reachable c tb st \<Longrightarrow> dns_step op st = (e, st') \<Longrightarrow> op \<noteq> DnsAbort \<Longrightarrow>
    e = E_OK \<or> (\<forall>sid observed. op \<noteq> DnsSessionEnd sid observed) \<Longrightarrow> dns_reachable c tb st'"

definition dns_world_inv :: "nat \<Rightarrow> dns_config \<Rightarrow> dns_world \<Rightarrow> bool" where
  "dns_world_inv base c st \<longleftrightarrow> (case st of (t, rows, released) \<Rightarrow>
     dns_inv base (dns_row_ids released) t rows \<and> dt_config t = c \<and> list_all dns_row_ok released)"

definition dns_world_ledger :: "nat \<Rightarrow> dns_world \<Rightarrow> bool" where
  "dns_world_ledger base st \<longleftrightarrow> dns_ledger base (fst st) \<and> list_all dns_row_ok (fst (snd st))"

lemma dns_step_inv:
  assumes inv: "dns_world_inv base c st" and run: "dns_step op st = (e, st')"
  shows "e \<noteq> E_UNCAUGHT \<and> dns_world_ledger base st' \<and>
    (op \<noteq> DnsAbort \<and> (e = E_OK \<or> (\<forall>sid observed. op \<noteq> DnsSessionEnd sid observed)) \<longrightarrow> dns_world_inv base c st')"
proof -
  obtain t rows released where st: "st = (t, rows, released)" by (metis prod.exhaust)
  have i: "dns_inv base (dns_row_ids released) t rows" "dt_config t = c" "list_all dns_row_ok released"
    using inv by (simp_all add: dns_world_inv_def st)
  have rows: "list_all dns_row_ok rows" using i(1) by (simp add: dns_inv_def)
  have kept: "e \<noteq> E_UNCAUGHT \<and> dns_world_ledger base st' \<and> dns_world_inv base c st'"
    if "dns_step op st = dns_rows released (e1, t1, rows1)"
      "\<exists>rs. rows1 = Some rs \<and> dns_kept base (dns_row_ids released) (dt_config t) (e1, t1, rs)" for e1 t1 rows1
    using that run i(2,3) dns_inv_ledger
    by (auto simp: dns_rows_def dns_kept_def dns_world_inv_def dns_world_ledger_def dns_inv_def)
  show ?thesis
  proof (cases op)
    case (DnsMessage sid dir body complete complete_at observed)
    obtain e1 t1 rows1 where call: "dns_on_message sid dir body complete complete_at observed t (Some rows) = (e1, t1, rows1)"
      by (metis prod.exhaust)
    then have "dns_step op st = dns_rows released (e1, t1, rows1)" using DnsMessage by (simp add: st)
    from kept [OF this] dns_on_message_inv [OF i(1) call] show ?thesis by blast
  next
    case (DnsDatagram sid dir body complete captured)
    obtain e1 t1 rows1 where call: "dns_on_message sid dir body complete (Some captured) captured t (Some rows) = (e1, t1, rows1)"
      by (metis prod.exhaust)
    then have "dns_step op st = dns_rows released (e1, t1, rows1)" using DnsDatagram by (simp add: st dns_on_datagram_def)
    from kept [OF this] dns_on_message_inv [OF i(1) call] show ?thesis by blast
  next
    case (DnsResponsePathGap sid dir observed)
    obtain e1 t1 rows1 where call: "dns_on_response_path_gap sid dir observed t (Some rows) = (e1, t1, rows1)"
      by (metis prod.exhaust)
    then have "dns_step op st = dns_rows released (e1, t1, rows1)" using DnsResponsePathGap by (simp add: st)
    from kept [OF this] dns_on_response_path_gap_inv [OF i(1) call] show ?thesis by blast
  next
    case (DnsWatermark w)
    obtain e1 t1 rows1 where call: "dns_on_capture_watermark w t (Some rows) = (e1, t1, rows1)"
      by (metis prod.exhaust)
    then have "dns_step op st = dns_rows released (e1, t1, rows1)" using DnsWatermark by (simp add: st)
    from kept [OF this] dns_on_capture_watermark_inv [OF i(1) call] show ?thesis by blast
  next
    case (DnsSessionEnd sid observed)
    obtain e1 t1 rows1 where call: "dns_on_session_end sid observed t (Some rows) = (e1, t1, rows1)"
      by (metis prod.exhaust)
    with dns_on_session_end_inv [OF i(1) call] DnsSessionEnd run i(2,3) st show ?thesis
      by (auto simp: dns_rows_def dns_world_inv_def dns_world_ledger_def)
  next
    case DnsReleaseResults
    obtain t1 rows1 where call: "dns_release_results t (Some rows) = (t1, rows1)" by fastforce
    with dns_release_results_inv [OF i(1) call] DnsReleaseResults run i rows st dns_inv_ledger show ?thesis
      by (fastforce simp: dns_world_inv_def dns_world_ledger_def dns_row_ids_def)
  next
    case DnsAbort
    with dns_abort_settles [OF dns_inv_ledger [OF i(1)]] run rows st show ?thesis
      by (auto simp: dns_world_ledger_def dns_ledger_def pending_shape_def)
  qed
qed

lemma dns_reachable_inv:
  assumes "dns_reachable c tb st" "backed tb 0 base"
  shows "dns_world_inv base c st"
  using assms
proof (induction rule: dns_reachable.induct)
  case start
  then show ?case
    by (simp add: dns_world_inv_def dns_inv_new dns_row_ids_def [of "[]"]) (simp add: new_dns_tracker_def)
next
  case (step st op e st')
  then show ?case using dns_step_inv by blast
qed

section \<open>Properties\<close>

text \<open>
  The ledger is settled: after every call, refused or not, the module-state bytes of the task
  ledger are what others held at the start, one pending charge for each pending query, and the
  charge for rows; and an abort, from any such state, gives everything back.
\<close>

theorem dns_ledger_settled:
  assumes "dns_reachable c (Some tb) st" "budget_wf tb" "dns_step op st = (e, t, rows, released)"
    "dt_budget t = Some tb'"
  shows "budget_wf tb' \<and>
    module_held tb' = module_held tb + dns_pending_charge * omap_sum length (dt_pending t) + dt_result_charge_bytes t \<and>
    (\<forall>tb''. dt_budget (dns_abort t) = Some tb'' \<longrightarrow> module_held tb'' = module_held tb) \<and>
    dns_next_event_deadline_ns (dns_abort t) = None"
proof -
  have "backed (Some tb) 0 (module_held tb)" using assms(2) by (simp add: backed_def)
  from dns_step_inv [OF dns_reachable_inv [OF assms(1) this] assms(3)]
  have led: "dns_ledger (module_held tb) t" by (simp add: dns_world_ledger_def)
  with dns_abort_settles [OF led] assms(4) show ?thesis
    by (auto simp: dns_ledger_def backed_def dns_next_event_deadline_ns_def)
qed

text \<open>
  No call reads an empty optional, whatever the bytes on the wire are, and the pending lists
  stay bounded: at most as many per session as configured (one at least), never two for the same
  question, each filed under its own session, and no empty list.
\<close>

theorem dns_pending_bounded:
  assumes "dns_reachable c tb (t, rows, released)" "backed tb 0 base"
  shows "fst (dns_step op (t, rows, released)) \<noteq> E_UNCAUGHT \<and>
    (\<forall>(sid, ps) \<in> set (dt_pending t). ps \<noteq> [] \<and> length ps \<le> max 1 (dc_max_pending_per_session c) \<and>
       distinct (map tx_key ps) \<and> (\<forall>p \<in> set ps. qk_session_id (tx_key p) = sid))"
proof -
  have inv: "dns_world_inv base c (t, rows, released)" by (rule dns_reachable_inv [OF assms])
  then have "fst (dns_step op (t, rows, released)) \<noteq> E_UNCAUGHT"
    using dns_step_inv [of base c "(t, rows, released)" op] by (cases "dns_step op (t, rows, released)") auto
  then show ?thesis
    using inv by (auto simp: dns_world_inv_def dns_inv_def pending_shape_def list_ok_def)
qed

text \<open>
  Entity ids are never reused: the ids of all rows ever written, released or not, are
  distinct and nonzero, and no pending query carries one of them.
\<close>

theorem dns_entity_ids_unique:
  assumes "dns_reachable c tb (t, rows, released)" "backed tb 0 base"
  shows "distinct (map dr_entity_instance_id (released @ rows)) \<and>
    0 \<notin> set (map dr_entity_instance_id (released @ rows)) \<and>
    (\<forall>(sid, ps) \<in> set (dt_pending t). \<forall>p \<in> set ps.
       tx_entity_instance_id p \<notin> set (map dr_entity_instance_id (released @ rows)))"
proof -
  let ?ids = "map dr_entity_instance_id (released @ rows)"
  let ?held = "omap_sum tx_ids (dt_pending t)"
  have ids: "ids_ok (dt_next_id t) (mset ?ids + ?held)"
    using dns_reachable_inv [OF assms] by (simp add: dns_world_inv_def dns_inv_def dns_row_ids_def)
  have held: "tx_entity_instance_id p \<in># ?held" if "(sid, ps) \<in> set (dt_pending t)" "p \<in> set ps" for sid ps p
  proof -
    have "tx_entity_instance_id p \<in># tx_ids ps" using that(2) by (simp add: tx_ids_def)
    with that(1) show ?thesis by (force simp: omap_sum_def)
  qed
  show ?thesis using ids_ok_distinct [OF ids] held by blast
qed

text \<open>
  Every row is consistent: its outcome fixes its reason and which columns are present, a
  matched response runs against its query, and the latency of a matched pair is the exact time
  between query and response whenever both are known 64-bit times in order.
\<close>

theorem dns_rows_consistent:
  assumes "dns_reachable c tb (t, rows, released)" "backed tb 0 base" "r \<in> set (released @ rows)"
  shows "dns_row_ok r \<and>
    (\<forall>t0 t1. dr_outcome r = ''matched'' \<longrightarrow> dr_query_at_ns r = Some t0 \<longrightarrow> dr_response_at_ns r = Some t1 \<longrightarrow>
       in_i64 t0 \<longrightarrow> in_i64 t1 \<longrightarrow>
       dr_latency_ns r = (if t0 \<le> t1 \<and> t1 - t0 \<le> i64_max then Some (t1 - t0) else None))"
proof -
  have "list_all dns_row_ok (released @ rows)"
    using dns_reachable_inv [OF assms(1,2)] by (simp add: dns_world_inv_def dns_inv_def)
  then have "dns_row_ok r" using assms(3) by (simp add: list_all_iff)
  then show ?thesis by (auto simp: dns_row_ok_def dns_elapsed.elapsed_exact)
qed

text \<open>
  C18. Deadlines are honoured: when the watermark advances to \<open>w\<close> and the ledger takes the rows,
  the deadline announced next is after \<open>w\<close>.
\<close>

lemma earliest_in: "earliest n ps = Some d \<Longrightarrow> n = Some d \<or> (\<exists>p \<in> set ps. tx_deadline_ns p = Some d)"
  by (induction n ps rule: earliest.induct) (fastforce split: option.splits if_splits)+

lemma next_deadline_pending:
  "fold (\<lambda>(sid, ps) nxt. earliest nxt ps) m n = Some d \<Longrightarrow>
     n = Some d \<or> (\<exists>(sid, ps) \<in> set m. \<exists>p \<in> set ps. tx_deadline_ns p = Some d)"
proof (induction m arbitrary: n)
  case (Cons x m)
  obtain sid ps where x: "x = (sid, ps)" by fastforce
  from Cons.IH [of "earliest n ps"] Cons.prems earliest_in [of n ps d] show ?case
    by (auto simp: x)
qed simp

theorem dns_watermark_expires:
  assumes "dns_reachable c tb (t, rows, released)" "backed tb 0 base"
    "\<forall>w0. dt_watermark_ns t = Some w0 \<longrightarrow> w0 < w"
    "dns_on_capture_watermark w t (Some rows) = (E_OK, t', rows')"
  shows "dt_watermark_ns t' = Some w \<and> (\<forall>d. dns_next_event_deadline_ns t' = Some d \<longrightarrow> w < d)"
proof -
  have "dns_inv base (dns_row_ids released) t rows"
    using dns_reachable_inv [OF assms(1,2)] by (simp add: dns_world_inv_def)
  from dns_on_capture_watermark_inv [OF this assms(4)] assms(3)
  have ok: "dt_watermark_ns t' = Some w" "\<forall>(sid, ps) \<in> set (dt_pending t'). \<forall>p \<in> set ps. \<not> due w p"
    by auto
  have "w < d" if "dns_next_event_deadline_ns t' = Some d" for d
    using next_deadline_pending [of "dt_pending t'" None d] that ok(2)
    by (fastforce simp: dns_next_event_deadline_ns_def due_def)
  with ok(1) show ?thesis by simp
qed

text \<open>
  A session's end leaves nothing behind: when it succeeds, every query pending in the session
  has become exactly one row, in order, with the reason session_end, and none is pending.
\<close>

theorem dns_session_end_drains:
  assumes "dns_reachable c tb (t, rows, released)" "backed tb 0 base"
    "dns_on_session_end sid observed t (Some rows) = (E_OK, t', rows')"
  shows "rows' = Some (rows @ map (\<lambda>p. query_result p observed ''session_end'') (session_pending sid t)) \<and>
    dns_pending_count sid t' = 0"
proof -
  have "dns_inv base (dns_row_ids released) t rows"
    using dns_reachable_inv [OF assms(1,2)] by (simp add: dns_world_inv_def)
  from dns_on_session_end_inv [OF this assms(3)] show ?thesis by auto
qed

section \<open>A whole exchange\<close>


definition plain_flags :: "u16 \<Rightarrow> bool" where
  "plain_flags flags \<longleftrightarrow> drop_bit 11 flags AND 0x0F = 0"

definition asked :: "u64 \<Rightarrow> packet_direction \<Rightarrow> u16 \<Rightarrow> u8 list list \<Rightarrow> u16 \<Rightarrow> u16 \<Rightarrow> dns_question_key" where
  "asked sid dir txid ls qtype qclass =
     \<lparr>qk_session_id = sid, qk_query_direction = dir, qk_dns_id = txid, qk_opcode = 0,
      qk_wire_qname = wire_name (map fold_label ls), qk_qtype = qtype, qk_qclass = qclass\<rparr>"

definition labels_fit :: "u8 list list \<Rightarrow> bool" where
  "labels_fit ls \<longleftrightarrow> list_all label_ok ls \<and> length (wire_name ls) \<le> 255"

lemma query_datagram:
  assumes "sid \<noteq> 0" "labels_fit ls" "plain_flags flags" "flags AND 0x8000 = 0" "qtype \<noteq> 251" "qtype \<noteq> 252"
  shows "dns_on_datagram sid dir (Bytes (dns_question_bytes txid flags ls qtype qclass)) True captured t (Some rows) =
    returning (dns_query sid (asked sid dir txid ls qtype qclass) (display_name ls) (Some captured) t rows)"
  using assms parse_question [of ls txid flags qtype qclass]
  by (simp add: labels_fit_def plain_flags_def dns_on_datagram_def dns_on_message_def
      dns_keyed_message_def question_key_def asked_def Let_def)







lemma charge_fits:
  assumes "budget_wf tb" "n \<le> module_free tb"
  obtains tb' where "opt_charge n (Some tb) = Some (Some tb')" "budget_wf tb'" "module_free tb' + n = module_free tb"
    "module_held tb' = module_held tb + n"
proof -
  obtain tb' where "module_charge n tb = Some tb'"
    using module_ledger.charge_fits [OF assms(1), of n] assms(2) by (cases "module_charge n tb") auto
  then show ?thesis
    using that [of tb'] module_ledger.charge_sound [OF assms(1)] module_ledger.charge_free [OF assms(1)]
      module_ledger.charge_held [OF assms(1)]
    by (simp add: opt_charge_def)
qed



section \<open>Witnesses\<close>

text \<open>One query for the name W in session 7, under a ledger of its own.\<close>

definition dns_demo_config :: dns_config where
  "dns_demo_config = \<lparr>dc_response_timeout_ns = 10, dc_max_pending_per_session = 4\<rparr>"

definition dns_demo_tb :: npm_task_budget where
  "dns_demo_tb = new_task_budget \<lparr>max_tracked_bytes = 100000, max_pending_output_bytes = 10\<rparr>"

definition dns_demo_start :: dns_world where
  "dns_demo_start = (new_dns_tracker dns_demo_config (Some dns_demo_tb), [], [])"

definition dns_demo_op :: dns_op where
  "dns_demo_op = DnsDatagram 7 AToB (Bytes (dns_question_bytes 1 0 [[87]] 1 1)) True 5"

definition dns_demo_query :: dns_transaction where
  "dns_demo_query = \<lparr>tx_entity_instance_id = 1, tx_key = asked 7 AToB 1 [[87]] 1 1, tx_query_at_ns = Some 5,
     tx_deadline_ns = Some 15, tx_query_retries = 0, tx_qname_display = display_name [[87]]\<rparr>"

lemma dns_demo_tb: "budget_wf dns_demo_tb" "module_free dns_demo_tb = 100000" "module_held dns_demo_tb = 0"
  unfolding dns_demo_tb_def
  by (simp add: budget_wf_new u64_max_def, simp_all add: module_free_def module_held_def new_task_budget_def)

definition dns_demo_charged :: npm_task_budget where
  "dns_demo_charged = the (module_charge dns_pending_charge dns_demo_tb)"

lemma dns_demo_charge:
  "module_charge dns_pending_charge dns_demo_tb = Some dns_demo_charged" "budget_wf dns_demo_charged"
  "module_free dns_demo_charged = 95904" "module_held dns_demo_charged = 4096"
proof -
  obtain tb' where tb': "opt_charge dns_pending_charge (Some dns_demo_tb) = Some (Some tb')" "budget_wf tb'"
      "module_free tb' + dns_pending_charge = module_free dns_demo_tb"
      "module_held tb' = module_held dns_demo_tb + dns_pending_charge"
    by (rule charge_fits [OF dns_demo_tb(1), of dns_pending_charge]) (simp_all add: dns_demo_tb dns_pending_charge_def)
  then show "module_charge dns_pending_charge dns_demo_tb = Some dns_demo_charged" "budget_wf dns_demo_charged"
    "module_free dns_demo_charged = 95904" "module_held dns_demo_charged = 4096"
    using dns_demo_tb by (auto simp: opt_charge_def dns_demo_charged_def dns_pending_charge_def)
qed

definition dns_demo_tracker :: dns_tracker where
  "dns_demo_tracker = \<lparr>dt_config = dns_demo_config, dt_budget = Some dns_demo_charged, dt_next_id = 2,
     dt_watermark_ns = None, dt_result_charge_bytes = 0, dt_pending = [(7, [dns_demo_query])]\<rparr>"

lemma dns_demo_labels: "labels_fit [[87]]"
  by (simp add: labels_fit_def label_ok_def wire_name_def wire_label_def)

lemma dns_demo_eval: "dns_step dns_demo_op dns_demo_start = (E_OK, dns_demo_tracker, [], [])"
  using query_datagram [of 7 "[[87]]" 0 1 AToB 1 1 5]
  by (simp add: dns_demo_op_def dns_demo_start_def plain_flags_def dns_demo_labels dns_query_def
      new_dns_tracker_def session_pending_def find_question_def charge_pending_def opt_charge_def
      dns_demo_charge dns_next_id_def returning_def dns_rows_def store_pending_def dns_demo_tracker_def
      dns_demo_query_def dns_demo_config_def dns_deadline_def i64_max_def)

lemma dns_demo_backed: "backed (Some dns_demo_tb) 0 0"
  by (simp add: backed_def dns_demo_tb)

lemma dns_demo_reachable: "dns_reachable dns_demo_config (Some dns_demo_tb) (dns_demo_tracker, [], [])"
  by (rule dns_reachable.step [OF dns_reachable.start dns_demo_eval [unfolded dns_demo_start_def]])
    (simp_all add: dns_demo_op_def)

lemma dns_demo_result_charge:
  obtains tb' where "module_charge dns_result_charge dns_demo_charged = Some tb'"
proof -
  obtain tb' where "opt_charge dns_result_charge (Some dns_demo_charged) = Some (Some tb')"
    by (rule charge_fits [OF dns_demo_charge(2), of dns_result_charge])
      (simp_all add: dns_demo_charge dns_result_charge_def)
  then show ?thesis using that by (auto simp: opt_charge_def)
qed

lemma dns_demo_watermark:
  "\<exists>t'. dns_on_capture_watermark 20 dns_demo_tracker (Some []) =
     (E_OK, t', Some [query_result dns_demo_query 20 ''response_not_observed_by_deadline''])"
proof -
  obtain tb' where "module_charge dns_result_charge dns_demo_charged = Some tb'" by (rule dns_demo_result_charge)
  then show ?thesis
    by (simp add: dns_on_capture_watermark_def dns_demo_tracker_def charge_result_def opt_charge_def due_def
        dns_demo_query_def)
qed

lemma dns_demo_session_end:
  "\<exists>t'. dns_on_session_end 7 30 dns_demo_tracker (Some []) =
     (E_OK, t', Some [query_result dns_demo_query 30 ''session_end''])"
proof -
  obtain tb' where "module_charge dns_result_charge dns_demo_charged = Some tb'" by (rule dns_demo_result_charge)
  then show ?thesis
    by (simp add: dns_on_session_end_def dns_demo_tracker_def charge_result_def opt_charge_def)
qed

theorem dns_ledger_settled_witness:
  "\<exists>tb'. dt_budget dns_demo_tracker = Some tb' \<and> budget_wf tb' \<and> module_held tb' = 4096"
  using dns_ledger_settled [OF dns_reachable.start dns_demo_tb(1) dns_demo_eval [unfolded dns_demo_start_def]]
  by (simp add: dns_demo_tracker_def dns_demo_tb dns_pending_charge_def)

theorem dns_pending_bounded_witness:
  "fst (dns_step (DnsWatermark 20) (dns_demo_tracker, [], [])) \<noteq> E_UNCAUGHT"
  by (rule dns_pending_bounded [OF dns_demo_reachable dns_demo_backed, THEN conjunct1])

theorem dns_entity_ids_unique_witness:
  "tx_entity_instance_id dns_demo_query \<notin> set (map dr_entity_instance_id ([] :: dns_result list))"
  using dns_entity_ids_unique [OF dns_demo_reachable dns_demo_backed] by (simp add: dns_demo_tracker_def)

theorem dns_rows_consistent_witness:
  "dns_row_ok (query_result dns_demo_query 20 ''response_not_observed_by_deadline'')"
proof -
  obtain t' where "dns_on_capture_watermark 20 dns_demo_tracker (Some []) =
      (E_OK, t', Some [query_result dns_demo_query 20 ''response_not_observed_by_deadline''])"
    using dns_demo_watermark by blast
  then have "dns_step (DnsWatermark 20) (dns_demo_tracker, [], []) =
      (E_OK, t', [query_result dns_demo_query 20 ''response_not_observed_by_deadline''], [])"
    by (simp add: dns_rows_def)
  from dns_reachable.step [OF dns_demo_reachable this]
  have "dns_reachable dns_demo_config (Some dns_demo_tb)
      (t', [query_result dns_demo_query 20 ''response_not_observed_by_deadline''], [])" by simp
  from dns_rows_consistent [OF this dns_demo_backed] show ?thesis by simp
qed

theorem dns_watermark_expires_witness:
  "\<exists>t' rows'. dns_on_capture_watermark 20 dns_demo_tracker (Some []) = (E_OK, t', rows') \<and> dt_watermark_ns t' = Some 20"
proof -
  obtain t' where run: "dns_on_capture_watermark 20 dns_demo_tracker (Some []) =
      (E_OK, t', Some [query_result dns_demo_query 20 ''response_not_observed_by_deadline''])"
    using dns_demo_watermark by blast
  have "dt_watermark_ns t' = Some 20"
    by (rule dns_watermark_expires [OF dns_demo_reachable dns_demo_backed _ run, THEN conjunct1])
      (simp add: dns_demo_tracker_def)
  with run show ?thesis by blast
qed

theorem dns_session_end_drains_witness:
  "\<exists>t' rows'. dns_on_session_end 7 30 dns_demo_tracker (Some []) = (E_OK, t', rows') \<and> dns_pending_count 7 t' = 0"
proof -
  obtain t' where run: "dns_on_session_end 7 30 dns_demo_tracker (Some []) =
      (E_OK, t', Some [query_result dns_demo_query 30 ''session_end''])"
    using dns_demo_session_end by blast
  have "dns_pending_count 7 t' = 0"
    by (rule dns_session_end_drains [OF dns_demo_reachable dns_demo_backed run, THEN conjunct2])
  with run show ?thesis by blast
qed



end
