(* ===== verification/DnsModuleSafety.thy ===== *)
theory DnsModuleSafety
  imports DnsModuleProps DnsTrackerSafety
begin

text \<open>
  Runs of the DNS module: what its host may call, what a run keeps, and what is left when the
  last session has ended or the task is aborted.
\<close>

datatype dns_module_op =
    ModuleInput npm_input
  | ModuleReadable "session_view option" tcp_stream_context "tcp_stream_event list"
  | ModuleTime "int option"
  | ModuleSessionEnd session_view int
  | ModuleFinish

fun dns_module_step :: "dns_host \<Rightarrow> dns_module_op \<Rightarrow> dns_module \<Rightarrow> dns_module_call" where
  "dns_module_step host (ModuleInput input) m = dns_module_input host input m"
| "dns_module_step host (ModuleReadable session ctx evs) m = dns_module_readable host session ctx evs m"
| "dns_module_step host (ModuleTime w) m = dns_module_time host w m"
| "dns_module_step host (ModuleSessionEnd view observed) m = dns_module_session_end host view observed m"
| "dns_module_step host ModuleFinish m = (case dns_module_finish m of (e, m') \<Rightarrow> (e, m', []))"

text \<open>
  By the contract of the consumers a nonzero result aborts the task, so a run goes on only after
  a call that succeeded. The log is what the module has emitted.
\<close>

inductive dns_module_run :: "dns_host \<Rightarrow> dns_config \<Rightarrow> npm_task_budget option \<Rightarrow> dns_module \<Rightarrow> dns_result list \<Rightarrow> bool"
  for host c tb where
  start: "dns_module_run host c tb (new_dns_module c tb) []"
| step: "dns_module_run host c tb m log \<Longrightarrow> dns_module_step host op m = (E_OK, m', out) \<Longrightarrow>
    dns_module_run host c tb m' (log @ out)"

inductive_cases dns_module_runE: "dns_module_run host c tb m log"

lemma dns_module_start:
  assumes "backed tb 0 base"
  shows "dns_module_inv base c [] (new_dns_module c tb)"
proof -
  have "dns_inv base {#} (new_dns_tracker c tb) []" by (rule dns_inv_new [OF assms])
  then have "framer_inv base {#} {} c [] (new_dns_tracker c tb) (Some [])"
    by (auto simp: framer_inv_def framer_share_def framer_ok_def within_def omap_keys_def)
      (simp_all add: new_dns_tracker_def)
  then show ?thesis
    by (auto simp: dns_module_inv_def new_dns_module_def identity_share_def dns_known_def omap_keys_def
        dns_row_ids_def intro!: exI [of _ "{#}"]) (simp add: new_dns_tracker_def)
qed

lemma dns_module_step_inv:
  assumes "dns_module_inv base c log m" "dns_module_step host op m = (e, m', out)"
  shows "dns_module_ledger base m' \<and> (e = E_OK \<longrightarrow> dns_module_inv base c (log @ out) m')"
proof (cases op)
  case (ModuleInput input)
  then have "dns_module_inv base c (log @ out) m'" using dns_module_input_inv [OF assms(1)] assms(2) by simp
  then show ?thesis using dns_module_inv_ledger by blast
next
  case (ModuleReadable session ctx evs)
  then have "dns_module_inv base c (log @ out) m'" using dns_module_readable_inv [OF assms(1)] assms(2) by simp
  then show ?thesis using dns_module_inv_ledger by blast
next
  case (ModuleTime w)
  then have "dns_module_inv base c (log @ out) m'" using dns_module_time_inv [OF assms(1)] assms(2) by simp
  then show ?thesis using dns_module_inv_ledger by blast
next
  case (ModuleSessionEnd view observed)
  with dns_module_session_end_inv [OF assms(1)] assms(2) show ?thesis by auto
next
  case ModuleFinish
  with assms have "out = []" "m' = m \<or> m' = m\<lparr>dq_finished := True\<rparr>"
    by (auto simp: dns_module_finish_def split: if_splits)
  moreover have "dns_module_inv base c log (m\<lparr>dq_finished := True\<rparr>)"
    using assms(1) by (simp add: dns_module_inv_def dns_known_def)
  ultimately show ?thesis using assms(1) by (auto dest: dns_module_inv_ledger)
qed

lemma dns_module_run_inv:
  assumes "dns_module_run host c tb m log" "backed tb 0 base"
  shows "dns_module_inv base c log m"
  using assms
proof (induction rule: dns_module_run.induct)
  case start
  then show ?case by (rule dns_module_start)
next
  case (step m log op m' out)
  then show ?case using dns_module_step_inv by blast
qed

lemma dns_module_run_aborted: "dns_module_run host c tb m log \<Longrightarrow> \<not> dq_aborted m"
proof (induction rule: dns_module_run.induct)
  case start
  then show ?case by (simp add: new_dns_module_def)
next
  case (step m log op m' out)
  have del: "dq_aborted m3 = dq_aborted m2" if "deliver host e rows m2 = (e', m3, out)" for e rows m2 e' m3 out
    using that by (auto simp: deliver_def dns_emit_rows_def split: if_splits prod.splits)
  have rem: "dq_aborted m3 = dq_aborted m2" if "dns_remember_session host view m2 = (e, m3)" for view m2 e m3
    using that by (auto simp: dns_remember_session_def split: prod.splits)
  show ?case
    using step
    by (cases op) (auto simp: dns_module_input_def dns_module_readable_def dns_module_time_def dns_module_finish_def
        dns_module_session_end_def dns_forget_session_def closed_def
        split: option.splits if_splits prod.splits dest!: del rem)
qed

lemma dns_module_abort_settles:
  assumes "dns_module_ledger base m" "\<not> dq_aborted m"
  shows "backed (dt_budget (dq_tracker (dns_module_abort m))) 0 base \<and>
    dt_pending (dq_tracker (dns_module_abort m)) = [] \<and> dq_framer (dns_module_abort m) = [] \<and>
    dq_identities (dns_module_abort m) = []"
proof -
  obtain fr t where fa: "dns_framer_abort (dq_framer m) (dq_tracker m) = (fr, t)" by fastforce
  from dns_framer_abort_settles [OF assms(1) [unfolded dns_module_ledger_def] fa]
  have t: "dns_ledger (base + identity_share (dq_identities m)) t" "fr = []" by auto
  note ab = dns_abort_settles [OF t(1)]
  then have "backed (dt_budget (dns_abort t)) (identity_share (dq_identities m) + 0) base"
    by (simp add: backed_def ac_simps)
  from forget_all_spec [OF this] ab assms(2) fa t(2) show ?thesis
    by (simp add: dns_module_abort_def Let_def)
qed

section \<open>Properties\<close>

text \<open>
  C20. The module's ledger: after any call of a run, refused or not, what the task ledger holds for
  module state is what others held at the start plus one charge for each pending query, each row
  not yet released, each stream direction with its frame, and each session's identity; an abort
  gives all of it back and leaves no query, direction or identity.
\<close>

theorem dns_module_ledger_exact:
  assumes "dns_module_run host c (Some tb) m log" "budget_wf tb" "dns_module_step host op m = (e, m', out)"
    "dt_budget (dq_tracker m') = Some tb'"
  shows "module_held tb' = module_held tb + identity_share (dq_identities m') +
      omap_sum (\<lambda>st. direction_charge + ds_frame_charge st) (dq_framer m') +
      dns_pending_charge * omap_sum length (dt_pending (dq_tracker m')) + dt_result_charge_bytes (dq_tracker m') \<and>
    (\<not> dq_aborted m' \<longrightarrow>
       backed (dt_budget (dq_tracker (dns_module_abort m'))) 0 (module_held tb) \<and>
       dt_pending (dq_tracker (dns_module_abort m')) = [] \<and> dq_framer (dns_module_abort m') = [] \<and>
       dq_identities (dns_module_abort m') = [])"
proof -
  have "backed (Some tb) 0 (module_held tb)" using assms(2) by (simp add: backed_def)
  from dns_module_step_inv [OF dns_module_run_inv [OF assms(1) this] assms(3)]
  have led: "dns_module_ledger (module_held tb) m'" by simp
  with dns_module_abort_settles [OF led] assms(4) show ?thesis
    by (auto simp: dns_module_ledger_def dns_ledger_def backed_def framer_share_def ac_simps)
qed

text \<open>
  Nothing leaks over the life of a task: when every session the module was told about has
  ended, so that the module accepts to finish, there is no pending query, no stream direction and
  not one byte of the ledger left in it, without any abort.
\<close>

theorem dns_module_finish_clean:
  assumes "dns_module_run host c (Some tb) m log" "budget_wf tb" "dns_module_finish m = (E_OK, m')"
  shows "dt_pending (dq_tracker m') = [] \<and> dq_framer m' = [] \<and>
    (\<forall>tb'. dt_budget (dq_tracker m') = Some tb' \<longrightarrow> module_held tb' = module_held tb)"
proof -
  have "backed (Some tb) 0 (module_held tb)" using assms(2) by (simp add: backed_def)
  then have inv: "dns_module_inv (module_held tb) c log m" by (rule dns_module_run_inv [OF assms(1)])
  have m: "dq_identities m = []" "m' = m\<lparr>dq_finished := True\<rparr>"
    using assms(3) by (auto simp: dns_module_finish_def split: if_splits)
  have keys: "set (omap_keys x) \<subseteq> {} \<Longrightarrow> x = []" for x :: "('a, 'b) omap" by (simp add: omap_keys_def)
  obtain hist where i: "framer_inv (module_held tb) hist {} c (dq_framer m) (dq_tracker m) (Some [])"
    using inv by (auto simp: dns_module_inv_def m identity_share_def dns_known_def omap_keys_def)
  then have "dt_pending (dq_tracker m) = []" "dq_framer m = []"
    by (auto simp: framer_inv_def within_def framer_ok_def intro!: keys)
  with i inv show ?thesis
    by (auto simp: m framer_inv_def framer_share_def dns_inv_def dns_module_inv_def backed_def)
qed

text \<open>
  What a module emits over a whole run: every row's identifier is nonzero and no identifier
  is emitted twice, and every row is consistent in its columns.
\<close>

theorem dns_module_emits_unique:
  assumes "dns_module_run host c tb m log" "backed tb 0 base"
  shows "distinct (map dr_entity_instance_id log) \<and> 0 \<notin> set (map dr_entity_instance_id log) \<and>
    list_all dns_row_ok log"
proof -
  have inv: "dns_module_inv base c log m" by (rule dns_module_run_inv [OF assms])
  then obtain hist where h: "dns_row_ids log \<subseteq># hist"
      "framer_inv (base + identity_share (dq_identities m)) hist (dns_known m) c (dq_framer m) (dq_tracker m) (Some [])"
    by (auto simp: dns_module_inv_def)
  then have "ids_ok (dt_next_id (dq_tracker m)) (hist + omap_sum tx_ids (dt_pending (dq_tracker m)))"
    by (auto simp: framer_inv_def dns_inv_def dns_row_ids_def [of "[]"])
  then have "ids_ok (dt_next_id (dq_tracker m)) (dns_row_ids log)"
    by (rule ids_ok_subset) (use h(1) in \<open>simp add: subset_mset.add_increasing2\<close>)
  then have "ids_ok (dt_next_id (dq_tracker m)) (mset (map dr_entity_instance_id log) + {#})"
    by (simp add: dns_row_ids_def)
  from ids_ok_distinct(1,2) [OF this] inv show ?thesis by (simp add: dns_module_inv_def)
qed

section \<open>Witnesses\<close>

text \<open>A module that sees one UDP query in session 7 and then the session's end.\<close>

definition demo_session_key :: npm_session_key where
  "demo_session_key = \<lparr>sk_family = IPv4, sk_a_ip = [10, 0, 0, 1], sk_b_ip = [10, 0, 0, 2], sk_namespace = ''n'',
     sk_domain = 1, sk_a_port = 4000, sk_b_port = 53, sk_protocol = 17\<rparr>"

definition demo_host :: dns_host where
  "demo_host = \<lparr>ho_owned = (\<lambda>_. 100), ho_utf8 = (\<lambda>_. True), ho_emit = (\<lambda>_ _. E_OK)\<rparr>"

definition demo_view :: session_view where
  "demo_view = \<lparr>sv_session_id = 7, sv_key = Some demo_session_key\<rparr>"

definition demo_input :: npm_input where
  "demo_input = \<lparr>in_kind = InTcpPacket, in_session = Some demo_view, in_direction = Some AToB,
     in_body = Bytes [1], in_body_complete = True, in_timestamp_ns = 5\<rparr>"

definition demo_idle :: dns_module where
  "demo_idle = fst (snd (dns_module_step demo_host (ModuleInput demo_input) (new_dns_module dns_demo_config (Some dns_demo_tb))))"

lemma demo_charge_100:
  obtains tb' where "opt_charge 100 (Some dns_demo_tb) = Some (Some tb')" "module_held tb' = 100"
  by (rule charge_fits [OF dns_demo_tb(1), of 100]) (auto simp: dns_demo_tb)

lemma demo_input_step:
  "\<exists>tb'. module_held tb' = 100 \<and>
     dns_module_step demo_host (ModuleInput demo_input) (new_dns_module dns_demo_config (Some dns_demo_tb)) =
     (E_OK, demo_idle, []) \<and> dt_budget (dq_tracker demo_idle) = Some tb' \<and>
     dq_identities demo_idle = [(7, \<lparr>id_key = demo_session_key, id_charge = 100\<rparr>)] \<and> dq_framer demo_idle = [] \<and>
     dt_pending (dq_tracker demo_idle) = [] \<and> dt_result_charge_bytes (dq_tracker demo_idle) = 0 \<and> \<not> closed demo_idle"
proof -
  obtain tb' where "opt_charge 100 (Some dns_demo_tb) = Some (Some tb')" "module_held tb' = 100" by (rule demo_charge_100)
  then show ?thesis
    by (simp add: demo_idle_def dns_module_input_def demo_input_def new_dns_module_def closed_def demo_view_def
        dns_remember_session_def remember_session_def demo_host_def demo_session_key_def dns_protocol_def new_dns_tracker_def)
qed

lemma demo_idle_run: "dns_module_run demo_host dns_demo_config (Some dns_demo_tb) demo_idle ([] @ [])"
  by (rule dns_module_run.step [OF dns_module_run.start, where op = "ModuleInput demo_input"]) (use demo_input_step in auto)

definition demo_ended :: dns_module where
  "demo_ended = fst (snd (dns_module_step demo_host (ModuleSessionEnd demo_view 9) demo_idle))"

lemma demo_end_step:
  "dns_module_step demo_host (ModuleSessionEnd demo_view 9) demo_idle = (E_OK, demo_ended, []) \<and>
   dq_identities demo_ended = [] \<and> \<not> closed demo_ended"
  using demo_input_step
  by (auto simp: demo_ended_def dns_module_session_end_def demo_view_def dns_framer_session_end_def
      dns_on_session_end_def erase_direction_def deliver_def dns_emit_rows_def dns_release_results_def
      dns_forget_session_def forget_session_def closed_def)

lemma demo_ended_run: "dns_module_run demo_host dns_demo_config (Some dns_demo_tb) demo_ended (([] @ []) @ [])"
  by (rule dns_module_run.step [OF demo_idle_run, where op = "ModuleSessionEnd demo_view 9"]) (use demo_end_step in auto)

theorem dns_module_ledger_exact_witness:
  "\<exists>tb'. dt_budget (dq_tracker demo_idle) = Some tb' \<and> module_held tb' = 100 \<and>
     backed (dt_budget (dq_tracker (dns_module_abort demo_idle))) 0 0"
proof -
  obtain tb' where i: "module_held tb' = 100" "dt_budget (dq_tracker demo_idle) = Some tb'"
      "dns_module_step demo_host (ModuleInput demo_input) (new_dns_module dns_demo_config (Some dns_demo_tb)) = (E_OK, demo_idle, [])"
      "\<not> closed demo_idle"
    using demo_input_step by blast
  from dns_module_ledger_exact [OF dns_module_run.start dns_demo_tb(1) i(3,2)] i show ?thesis
    by (auto simp: closed_def dns_demo_tb)
qed

theorem dns_module_finish_clean_witness:
  "\<exists>m'. dns_module_finish demo_ended = (E_OK, m') \<and> dq_framer m' = []"
proof -
  obtain m' where fin: "dns_module_finish demo_ended = (E_OK, m')"
    using demo_end_step by (auto simp: dns_module_finish_def)
  from dns_module_finish_clean [OF demo_ended_run dns_demo_tb(1) fin] fin show ?thesis by blast
qed

text \<open>The same session with a query in it: its end emits one row.\<close>

definition demo_query_input :: npm_input where
  "demo_query_input = \<lparr>in_kind = InUdpDatagram, in_session = Some demo_view, in_direction = Some AToB,
     in_body = Bytes (dns_question_bytes 1 0 [[87]] 1 1), in_body_complete = True, in_timestamp_ns = 5\<rparr>"

lemma demo_query_step:
  "\<exists>m tb. dns_module_step demo_host (ModuleInput demo_query_input) (new_dns_module dns_demo_config (Some dns_demo_tb)) =
     (E_OK, m, []) \<and> dt_budget (dq_tracker m) = Some tb \<and> budget_wf tb \<and> module_free tb = 95804 \<and> module_held tb = 4196 \<and>
     dq_identities m = [(7, \<lparr>id_key = demo_session_key, id_charge = 100\<rparr>)] \<and> dq_framer m = [] \<and>
     dt_pending (dq_tracker m) = [(7, [dns_demo_query])] \<and> dt_result_charge_bytes (dq_tracker m) = 0 \<and> \<not> closed m"
proof -
  obtain tb1 where tb1: "opt_charge 100 (Some dns_demo_tb) = Some (Some tb1)" "budget_wf tb1"
      "module_free tb1 + 100 = 100000" "module_held tb1 = 100"
    by (rule charge_fits [OF dns_demo_tb(1), of 100]) (auto simp: dns_demo_tb)
  obtain tb2 where tb2: "opt_charge dns_pending_charge (Some tb1) = Some (Some tb2)" "budget_wf tb2"
      "module_free tb2 + dns_pending_charge = module_free tb1" "module_held tb2 = module_held tb1 + dns_pending_charge"
    by (rule charge_fits [OF tb1(2), of dns_pending_charge]) (use tb1(3) in \<open>auto simp: dns_pending_charge_def\<close>)
  have free: "module_free tb2 = 95804" using tb2(3) tb1(3) by (simp add: dns_pending_charge_def)
  have q: "dns_on_datagram 7 AToB (Bytes (dns_question_bytes 1 0 [[87]] 1 1)) True 5
      (new_dns_tracker dns_demo_config (Some tb1)) (Some []) =
      (E_OK, (new_dns_tracker dns_demo_config (Some tb2))\<lparr>dt_next_id := 2, dt_pending := [(7, [dns_demo_query])]\<rparr>, Some [])"
    using query_datagram [of 7 "[[87]]" 0 1 AToB 1 1 5] tb2(1)
    by (simp add: plain_flags_def dns_demo_labels dns_query_def new_dns_tracker_def session_pending_def
        find_question_def charge_pending_def dns_next_id_def returning_def store_pending_def dns_demo_query_def
        dns_demo_config_def dns_deadline_def i64_max_def)
  have "new_dns_tracker dns_demo_config (Some dns_demo_tb)\<lparr>dt_budget := Some tb1\<rparr> = new_dns_tracker dns_demo_config (Some tb1)"
    by (simp add: new_dns_tracker_def)
  with q tb1 tb2 free show ?thesis
    by (simp add: dns_module_input_def demo_query_input_def new_dns_module_def closed_def demo_view_def
        dns_remember_session_def remember_session_def demo_host_def demo_session_key_def dns_protocol_def
        deliver_def dns_emit_rows_def dns_release_results_def dns_pending_charge_def)
      (simp add: new_dns_tracker_def dns_protocol_def deliver_def dns_emit_rows_def dns_release_results_def)
qed

definition demo_end_row :: dns_result where
  "demo_end_row = query_result dns_demo_query 9 ''session_end''"

lemma demo_end_row: "encodable (\<lambda>_. True) demo_session_key demo_end_row" "dr_session_id demo_end_row = 7"
  by (simp_all add: encodable_def demo_end_row_def query_result_def default_dns_result_def dns_demo_query_def
      asked_def demo_session_key_def display_name_def display_label_def display_byte_def)

lemma demo_query_end:
  assumes "dt_budget (dq_tracker m) = Some tb" "budget_wf tb" "module_free tb = 95804" "module_held tb = 4196"
    "dq_identities m = [(7, \<lparr>id_key = demo_session_key, id_charge = 100\<rparr>)]" "dq_framer m = []"
    "dt_pending (dq_tracker m) = [(7, [dns_demo_query])]" "dt_result_charge_bytes (dq_tracker m) = 0" "\<not> closed m"
  shows "\<exists>m'. dns_module_step demo_host (ModuleSessionEnd demo_view 9) m = (E_OK, m', [demo_end_row])"
proof -
  obtain tb3 where tb3: "opt_charge dns_result_charge (Some tb) = Some (Some tb3)" "budget_wf tb3"
      "module_free tb3 + dns_result_charge = module_free tb" "module_held tb3 = module_held tb + dns_result_charge"
    by (rule charge_fits [OF assms(2), of dns_result_charge]) (use assms(3) in \<open>auto simp: dns_result_charge_def\<close>)
  define tb4 where "tb4 = module_refund dns_pending_charge tb3"
  have tb4: "budget_wf tb4" "16384 \<le> module_free tb4"
    using module_ledger.refund_sound [OF tb3(2), of dns_pending_charge]
      module_ledger.refund_free [OF tb3(2), of dns_pending_charge] tb3(3,4) assms(3,4)
    by (simp_all add: tb4_def dns_pending_charge_def dns_result_charge_def)
  obtain tb5 where tb5: "opt_charge single_row_build_charge (Some tb4) = Some (Some tb5)"
    by (rule charge_fits [OF tb4(1), of single_row_build_charge]) (use tb4(2) in \<open>auto simp: single_row_build_charge_def\<close>)
  show ?thesis
    using assms tb3(1) tb5 demo_end_row
    by (simp add: dns_module_session_end_def demo_view_def dns_framer_session_end_def
        dns_on_session_end_def erase_direction_def deliver_def dns_emit_rows_def charge_result_def release_pending_def
        opt_refund_def tb4_def [symmetric] emit_dns_transaction_def demo_host_def demo_end_row_def [symmetric])
qed

theorem dns_module_emits_unique_witness:
  "\<exists>m. dns_module_run demo_host dns_demo_config (Some dns_demo_tb) m [demo_end_row] \<and>
     0 \<notin> set (map dr_entity_instance_id [demo_end_row])"
proof -
  obtain m tb where q: "dns_module_step demo_host (ModuleInput demo_query_input) (new_dns_module dns_demo_config (Some dns_demo_tb)) =
     (E_OK, m, [])" "dt_budget (dq_tracker m) = Some tb" "budget_wf tb" "module_free tb = 95804" "module_held tb = 4196"
     "dq_identities m = [(7, \<lparr>id_key = demo_session_key, id_charge = 100\<rparr>)]" "dq_framer m = []"
     "dt_pending (dq_tracker m) = [(7, [dns_demo_query])]" "dt_result_charge_bytes (dq_tracker m) = 0" "\<not> closed m"
    using demo_query_step by blast
  obtain m' where end_step: "dns_module_step demo_host (ModuleSessionEnd demo_view 9) m = (E_OK, m', [demo_end_row])"
    using demo_query_end [OF q(2-)] by blast
  have run: "dns_module_run demo_host dns_demo_config (Some dns_demo_tb) m' (([] @ []) @ [demo_end_row])"
    by (rule dns_module_run.step [OF dns_module_run.step [OF dns_module_run.start q(1)] end_step])
  from dns_module_emits_unique [OF run dns_demo_backed] run show ?thesis by auto
qed

end
