(* ===== verification/ObservationDomain.thy ===== *)
theory ObservationDomain
  imports TaskBudget
begin

text \<open>
  The observation domains of npm_analysis_contract.cpp: the configured map from capture sources to
  domains, its validation, and the sorted lookup built from it, which is charged to the task
  ledger. The specification of a lookup is a search of the configured bindings in their own order.
\<close>

section \<open>The configured map\<close>

record source_domain_binding =
  bd_source_id :: u32
  bd_domain :: u64

record observation_domain_map =
  dm_namespace :: string
  dm_bindings :: "source_domain_binding list"
  dm_source_id_as_domain :: bool

datatype observation_domain_error =
    DomainNone | DomainNullOutput | EmptyInputNamespace | EmptyBindings | DuplicateSourceId | UnknownSourceId

fun duplicate_source :: "source_domain_binding list \<Rightarrow> bool" where
  "duplicate_source [] = False"
| "duplicate_source (b # bs) \<longleftrightarrow> list_ex (\<lambda>c. bd_source_id b = bd_source_id c) bs \<or> duplicate_source bs"

definition validate_domain_map :: "observation_domain_map \<Rightarrow> observation_domain_error" where
  "validate_domain_map m =
     (if dm_namespace m = [] then EmptyInputNamespace
      else if dm_bindings m = [] \<and> \<not> dm_source_id_as_domain m then EmptyBindings
      else if duplicate_source (dm_bindings m) then DuplicateSourceId
      else DomainNone)"

section \<open>The lookup\<close>

record domain_lookup =
  dl_namespace :: string
  dl_bindings :: "source_domain_binding list"
  dl_source_id_as_domain :: bool
  dl_charged_bytes :: nat

datatype domain_lookup_error = LookupInvalidConfiguration | LookupBudgetExceeded

text \<open>
  Create, for a non-null output that holds no lookup. \<open>owned\<close> is the size of the object, of the
  namespace and of the bindings, which the C++ library fixes. std::sort orders the bindings by
  source; validation has made the sources distinct.
\<close>

definition create_domain_lookup ::
  "(observation_domain_map \<Rightarrow> nat) \<Rightarrow> observation_domain_map \<Rightarrow> npm_task_budget option
    \<Rightarrow> domain_lookup_error + domain_lookup \<times> npm_task_budget" where
  "create_domain_lookup owned m budget =
     (case budget of None \<Rightarrow> Inl LookupInvalidConfiguration
      | Some b \<Rightarrow>
          if validate_domain_map m \<noteq> DomainNone then Inl LookupInvalidConfiguration
          else
            (case task_reserve ModuleState (owned m) b of (e, b') \<Rightarrow>
              if e \<noteq> BudgetNone then Inl LookupBudgetExceeded
              else Inr (\<lparr>dl_namespace = dm_namespace m, dl_bindings = sort_key bd_source_id (dm_bindings m),
                         dl_source_id_as_domain = dm_source_id_as_domain m, dl_charged_bytes = owned m\<rparr>, b')))"

definition destroy_domain_lookup :: "domain_lookup \<Rightarrow> npm_task_budget \<Rightarrow> npm_task_budget" where
  "destroy_domain_lookup l b =
     (if dl_charged_bytes l \<noteq> 0 then snd (task_release ModuleState (dl_charged_bytes l) b) else b)"

text \<open>
  Resolve: std::lower_bound finds the first binding whose source is not below the wanted one.
\<close>

definition resolve_domain :: "domain_lookup \<Rightarrow> u32 \<Rightarrow> observation_domain_error + u64" where
  "resolve_domain l source_id =
     (case dropWhile (\<lambda>b. bd_source_id b < source_id) (dl_bindings l) of
        found # _ \<Rightarrow>
          if bd_source_id found = source_id then Inr (bd_domain found)
          else if dl_source_id_as_domain l then Inr (ucast source_id) else Inl UnknownSourceId
      | [] \<Rightarrow> if dl_source_id_as_domain l then Inr (ucast source_id) else Inl UnknownSourceId)"

section \<open>Properties\<close>

lemma duplicate_source_distinct: "\<not> duplicate_source bs \<longleftrightarrow> distinct (map bd_source_id bs)"
  by (induction bs) (auto simp: list_ex_iff)

lemma dropWhile_less_first:
  "sorted (map f xs) \<Longrightarrow>
     (case dropWhile (\<lambda>b. f b < k) xs of y # _ \<Rightarrow> if f y = k then Some y else None | [] \<Rightarrow> None) =
     find (\<lambda>b. f b = k) xs"
  for k :: "'a::linorder"
proof (induction xs)
  case (Cons x xs)
  show ?case
  proof (cases "f x < k")
    case True
    then have "f x \<noteq> k" by simp
    with True Cons show ?thesis by simp
  next
    case False
    have "find (\<lambda>b. f b = k) xs = None" if "f x \<noteq> k"
      unfolding find_None_iff
    proof
      assume "\<exists>y. y \<in> set xs \<and> f y = k"
      then have "f x \<le> k" using Cons.prems by auto
      with False that show False by simp
    qed
    with False show ?thesis by simp
  qed
qed simp

lemma resolve_domain_find:
  assumes "sorted (map bd_source_id (dl_bindings l))"
  shows "resolve_domain l s =
      (case find (\<lambda>c. bd_source_id c = s) (dl_bindings l) of
         Some c \<Rightarrow> Inr (bd_domain c)
       | None \<Rightarrow> if dl_source_id_as_domain l then Inr (ucast s) else Inl UnknownSourceId)"
  unfolding resolve_domain_def dropWhile_less_first [OF assms, symmetric]
  by (cases "dropWhile (\<lambda>c. bd_source_id c < s) (dl_bindings l)") (simp_all del: dropWhile_eq_Nil_conv)

lemma find_distinct_set:
  assumes "set xs = set ys" "distinct (map f ys)"
  shows "find (\<lambda>b. f b = k) xs = find (\<lambda>b. f b = k) ys"
proof (cases "find (\<lambda>b. f b = k) xs")
  case None
  with assms(1) have "find (\<lambda>b. f b = k) ys = None" by (simp add: find_None_iff)
  with None show ?thesis by simp
next
  case (Some x)
  then have x: "x \<in> set ys" "f x = k" using assms(1) by (auto simp: find_Some_iff)
  then have "find (\<lambda>b. f b = k) ys \<noteq> None" by (auto simp: find_None_iff)
  then obtain y where y: "find (\<lambda>b. f b = k) ys = Some y" by blast
  then have "y \<in> set ys" "f y = k" by (auto simp: find_Some_iff)
  with x assms(2) have "y = x" by (auto simp: distinct_map dest: inj_onD)
  with Some y show ?thesis by simp
qed

text \<open>
  A lookup that was created answers every source as the configured map does: the binding of
  that source if there is one, else the source itself where the map says so, else unknown; and
  destroying it gives its charge back to the ledger exactly.
\<close>

theorem domain_lookup_correct:
  assumes "create_domain_lookup owned m (Some b) = Inr (l, b')" "budget_wf b"
  shows "resolve_domain l s =
      (case find (\<lambda>c. bd_source_id c = s) (dm_bindings m) of
         Some c \<Rightarrow> Inr (bd_domain c)
       | None \<Rightarrow> if dm_source_id_as_domain m then Inr (ucast s) else Inl UnknownSourceId) \<and>
    dl_namespace l = dm_namespace m \<and> module_held b' = module_held b + owned m \<and>
    module_held (destroy_domain_lookup l b') = module_held b"
proof -
  have l: "dl_bindings l = sort_key bd_source_id (dm_bindings m)" "dl_charged_bytes l = owned m"
    "dl_source_id_as_domain l = dm_source_id_as_domain m" "dl_namespace l = dm_namespace m"
    and dup: "distinct (map bd_source_id (dm_bindings m))"
    and charge: "module_charge (owned m) b = Some b'"
    using assms(1)
    by (auto simp: create_domain_lookup_def validate_domain_map_def module_charge_def duplicate_source_distinct
        split: if_splits prod.splits)
  from find_distinct_set [OF _ dup, of "dl_bindings l" s]
  have "find (\<lambda>c. bd_source_id c = s) (dl_bindings l) = find (\<lambda>c. bd_source_id c = s) (dm_bindings m)"
    by (simp add: l)
  with resolve_domain_find [of l s]
  have "resolve_domain l s =
      (case find (\<lambda>c. bd_source_id c = s) (dm_bindings m) of
         Some c \<Rightarrow> Inr (bd_domain c)
       | None \<Rightarrow> if dm_source_id_as_domain m then Inr (ucast s) else Inl UnknownSourceId)"
    by (simp add: l)
  moreover have "module_held b' = module_held b + owned m"
    using module_ledger.charge_held [OF assms(2) charge] by simp
  moreover have "module_held (destroy_domain_lookup l b') = module_held b"
    using module_ledger.charge_refund [OF assms(2) charge] calculation
    by (cases "owned m = 0") (simp_all add: destroy_domain_lookup_def l module_refund_def)
  ultimately show ?thesis by (simp add: l)
qed

text \<open>The hypotheses hold for a map of two sources, one of which overrides the default.\<close>

definition sample_domain_map :: observation_domain_map where
  "sample_domain_map =
     \<lparr>dm_namespace = ''tap'', dm_bindings = [\<lparr>bd_source_id = 9, bd_domain = 1\<rparr>, \<lparr>bd_source_id = 4, bd_domain = 2\<rparr>],
      dm_source_id_as_domain = True\<rparr>"

definition sample_domain_budget :: npm_task_budget where
  "sample_domain_budget = new_task_budget \<lparr>max_tracked_bytes = 1000, max_pending_output_bytes = 0\<rparr>"

theorem domain_lookup_correct_witness:
  "\<exists>l b'. create_domain_lookup (\<lambda>m. 100) sample_domain_map (Some sample_domain_budget) = Inr (l, b') \<and>
     resolve_domain l 4 = Inr 2 \<and> resolve_domain l 9 = Inr 1 \<and> resolve_domain l 7 = Inr 7 \<and> module_held b' = 100"
proof -
  obtain l b' where c: "create_domain_lookup (\<lambda>m. 100) sample_domain_map (Some sample_domain_budget) = Inr (l, b')"
    by (simp add: create_domain_lookup_def validate_domain_map_def sample_domain_map_def sample_domain_budget_def
        new_task_budget_def task_reserve_def reserve_npm_budget_def npm_tracked_budget_bytes_def saturating_add_def
        u64_max_def Let_def)
  have wf: "budget_wf sample_domain_budget"
    unfolding sample_domain_budget_def by (rule budget_wf_new) (simp_all add: u64_max_def)
  have z: "module_held sample_domain_budget = 0"
    by (simp add: module_held_def sample_domain_budget_def new_task_budget_def)
  from domain_lookup_correct [OF c wf, of 4] domain_lookup_correct [OF c wf, of 9] domain_lookup_correct [OF c wf, of 7]
  have "resolve_domain l 4 = Inr 2" "resolve_domain l 9 = Inr 1" "resolve_domain l 7 = Inr 7" "module_held b' = 100"
    by (simp_all add: sample_domain_map_def z)
  with c show ?thesis by blast
qed

end
