(* ===== verification/SessionKey.thy ===== *)
theory SessionKey
  imports ObservationDomain ModuleHost TcpStreamContract
begin

text \<open>
  core/npm_session_key.cpp: from a captured packet and the decoder's layer facts to the key of its
  session, the direction within it and the transport payload, or, for a control protocol, to the
  body after the network headers. Headers are read from the packet bytes at the offsets the layer
  facts claim; every read is checked against the captured size.
\<close>

unbundle bit_operations_syntax

section \<open>Packets and layers\<close>

datatype session_packet_error =
    PktNone | PktNullOutput | InvalidObservationDomainMap | PktUnknownSourceId | InvalidPacketBounds
  | LayerUnavailable | MalformedLayer | InvalidLayerSelection | AmbiguousTunnelContext | IncompleteEndpoint
  | UnsupportedTransportProtocol | NonInitialFragment | IncompleteTransportHeader | InvalidPayloadBounds

text \<open>The layer kinds the code tests, by their number; TOP is also the absence of a layer.\<close>

abbreviation layer_TOP :: u16 where "layer_TOP \<equiv> 0"
abbreviation layer_ETHERNET :: u16 where "layer_ETHERNET \<equiv> 2"
abbreviation layer_VLAN :: u16 where "layer_VLAN \<equiv> 3"
abbreviation layer_IPv4 :: u16 where "layer_IPv4 \<equiv> 17"
abbreviation layer_IPv6 :: u16 where "layer_IPv6 \<equiv> 18"
abbreviation layer_HOPOPTS :: u16 where "layer_HOPOPTS \<equiv> 19"
abbreviation layer_ROUTING :: u16 where "layer_ROUTING \<equiv> 20"
abbreviation layer_FRAGMENT :: u16 where "layer_FRAGMENT \<equiv> 21"
abbreviation layer_AH :: u16 where "layer_AH \<equiv> 23"
abbreviation layer_DSTOPTS :: u16 where "layer_DSTOPTS \<equiv> 24"
abbreviation layer_TCP :: u16 where "layer_TCP \<equiv> 33"
abbreviation layer_UDP :: u16 where "layer_UDP \<equiv> 34"

abbreviation proto_TCP :: u8 where "proto_TCP \<equiv> 6"
abbreviation proto_UDP :: u8 where "proto_UDP \<equiv> 17"

datatype layer_status = NotDecoded | Decoded | Truncated | Malformed | UnsupportedLinkType
datatype endpoint_scope = Innermost | Outermost | OtherScope
datatype address_state = AddressNotRequested | AddressNotPresent | AddressAvailable | AddressIncomplete

record layer_ref =
  lr_kind :: u16
  lr_offset :: nat

text \<open>The variant of endpoint pairs, source first; a null pointer in it reads as no endpoints.\<close>

datatype ip_endpoints = NoEndpoints | Endpoints4 "u8 list" "u8 list" | Endpoints6 "u8 list" "u8 list"

definition max_layer_depth :: nat where "max_layer_depth = 15"

record layer_view =
  lv_status :: layer_status
  lv_layer_count :: nat
  lv_layers :: "layer_ref list"
  lv_endpoint_scope :: endpoint_scope
  lv_network_index :: nat
  lv_transport_index :: nat
  lv_payload_offset :: nat
  lv_src_mac :: "u8 list"
  lv_dst_mac :: "u8 list"
  lv_src_mac_valid :: bool
  lv_dst_mac_valid :: bool
  lv_address_state :: address_state
  lv_transport_protocol :: u8
  lv_src_port :: u16
  lv_dst_port :: u16
  lv_ports_valid :: bool
  lv_endpoints :: ip_endpoints

text \<open>Of the packet's metadata, what this code reads.\<close>

record packet_view =
  pk_timestamp_ns :: int
  pk_captured_len :: nat
  pk_wire_len :: nat
  pk_source_id :: u32
  pk_bytes :: span

fun get4 :: "ip_endpoints \<Rightarrow> (u8 list \<times> u8 list) option" where
  "get4 (Endpoints4 s d) = Some (s, d)"
| "get4 _ = None"

fun get6 :: "ip_endpoints \<Rightarrow> (u8 list \<times> u8 list) option" where
  "get6 (Endpoints6 s d) = Some (s, d)"
| "get6 _ = None"

section \<open>Reading headers\<close>

definition is_network_layer :: "u16 \<Rightarrow> bool" where
  "is_network_layer kind \<longleftrightarrow> kind = layer_IPv4 \<or> kind = layer_IPv6"

definition add_size :: "nat \<Rightarrow> nat \<Rightarrow> nat option" where
  "add_size left right = (if right > u64_max - left then None else Some (left + right))"

text \<open>wire::View: a header of the given size at an offset, if the captured bytes hold all of it.\<close>

definition header_at :: "span \<Rightarrow> nat \<Rightarrow> nat \<Rightarrow> u8 list option" where
  "header_at bytes n offset =
     (case span_data bytes of None \<Rightarrow> None
      | Some bs \<Rightarrow> if offset \<le> length bs \<and> n \<le> length bs - offset then Some (take n (drop offset bs)) else None)"

text \<open>Network-order fields of a header.\<close>

definition be16 :: "u8 list \<Rightarrow> nat \<Rightarrow> u16" where
  "be16 h i = push_bit 8 (ucast (h ! i)) OR ucast (h ! (i + 1))"

definition be32 :: "u8 list \<Rightarrow> nat \<Rightarrow> u32" where
  "be32 h i = push_bit 16 (ucast (be16 h i)) OR ucast (be16 h (i + 2))"

definition high_nibble :: "u8 \<Rightarrow> nat" where "high_nibble b = unat (drop_bit 4 b)"
definition low_nibble :: "u8 \<Rightarrow> nat" where "low_nibble b = unat (b AND 15)"

definition resolve_packet_domain :: "domain_lookup \<Rightarrow> u32 \<Rightarrow> session_packet_error + u64" where
  "resolve_packet_domain domains source_id =
     (case resolve_domain domains source_id of
        Inr d \<Rightarrow> Inr d
      | Inl e \<Rightarrow> Inl (if e = UnknownSourceId then PktUnknownSourceId else InvalidObservationDomainMap))"

fun validate_layer_status :: "layer_status \<Rightarrow> session_packet_error" where
  "validate_layer_status Decoded = PktNone"
| "validate_layer_status Truncated = PktNone"
| "validate_layer_status Malformed = MalformedLayer"
| "validate_layer_status NotDecoded = LayerUnavailable"
| "validate_layer_status UnsupportedLinkType = LayerUnavailable"

section \<open>The network layer\<close>

record network_range =
  nr_domain :: u64
  nr_end :: nat
  nr_body :: nat
  nr_protocol :: u8
  nr_family :: address_family

text \<open>The layers between the network layer and the next one: a fragment header must be an initial one.\<close>

fun validate_ipv6_fragments :: "span \<Rightarrow> layer_ref list \<Rightarrow> session_packet_error" where
  "validate_ipv6_fragments bytes [] = PktNone"
| "validate_ipv6_fragments bytes (r # rs) =
     (if is_network_layer (lr_kind r) then PktNone
      else if lr_kind r \<noteq> layer_FRAGMENT then validate_ipv6_fragments bytes rs
      else
        (case header_at bytes 8 (lr_offset r) of None \<Rightarrow> IncompleteTransportHeader
         | Some h \<Rightarrow>
             if be16 h 2 AND 0xfff8 \<noteq> 0 then NonInitialFragment else validate_ipv6_fragments bytes rs))"

definition ipv4_range :: "u64 \<Rightarrow> span \<Rightarrow> nat \<Rightarrow> session_packet_error + network_range" where
  "ipv4_range domain bytes offset =
     (case header_at bytes 20 offset of None \<Rightarrow> Inl InvalidPacketBounds
      | Some h \<Rightarrow>
          if high_nibble (h ! 0) \<noteq> 4 \<or> low_nibble (h ! 0) < 5 then Inl MalformedLayer
          else
            (let header_size = low_nibble (h ! 0) * 4; total_length = unat (be16 h 2) in
             if header_size > span_size bytes - offset then Inl InvalidPacketBounds
             else
               (case add_size offset total_length of None \<Rightarrow> Inl InvalidPayloadBounds
                | Some stop \<Rightarrow>
                    if total_length < header_size then Inl InvalidPayloadBounds
                    else if be16 h 6 AND 0x1fff \<noteq> 0 then Inl NonInitialFragment
                    else Inr \<lparr>nr_domain = domain, nr_end = stop, nr_body = offset + header_size,
                              nr_protocol = h ! 9, nr_family = IPv4\<rparr>)))"

definition ipv6_range :: "u64 \<Rightarrow> span \<Rightarrow> nat \<Rightarrow> layer_ref list \<Rightarrow> session_packet_error + network_range" where
  "ipv6_range domain bytes offset inner =
     (case header_at bytes 40 offset of None \<Rightarrow> Inl InvalidPacketBounds
      | Some h \<Rightarrow>
          (case add_size offset (40 + unat (be16 h 4)) of None \<Rightarrow> Inl InvalidPayloadBounds
           | Some stop \<Rightarrow>
               if high_nibble (h ! 0) \<noteq> 6 then Inl InvalidPayloadBounds
               else
                 (let e = validate_ipv6_fragments bytes inner in
                  if e \<noteq> PktNone then Inl e
                  else Inr \<lparr>nr_domain = domain, nr_end = stop, nr_body = offset + 40,
                            nr_protocol = h ! 6, nr_family = IPv6\<rparr>)))"

definition packet_bounds_ok :: "packet_view \<Rightarrow> bool" where
  "packet_bounds_ok p \<longleftrightarrow>
     span_size (pk_bytes p) = pk_captured_len p \<and> span_size (pk_bytes p) \<noteq> 0 \<and> span_data (pk_bytes p) \<noteq> None \<and>
     \<not> (pk_wire_len p \<noteq> 0 \<and> pk_wire_len p < pk_captured_len p)"

definition layer_selection_ok :: "layer_view \<Rightarrow> bool" where
  "layer_selection_ok l \<longleftrightarrow>
     lv_layer_count l \<noteq> 0 \<and> lv_layer_count l \<le> max_layer_depth \<and> lv_network_index l < lv_layer_count l \<and>
     lv_endpoint_scope l \<noteq> OtherScope"

text \<open>The layers after an index, up to the layer count.\<close>

definition layers_after :: "layer_view \<Rightarrow> nat \<Rightarrow> layer_ref list" where
  "layers_after l i = drop (i + 1) (take (lv_layer_count l) (lv_layers l))"

definition validate_network_range ::
  "domain_lookup \<Rightarrow> packet_view \<Rightarrow> layer_view \<Rightarrow> session_packet_error + network_range" where
  "validate_network_range domains p l =
     (case resolve_packet_domain domains (pk_source_id p) of Inl e \<Rightarrow> Inl e
      | Inr domain \<Rightarrow>
          if \<not> packet_bounds_ok p then Inl InvalidPacketBounds
          else if validate_layer_status (lv_status l) \<noteq> PktNone then Inl (validate_layer_status (lv_status l))
          else if \<not> layer_selection_ok l then Inl InvalidLayerSelection
          else
            (let network = lv_layers l ! lv_network_index l in
             if \<not> is_network_layer (lr_kind network) then Inl InvalidLayerSelection
             else if list_ex (\<lambda>r. is_network_layer (lr_kind r)) (take (lv_network_index l) (lv_layers l))
             then Inl AmbiguousTunnelContext
             else
               (case (if lr_kind network = layer_IPv4 then ipv4_range domain (pk_bytes p) (lr_offset network)
                      else ipv6_range domain (pk_bytes p) (lr_offset network) (layers_after l (lv_network_index l))) of
                  Inl e \<Rightarrow> Inl e
                | Inr rng \<Rightarrow>
                    if pk_wire_len p \<noteq> 0 \<and> nr_end rng > pk_wire_len p then Inl InvalidPayloadBounds
                    else Inr rng)))"

section \<open>Control packets\<close>

definition is_extension :: "u8 \<Rightarrow> bool" where
  "is_extension protocol \<longleftrightarrow> protocol \<in> {0, 43, 44, 60, 51}"

definition extension_kind :: "u8 \<Rightarrow> u16" where
  "extension_kind protocol =
     (if protocol = 0 then layer_HOPOPTS else if protocol = 43 then layer_ROUTING
      else if protocol = 44 then layer_FRAGMENT else if protocol = 51 then layer_AH else layer_DSTOPTS)"

definition extension_length :: "u8 \<Rightarrow> u8 \<Rightarrow> nat" where
  "extension_length protocol extlen =
     (if protocol = 44 then 8 else if protocol = 51 then (unat extlen + 2) * 4 else (unat extlen + 1) * 8)"

text \<open>One extension header: the range after it.\<close>

definition extension_step ::
  "packet_view \<Rightarrow> layer_view \<Rightarrow> network_range \<Rightarrow> nat \<Rightarrow> session_packet_error + network_range" where
  "extension_step p l rng index =
     (let captured = span_size (pk_bytes p); body = nr_body rng; protocol = nr_protocol rng in
      if index \<ge> lv_layer_count l \<or> lr_offset (lv_layers l ! index) \<noteq> body \<or> body > captured \<or> captured - body < 8 \<or>
         body > nr_end rng \<or> nr_end rng - body < 8
      then Inl InvalidPayloadBounds
      else if lr_kind (lv_layers l ! index) \<noteq> extension_kind protocol then Inl InvalidLayerSelection
      else
        (case header_at (pk_bytes p) 8 body of None \<Rightarrow> Inl InvalidPayloadBounds
         | Some h \<Rightarrow>
             (let len = extension_length protocol (h ! 1) in
              if protocol = 51 \<and> len < 12 then Inl InvalidPayloadBounds
              else if protocol = 44 \<and> be16 h 2 AND 0xfff8 \<noteq> 0 then Inl NonInitialFragment
              else if len > captured - body \<or> len > nr_end rng - body then Inl InvalidPayloadBounds
              else Inr (rng\<lparr>nr_protocol := h ! 0, nr_body := body + len\<rparr>))))"

text \<open>The loop over the extension headers as it is written; \<open>None\<close> would be that it does not return.\<close>

partial_function (option) extension_loop ::
  "packet_view \<Rightarrow> layer_view \<Rightarrow> network_range \<Rightarrow> nat \<Rightarrow> (session_packet_error + network_range \<times> nat) option" where
  "extension_loop p l rng index =
     (if is_extension (nr_protocol rng) then
        (case extension_step p l rng index of Inl e \<Rightarrow> Some (Inl e)
         | Inr rng' \<Rightarrow> extension_loop p l rng' (index + 1))
      else Some (Inr (rng, index)))"

text \<open>The input event built for a control packet; it carries no session.\<close>

record control_input =
  ci_domain :: u64
  ci_packet :: packet_view
  ci_layer :: layer_view
  ci_body :: span
  ci_body_complete :: bool

definition control_output :: "packet_view \<Rightarrow> layer_view \<Rightarrow> network_range \<Rightarrow> control_input" where
  "control_output p l rng =
     \<lparr>ci_domain = nr_domain rng, ci_packet = p, ci_layer = l,
      ci_body = Bytes (take (min (nr_end rng) (span_size (pk_bytes p)) - nr_body rng)
                        (drop (nr_body rng) (the (span_data (pk_bytes p))))),
      ci_body_complete = (nr_end rng \<le> span_size (pk_bytes p))\<rparr>"

definition finish_control ::
  "packet_view \<Rightarrow> layer_view \<Rightarrow> network_range \<Rightarrow> nat \<Rightarrow> session_packet_error + layer_view \<times> control_input" where
  "finish_control p l rng index =
     (let expected = (if nr_family rng = IPv4 then 1 else 58) in
      if nr_protocol rng \<noteq> expected then Inl UnsupportedTransportProtocol
      else if nr_body rng > nr_end rng \<or> nr_body rng > span_size (pk_bytes p) then Inl InvalidPayloadBounds
      else if list_ex (\<lambda>r. lr_kind r \<noteq> layer_TOP \<or> lr_offset r \<noteq> nr_body rng)
                (drop index (take (lv_layer_count l) (lv_layers l)))
      then Inl InvalidLayerSelection
      else (let l' = l\<lparr>lv_transport_protocol := expected\<rparr> in Inr (l', control_output p l' rng)))"

text \<open>
  The layer facts and the output are in-out parameters; \<open>None\<close> as output is the null pointer, and
  \<open>None\<close> as result that the call does not return.
\<close>

definition build_control_input ::
  "domain_lookup \<Rightarrow> packet_view \<Rightarrow> layer_view \<Rightarrow> control_input option
    \<Rightarrow> (session_packet_error \<times> layer_view \<times> control_input option) option" where
  "build_control_input domains p l output =
     (if output = None then Some (PktNullOutput, l, None)
      else case validate_network_range domains p l of Inl e \<Rightarrow> Some (e, l, output)
      | Inr rng \<Rightarrow>
          (case (if nr_family rng = IPv6 then extension_loop p l rng (lv_network_index l + 1)
                 else Some (Inr (rng, lv_network_index l + 1))) of
             None \<Rightarrow> None
           | Some (Inl e) \<Rightarrow> Some (e, l, output)
           | Some (Inr (rng', index)) \<Rightarrow>
               (case finish_control p l rng' index of Inl e \<Rightarrow> Some (e, l, output)
                | Inr (l', out) \<Rightarrow> Some (PktNone, l', Some out))))"

section \<open>Session packets\<close>

text \<open>Facts for the flow labels: the two endpoints and at most two VLAN tags.\<close>

record label_endpoint =
  le_mac :: "u8 list"
  le_mac_valid :: bool
  le_ip :: "u8 list option"
  le_port :: u16

record label_vlan =
  vl_tpid :: u16
  vl_vid :: u16

record label_facts =
  lf_domain :: u64
  lf_ip_family :: u8
  lf_transport_protocol :: u8
  lf_source :: label_endpoint
  lf_destination :: label_endpoint
  lf_vlan :: "label_vlan list"

record packet_binding =
  pb_key :: npm_session_key
  pb_direction :: packet_direction
  pb_payload :: "u8 list"
  pb_transport :: transport_packet_facts
  pb_labels :: label_facts

definition label_endpoint_of :: "u8 list \<Rightarrow> bool \<Rightarrow> u8 list \<Rightarrow> u16 \<Rightarrow> label_endpoint" where
  "label_endpoint_of mac mac_valid ip port =
     \<lparr>le_mac = (if mac_valid then mac else replicate 6 0), le_mac_valid = mac_valid, le_ip = Some ip, le_port = port\<rparr>"

definition vlan_tpid :: "packet_view \<Rightarrow> layer_view \<Rightarrow> nat \<Rightarrow> u16" where
  "vlan_tpid p l i =
     (if i = 0 then 0
      else
        (let previous = lv_layers l ! (i - 1) in
         if lr_kind previous = layer_ETHERNET then
           (case header_at (pk_bytes p) 14 (lr_offset previous) of None \<Rightarrow> 0 | Some h \<Rightarrow> be16 h 12)
         else if lr_kind previous = layer_VLAN then
           (case header_at (pk_bytes p) 4 (lr_offset previous) of None \<Rightarrow> 0 | Some h \<Rightarrow> be16 h 2)
         else 0))"

fun label_vlans :: "packet_view \<Rightarrow> layer_view \<Rightarrow> nat list \<Rightarrow> label_vlan list \<Rightarrow> label_vlan list" where
  "label_vlans p l [] facts = facts"
| "label_vlans p l (i # is) facts =
     (if length facts \<ge> 2 then facts
      else if lr_kind (lv_layers l ! i) \<noteq> layer_VLAN then label_vlans p l is facts
      else
        (case header_at (pk_bytes p) 4 (lr_offset (lv_layers l ! i)) of
           None \<Rightarrow> label_vlans p l is facts
         | Some h \<Rightarrow>
             if vlan_tpid p l i = 0 then label_vlans p l is facts
             else label_vlans p l is (facts @ [\<lparr>vl_tpid = vlan_tpid p l i, vl_vid = be16 h 0 AND 0x0fff\<rparr>])))"

text \<open>The payload of a transport layer: its start, its captured end, its length on the wire, the TCP facts.\<close>

definition no_tcp_facts :: tcp_packet_facts where
  "no_tcp_facts =
     \<lparr>tf_valid = False, tf_syn = False, tf_ack = False, tf_fin = False, tf_rst = False,
      tf_sequence = 0, tf_acknowledgment = 0, tf_window = 0\<rparr>"

definition tcp_header_facts :: "u8 list \<Rightarrow> tcp_packet_facts" where
  "tcp_header_facts h =
     \<lparr>tf_valid = True, tf_syn = bit (h ! 13) 1, tf_ack = bit (h ! 13) 4, tf_fin = bit (h ! 13) 0,
      tf_rst = bit (h ! 13) 2, tf_sequence = be32 h 4, tf_acknowledgment = be32 h 8, tf_window = be16 h 14\<rparr>"

definition tcp_payload ::
  "span \<Rightarrow> nat \<Rightarrow> nat \<Rightarrow> session_packet_error + nat \<times> nat \<times> nat \<times> tcp_packet_facts" where
  "tcp_payload bytes network_end offset =
     (case header_at bytes 20 offset of None \<Rightarrow> Inl IncompleteTransportHeader
      | Some h \<Rightarrow>
          if high_nibble (h ! 12) < 5 then Inl InvalidPayloadBounds
          else
            (case add_size offset (high_nibble (h ! 12) * 4) of None \<Rightarrow> Inl InvalidPayloadBounds
             | Some start \<Rightarrow>
                 if start > span_size bytes then Inl IncompleteTransportHeader
                 else if start > network_end then Inl InvalidPayloadBounds
                 else Inr (start, min network_end (span_size bytes), network_end - start, tcp_header_facts h)))"

definition udp_payload ::
  "span \<Rightarrow> nat \<Rightarrow> nat \<Rightarrow> session_packet_error + nat \<times> nat \<times> nat \<times> tcp_packet_facts" where
  "udp_payload bytes network_end offset =
     (case header_at bytes 8 offset of None \<Rightarrow> Inl IncompleteTransportHeader
      | Some h \<Rightarrow>
          (case add_size offset (unat (be16 h 4)) of None \<Rightarrow> Inl InvalidPayloadBounds
           | Some udp_end \<Rightarrow>
               if unat (be16 h 4) < 8 \<or> udp_end > network_end then Inl InvalidPayloadBounds
               else Inr (offset + 8, min udp_end (span_size bytes), udp_end - (offset + 8), no_tcp_facts)))"

text \<open>memcmp of equally long addresses, and the order of the two ends of a session.\<close>

fun bytes_less :: "u8 list \<Rightarrow> u8 list \<Rightarrow> bool" where
  "bytes_less (a # as) (b # bs) \<longleftrightarrow> a < b \<or> a = b \<and> bytes_less as bs"
| "bytes_less _ _ \<longleftrightarrow> False"

definition source_first :: "u8 list \<times> u16 \<Rightarrow> u8 list \<times> u16 \<Rightarrow> bool" where
  "source_first src dst \<longleftrightarrow> bytes_less (fst src) (fst dst) \<or> fst src = fst dst \<and> snd src \<le> snd dst"

definition session_key_of ::
  "address_family \<Rightarrow> string \<Rightarrow> u64 \<Rightarrow> u8 \<Rightarrow> u8 list \<times> u16 \<Rightarrow> u8 list \<times> u16 \<Rightarrow> npm_session_key" where
  "session_key_of fam namespace domain protocol src dst =
     (let (a, b) = (if source_first src dst then (src, dst) else (dst, src)) in
      \<lparr>sk_family = fam, sk_a_ip = fst a, sk_b_ip = fst b, sk_namespace = namespace, sk_domain = domain,
       sk_a_port = snd a, sk_b_port = snd b, sk_protocol = protocol\<rparr>)"

definition expected_protocol :: "u16 \<Rightarrow> u8" where
  "expected_protocol kind = (if kind = layer_TCP then proto_TCP else if kind = layer_UDP then proto_UDP else 0)"

fun family_code :: "address_family \<Rightarrow> u8" where
  "family_code NoFamily = 0"
| "family_code IPv4 = 4"
| "family_code IPv6 = 6"

text \<open>\<open>normalize\<close> and the rest of the binding, once the payload is known.\<close>

definition bind_endpoints ::
  "address_family \<Rightarrow> domain_lookup \<Rightarrow> packet_view \<Rightarrow> layer_view \<Rightarrow> network_range \<Rightarrow> u8 \<Rightarrow> u8 list \<times> u8 list
    \<Rightarrow> nat \<times> nat \<times> nat \<times> tcp_packet_facts \<Rightarrow> packet_binding" where
  "bind_endpoints fam domains p l rng protocol ends payload =
     (case (ends, payload) of ((src, dst), (start, stop, wire, tcp)) \<Rightarrow>
        (let bytes = take (stop - start) (drop start (the (span_data (pk_bytes p)))) in
         \<lparr>pb_key = session_key_of fam (dl_namespace domains) (nr_domain rng) protocol
                    (src, lv_src_port l) (dst, lv_dst_port l),
          pb_direction = (if source_first (src, lv_src_port l) (dst, lv_dst_port l) then AToB else BToA),
          pb_payload = bytes,
          pb_transport = \<lparr>payload_wire_bytes = wire mod 2 ^ 32, payload_captured_bytes = length bytes mod 2 ^ 32,
                          payload_complete = (length bytes = wire), tcp_facts = tcp\<rparr>,
          pb_labels = \<lparr>lf_domain = nr_domain rng, lf_ip_family = family_code (nr_family rng),
                       lf_transport_protocol = protocol,
                       lf_source = label_endpoint_of (lv_src_mac l) (lv_src_mac_valid l) src (lv_src_port l),
                       lf_destination = label_endpoint_of (lv_dst_mac l) (lv_dst_mac_valid l) dst (lv_dst_port l),
                       lf_vlan = label_vlans p l [0..<lv_network_index l] []\<rparr>\<rparr>))"

definition endpoint_available :: "layer_view \<Rightarrow> address_family \<Rightarrow> bool" where
  "endpoint_available l fam \<longleftrightarrow>
     lv_address_state l = AddressAvailable \<and>
     (if fam = IPv4 then get4 (lv_endpoints l) \<noteq> None else get6 (lv_endpoints l) \<noteq> None)"

text \<open>\<open>fam\<close> is the key type the template is instantiated with, Key4 or Key6.\<close>

definition bind_packet ::
  "address_family \<Rightarrow> domain_lookup \<Rightarrow> packet_view \<Rightarrow> layer_view \<Rightarrow> session_packet_error + packet_binding" where
  "bind_packet fam domains p l =
     (case validate_network_range domains p l of Inl e \<Rightarrow> Inl e
      | Inr rng \<Rightarrow>
          if lv_transport_index l \<ge> lv_layer_count l \<or> lv_transport_index l \<le> lv_network_index l
          then Inl InvalidLayerSelection
          else if list_ex (\<lambda>r. is_network_layer (lr_kind r))
                    (drop (lv_network_index l + 1) (take (lv_transport_index l) (lv_layers l)))
          then Inl InvalidLayerSelection
          else
            (let transport = lv_layers l ! lv_transport_index l; protocol = expected_protocol (lr_kind transport) in
             if protocol = 0 \<or> lv_transport_protocol l \<noteq> protocol then Inl UnsupportedTransportProtocol
             else if \<not> lv_ports_valid l then Inl IncompleteEndpoint
             else if \<not> endpoint_available l (nr_family rng) then Inl IncompleteEndpoint
             else if lr_offset transport < lr_offset (lv_layers l ! lv_network_index l) \<or>
                     lr_offset transport \<ge> nr_end rng
             then Inl InvalidPayloadBounds
             else
               (case (if lr_kind transport = layer_TCP then tcp_payload (pk_bytes p) (nr_end rng) (lr_offset transport)
                      else udp_payload (pk_bytes p) (nr_end rng) (lr_offset transport)) of
                  Inl e \<Rightarrow> Inl e
                | Inr (start, stop, wire, tcp) \<Rightarrow>
                    if lv_payload_offset l \<noteq> start \<or> stop < start then Inl InvalidPayloadBounds
                    else
                      (case (if fam = IPv4 then get4 (lv_endpoints l) else get6 (lv_endpoints l)) of
                         None \<Rightarrow> Inl IncompleteEndpoint
                       | Some ends \<Rightarrow>
                           Inr (bind_endpoints fam domains p l rng protocol ends (start, stop, wire, tcp))))))"

text \<open>The key and the binding are output parameters; \<open>None\<close> is a null pointer.\<close>

definition build_packet_binding ::
  "address_family \<Rightarrow> domain_lookup \<Rightarrow> packet_view \<Rightarrow> layer_view \<Rightarrow> npm_session_key option \<Rightarrow> packet_binding option
    \<Rightarrow> session_packet_error \<times> npm_session_key option \<times> packet_binding option" where
  "build_packet_binding fam domains p l key output =
     (if key = None \<or> output = None then (PktNullOutput, key, output)
      else case bind_packet fam domains p l of
        Inl e \<Rightarrow> (e, key, output)
      | Inr b \<Rightarrow> (PktNone, Some (pb_key b), Some b))"

end
