(* ===== verification/IcmpMessage.thy ===== *)
theory IcmpMessage
  imports SessionKey
begin

text \<open>
  The ICMP control parser, modules/icmp/npm_icmp_parser.cpp: an input event for a control packet
  becomes an echo request, an echo reply, an error with what can be said of the packet it quotes,
  or nothing of interest. The address family is the template parameter of the code.
\<close>

section \<open>Input events\<close>

text \<open>
  Of NpmInputEventV1 what the parser and its validation read; \<open>ie_within\<close> is whether the body lies
  inside the packet's bytes, a comparison of pointers.
\<close>

record input_event =
  ie_kind :: npm_input_kind
  ie_domain :: u64
  ie_packet :: packet_view
  ie_layer :: "layer_view option"
  ie_body :: span
  ie_within :: bool
  ie_body_complete :: bool
  ie_has_transport :: bool
  ie_has_session :: bool

text \<open>The event that the control input builder fills in.\<close>

definition control_event :: "control_input \<Rightarrow> input_event" where
  "control_event c =
     \<lparr>ie_kind = InControlPacket, ie_domain = ci_domain c, ie_packet = ci_packet c, ie_layer = Some (ci_layer c),
      ie_body = ci_body c, ie_within = True, ie_body_complete = ci_body_complete c, ie_has_transport = False,
      ie_has_session = False\<rparr>"

text \<open>ValidateNpmInputEventV1 of a control packet.\<close>

definition valid_control_event :: "input_event \<Rightarrow> bool" where
  "valid_control_event ev \<longleftrightarrow>
     (case ie_layer ev of None \<Rightarrow> False
      | Some l \<Rightarrow>
          \<not> (span_size (pk_bytes (ie_packet ev)) \<noteq> 0 \<and> span_data (pk_bytes (ie_packet ev)) = None) \<and>
          pk_captured_len (ie_packet ev) = span_size (pk_bytes (ie_packet ev)) \<and> ie_within ev \<and>
          ie_kind ev = InControlPacket \<and> \<not> ie_has_transport ev \<and> \<not> ie_has_session ev \<and>
          lv_transport_protocol l \<in> {1, 58})"

section \<open>Parsed messages\<close>

datatype icmp_kind = IcmpIgnored | IcmpEchoRequest | IcmpEchoReply | IcmpError

record icmp_quoted_flow =
  qf_domain :: u64
  qf_protocol :: u8
  qf_src_ip :: "u8 list"
  qf_dst_ip :: "u8 list"
  qf_src_port :: u16
  qf_dst_port :: u16

text \<open>What the quote says: its status and, as far as it goes, addresses and flow.\<close>

record icmp_quote =
  qu_status :: string
  qu_ip_family :: "u8 option"
  qu_protocol :: "u8 option"
  qu_src_ip :: "u8 list option"
  qu_dst_ip :: "u8 list option"
  qu_flow :: "icmp_quoted_flow option"

record icmp_parsed =
  ip_kind :: icmp_kind
  ip_src :: "u8 list"
  ip_dst :: "u8 list"
  ip_type :: u8
  ip_code :: u8
  ip_outer_truncated :: bool
  ip_echo_id :: u16
  ip_echo_sequence :: u16
  ip_next_hop_mtu :: "u32 option"
  ip_quote :: icmp_quote

definition no_quote :: "string \<Rightarrow> icmp_quote" where
  "no_quote status =
     \<lparr>qu_status = status, qu_ip_family = None, qu_protocol = None, qu_src_ip = None, qu_dst_ip = None, qu_flow = None\<rparr>"

definition new_icmp_parsed :: "u8 list \<times> u8 list \<Rightarrow> icmp_parsed" where
  "new_icmp_parsed ends =
     \<lparr>ip_kind = IcmpIgnored, ip_src = fst ends, ip_dst = snd ends, ip_type = 0, ip_code = 0, ip_outer_truncated = False,
      ip_echo_id = 0, ip_echo_sequence = 0, ip_next_hop_mtu = None, ip_quote = no_quote []\<rparr>"

section \<open>Parsing\<close>

fun fragmented_headers :: "span \<Rightarrow> layer_ref list \<Rightarrow> bool" where
  "fragmented_headers bytes [] = False"
| "fragmented_headers bytes (r # rs) =
     (if lr_kind r \<noteq> layer_FRAGMENT then fragmented_headers bytes rs
      else case header_at bytes 8 (lr_offset r) of None \<Rightarrow> True
      | Some h \<Rightarrow> be16 h 2 AND 0xfff9 \<noteq> 0 \<or> fragmented_headers bytes rs)"

definition fragmented_outer :: "address_family \<Rightarrow> packet_view \<Rightarrow> layer_view \<Rightarrow> bool" where
  "fragmented_outer fam p l =
     (if fam = IPv4 then
        (case header_at (pk_bytes p) 20 (lr_offset (lv_layers l ! lv_network_index l)) of None \<Rightarrow> True
         | Some h \<Rightarrow> be16 h 6 AND 0x3fff \<noteq> 0)
      else fragmented_headers (pk_bytes p) (layers_after l (lv_network_index l)))"

text \<open>The ports behind a quoted network header, if it is the first fragment of TCP or UDP.\<close>

definition quote_tuple ::
  "address_family \<Rightarrow> u64 \<Rightarrow> u8 list \<Rightarrow> nat \<Rightarrow> nat \<Rightarrow> u8 \<Rightarrow> bool \<Rightarrow> u8 list \<Rightarrow> u8 list \<Rightarrow> icmp_quote" where
  "quote_tuple fam domain quote header_size declared_size protocol first_fragment src dst =
     (let q = \<lparr>qu_status = ''ip_only'', qu_ip_family = Some (family_code fam), qu_protocol = Some protocol,
               qu_src_ip = Some src, qu_dst_ip = Some dst, qu_flow = None\<rparr> in
      if \<not> first_fragment \<or> (protocol \<noteq> proto_TCP \<and> protocol \<noteq> proto_UDP) \<or> declared_size < header_size + 4 \<or>
         length quote < header_size + 4
      then q
      else q\<lparr>qu_status := ''tuple'',
             qu_flow := Some \<lparr>qf_domain = domain, qf_protocol = protocol, qf_src_ip = src, qf_dst_ip = dst,
                              qf_src_port = be16 quote header_size, qf_dst_port = be16 quote (header_size + 2)\<rparr>\<rparr>)"

definition parse_quote :: "address_family \<Rightarrow> u64 \<Rightarrow> u8 list \<Rightarrow> icmp_quote" where
  "parse_quote fam domain quote =
     (if quote = [] then no_quote ''unavailable''
      else if high_nibble (quote ! 0) \<noteq> unat (family_code fam) then no_quote ''invalid''
      else if fam = IPv4 then
        (if length quote < 20 then no_quote ''unavailable''
         else
           (let header_size = low_nibble (quote ! 0) * 4; declared_size = unat (be16 quote 2) in
            if header_size < 20 \<or> declared_size < header_size then no_quote ''invalid''
            else if header_size > length quote then no_quote ''unavailable''
            else quote_tuple fam domain quote header_size declared_size (quote ! 9) (be16 quote 6 AND 0x1fff = 0)
                   (take 4 (drop 12 quote)) (take 4 (drop 16 quote))))
      else
        (if length quote < 40 then no_quote ''unavailable''
         else quote_tuple fam domain quote 40 (40 + unat (be16 quote 4)) (quote ! 6) True
                (take 16 (drop 8 quote)) (take 16 (drop 24 quote))))"

definition is_echo_request :: "address_family \<Rightarrow> u8 \<Rightarrow> bool" where
  "is_echo_request fam type \<longleftrightarrow> fam = IPv4 \<and> type = 8 \<or> fam = IPv6 \<and> type = 128"

definition is_echo_reply :: "address_family \<Rightarrow> u8 \<Rightarrow> bool" where
  "is_echo_reply fam type \<longleftrightarrow> fam = IPv4 \<and> type = 0 \<or> fam = IPv6 \<and> type = 129"

definition is_icmp_error :: "address_family \<Rightarrow> u8 \<Rightarrow> bool" where
  "is_icmp_error fam type \<longleftrightarrow>
     (if fam = IPv4 then type = 3 \<or> type = 11 \<or> type = 12 else 1 \<le> type \<and> type \<le> 4)"

text \<open>The message of a body that holds the eight bytes of the header.\<close>

definition parse_icmp_body :: "address_family \<Rightarrow> u64 \<Rightarrow> bool \<Rightarrow> u8 list \<Rightarrow> icmp_parsed \<Rightarrow> icmp_parsed" where
  "parse_icmp_body fam domain complete body parsed =
     (let type = body ! 0; code = body ! 1;
          p = parsed\<lparr>ip_type := type, ip_code := code, ip_outer_truncated := \<not> complete\<rparr> in
      if (is_echo_request fam type \<or> is_echo_reply fam type) \<and> code = 0 then
        p\<lparr>ip_kind := if is_echo_request fam type then IcmpEchoRequest else IcmpEchoReply,
          ip_echo_id := be16 body 4, ip_echo_sequence := be16 body 6\<rparr>
      else if is_icmp_error fam type then
        p\<lparr>ip_kind := IcmpError,
          ip_next_hop_mtu :=
            (if fam = IPv4 \<and> type = 3 \<and> code = 4 then Some (ucast (be16 body 6))
             else if fam = IPv6 \<and> type = 2 then Some (be32 body 4) else None),
          ip_quote := parse_quote fam domain (drop 8 body)\<rparr>
      else p)"

definition control_protocol :: "address_family \<Rightarrow> u8" where
  "control_protocol fam = (if fam = IPv4 then 1 else 58)"

text \<open>\<open>None\<close> is the error kInvalidInput, for a non-null output.\<close>

definition parse_icmp_control :: "address_family \<Rightarrow> input_event \<Rightarrow> icmp_parsed option" where
  "parse_icmp_control fam ev =
     (if \<not> valid_control_event ev then None
      else
        (let l = the (ie_layer ev) in
         if lv_network_index l \<ge> lv_layer_count l then None
         else if lv_transport_protocol l \<noteq> control_protocol fam \<or> lv_address_state l \<noteq> AddressAvailable then None
         else case (if fam = IPv4 then get4 (lv_endpoints l) else get6 (lv_endpoints l)) of None \<Rightarrow> None
         | Some ends \<Rightarrow>
             if fragmented_outer fam (ie_packet ev) l \<or> span_size (ie_body ev) < 8
             then Some (new_icmp_parsed ends)
             else case span_data (ie_body ev) of None \<Rightarrow> None
             | Some body \<Rightarrow>
                 Some (parse_icmp_body fam (ie_domain ev) (ie_body_complete ev) body (new_icmp_parsed ends))))"

end
