(* ===== verification/IcmpEcho.thy ===== *)
theory IcmpEcho
  imports IcmpMessage OrderedMap TaskBudget "HOL-Library.List_Lexorder" "HOL-Library.Product_Lexorder"
begin

text \<open>
  The echo tracker, modules/icmp/npm_icmp_echo.cpp: echo requests wait for their reply in one map
  per address family, and in an index by deadline that refers to their keys. Every row is handed to
  a callback; a pending request is erased only when the callback has taken its row.
\<close>

section \<open>Rows\<close>

record icmp_event =
  ev_entity_instance_id :: u64
  ev_observed_at :: int
  ev_domain :: u64
  ev_src_ip :: "u8 list"
  ev_dst_ip :: "u8 list"
  ev_outcome :: string
  ev_icmp_type :: u8
  ev_icmp_code :: u8
  ev_outer_truncated :: bool
  ev_incomplete_reason :: "string option"
  ev_echo_id :: "u16 option"
  ev_echo_sequence :: "u16 option"
  ev_echo_retries :: "nat option"
  ev_request_at_ns :: "int option"
  ev_reply_at_ns :: "int option"
  ev_latency_ns :: "int option"
  ev_quote :: "icmp_quote option"
  ev_active_session :: "u64 option"
  ev_next_hop_mtu :: "u32 option"

text \<open>The event as it is declared; the quote's columns are absent together.\<close>

definition blank_icmp_event :: icmp_event where
  "blank_icmp_event =
     \<lparr>ev_entity_instance_id = 0, ev_observed_at = 0, ev_domain = 0, ev_src_ip = [], ev_dst_ip = [], ev_outcome = [],
      ev_icmp_type = 0, ev_icmp_code = 0, ev_outer_truncated = False, ev_incomplete_reason = None, ev_echo_id = None,
      ev_echo_sequence = None, ev_echo_retries = None, ev_request_at_ns = None, ev_reply_at_ns = None,
      ev_latency_ns = None, ev_quote = None, ev_active_session = None, ev_next_hop_mtu = None\<rparr>"

section \<open>State\<close>

text \<open>
  A key is the domain, source, destination, identifier and sequence; the tuple order of words and
  of equally long byte lists is the order of EchoKeyLess.
\<close>

type_synonym echo_key = "u64 \<times> u8 list \<times> u8 list \<times> u16 \<times> u16"

record pending_echo =
  pe_entity_instance_id :: u64
  pe_request_at_ns :: int
  pe_deadline_ns :: int
  pe_retries :: nat

datatype deadline_target = Target4 echo_key | Target6 echo_key

record icmp_config =
  ic_echo_timeout_ns :: int
  ic_max_pending_echo :: nat

type_synonym pending_echoes = "(echo_key, pending_echo) omap"

record echo_tracker =
  et_config :: icmp_config
  et_budget :: "npm_task_budget option"
  et_pending4 :: pending_echoes
  et_pending6 :: pending_echoes
  et_deadlines :: "(int \<times> u64, deadline_target) omap"
  et_last_watermark :: "int option"
  et_next_event_id :: u64
  et_finished :: bool

definition new_echo_tracker :: "icmp_config \<Rightarrow> npm_task_budget option \<Rightarrow> echo_tracker" where
  "new_echo_tracker c b =
     \<lparr>et_config = c, et_budget = b, et_pending4 = [], et_pending6 = [], et_deadlines = [], et_last_watermark = None,
      et_next_event_id = 1, et_finished = False\<rparr>"

fun pending_of :: "address_family \<Rightarrow> echo_tracker \<Rightarrow> pending_echoes" where
  "pending_of IPv4 t = et_pending4 t"
| "pending_of _ t = et_pending6 t"

fun set_pending :: "address_family \<Rightarrow> pending_echoes \<Rightarrow> echo_tracker \<Rightarrow> echo_tracker" where
  "set_pending IPv4 ps t = t\<lparr>et_pending4 := ps\<rparr>"
| "set_pending _ ps t = t\<lparr>et_pending6 := ps\<rparr>"

fun target_of :: "address_family \<Rightarrow> echo_key \<Rightarrow> deadline_target" where
  "target_of IPv4 k = Target4 k"
| "target_of _ k = Target6 k"

text \<open>PendingCharge: the sizes of key, pending record, deadline key, target and eight pointers on LP64.\<close>

fun echo_pending_charge :: "address_family \<Rightarrow> nat" where
  "echo_pending_charge IPv4 = 24 + 32 + 16 + 16 + 64"
| "echo_pending_charge _ = 64 + 32 + 16 + 16 + 64"

definition echo_pending_count :: "echo_tracker \<Rightarrow> nat" where
  "echo_pending_count t = length (et_pending4 t) + length (et_pending6 t)"

definition echo_deadline :: "int \<Rightarrow> int \<Rightarrow> int" where
  "echo_deadline start timeout = (if start > i64_max - timeout then i64_max else start + timeout)"

interpretation echo_deadline: saturating_deadline echo_deadline
  by unfold_locales (simp add: echo_deadline_def)

fun echo_id_step :: "u64 \<Rightarrow> u64 \<times> u64" where
  "echo_id_step c = (if c = 0 then (0, 0) else (c, c + 1))"

interpretation echo_ids: id_allocator echo_id_step
  by unfold_locales auto

definition allocate_event_id :: "echo_tracker \<Rightarrow> u64 \<times> echo_tracker" where
  "allocate_event_id t = (case echo_id_step (et_next_event_id t) of (i, c) \<Rightarrow> (i, t\<lparr>et_next_event_id := c\<rparr>))"

definition make_echo_key :: "icmp_parsed \<Rightarrow> u64 \<Rightarrow> bool \<Rightarrow> echo_key" where
  "make_echo_key m domain reverse =
     (domain, if reverse then ip_dst m else ip_src m, if reverse then ip_src m else ip_dst m,
      ip_echo_id m, ip_echo_sequence m)"

definition make_echo_event :: "address_family \<Rightarrow> echo_key \<Rightarrow> pending_echo \<Rightarrow> int \<Rightarrow> string \<Rightarrow> icmp_event" where
  "make_echo_event fam key p observed outcome =
     (case key of (domain, src, dst, identifier, sequence) \<Rightarrow>
        blank_icmp_event\<lparr>ev_entity_instance_id := pe_entity_instance_id p, ev_observed_at := observed,
          ev_domain := domain, ev_src_ip := src, ev_dst_ip := dst, ev_outcome := outcome,
          ev_icmp_type := (if fam = IPv4 then 8 else 128), ev_echo_id := Some identifier,
          ev_echo_sequence := Some sequence, ev_echo_retries := Some (pe_retries p),
          ev_request_at_ns := Some (pe_request_at_ns p)\<rparr>)"

definition erase_echo :: "address_family \<Rightarrow> echo_key \<Rightarrow> pending_echo \<Rightarrow> echo_tracker \<Rightarrow> echo_tracker" where
  "erase_echo fam key p t =
     (let t1 = t\<lparr>et_deadlines := omap_erase (pe_deadline_ns p, pe_entity_instance_id p) (et_deadlines t)\<rparr>;
          t2 = set_pending fam (omap_erase key (pending_of fam t1)) t1 in
      t2\<lparr>et_budget := opt_refund (echo_pending_charge fam) (et_budget t2)\<rparr>)"

section \<open>Operations\<close>

text \<open>
  The row callback has one function per family and may use the ledger; it returns its error and
  the ledger. Each operation returns
  its error, the tracker and the rows the callback has taken. \<open>None\<close> is an empty std::function.
\<close>

type_synonym emit_row = "address_family \<Rightarrow> icmp_event \<Rightarrow> npm_task_budget option \<Rightarrow> errno \<times> npm_task_budget option"
type_synonym echo_call = "errno \<times> echo_tracker \<times> icmp_event list"

definition emit_event :: "emit_row \<Rightarrow> address_family \<Rightarrow> icmp_event \<Rightarrow> echo_tracker \<Rightarrow> echo_call" where
  "emit_event emit fam row t =
     (case emit fam row (et_budget t) of (e, b) \<Rightarrow> (e, t\<lparr>et_budget := b\<rparr>, if e = E_OK then [row] else []))"

definition elapsed_latency :: "int \<Rightarrow> int \<Rightarrow> int option" where
  "elapsed_latency request_at captured_at =
     (if captured_at \<ge> request_at then
        (let elapsed = u64_sub_i64 captured_at request_at in if elapsed \<le> i64_max then Some elapsed else None)
      else None)"

interpretation echo_latency: elapsed_time elapsed_latency
  by unfold_locales (simp add: elapsed_latency_def Let_def)

definition one_sided_event :: "icmp_parsed \<Rightarrow> u64 \<Rightarrow> int \<Rightarrow> u64 \<Rightarrow> icmp_event" where
  "one_sided_event m domain captured_at i =
     blank_icmp_event\<lparr>ev_entity_instance_id := i, ev_observed_at := captured_at, ev_domain := domain,
       ev_src_ip := ip_src m, ev_dst_ip := ip_dst m, ev_icmp_type := ip_type m, ev_icmp_code := ip_code m,
       ev_echo_id := Some (ip_echo_id m), ev_echo_sequence := Some (ip_echo_sequence m)\<rparr>"

definition truncated_event :: "icmp_parsed \<Rightarrow> u64 \<Rightarrow> int \<Rightarrow> u64 \<Rightarrow> bool \<Rightarrow> icmp_event" where
  "truncated_event m domain captured_at i request =
     (let row = (one_sided_event m domain captured_at i)\<lparr>
            ev_outcome := (if request then ''echo_request_only'' else ''echo_reply_only''),
            ev_outer_truncated := True, ev_incomplete_reason := Some ''capture_truncation''\<rparr> in
      if request then row\<lparr>ev_echo_retries := Some 0, ev_request_at_ns := Some captured_at\<rparr>
      else row\<lparr>ev_reply_at_ns := Some captured_at\<rparr>)"

definition store_echo :: "address_family \<Rightarrow> echo_key \<Rightarrow> pending_echo \<Rightarrow> echo_tracker \<Rightarrow> echo_tracker" where
  "store_echo fam key p t =
     (set_pending fam (omap_put key p (pending_of fam t)) t)
       \<lparr>et_deadlines := omap_put (pe_deadline_ns p, pe_entity_instance_id p) (target_of fam key) (et_deadlines t)\<rparr>"

definition on_echo_request :: "address_family \<Rightarrow> echo_key \<Rightarrow> int \<Rightarrow> echo_tracker \<Rightarrow> errno \<times> echo_tracker" where
  "on_echo_request fam key captured_at t =
     (case omap_find (pending_of fam t) key of
        Some p \<Rightarrow>
          if pe_retries p = u32_max then (E_OVERFLOW, t)
          else (E_OK, set_pending fam (omap_put key (p\<lparr>pe_retries := pe_retries p + 1\<rparr>) (pending_of fam t)) t)
      | None \<Rightarrow>
          if echo_pending_count t \<ge> ic_max_pending_echo (et_config t) then (E_NOSPC, t)
          else if et_budget t = None then (E_NOMEM, t)
          else (case opt_charge (echo_pending_charge fam) (et_budget t) of None \<Rightarrow> (E_NOMEM, t)
          | Some b \<Rightarrow>
              (case allocate_event_id (t\<lparr>et_budget := b\<rparr>) of (i, t1) \<Rightarrow>
                 if i = 0 then (E_OVERFLOW, t1\<lparr>et_budget := opt_refund (echo_pending_charge fam) (et_budget t1)\<rparr>)
                 else (E_OK, store_echo fam key
                   \<lparr>pe_entity_instance_id = i, pe_request_at_ns = captured_at,
                    pe_deadline_ns = echo_deadline captured_at (ic_echo_timeout_ns (et_config t1)), pe_retries = 0\<rparr> t1))))"

definition on_echo_reply ::
  "address_family \<Rightarrow> icmp_parsed \<Rightarrow> u64 \<Rightarrow> echo_key \<Rightarrow> int \<Rightarrow> emit_row \<Rightarrow> echo_tracker \<Rightarrow> echo_call" where
  "on_echo_reply fam m domain key captured_at emit t =
     (case omap_find (pending_of fam t) key of
        None \<Rightarrow>
          (case allocate_event_id t of (i, t1) \<Rightarrow>
             if i = 0 then (E_OVERFLOW, t1, [])
             else emit_event emit fam ((one_sided_event m domain captured_at i)\<lparr>ev_outcome := ''echo_reply_only'',
                    ev_incomplete_reason := Some ''no_pending_request'', ev_reply_at_ns := Some captured_at\<rparr>) t1)
      | Some p \<Rightarrow>
          (case emit_event emit fam ((make_echo_event fam key p captured_at ''echo_matched'')\<lparr>
                  ev_reply_at_ns := Some captured_at,
                  ev_latency_ns := elapsed_latency (pe_request_at_ns p) captured_at\<rparr>) t of
             (e, t1, out) \<Rightarrow> (e, if e = E_OK then erase_echo fam key p t1 else t1, out)))"

definition on_echo ::
  "address_family \<Rightarrow> icmp_parsed \<Rightarrow> u64 \<Rightarrow> int \<Rightarrow> emit_row option \<Rightarrow> echo_tracker \<Rightarrow> echo_call" where
  "on_echo fam m domain captured_at emit t =
     (if et_finished t \<or> emit = None \<or> (ip_kind m \<noteq> IcmpEchoRequest \<and> ip_kind m \<noteq> IcmpEchoReply)
      then (E_INVAL, t, [])
      else
        (let request = (ip_kind m = IcmpEchoRequest); key = make_echo_key m domain (\<not> request) in
         if ip_outer_truncated m then
           (case allocate_event_id t of (i, t1) \<Rightarrow>
              if i = 0 then (E_OVERFLOW, t1, [])
              else emit_event (the emit) fam (truncated_event m domain captured_at i request) t1)
         else if request then (case on_echo_request fam key captured_at t of (e, t') \<Rightarrow> (e, t', []))
         else on_echo_reply fam m domain key captured_at (the emit) t))"

text \<open>EmitDeadline takes the first deadline; the caller has seen that there is one.\<close>

definition emit_deadline :: "int \<Rightarrow> string \<Rightarrow> emit_row \<Rightarrow> echo_tracker \<Rightarrow> echo_call" where
  "emit_deadline observed reason emit t =
     (case et_deadlines t of [] \<Rightarrow> (E_UNCAUGHT, t, [])
      | (dk, target) # _ \<Rightarrow>
          (case (case target of Target4 k \<Rightarrow> (IPv4, k) | Target6 k \<Rightarrow> (IPv6, k)) of (fam, key) \<Rightarrow>
             (case omap_find (pending_of fam t) key of None \<Rightarrow> (E_INVAL, t, [])
              | Some p \<Rightarrow>
                  (case emit_event emit fam ((make_echo_event fam key p observed ''echo_request_only'')\<lparr>
                          ev_incomplete_reason := Some reason\<rparr>) t of
                     (e, t1, out) \<Rightarrow> (e, if e = E_OK then erase_echo fam key p t1 else t1, out)))))"

text \<open>
  The loops of OnTime and Finish: they go on while the first deadline is due. \<open>None\<close> is that the
  loop does not return.
\<close>

definition deadline_due :: "int option \<Rightarrow> echo_tracker \<Rightarrow> bool" where
  "deadline_due limit t \<longleftrightarrow>
     (case et_deadlines t of [] \<Rightarrow> False
      | (dk, _) # _ \<Rightarrow> (case limit of None \<Rightarrow> True | Some w \<Rightarrow> fst dk \<le> w))"

partial_function (option) deadline_loop ::
  "int option \<Rightarrow> int \<Rightarrow> string \<Rightarrow> emit_row \<Rightarrow> echo_tracker \<Rightarrow> icmp_event list \<Rightarrow> echo_call option" where
  "deadline_loop limit observed reason emit t out =
     (if \<not> deadline_due limit t then Some (E_OK, t, out)
      else
        (case emit_deadline observed reason emit t of (e, t1, rows) \<Rightarrow>
           if e \<noteq> E_OK then Some (e, t1, out @ rows)
           else deadline_loop limit observed reason emit t1 (out @ rows)))"

definition echo_on_time :: "int option \<Rightarrow> emit_row option \<Rightarrow> echo_tracker \<Rightarrow> echo_call option" where
  "echo_on_time watermark emit t =
     (case watermark of None \<Rightarrow> Some (E_OK, t, [])
      | Some w \<Rightarrow>
          if et_finished t \<or> (case et_last_watermark t of None \<Rightarrow> False | Some l \<Rightarrow> w \<le> l) then Some (E_OK, t, [])
          else if emit = None then Some (E_INVAL, t, [])
          else deadline_loop (Some w) w ''response_not_observed_by_deadline'' (the emit)
                 (t\<lparr>et_last_watermark := Some w\<rparr>) [])"

definition echo_finish :: "int \<Rightarrow> emit_row option \<Rightarrow> echo_tracker \<Rightarrow> echo_call option" where
  "echo_finish observed emit t =
     (if et_finished t then Some (E_OK, t, [])
      else if emit = None then Some (E_INVAL, t, [])
      else
        (case deadline_loop None observed ''task_eof'' (the emit) t [] of None \<Rightarrow> None
         | Some (e, t1, out) \<Rightarrow> Some (e, if e = E_OK then t1\<lparr>et_finished := True\<rparr> else t1, out)))"

definition echo_abort :: "echo_tracker \<Rightarrow> echo_tracker" where
  "echo_abort t =
     t\<lparr>et_budget := opt_refund (length (et_pending6 t) * echo_pending_charge IPv6)
                     (opt_refund (length (et_pending4 t) * echo_pending_charge IPv4) (et_budget t)),
       et_deadlines := [], et_pending4 := [], et_pending6 := [], et_finished := True\<rparr>"

definition echo_next_deadline :: "echo_tracker \<Rightarrow> int option" where
  "echo_next_deadline t = (case et_deadlines t of [] \<Rightarrow> None | (dk, _) # _ \<Rightarrow> Some (fst dk))"

end
