(* ===== verification/IcmpModule.thy ===== *)
theory IcmpModule
  imports IcmpEcho
begin

text \<open>
  The ICMP protocol module, modules/icmp/npm_icmp_module.cpp, with the row check and build charge
  of its encoder (npm_icmp_result_encoder.cpp): echoes go to the tracker, errors become one row
  each, with the active session of the packet they quote if the session table knows it.
\<close>

section \<open>Rows\<close>

definition valid_icmp_row :: "address_family \<Rightarrow> icmp_event \<Rightarrow> bool" where
  "valid_icmp_row fam r \<longleftrightarrow>
     (let matched = (ev_outcome r = ''echo_matched''); request_only = (ev_outcome r = ''echo_request_only'');
          reply_only = (ev_outcome r = ''echo_reply_only''); error = (ev_outcome r = ''icmp_error'') in
      ev_entity_instance_id r \<noteq> 0 \<and>
      (case Option.bind (ev_quote r) qu_ip_family of None \<Rightarrow> True | Some f \<Rightarrow> f = family_code fam) \<and>
      (matched \<or> request_only \<or> reply_only \<or> error) \<and>
      \<not> (matched \<and> (ev_incomplete_reason r \<noteq> None \<or> ev_request_at_ns r = None \<or> ev_reply_at_ns r = None \<or>
            ev_echo_id r = None \<or> ev_echo_sequence r = None \<or> ev_echo_retries r = None)) \<and>
      \<not> ((request_only \<or> reply_only) \<and> ev_incomplete_reason r = None) \<and>
      \<not> (error \<and> (ev_incomplete_reason r \<noteq> None \<or> ev_quote r = None \<or> ev_echo_id r \<noteq> None \<or>
            ev_echo_sequence r \<noteq> None \<or> ev_echo_retries r \<noteq> None \<or> ev_request_at_ns r \<noteq> None \<or>
            ev_reply_at_ns r \<noteq> None \<or> ev_latency_ns r \<noteq> None)) \<and>
      \<not> (\<not> error \<and> (ev_quote r \<noteq> None \<or> ev_active_session r \<noteq> None \<or> ev_next_hop_mtu r \<noteq> None)) \<and>
      (Option.bind (ev_quote r) qu_src_ip = None) = (Option.bind (ev_quote r) qu_dst_ip = None))"

definition icmp_build_charge :: nat where "icmp_build_charge = 8192"

text \<open>Building the one-row batch and emitting it, \<open>host\<close>, is a parameter; the charge covers the call.\<close>

type_synonym icmp_host = "address_family \<Rightarrow> icmp_event \<Rightarrow> errno"

definition build_icmp_row :: "icmp_host \<Rightarrow> emit_row" where
  "build_icmp_row host fam r b =
     (case opt_charge icmp_build_charge b of None \<Rightarrow> (E_NOSPC, b)
      | Some b' \<Rightarrow> (host fam r, opt_refund icmp_build_charge b'))"

definition emit_icmp_event :: "icmp_host \<Rightarrow> emit_row" where
  "emit_icmp_event host fam r b =
     (if b = None \<or> \<not> valid_icmp_row fam r then (E_INVAL, b) else build_icmp_row host fam r b)"

section \<open>The module\<close>

text \<open>The session table is seen through its lookup of active sessions; \<open>None\<close> is no table bound.\<close>

record icmp_module =
  im_echoes :: echo_tracker
  im_sessions :: "(npm_session_key \<Rightarrow> u64 option) option"
  im_namespace :: string

definition new_icmp_module :: "icmp_config \<Rightarrow> npm_task_budget option \<Rightarrow> icmp_module" where
  "new_icmp_module c b = \<lparr>im_echoes = new_echo_tracker c b, im_sessions = None, im_namespace = []\<rparr>"

definition bind_sessions :: "(npm_session_key \<Rightarrow> u64 option) option \<Rightarrow> string \<Rightarrow> icmp_module \<Rightarrow> icmp_module" where
  "bind_sessions sessions namespace m = m\<lparr>im_sessions := sessions, im_namespace := namespace\<rparr>"

definition quoted_flow_key :: "address_family \<Rightarrow> string \<Rightarrow> icmp_quoted_flow \<Rightarrow> npm_session_key" where
  "quoted_flow_key fam namespace f =
     (let forward = (bytes_less (qf_src_ip f) (qf_dst_ip f) \<or>
                     qf_src_ip f = qf_dst_ip f \<and> qf_src_port f \<le> qf_dst_port f) in
      \<lparr>sk_family = fam, sk_a_ip = (if forward then qf_src_ip f else qf_dst_ip f),
       sk_b_ip = (if forward then qf_dst_ip f else qf_src_ip f), sk_namespace = namespace, sk_domain = qf_domain f,
       sk_a_port = (if forward then qf_src_port f else qf_dst_port f),
       sk_b_port = (if forward then qf_dst_port f else qf_src_port f), sk_protocol = qf_protocol f\<rparr>)"

definition icmp_lookup :: "address_family \<Rightarrow> icmp_module \<Rightarrow> icmp_quoted_flow \<Rightarrow> u64 option" where
  "icmp_lookup fam m f =
     (case im_sessions m of None \<Rightarrow> None
      | Some active \<Rightarrow>
          if im_namespace m = [] \<or> (qf_protocol f \<noteq> 6 \<and> qf_protocol f \<noteq> 17) then None
          else active (quoted_flow_key fam (im_namespace m) f))"

definition icmp_error_event :: "address_family \<Rightarrow> icmp_module \<Rightarrow> input_event \<Rightarrow> icmp_parsed \<Rightarrow> u64 \<Rightarrow> icmp_event" where
  "icmp_error_event fam m ev p i =
     blank_icmp_event\<lparr>ev_entity_instance_id := i, ev_observed_at := pk_timestamp_ns (ie_packet ev),
       ev_domain := ie_domain ev, ev_src_ip := ip_src p, ev_dst_ip := ip_dst p, ev_outcome := ''icmp_error'',
       ev_icmp_type := ip_type p, ev_icmp_code := ip_code p, ev_outer_truncated := ip_outer_truncated p,
       ev_quote := Some (ip_quote p),
       ev_active_session := Option.bind (qu_flow (ip_quote p)) (icmp_lookup fam m),
       ev_next_hop_mtu := ip_next_hop_mtu p\<rparr>"

type_synonym icmp_call = "errno \<times> icmp_module \<times> icmp_event list"

definition on_tracker :: "icmp_module \<Rightarrow> echo_call \<Rightarrow> icmp_call" where
  "on_tracker m r = (case r of (e, t, out) \<Rightarrow> (e, m\<lparr>im_echoes := t\<rparr>, out))"

definition icmp_family_input :: "address_family \<Rightarrow> emit_row \<Rightarrow> input_event \<Rightarrow> icmp_module \<Rightarrow> icmp_call" where
  "icmp_family_input fam emit ev m =
     (case parse_icmp_control fam ev of None \<Rightarrow> (E_INVAL, m, [])
      | Some p \<Rightarrow>
          if ip_kind p = IcmpEchoRequest \<or> ip_kind p = IcmpEchoReply then
            on_tracker m (on_echo fam p (ie_domain ev) (pk_timestamp_ns (ie_packet ev)) (Some emit) (im_echoes m))
          else if ip_kind p \<noteq> IcmpError then (E_OK, m, [])
          else
            (case allocate_event_id (im_echoes m) of (i, t) \<Rightarrow>
               if i = 0 then (E_OVERFLOW, m\<lparr>im_echoes := t\<rparr>, [])
               else on_tracker m (emit_event emit fam (icmp_error_event fam m ev p i) t)))"

definition icmp_input_with :: "emit_row \<Rightarrow> input_event \<Rightarrow> icmp_module \<Rightarrow> icmp_call" where
  "icmp_input_with emit ev m =
     (case ie_layer ev of None \<Rightarrow> (E_INVAL, m, [])
      | Some l \<Rightarrow>
          if get4 (lv_endpoints l) \<noteq> None then icmp_family_input IPv4 emit ev m
          else if get6 (lv_endpoints l) \<noteq> None then icmp_family_input IPv6 emit ev m
          else (E_INVAL, m, []))"

definition icmp_time_with :: "emit_row \<Rightarrow> int option \<Rightarrow> icmp_module \<Rightarrow> icmp_call option" where
  "icmp_time_with emit watermark m = map_option (on_tracker m) (echo_on_time watermark (Some emit) (im_echoes m))"

definition icmp_finish_with :: "emit_row \<Rightarrow> int \<Rightarrow> icmp_module \<Rightarrow> icmp_call option" where
  "icmp_finish_with emit observed m = map_option (on_tracker m) (echo_finish observed (Some emit) (im_echoes m))"

text \<open>The callbacks hand their rows to the encoder.\<close>

definition icmp_module_input :: "icmp_host \<Rightarrow> input_event \<Rightarrow> icmp_module \<Rightarrow> icmp_call" where
  "icmp_module_input host = icmp_input_with (emit_icmp_event host)"

definition icmp_module_time :: "icmp_host \<Rightarrow> int option \<Rightarrow> icmp_module \<Rightarrow> icmp_call option" where
  "icmp_module_time host = icmp_time_with (emit_icmp_event host)"

definition icmp_module_finish :: "icmp_host \<Rightarrow> int \<Rightarrow> icmp_module \<Rightarrow> icmp_call option" where
  "icmp_module_finish host = icmp_finish_with (emit_icmp_event host)"

definition icmp_next_deadline :: "icmp_module \<Rightarrow> int option" where
  "icmp_next_deadline m = echo_next_deadline (im_echoes m)"

definition icmp_module_abort :: "icmp_module \<Rightarrow> icmp_module" where
  "icmp_module_abort m = m\<lparr>im_echoes := echo_abort (im_echoes m)\<rparr>"

end
