(* ===== verification/IcmpEchoProps.thy ===== *)
theory IcmpEchoProps
  imports IcmpEcho
begin

text \<open>
  The invariant of the echo tracker: both maps are search trees, the deadline index refers to each
  pending request exactly once, identifiers are handed out once, and the ledger holds the charge of
  the pending requests. Every operation keeps it, and under it the deadline loops return.
\<close>

section \<open>Families and counts\<close>

lemma pending_of_set:
  "fam \<noteq> NoFamily \<Longrightarrow> fam' \<noteq> NoFamily \<Longrightarrow>
     pending_of fam (set_pending fam' ps t) = (if fam = fam' then ps else pending_of fam t)"
  by (cases fam; cases fam') simp_all

lemma target_of_eq [simp]:
  "fam \<noteq> NoFamily \<Longrightarrow> fam' \<noteq> NoFamily \<Longrightarrow> target_of fam k = target_of fam' k' \<longleftrightarrow> fam = fam' \<and> k = k'"
  by (cases fam; cases fam') auto

lemma pending_of_updates [simp]:
  "pending_of fam (t\<lparr>et_budget := b\<rparr>) = pending_of fam t"
  "pending_of fam (t\<lparr>et_deadlines := ds\<rparr>) = pending_of fam t"
  "pending_of fam (t\<lparr>et_next_event_id := i\<rparr>) = pending_of fam t"
  "pending_of fam (t\<lparr>et_last_watermark := w\<rparr>) = pending_of fam t"
  "pending_of fam (t\<lparr>et_finished := f\<rparr>) = pending_of fam t"
  by (cases fam; simp)+

lemma set_pending_fields [simp]:
  "et_deadlines (set_pending fam ps t) = et_deadlines t" "et_budget (set_pending fam ps t) = et_budget t"
  "et_next_event_id (set_pending fam ps t) = et_next_event_id t" "et_config (set_pending fam ps t) = et_config t"
  "et_finished (set_pending fam ps t) = et_finished t" "et_last_watermark (set_pending fam ps t) = et_last_watermark t"
  by (cases fam; simp)+

lemma omap_length: "length m = omap_sum (\<lambda>_. 1) m"
  by (simp add: omap_sum_def comp_def sum_list_triv)

lemma omap_length_put:
  "length (omap_put k v m) = (if omap_find m k = None then Suc (length m) else length m)" if "omap_wf m"
proof (cases "omap_find m k")
  case None
  then show ?thesis by (simp add: omap_length omap_sum_put_new)
next
  case (Some w)
  from omap_sum_put_old [OF that Some, of "\<lambda>_. 1::nat" v] Some show ?thesis by (simp add: omap_length)
qed

lemma omap_length_erase: "omap_find m k = Some w \<Longrightarrow> Suc (length (omap_erase k m)) = length m"
  using omap_sum_erase [of m k w "\<lambda>_. 1::nat"] by (simp add: omap_length)

definition echo_charges :: "echo_tracker \<Rightarrow> nat" where
  "echo_charges t = length (et_pending4 t) * echo_pending_charge IPv4 + length (et_pending6 t) * echo_pending_charge IPv6"

lemma echo_counts_cong:
  assumes "pending_of IPv4 t' = pending_of IPv4 t" "pending_of IPv6 t' = pending_of IPv6 t"
  shows "echo_charges t' = echo_charges t" "echo_pending_count t' = echo_pending_count t"
  using assms by (simp_all add: echo_charges_def echo_pending_count_def)

lemma echo_charges_set:
  assumes "fam \<noteq> NoFamily"
  shows "echo_charges (set_pending fam ps t) + length (pending_of fam t) * echo_pending_charge fam =
           echo_charges t + length ps * echo_pending_charge fam"
    "echo_pending_count (set_pending fam ps t) + length (pending_of fam t) = echo_pending_count t + length ps"
  using assms by (cases fam; simp add: echo_charges_def echo_pending_count_def)+

section \<open>The invariant\<close>

definition pending_entry :: "echo_tracker \<Rightarrow> address_family \<Rightarrow> echo_key \<Rightarrow> pending_echo \<Rightarrow> bool" where
  "pending_entry t fam key p \<longleftrightarrow> fam \<noteq> NoFamily \<and> omap_find (pending_of fam t) key = Some p"

definition indexed :: "echo_tracker \<Rightarrow> bool" where
  "indexed t \<longleftrightarrow>
     (\<forall>dk target. omap_find (et_deadlines t) dk = Some target \<longleftrightarrow>
        (\<exists>fam key p. pending_entry t fam key p \<and> dk = (pe_deadline_ns p, pe_entity_instance_id p) \<and>
           target = target_of fam key))"

definition entry_ok :: "u64 \<Rightarrow> pending_echo \<Rightarrow> bool" where
  "entry_ok c p \<longleftrightarrow> pe_entity_instance_id p \<noteq> 0 \<and> (c \<noteq> 0 \<longrightarrow> pe_entity_instance_id p < c) \<and> pe_retries p \<le> u32_max"

definition echo_ok :: "nat \<Rightarrow> echo_tracker \<Rightarrow> bool" where
  "echo_ok base t \<longleftrightarrow>
     omap_wf (et_pending4 t) \<and> omap_wf (et_pending6 t) \<and> omap_wf (et_deadlines t) \<and> indexed t \<and>
     (\<forall>fam key p. pending_entry t fam key p \<longrightarrow> entry_ok (et_next_event_id t) p) \<and>
     backed (et_budget t) (echo_charges t) base \<and> (et_budget t = None \<longrightarrow> echo_pending_count t = 0) \<and>
     echo_pending_count t \<le> ic_max_pending_echo (et_config t) \<and>
     (et_finished t \<longrightarrow> echo_pending_count t = 0)"

lemma echo_ok_wf: "echo_ok base t \<Longrightarrow> omap_wf (pending_of fam t)"
  by (cases fam) (simp_all add: echo_ok_def)

lemma echo_ok_entry: "echo_ok base t \<Longrightarrow> pending_entry t fam key p \<Longrightarrow> entry_ok (et_next_event_id t) p"
  unfolding echo_ok_def by blast

lemma new_echo_ok: "backed b 0 base \<Longrightarrow> echo_ok base (new_echo_tracker c b)"
proof -
  have "\<not> pending_entry (new_echo_tracker c b) fam key p" for fam key p
    by (cases fam) (simp_all add: pending_entry_def new_echo_tracker_def)
  then show "backed b 0 base \<Longrightarrow> echo_ok base (new_echo_tracker c b)"
    by (simp add: echo_ok_def indexed_def echo_charges_def echo_pending_count_def)
      (simp add: new_echo_tracker_def)
qed

text \<open>A call that leaves the maps alone, draws identifiers and keeps the ledger's balance keeps it.\<close>

lemma echo_ok_frame:
  assumes "echo_ok base t" "et_pending4 t' = et_pending4 t" "et_pending6 t' = et_pending6 t"
    "et_deadlines t' = et_deadlines t" "et_config t' = et_config t" "et_finished t' = et_finished t"
    "et_next_event_id t' = 0 \<or> et_next_event_id t \<noteq> 0 \<and> et_next_event_id t \<le> et_next_event_id t'"
    "backed (et_budget t') (echo_charges t) base" "(et_budget t' = None) = (et_budget t = None)"
  shows "echo_ok base t'"
proof -
  have pe: "pending_entry t' fam key p = pending_entry t fam key p" for fam key p
    using assms(2,3) by (cases fam) (simp_all add: pending_entry_def)
  have "echo_charges t' = echo_charges t" "echo_pending_count t' = echo_pending_count t"
    using assms(2,3) by (simp_all add: echo_charges_def echo_pending_count_def)
  moreover have "entry_ok (et_next_event_id t) p \<Longrightarrow> entry_ok (et_next_event_id t') p" for p
    using assms(7) by (auto simp: entry_ok_def)
  ultimately show ?thesis
    using assms by (auto simp: echo_ok_def indexed_def pe)
qed

lemma allocate_event_id_cases:
  assumes "allocate_event_id t = (i, t')"
  shows "t' = t\<lparr>et_next_event_id := et_next_event_id t'\<rparr>" "i = et_next_event_id t"
    "i = 0 \<Longrightarrow> et_next_event_id t' = 0" "i \<noteq> 0 \<Longrightarrow> et_next_event_id t' = i + 1"
  using assms by (auto simp: allocate_event_id_def split: if_splits)

lemma next_id_above: "i \<noteq> 0 \<Longrightarrow> i + 1 = 0 \<or> i < i + 1" for i :: u64
proof (cases "i + 1 = 0")
  case False
  then have "unat (i + 1) = unat i + 1" using unatSuc [of i] by (simp add: add.commute)
  then show ?thesis by (simp add: word_less_nat_alt)
qed simp

lemma allocate_echo_ok:
  assumes "echo_ok base t" "allocate_event_id t = (i, t')"
  shows "echo_ok base t'"
proof -
  note a = allocate_event_id_cases [OF assms(2)]
  have "et_next_event_id t' = 0 \<or> et_next_event_id t \<noteq> 0 \<and> et_next_event_id t \<le> et_next_event_id t'"
    using a(2-4) next_id_above [of i] by (cases "i = 0") auto
  moreover have f: "et_pending4 t' = et_pending4 t" "et_pending6 t' = et_pending6 t" "et_deadlines t' = et_deadlines t"
    "et_config t' = et_config t" "et_finished t' = et_finished t" "et_budget t' = et_budget t"
    by (subst a(1), simp)+
  ultimately show ?thesis
    using echo_ok_frame [OF assms(1) f(1-5)] assms(1) by (simp add: f(6) echo_ok_def)
qed

section \<open>Storing and erasing\<close>

lemma pending_entry_set:
  "fam \<noteq> NoFamily \<Longrightarrow> pending_entry (set_pending fam ps t) fam' key p \<longleftrightarrow>
     (if fam' = fam then omap_find ps key = Some p else pending_entry t fam' key p)"
  by (auto simp: pending_entry_def pending_of_set)

lemma pending_entry_cong: "(\<And>fam. pending_of fam t' = pending_of fam t) \<Longrightarrow> pending_entry t' = pending_entry t"
  by (simp add: pending_entry_def fun_eq_iff)

lemma indexed_entry:
  "indexed t \<Longrightarrow> pending_entry t fam key p \<Longrightarrow>
     omap_find (et_deadlines t) (pe_deadline_ns p, pe_entity_instance_id p) = Some (target_of fam key)"
  unfolding indexed_def by blast

lemma indexed_found:
  assumes "indexed t" "omap_find (et_deadlines t) dk = Some target"
  obtains fam key p where "pending_entry t fam key p" "dk = (pe_deadline_ns p, pe_entity_instance_id p)"
    "target = target_of fam key"
  using assms unfolding indexed_def by blast

lemma indexed_unique:
  assumes "indexed t" "pending_entry t fam key p" "pending_entry t fam' key' p'"
    "(pe_deadline_ns p, pe_entity_instance_id p) = (pe_deadline_ns p', pe_entity_instance_id p')"
  shows "fam = fam' \<and> key = key' \<and> p = p'"
proof -
  let ?dk = "(pe_deadline_ns p, pe_entity_instance_id p)"
  have "omap_find (et_deadlines t) ?dk = Some (target_of fam key)" by (rule indexed_entry [OF assms(1,2)])
  moreover have "omap_find (et_deadlines t) ?dk = Some (target_of fam' key')"
    unfolding assms(4) by (rule indexed_entry [OF assms(1,3)])
  ultimately have "fam = fam' \<and> key = key'" using assms(2,3) by (auto simp: pending_entry_def)
  with assms(2,3) show ?thesis by (auto simp: pending_entry_def)
qed

text \<open>Erasing one entry whose deadline is filed.\<close>

lemma erase_echo_ok:
  assumes ok: "echo_ok base t" and e: "pending_entry t fam key p"
  shows "echo_ok base (erase_echo fam key p t)"
    "pending_entry (erase_echo fam key p t) fam' key' p' \<longleftrightarrow>
       pending_entry t fam' key' p' \<and> (fam', key') \<noteq> (fam, key)"
    "et_deadlines (erase_echo fam key p t) =
       omap_erase (pe_deadline_ns p, pe_entity_instance_id p) (et_deadlines t)"
    "Suc (echo_pending_count (erase_echo fam key p t)) = echo_pending_count t"
proof -
  let ?dk = "(pe_deadline_ns p, pe_entity_instance_id p)"
  let ?ps = "omap_erase key (pending_of fam t)"
  let ?t = "erase_echo fam key p t"
  have fam: "fam \<noteq> NoFamily" and found: "omap_find (pending_of fam t) key = Some p"
    using e by (auto simp: pending_entry_def)
  note wf = echo_ok_wf [OF ok]
  have eq: "?t = (set_pending fam ?ps (t\<lparr>et_deadlines := omap_erase ?dk (et_deadlines t)\<rparr>))
      \<lparr>et_budget := opt_refund (echo_pending_charge fam) (et_budget t)\<rparr>"
    by (simp add: erase_echo_def Let_def)
  have pof: "pending_of f ?t = (if f = fam then ?ps else pending_of f t)" if "f \<noteq> NoFamily" for f
    using that fam by (simp add: eq pending_of_set)
  show pe: "pending_entry ?t fam' key' p' \<longleftrightarrow> pending_entry t fam' key' p' \<and> (fam', key') \<noteq> (fam, key)" for fam' key' p'
    using wf [of fam]
    by (cases "fam' = NoFamily"; cases "fam' = fam") (simp_all add: pending_entry_def pof om.find_erase fam)
  show dl: "et_deadlines ?t = omap_erase ?dk (et_deadlines t)" by (simp add: eq)
  have len: "Suc (length ?ps) = length (pending_of fam t)" by (rule omap_length_erase [OF found])
  have ch: "echo_charges ?t + echo_pending_charge fam = echo_charges t" and cnt: "Suc (echo_pending_count ?t) = echo_pending_count t"
  proof -
    have "pending_of f ?t = pending_of f (set_pending fam ?ps t)" if "f \<noteq> NoFamily" for f
      using that by (simp add: pof pending_of_set fam)
    from echo_counts_cong [OF this this]
    have "echo_charges ?t = echo_charges (set_pending fam ?ps t)" "echo_pending_count ?t = echo_pending_count (set_pending fam ?ps t)"
      by simp_all
    moreover note echo_charges_set [OF fam, of ?ps t]
    moreover have "length (pending_of fam t) * echo_pending_charge fam = length ?ps * echo_pending_charge fam + echo_pending_charge fam"
      by (subst len [symmetric]) simp
    ultimately show "echo_charges ?t + echo_pending_charge fam = echo_charges t" "Suc (echo_pending_count ?t) = echo_pending_count t"
      using len by simp_all
  qed
  show "Suc (echo_pending_count ?t) = echo_pending_count t" by (rule cnt)
  have wfs: "omap_wf (et_pending4 ?t)" "omap_wf (et_pending6 ?t)" "omap_wf (et_deadlines ?t)"
    using pof [of IPv4] pof [of IPv6] wf [of IPv4] wf [of IPv6] wf [of fam] ok by (auto simp: dl om.wf_erase echo_ok_def)
  have "indexed ?t"
    unfolding indexed_def
  proof (intro allI)
    fix dk target
    have ix: "indexed t" and wd: "omap_wf (et_deadlines t)" using ok by (auto simp: echo_ok_def)
    show "omap_find (et_deadlines ?t) dk = Some target \<longleftrightarrow>
        (\<exists>fam key p. pending_entry ?t fam key p \<and> dk = (pe_deadline_ns p, pe_entity_instance_id p) \<and> target = target_of fam key)"
      (is "?L \<longleftrightarrow> ?R")
    proof
      assume ?L
      then have "dk \<noteq> ?dk" "omap_find (et_deadlines t) dk = Some target" by (auto simp: dl om.find_erase [OF wd] split: if_splits)
      with ix obtain f k q where q: "pending_entry t f k q" "dk = (pe_deadline_ns q, pe_entity_instance_id q)" "target = target_of f k"
        by (blast elim: indexed_found)
      have "(f, k) \<noteq> (fam, key)" using q(1,2) e \<open>dk \<noteq> ?dk\<close> by (auto simp: pending_entry_def)
      with q pe show ?R by blast
    next
      assume ?R
      then obtain f k q where q: "pending_entry t f k q" "(f, k) \<noteq> (fam, key)"
        "dk = (pe_deadline_ns q, pe_entity_instance_id q)" "target = target_of f k" using pe by blast
      then have "dk \<noteq> ?dk" using indexed_unique [OF ix q(1) e] by auto
      moreover have "omap_find (et_deadlines t) dk = Some target" using indexed_entry [OF ix q(1)] q(3,4) by simp
      ultimately show ?L by (simp add: dl om.find_erase [OF wd])
    qed
  qed
  moreover have "backed (et_budget ?t) (echo_charges ?t) base"
    using ok ch backed_refund [of "et_budget t" "echo_charges ?t" "echo_pending_charge fam" base] by (simp add: eq echo_ok_def)
  moreover have "et_budget ?t = None \<Longrightarrow> et_budget t = None" by (simp add: eq opt_refund_def)
  moreover have "et_next_event_id ?t = et_next_event_id t" "et_config ?t = et_config t" "et_finished ?t = et_finished t"
    by (simp_all add: eq)
  ultimately show "echo_ok base ?t"
    using ok wfs pe cnt by (auto simp: echo_ok_def)
qed

text \<open>Storing a new request under a fresh identifier.\<close>

lemma store_echo_ok:
  assumes ok: "echo_ok base t" and fam: "fam \<noteq> NoFamily" and free: "omap_find (pending_of fam t) key = None"
    and charge: "opt_charge (echo_pending_charge fam) (et_budget t) = Some b" "et_budget t \<noteq> None"
    and room: "echo_pending_count t < ic_max_pending_echo (et_config t)" "\<not> et_finished t"
    and i: "et_next_event_id t \<noteq> 0" "pe_entity_instance_id p = et_next_event_id t" "pe_retries p = 0"
    and t': "t' = store_echo fam key p (t\<lparr>et_budget := b, et_next_event_id := et_next_event_id t + 1\<rparr>)"
  shows "echo_ok base t'"
    "pending_entry t' fam' key' p' \<longleftrightarrow>
       (if (fam', key') = (fam, key) then p' = p else pending_entry t fam' key' p')"
    "echo_pending_count t' = Suc (echo_pending_count t)"
    "et_deadlines t' = omap_put (pe_deadline_ns p, pe_entity_instance_id p) (target_of fam key) (et_deadlines t)"
proof -
  let ?dk = "(pe_deadline_ns p, pe_entity_instance_id p)"
  let ?ps = "omap_put key p (pending_of fam t)"
  note wf = echo_ok_wf [OF ok]
  have ix: "indexed t" and wd: "omap_wf (et_deadlines t)" using ok by (auto simp: echo_ok_def)
  have pof: "pending_of f t' = (if f = fam then ?ps else pending_of f t)" if "f \<noteq> NoFamily" for f
    using that fam by (simp add: t' store_echo_def pending_of_set)
  have fields: "et_budget t' = b" "et_next_event_id t' = et_next_event_id t + 1" "et_config t' = et_config t"
    "et_finished t' = et_finished t"
    by (simp_all add: t' store_echo_def)
  show dl: "et_deadlines t' = omap_put ?dk (target_of fam key) (et_deadlines t)" by (simp add: t' store_echo_def)
  show pe: "pending_entry t' fam' key' p' \<longleftrightarrow>
      (if (fam', key') = (fam, key) then p' = p else pending_entry t fam' key' p')" for fam' key' p'
    using wf [of fam] fam
    by (cases "fam' = NoFamily"; cases "fam' = fam") (auto simp: pending_entry_def pof om.find_put)
  have len: "length ?ps = Suc (length (pending_of fam t))" using omap_length_put [OF wf [of fam], of key p] free by simp
  have "pending_of f t' = pending_of f (set_pending fam ?ps t)" if "f \<noteq> NoFamily" for f
    using that by (simp add: pof pending_of_set fam)
  from echo_counts_cong [OF this this]
  have eqs: "echo_charges t' = echo_charges (set_pending fam ?ps t)" "echo_pending_count t' = echo_pending_count (set_pending fam ?ps t)"
    by simp_all
  have ch: "echo_charges t' = echo_charges t + echo_pending_charge fam" and cnt: "echo_pending_count t' = Suc (echo_pending_count t)"
    using echo_charges_set [OF fam, of ?ps t] by (simp_all add: eqs len)
  show "echo_pending_count t' = Suc (echo_pending_count t)" by (rule cnt)
  have old: "entry_ok (et_next_event_id t) q" if "pending_entry t f k q" for f k q
    by (rule echo_ok_entry [OF ok that])
  have fresh: "pe_entity_instance_id q \<noteq> pe_entity_instance_id p" if "pending_entry t f k q" for f k q
    using old [OF that] i(1,2) by (auto simp: entry_ok_def)
  have "entry_ok (et_next_event_id t + 1) q" if "pending_entry t' f k q" for f k q
  proof (cases "(f, k) = (fam, key)")
    case True
    with that pe have "q = p" by simp
    with i next_id_above [of "et_next_event_id t"] show ?thesis by (auto simp: entry_ok_def)
  next
    case False
    with that pe have "pending_entry t f k q" by simp
    from old [OF this] i(1) next_id_above [OF i(1)] show ?thesis by (auto simp: entry_ok_def)
  qed
  moreover have "indexed t'"
    unfolding indexed_def
  proof (intro allI)
    fix dk target
    show "omap_find (et_deadlines t') dk = Some target \<longleftrightarrow>
        (\<exists>fam key p. pending_entry t' fam key p \<and> dk = (pe_deadline_ns p, pe_entity_instance_id p) \<and> target = target_of fam key)"
      (is "?L \<longleftrightarrow> ?R")
    proof
      assume L: ?L
      show ?R
      proof (cases "dk = ?dk")
        case True
        with L have "target = target_of fam key" by (simp add: dl om.find_put [OF wd])
        moreover have "pending_entry t' fam key p" by (simp add: pe)
        ultimately show ?thesis using True by blast
      next
        case False
        with L have "omap_find (et_deadlines t) dk = Some target" by (simp add: dl om.find_put [OF wd])
        with ix obtain f k q where q: "pending_entry t f k q" "dk = (pe_deadline_ns q, pe_entity_instance_id q)"
          "target = target_of f k" by (blast elim: indexed_found)
        have "(f, k) \<noteq> (fam, key)" using q(1) free by (auto simp: pending_entry_def)
        then have "pending_entry t' f k q = pending_entry t f k q" unfolding pe by (rule if_not_P)
        with q(1) have "pending_entry t' f k q" by simp
        with q show ?thesis by blast
      qed
    next
      assume ?R
      then obtain f k q where q: "pending_entry t' f k q" "dk = (pe_deadline_ns q, pe_entity_instance_id q)"
        "target = target_of f k" by blast
      show ?L
      proof (cases "(f, k) = (fam, key)")
        case True
        with q pe show ?thesis by (simp add: dl om.find_put [OF wd])
      next
        case False
        with q(1) pe have "pending_entry t f k q" by simp
        from indexed_entry [OF ix this] fresh [OF this] q(2,3) show ?thesis by (simp add: dl om.find_put [OF wd])
      qed
    qed
  qed
  moreover have "omap_wf (et_pending4 t')" "omap_wf (et_pending6 t')" "omap_wf (et_deadlines t')"
    using pof [of IPv4] pof [of IPv6] wf [of IPv4] wf [of IPv6] wf [of fam] wd by (auto simp: dl om.wf_put)
  moreover have "backed b (echo_charges t') base"
    using ok backed_charge [OF _ charge(1)] by (simp add: ch echo_ok_def)
  moreover have "b \<noteq> None" using charge by (auto simp: opt_charge_def split: option.splits)
  ultimately show "echo_ok base t'"
    unfolding echo_ok_def fields using cnt room by (simp add: fields del: split_paired_All)
qed

text \<open>Counting a retransmission changes neither the entry's deadline nor its identifier.\<close>

lemma retry_echo_ok:
  assumes ok: "echo_ok base t" and e: "pending_entry t fam key p" and r: "pe_retries p \<noteq> u32_max"
    and t': "t' = set_pending fam (omap_put key (p\<lparr>pe_retries := pe_retries p + 1\<rparr>) (pending_of fam t)) t"
  shows "echo_ok base t'"
    "pending_entry t' fam' key' p' \<longleftrightarrow>
       (if (fam', key') = (fam, key) then p' = p\<lparr>pe_retries := pe_retries p + 1\<rparr> else pending_entry t fam' key' p')"
    "et_deadlines t' = et_deadlines t"
proof -
  let ?p = "p\<lparr>pe_retries := pe_retries p + 1\<rparr>"
  let ?ps = "omap_put key ?p (pending_of fam t)"
  have fam: "fam \<noteq> NoFamily" and found: "omap_find (pending_of fam t) key = Some p"
    using e by (auto simp: pending_entry_def)
  note wf = echo_ok_wf [OF ok]
  have ix: "indexed t" and wd: "omap_wf (et_deadlines t)" using ok by (auto simp: echo_ok_def)
  have pof: "pending_of f t' = (if f = fam then ?ps else pending_of f t)" if "f \<noteq> NoFamily" for f
    using that fam by (simp add: t' pending_of_set)
  show pe: "pending_entry t' fam' key' p' \<longleftrightarrow>
      (if (fam', key') = (fam, key) then p' = ?p else pending_entry t fam' key' p')" for fam' key' p'
    using wf [of fam] fam
    by (cases "fam' = NoFamily"; cases "fam' = fam") (auto simp: pending_entry_def pof om.find_put)
  show dl: "et_deadlines t' = et_deadlines t" by (simp add: t')
  have len: "length ?ps = length (pending_of fam t)" using omap_length_put [OF wf [of fam], of key ?p] found by simp
  have cnt: "echo_charges t' = echo_charges t" "echo_pending_count t' = echo_pending_count t"
    using echo_charges_set [OF fam, of ?ps t] unfolding t' len by simp_all
  have fields: "et_budget t' = et_budget t" "et_next_event_id t' = et_next_event_id t" "et_config t' = et_config t"
    "et_finished t' = et_finished t" by (simp_all add: t')
  have "indexed t'"
    unfolding indexed_def dl
  proof (intro allI)
    fix dk target
    have "(\<exists>fam key p. pending_entry t' fam key p \<and> dk = (pe_deadline_ns p, pe_entity_instance_id p) \<and> target = target_of fam key)
        \<longleftrightarrow> (\<exists>fam key p. pending_entry t fam key p \<and> dk = (pe_deadline_ns p, pe_entity_instance_id p) \<and> target = target_of fam key)"
      (is "?L \<longleftrightarrow> ?R")
    proof
      assume ?L
      then obtain f k q where q: "pending_entry t' f k q" "dk = (pe_deadline_ns q, pe_entity_instance_id q)"
        "target = target_of f k" by blast
      show ?R
      proof (cases "(f, k) = (fam, key)")
        case True
        with q pe have "q = ?p" by simp
        with q True e show ?thesis by (intro exI [of _ fam] exI [of _ key] exI [of _ p]) simp
      next
        case False
        with q pe have "pending_entry t f k q" by simp
        with q show ?thesis by blast
      qed
    next
      assume ?R
      then obtain f k q where q: "pending_entry t f k q" "dk = (pe_deadline_ns q, pe_entity_instance_id q)"
        "target = target_of f k" by blast
      show ?L
      proof (cases "(f, k) = (fam, key)")
        case True
        with q(1) found have "q = p" by (auto simp: pending_entry_def)
        with q True pe show ?thesis by (intro exI [of _ fam] exI [of _ key] exI [of _ ?p]) simp
      next
        case False
        then have "pending_entry t' f k q = pending_entry t f k q" unfolding pe by (rule if_not_P)
        with q(1) have "pending_entry t' f k q" by simp
        with q show ?thesis by blast
      qed
    qed
    with ix show "(omap_find (et_deadlines t) dk = Some target) =
        (\<exists>fam key p. pending_entry t' fam key p \<and> dk = (pe_deadline_ns p, pe_entity_instance_id p) \<and> target = target_of fam key)"
      unfolding indexed_def by blast
  qed
  moreover have "omap_wf (et_pending4 t')" "omap_wf (et_pending6 t')" "omap_wf (et_deadlines t')"
    using pof [of IPv4] pof [of IPv6] wf [of IPv4] wf [of IPv6] wf [of fam] wd by (auto simp: dl om.wf_put)
  moreover have "entry_ok (et_next_event_id t) q" if "pending_entry t' f k q" for f k q
  proof (cases "(f, k) = (fam, key)")
    case True
    with that pe have "q = ?p" by simp
    moreover have "entry_ok (et_next_event_id t) p" by (rule echo_ok_entry [OF ok e])
    ultimately show ?thesis using r by (auto simp: entry_ok_def u32_max_def)
  next
    case False
    with that pe have "pending_entry t f k q" by simp
    then show ?thesis by (rule echo_ok_entry [OF ok])
  qed
  ultimately show "echo_ok base t'"
    using ok unfolding echo_ok_def fields cnt by (simp del: split_paired_All)
qed

section \<open>Rows leave through the callback\<close>

text \<open>A row callback that leaves the ledger's balance as it was.\<close>

definition emit_neutral :: "emit_row \<Rightarrow> bool" where
  "emit_neutral emit \<longleftrightarrow>
     (\<forall>fam r b c base. backed b c base \<longrightarrow> backed (snd (emit fam r b)) c base \<and> (snd (emit fam r b) = None) = (b = None))"

lemma emit_event_ok:
  assumes "emit_neutral emit" "echo_ok base t" "emit_event emit fam row t = (e, t', out)"
  shows "echo_ok base t'" "t' = t\<lparr>et_budget := et_budget t'\<rparr>" "out = (if e = E_OK then [row] else [])"
    "pending_entry t' = pending_entry t" "(et_budget t' = None) = (et_budget t = None)"
proof -
  obtain b where b: "emit fam row (et_budget t) = (e, b)" "t' = t\<lparr>et_budget := b\<rparr>" "out = (if e = E_OK then [row] else [])"
    using assms(3) by (auto simp: emit_event_def split: prod.splits)
  have "backed (et_budget t) (echo_charges t) base" using assms(2) by (simp add: echo_ok_def)
  then have k: "backed b (echo_charges t) base" "(b = None) = (et_budget t = None)"
    using assms(1) unfolding emit_neutral_def by (metis b(1) snd_conv)+
  show "t' = t\<lparr>et_budget := et_budget t'\<rparr>" "out = (if e = E_OK then [row] else [])" by (simp_all add: b)
  show "(et_budget t' = None) = (et_budget t = None)" by (simp add: b k)
  show "pending_entry t' = pending_entry t" by (rule pending_entry_cong) (simp add: b)
  have "et_next_event_id t = 0 \<or> et_next_event_id t \<noteq> 0 \<and> et_next_event_id t \<le> et_next_event_id t" by simp
  with k show "echo_ok base t'"
    by (intro echo_ok_frame [OF assms(2), of t']) (simp_all add: b)
qed

section \<open>The operations\<close>

lemma on_echo_request_ok:
  assumes ok: "echo_ok base t" and fam: "fam \<noteq> NoFamily" "\<not> et_finished t"
    and r: "on_echo_request fam key captured_at t = (e, t')"
  shows "echo_ok base t'"
proof (cases "omap_find (pending_of fam t) key")
  case (Some p)
  then have e: "pending_entry t fam key p" using fam by (simp add: pending_entry_def)
  show ?thesis
  proof (cases "pe_retries p = u32_max")
    case True
    with r Some ok show ?thesis by (simp add: on_echo_request_def)
  next
    case False
    with r Some have "t' = set_pending fam (omap_put key (p\<lparr>pe_retries := pe_retries p + 1\<rparr>) (pending_of fam t)) t"
      by (simp add: on_echo_request_def)
    from retry_echo_ok(1) [OF ok e False this] show ?thesis .
  qed
next
  case None
  show ?thesis
  proof (cases "echo_pending_count t \<ge> ic_max_pending_echo (et_config t) \<or> et_budget t = None \<or>
      opt_charge (echo_pending_charge fam) (et_budget t) = None")
    case True
    with r None ok show ?thesis by (auto simp: on_echo_request_def split: if_splits)
  next
    case False
    then obtain b where b: "opt_charge (echo_pending_charge fam) (et_budget t) = Some b" "et_budget t \<noteq> None"
      "echo_pending_count t < ic_max_pending_echo (et_config t)" by auto
    obtain i t1 where a: "allocate_event_id (t\<lparr>et_budget := b\<rparr>) = (i, t1)" by (metis prod.exhaust)
    note al = allocate_event_id_cases [OF a]
    show ?thesis
    proof (cases "i = 0")
      case True
      with r None False b a have t': "t' = t1\<lparr>et_budget := opt_refund (echo_pending_charge fam) (et_budget t1)\<rparr>"
        by (simp add: on_echo_request_def)
      have t1: "t1 = t\<lparr>et_budget := b, et_next_event_id := 0\<rparr>" using al(1) al(3) [OF True] by simp
      have "backed (et_budget t) (echo_charges t) base" using ok by (simp add: echo_ok_def)
      from backed_refund [OF backed_charge [OF this b(1)]]
      have k: "backed (opt_refund (echo_pending_charge fam) b) (echo_charges t) base" .
      have n: "(opt_refund (echo_pending_charge fam) b = None) = (et_budget t = None)"
        using b(1,2) by (auto simp: opt_charge_def opt_refund_def split: option.splits)
      show ?thesis by (rule echo_ok_frame [OF ok]) (simp_all add: t' t1 k n)
    next
      case False
      let ?p = "\<lparr>pe_entity_instance_id = i, pe_request_at_ns = captured_at,
          pe_deadline_ns = echo_deadline captured_at (ic_echo_timeout_ns (et_config t)), pe_retries = 0\<rparr>"
      have i: "i = et_next_event_id t" using al(2) by simp
      have t1: "t1 = t\<lparr>et_budget := b, et_next_event_id := et_next_event_id t + 1\<rparr>" using al(1) al(4) [OF False] i by simp
      have "t' = store_echo fam key ?p t1"
        using r None b a False by (simp add: on_echo_request_def t1)
      then show ?thesis
        using store_echo_ok(1) [OF ok fam(1) None b(1,2,3) fam(2), of ?p] False by (simp add: i t1)
    qed
  qed
qed

lemma on_echo_reply_ok:
  assumes n: "emit_neutral emit" and ok: "echo_ok base t" and fam: "fam \<noteq> NoFamily"
    and r: "on_echo_reply fam m domain key captured_at emit t = (e, t', out)"
  shows "echo_ok base t'"
proof (cases "omap_find (pending_of fam t) key")
  case None
  obtain i t1 where a: "allocate_event_id t = (i, t1)" by (metis prod.exhaust)
  note t1 = allocate_echo_ok [OF ok a]
  show ?thesis
  proof (cases "i = 0")
    case True
    with r None a t1 show ?thesis by (simp add: on_echo_reply_def)
  next
    case False
    with r None a show ?thesis by (auto simp: on_echo_reply_def intro: emit_event_ok(1) [OF n t1])
  qed
next
  case (Some p)
  then have e: "pending_entry t fam key p" using fam by (simp add: pending_entry_def)
  let ?row = "(make_echo_event fam key p captured_at ''echo_matched'')\<lparr>ev_reply_at_ns := Some captured_at,
      ev_latency_ns := elapsed_latency (pe_request_at_ns p) captured_at\<rparr>"
  obtain e1 t1 o1 where em: "emit_event emit fam ?row t = (e1, t1, o1)" by (metis prod.exhaust)
  note k = emit_event_ok [OF n ok em]
  have "t' = (if e1 = E_OK then erase_echo fam key p t1 else t1)"
    using r Some em by (auto simp: on_echo_reply_def)
  with k(1) erase_echo_ok(1) [OF k(1), of fam key p] e show ?thesis by (simp add: k(4))
qed

lemma on_echo_ok:
  assumes n: "emit_neutral emit" and ok: "echo_ok base t" and fam: "fam \<noteq> NoFamily"
    and r: "on_echo fam m domain captured_at (Some emit) t = (e, t', out)"
  shows "echo_ok base t'"
proof (cases "et_finished t \<or> (ip_kind m \<noteq> IcmpEchoRequest \<and> ip_kind m \<noteq> IcmpEchoReply)")
  case True
  with r ok show ?thesis by (auto simp: on_echo_def)
next
  case False
  let ?key = "make_echo_key m domain (ip_kind m \<noteq> IcmpEchoRequest)"
  show ?thesis
  proof (cases "ip_outer_truncated m")
    case True
    obtain i t1 where a: "allocate_event_id t = (i, t1)" by (metis prod.exhaust)
    note t1 = allocate_echo_ok [OF ok a]
    from True False r a t1 emit_event_ok(1) [OF n t1] show ?thesis
      by (auto simp: on_echo_def Let_def split: if_splits)
  next
    case nt: False
    show ?thesis
    proof (cases "ip_kind m = IcmpEchoRequest")
      case True
      obtain e1 t1 where q: "on_echo_request fam ?key captured_at t = (e1, t1)" by (metis prod.exhaust)
      with True False nt r have "t' = t1" by (simp add: on_echo_def)
      then show ?thesis using on_echo_request_ok [OF ok fam _ q] False by simp
    next
      case reply: False
      with False nt r have "on_echo_reply fam m domain ?key captured_at emit t = (e, t', out)"
        by (simp add: on_echo_def)
      then show ?thesis by (rule on_echo_reply_ok [OF n ok fam])
    qed
  qed
qed

section \<open>The deadline loops\<close>

lemma first_deadline:
  assumes "echo_ok base t" "et_deadlines t = (dk, target) # rest"
  obtains fam key p where "pending_entry t fam key p" "dk = (pe_deadline_ns p, pe_entity_instance_id p)"
    "target = target_of fam key"
proof -
  have "omap_find (et_deadlines t) dk = Some target" by (simp add: assms(2))
  moreover have "indexed t" using assms(1) by (simp add: echo_ok_def)
  ultimately show thesis using that by (blast elim: indexed_found)
qed

lemma no_deadlines: "echo_ok base t \<Longrightarrow> et_deadlines t = [] \<Longrightarrow> echo_pending_count t = 0"
proof -
  assume ok: "echo_ok base t" "et_deadlines t = []"
  have none: "pending_of fam t = []" if "fam \<noteq> NoFamily" for fam
  proof (cases "pending_of fam t")
    case (Cons x xs)
    obtain k p where "x = (k, p)" by (cases x)
    with Cons that have "pending_entry t fam k p" by (simp add: pending_entry_def)
    moreover have "indexed t" using ok(1) by (simp add: echo_ok_def)
    ultimately show ?thesis using indexed_entry [of t fam k p] ok(2) by simp
  qed
  show "echo_pending_count t = 0" using none [of IPv4] none [of IPv6] by (simp add: echo_pending_count_def)
qed

text \<open>The row of an expired request.\<close>

definition expiry_row :: "address_family \<Rightarrow> echo_key \<Rightarrow> pending_echo \<Rightarrow> int \<Rightarrow> string \<Rightarrow> icmp_event" where
  "expiry_row fam key p observed reason =
     (make_echo_event fam key p observed ''echo_request_only'')\<lparr>ev_incomplete_reason := Some reason\<rparr>"

lemma expiry_row_simps [simp]:
  "ev_entity_instance_id (expiry_row fam key p observed reason) = pe_entity_instance_id p"
  "ev_outcome (expiry_row fam key p observed reason) = ''echo_request_only''"
  "ev_incomplete_reason (expiry_row fam key p observed reason) = Some reason"
  "ev_observed_at (expiry_row fam key p observed reason) = observed"
  by (simp_all add: expiry_row_def make_echo_event_def split: prod.split)

lemma emit_deadline_step:
  assumes "echo_ok base t" "et_deadlines t = (dk, target) # rest"
  obtains fam key p where "pending_entry t fam key p" "dk = (pe_deadline_ns p, pe_entity_instance_id p)"
    "emit_deadline observed reason emit t =
       (case emit_event emit fam (expiry_row fam key p observed reason) t of
          (e, t1, out) \<Rightarrow> (e, if e = E_OK then erase_echo fam key p t1 else t1, out))"
proof -
  from first_deadline [OF assms] obtain fam key p where
    p: "pending_entry t fam key p" "dk = (pe_deadline_ns p, pe_entity_instance_id p)" "target = target_of fam key" .
  then have "(case target of Target4 k \<Rightarrow> (IPv4, k) | Target6 k \<Rightarrow> (IPv6, k)) = (fam, key)"
    by (cases fam) (auto simp: pending_entry_def)
  with p show thesis
    by (intro that [OF p(1,2)]) (simp add: emit_deadline_def assms(2) pending_entry_def expiry_row_def)
qed

lemma emit_deadline_ok:
  assumes n: "emit_neutral emit" and ok: "echo_ok base t" and d: "et_deadlines t = (dk, target) # rest"
    and r: "emit_deadline observed reason emit t = (e, t', out)"
  shows "echo_ok base t'" "e = E_OK \<Longrightarrow> et_deadlines t' = rest"
    "e = E_OK \<Longrightarrow> \<exists>row. out = [row] \<and> ev_entity_instance_id row = snd dk \<and> ev_observed_at row = observed \<and>
       ev_outcome row = ''echo_request_only'' \<and> ev_incomplete_reason row = Some reason"
    "(et_budget t' = None) = (et_budget t = None)" "et_finished t' = et_finished t"
proof -
  from emit_deadline_step [OF ok d, of observed reason emit] obtain fam key p where
    p: "pending_entry t fam key p" "dk = (pe_deadline_ns p, pe_entity_instance_id p)"
    and eq: "emit_deadline observed reason emit t =
       (case emit_event emit fam (expiry_row fam key p observed reason) t of
          (e, t1, out) \<Rightarrow> (e, if e = E_OK then erase_echo fam key p t1 else t1, out))" .
  obtain e1 t1 o1 where em: "emit_event emit fam (expiry_row fam key p observed reason) t = (e1, t1, o1)" by (metis prod.exhaust)
  note k = emit_event_ok [OF n ok em]
  have t': "e = e1" "t' = (if e = E_OK then erase_echo fam key p t1 else t1)" "out = o1"
    using r eq em by auto
  have p1: "pending_entry t1 fam key p" using p(1) k(4) by simp
  note er = erase_echo_ok [OF k(1) p1]
  have d1: "et_deadlines t1 = et_deadlines t" "et_finished t1 = et_finished t" by (subst k(2), simp)+
  show "echo_ok base t'" using k(1) er(1) by (simp add: t')
  show "et_deadlines t' = rest" if "e = E_OK" using that er(3) by (simp add: t' d1 d p(2))
  show "\<exists>row. out = [row] \<and> ev_entity_instance_id row = snd dk \<and> ev_observed_at row = observed \<and>
       ev_outcome row = ''echo_request_only'' \<and> ev_incomplete_reason row = Some reason" if "e = E_OK"
    using that k(3) p(2) by (simp add: t')
  show "(et_budget t' = None) = (et_budget t = None)"
    using k(5) by (simp add: t' erase_echo_def Let_def opt_refund_def)
  show "et_finished t' = et_finished t" by (simp add: t' erase_echo_def Let_def d1)
qed

definition due_at :: "int option \<Rightarrow> (int \<times> u64) \<times> deadline_target \<Rightarrow> bool" where
  "due_at limit d \<longleftrightarrow> (case limit of None \<Rightarrow> True | Some w \<Rightarrow> fst (fst d) \<le> w)"

lemma deadline_due_head: "deadline_due limit t \<longleftrightarrow> (\<exists>d ds. et_deadlines t = d # ds \<and> due_at limit d)"
  by (auto simp: deadline_due_def due_at_def split: list.split option.split)

text \<open>
  What a loop leaves behind: the invariant, and after a success exactly the deadlines that are not
  due, each due one having become one row.
\<close>

definition loop_done ::
  "nat \<Rightarrow> int option \<Rightarrow> int \<Rightarrow> string \<Rightarrow> echo_tracker \<Rightarrow> errno \<Rightarrow> echo_tracker \<Rightarrow> icmp_event list \<Rightarrow> bool" where
  "loop_done base limit observed reason t e t' rows \<longleftrightarrow>
     echo_ok base t' \<and> (et_budget t' = None) = (et_budget t = None) \<and> et_finished t' = et_finished t \<and>
     (e = E_OK \<longrightarrow>
       et_deadlines t' = dropWhile (due_at limit) (et_deadlines t) \<and>
       map ev_entity_instance_id rows = map (snd \<circ> fst) (takeWhile (due_at limit) (et_deadlines t)) \<and>
       (\<forall>r \<in> set rows. ev_outcome r = ''echo_request_only'' \<and> ev_observed_at r = observed \<and>
          ev_incomplete_reason r = Some reason))"

lemma deadline_loop_ok:
  assumes n: "emit_neutral emit"
  shows "echo_ok base t \<Longrightarrow>
    \<exists>e t' rows. deadline_loop limit observed reason emit t out = Some (e, t', out @ rows) \<and>
      loop_done base limit observed reason t e t' rows"
proof (induction "length (et_deadlines t)" arbitrary: t out)
  case 0
  then have "deadline_loop limit observed reason emit t out = Some (E_OK, t, out @ [])"
    by (subst deadline_loop.simps) (simp add: deadline_due_def)
  moreover have "loop_done base limit observed reason t E_OK t []" using 0 by (simp add: loop_done_def)
  ultimately show ?case by blast
next
  case (Suc l)
  then obtain dk target rest where d: "et_deadlines t = (dk, target) # rest" by (cases "et_deadlines t") auto
  show ?case
  proof (cases "due_at limit (dk, target)")
    case False
    then have "deadline_loop limit observed reason emit t out = Some (E_OK, t, out @ [])"
      by (subst deadline_loop.simps) (simp add: deadline_due_head d)
    moreover have "loop_done base limit observed reason t E_OK t []" using Suc.prems False by (simp add: loop_done_def d)
    ultimately show ?thesis by blast
  next
    case due: True
    then have "deadline_due limit t" by (simp add: deadline_due_head d)
    obtain e t1 rows where s: "emit_deadline observed reason emit t = (e, t1, rows)" by (metis prod.exhaust)
    note k = emit_deadline_ok [OF n Suc.prems d s]
    have step: "deadline_loop limit observed reason emit t out =
        (if e \<noteq> E_OK then Some (e, t1, out @ rows) else deadline_loop limit observed reason emit t1 (out @ rows))"
      by (subst deadline_loop.simps) (simp add: \<open>deadline_due limit t\<close> s)
    show ?thesis
    proof (cases "e = E_OK")
      case False
      then have "loop_done base limit observed reason t e t1 rows" using k(1,4,5) by (simp add: loop_done_def)
      with step False show ?thesis by auto
    next
      case True
      obtain row where row: "rows = [row]" "ev_entity_instance_id row = snd dk" "ev_observed_at row = observed"
        "ev_outcome row = ''echo_request_only''" "ev_incomplete_reason row = Some reason" using k(3) [OF True] by blast
      have "l = length (et_deadlines t1)" using Suc.hyps(2) by (simp add: d k(2) [OF True])
      from Suc.hyps(1) [OF this k(1), of "out @ rows"] obtain e2 t2 rows2 where
        r: "deadline_loop limit observed reason emit t1 (out @ rows) = Some (e2, t2, (out @ rows) @ rows2)"
        and l: "loop_done base limit observed reason t1 e2 t2 rows2" by blast
      have "deadline_loop limit observed reason emit t out = Some (e2, t2, out @ (row # rows2))"
        using step True r row(1) by simp
      moreover have "loop_done base limit observed reason t e2 t2 (row # rows2)"
        using l k(2) [OF True] k(4,5) row due by (simp add: loop_done_def d)
      ultimately show ?thesis by blast
    qed
  qed
qed

lemma echo_abort_ok:
  assumes "echo_ok base t"
  shows "echo_ok base (echo_abort t)" "backed (et_budget (echo_abort t)) 0 base"
proof -
  have "backed (et_budget t) (length (et_pending6 t) * echo_pending_charge IPv6 + length (et_pending4 t) * echo_pending_charge IPv4) base"
    using assms by (simp add: echo_ok_def echo_charges_def add.commute)
  from backed_refund [OF this] have "backed (opt_refund (length (et_pending4 t) * echo_pending_charge IPv4) (et_budget t))
      (0 + length (et_pending6 t) * echo_pending_charge IPv6) base" by simp
  from backed_refund [OF this] show b: "backed (et_budget (echo_abort t)) 0 base" by (simp add: echo_abort_def)
  have "\<not> pending_entry (echo_abort t) fam key p" for fam key p
    by (cases fam) (simp_all add: pending_entry_def echo_abort_def)
  with b show "echo_ok base (echo_abort t)"
    by (simp add: echo_ok_def indexed_def echo_charges_def echo_pending_count_def) (simp add: echo_abort_def)
qed

end
