(* ===== verification/SessionKeyProps.thy ===== *)
theory SessionKeyProps
  imports SessionKey
begin

text \<open>
  Packet to session: the extension-header loop returns and stays inside the packet, every accepted
  payload is a slice of the captured bytes, and a key identifies a conversation exactly.
\<close>

section \<open>Reading\<close>

lemma header_at_Some:
  "header_at bytes n offset = Some h \<longleftrightarrow>
     (\<exists>bs. bytes = Bytes bs \<and> offset + n \<le> length bs \<and> h = take n (drop offset bs))"
  by (cases bytes) (auto simp: header_at_def)

lemma header_at_within: "header_at (Bytes bs) n offset = Some h \<Longrightarrow> offset + n \<le> length bs"
  by (simp add: header_at_Some)

lemma add_size_Some: "add_size m n = Some k \<Longrightarrow> k = m + n"
  by (simp add: add_size_def split: if_splits)

lemma packet_bounds_bytes: "packet_bounds_ok p \<Longrightarrow> \<exists>bs. pk_bytes p = Bytes bs \<and> bs \<noteq> []"
  by (cases "pk_bytes p") (auto simp: packet_bounds_ok_def)

section \<open>Every refusal names its error\<close>

lemma ipv4_range_error: "ipv4_range d bytes offset \<noteq> Inl PktNone"
  by (simp add: ipv4_range_def Let_def split: option.split)

lemma ipv6_range_error: "ipv6_range d bytes offset inner \<noteq> Inl PktNone"
  by (simp add: ipv6_range_def Let_def split: option.split)

lemma resolve_packet_domain_error: "resolve_packet_domain domains src \<noteq> Inl PktNone"
  by (simp add: resolve_packet_domain_def split: sum.split)

lemma validate_network_range_error: "validate_network_range domains p l \<noteq> Inl PktNone"
proof
  assume "validate_network_range domains p l = Inl PktNone"
  then show False
    by (auto simp: validate_network_range_def Let_def resolve_packet_domain_error ipv4_range_error ipv6_range_error
        split: sum.splits if_splits)
qed

lemma extension_step_error: "extension_step p l rng index \<noteq> Inl PktNone"
  by (simp add: extension_step_def Let_def split: option.split)

lemma finish_control_error: "finish_control p l rng index \<noteq> Inl PktNone"
  by (simp add: finish_control_def Let_def)

lemma tcp_payload_error: "tcp_payload bytes stop offset \<noteq> Inl PktNone"
  by (simp add: tcp_payload_def split: option.split)

lemma udp_payload_error: "udp_payload bytes stop offset \<noteq> Inl PktNone"
  by (simp add: udp_payload_def split: option.split)

lemma bind_packet_error: "bind_packet fam domains p l \<noteq> Inl PktNone"
proof
  assume "bind_packet fam domains p l = Inl PktNone"
  then show False
    by (auto simp: bind_packet_def Let_def validate_network_range_error tcp_payload_error udp_payload_error
        split: sum.splits if_splits option.splits)
qed

section \<open>The network range\<close>

text \<open>What the range promises of a packet: a body inside it, and an end that the wire length covers.\<close>

definition range_ok :: "packet_view \<Rightarrow> network_range \<Rightarrow> bool" where
  "range_ok p rng \<longleftrightarrow>
     (\<exists>bs. pk_bytes p = Bytes bs \<and> nr_body rng \<le> length bs) \<and>
     (pk_wire_len p \<noteq> 0 \<longrightarrow> nr_end rng \<le> pk_wire_len p)"

lemma be16_bound: "unat (be16 h i) < 65536"
  using unsigned_less [of "be16 h i"] by simp

lemma ipv4_range_ok:
  "ipv4_range d (Bytes bs) offset = Inr rng \<Longrightarrow>
     nr_domain rng = d \<and> nr_family rng = IPv4 \<and> nr_body rng \<le> length bs \<and> nr_body rng \<le> nr_end rng \<and>
     nr_end rng < offset + 65536"
  by (auto simp: ipv4_range_def Let_def header_at_Some be16_bound split: option.splits if_splits dest!: add_size_Some)

lemma ipv6_range_ok:
  "ipv6_range d (Bytes bs) offset inner = Inr rng \<Longrightarrow>
     nr_domain rng = d \<and> nr_family rng = IPv6 \<and> nr_body rng \<le> length bs \<and> nr_body rng \<le> nr_end rng \<and>
     nr_end rng < offset + 65576"
  by (auto simp: ipv6_range_def Let_def header_at_Some be16_bound split: option.splits if_splits dest!: add_size_Some)

lemma validate_network_range_ok:
  assumes "validate_network_range domains p l = Inr rng"
  shows "range_ok p rng" "resolve_packet_domain domains (pk_source_id p) = Inr (nr_domain rng)"
    "nr_family rng \<in> {IPv4, IPv6}" "lv_network_index l < lv_layer_count l" "lv_layer_count l \<le> 15"
    "nr_end rng < lr_offset (lv_layers l ! lv_network_index l) + 65576" "nr_body rng \<le> nr_end rng"
proof -
  let ?n = "lv_layers l ! lv_network_index l"
  obtain d where d: "resolve_packet_domain domains (pk_source_id p) = Inr d"
    using assms by (auto simp: validate_network_range_def split: sum.splits)
  have pb: "packet_bounds_ok p" and sel: "layer_selection_ok l"
    using assms by (auto simp: validate_network_range_def d Let_def split: if_splits)
  then obtain bs where bs: "pk_bytes p = Bytes bs" using packet_bounds_bytes by blast
  have "(if lr_kind ?n = layer_IPv4 then ipv4_range d (Bytes bs) (lr_offset ?n)
         else ipv6_range d (Bytes bs) (lr_offset ?n) (layers_after l (lv_network_index l))) = Inr rng \<and>
        (pk_wire_len p \<noteq> 0 \<longrightarrow> nr_end rng \<le> pk_wire_len p)"
    using assms pb sel
    by (auto simp: validate_network_range_def d bs Let_def split: if_splits sum.splits)
  then have "nr_domain rng = d \<and> nr_family rng \<in> {IPv4, IPv6} \<and> nr_body rng \<le> length bs \<and>
      nr_body rng \<le> nr_end rng \<and> nr_end rng < lr_offset ?n + 65576 \<and>
      (pk_wire_len p \<noteq> 0 \<longrightarrow> nr_end rng \<le> pk_wire_len p)"
    by (auto split: if_splits dest!: ipv4_range_ok ipv6_range_ok)
  with d sel bs show "range_ok p rng" "resolve_packet_domain domains (pk_source_id p) = Inr (nr_domain rng)"
    "nr_family rng \<in> {IPv4, IPv6}" "lv_network_index l < lv_layer_count l" "lv_layer_count l \<le> 15"
    "nr_end rng < lr_offset ?n + 65576" "nr_body rng \<le> nr_end rng"
    by (auto simp: range_ok_def layer_selection_ok_def max_layer_depth_def)
qed

section \<open>The extension headers\<close>

lemma extension_step_ok:
  assumes "extension_step p l rng index = Inr rng'" "range_ok p rng"
  shows "index < lv_layer_count l" "range_ok p rng'" "nr_end rng' = nr_end rng" "nr_family rng' = nr_family rng"
    "nr_domain rng' = nr_domain rng" "nr_body rng + 8 \<le> nr_body rng'" "nr_body rng' \<le> nr_end rng"
proof -
  obtain bs where bs: "pk_bytes p = Bytes bs" using assms(2) by (auto simp: range_ok_def)
  have len: "8 \<le> extension_length pr b" if "\<not> (pr = 51 \<and> extension_length pr b < 12)" for pr b
    using that by (simp add: extension_length_def)
  show "index < lv_layer_count l" "range_ok p rng'" "nr_end rng' = nr_end rng" "nr_family rng' = nr_family rng"
    "nr_domain rng' = nr_domain rng" "nr_body rng + 8 \<le> nr_body rng'" "nr_body rng' \<le> nr_end rng"
    using assms len
    by (auto simp: extension_step_def range_ok_def Let_def bs split: if_splits option.splits)
qed

lemma extension_loop_ok:
  "range_ok p rng \<Longrightarrow> nr_body rng \<le> nr_end rng \<Longrightarrow>
     \<exists>r. extension_loop p l rng index = Some r \<and> r \<noteq> Inl PktNone \<and>
       (\<forall>rng' index'. r = Inr (rng', index') \<longrightarrow>
          range_ok p rng' \<and> nr_body rng' \<le> nr_end rng' \<and> nr_end rng' = nr_end rng \<and>
          nr_family rng' = nr_family rng \<and> nr_domain rng' = nr_domain rng \<and>
          index' \<le> max index (lv_layer_count l) \<and> nr_body rng + 8 * (index' - index) \<le> nr_body rng' \<and>
          \<not> is_extension (nr_protocol rng'))"
proof (induction "lv_layer_count l - index" arbitrary: rng index rule: less_induct)
  case less
  show ?case
  proof (cases "is_extension (nr_protocol rng)")
    case False
    with less.prems show ?thesis by (subst extension_loop.simps) auto
  next
    case ext: True
    show ?thesis
    proof (cases "extension_step p l rng index")
      case (Inl e)
      with ext extension_step_error [of p l rng index] show ?thesis by (subst extension_loop.simps) auto
    next
      case (Inr r1)
      note ok = extension_step_ok [OF Inr less.prems(1)]
      have "lv_layer_count l - (index + 1) < lv_layer_count l - index" using ok(1) by simp
      from less.hyps [OF this ok(2)] ok(3,7) obtain r where r:
        "extension_loop p l r1 (index + 1) = Some r" "r \<noteq> Inl PktNone"
        "\<forall>rng' index'. r = Inr (rng', index') \<longrightarrow>
          range_ok p rng' \<and> nr_body rng' \<le> nr_end rng' \<and> nr_end rng' = nr_end r1 \<and>
          nr_family rng' = nr_family r1 \<and> nr_domain rng' = nr_domain r1 \<and>
          index' \<le> max (index + 1) (lv_layer_count l) \<and> nr_body r1 + 8 * (index' - (index + 1)) \<le> nr_body rng' \<and>
          \<not> is_extension (nr_protocol rng')" by auto
      have "extension_loop p l rng index = Some r" using ext Inr r(1) by (subst extension_loop.simps) simp
      moreover have "range_ok p rng' \<and> nr_body rng' \<le> nr_end rng' \<and> nr_end rng' = nr_end rng \<and>
          nr_family rng' = nr_family rng \<and> nr_domain rng' = nr_domain rng \<and>
          index' \<le> max index (lv_layer_count l) \<and> nr_body rng + 8 * (index' - index) \<le> nr_body rng' \<and>
          \<not> is_extension (nr_protocol rng')" if "r = Inr (rng', index')" for rng' index'
        using r(3) [rule_format, OF that] ok(1,3-6) by (simp add: max_def split: if_splits) arith
      ultimately show ?thesis using r(2) by blast
    qed
  qed
qed

section \<open>The order of endpoints\<close>

lemma bytes_less_total: "length a = length b \<Longrightarrow> bytes_less a b \<or> a = b \<or> bytes_less b a"
proof (induction a arbitrary: b)
  case (Cons x a)
  then obtain y b' where b: "b = y # b'" by (cases b) auto
  with Cons show ?case by (cases x y rule: linorder_cases) auto
qed simp

lemma bytes_less_irrefl [simp]: "\<not> bytes_less a a"
  by (induction a) simp_all

lemma bytes_less_asym: "bytes_less a b \<Longrightarrow> \<not> bytes_less b a"
  by (induction a b rule: bytes_less.induct) auto

lemma source_first_total: "length (fst x) = length (fst y) \<Longrightarrow> source_first x y \<or> source_first y x"
  using bytes_less_total [of "fst x" "fst y"] by (auto simp: source_first_def)

lemma source_first_antisym: "source_first x y \<Longrightarrow> source_first y x \<Longrightarrow> x = y"
proof -
  assume le: "source_first x y" "source_first y x"
  then have "fst x = fst y" using bytes_less_asym by (auto simp: source_first_def)
  with le have "snd x = snd y" by (simp add: source_first_def)
  with \<open>fst x = fst y\<close> show "x = y" by (simp add: prod_eq_iff)
qed

text \<open>The key of two ends is the unordered pair of them.\<close>

lemma session_key_of_eq:
  assumes "length (fst s1) = n" "length (fst d1) = n" "length (fst s2) = n" "length (fst d2) = n"
  shows "session_key_of fam ns dom1 pr1 s1 d1 = session_key_of fam ns dom2 pr2 s2 d2 \<longleftrightarrow>
      dom1 = dom2 \<and> pr1 = pr2 \<and> {s1, d1} = {s2, d2}"
proof -
  have key: "session_key_of fam ns dom pr s d = session_key_of fam ns dom' pr' s' d' \<longleftrightarrow>
      dom = dom' \<and> pr = pr' \<and>
      (if source_first s d then (s, d) else (d, s)) = (if source_first s' d' then (s', d') else (d', s'))"
    for dom pr s d dom' pr' s' d'
    by (auto simp: session_key_of_def prod_eq_iff)
  have "(if source_first s1 d1 then (s1, d1) else (d1, s1)) = (if source_first s2 d2 then (s2, d2) else (d2, s2)) \<longleftrightarrow>
      {s1, d1} = {s2, d2}"
  proof
    assume "{s1, d1} = {s2, d2}"
    then consider "s2 = s1" "d2 = d1" | "s2 = d1" "d2 = s1" by (auto simp: doubleton_eq_iff)
    then show "(if source_first s1 d1 then (s1, d1) else (d1, s1)) = (if source_first s2 d2 then (s2, d2) else (d2, s2))"
    proof cases
      case 2
      with source_first_total [of s1 d1] source_first_antisym [of s1 d1] assms show ?thesis by auto
    qed simp
  qed (auto split: if_splits)
  then show ?thesis by (simp add: key)
qed

lemma source_first_swap:
  assumes "length (fst s1) = length (fst d1)" "{s1, d1} = {s2, d2}"
  shows "(source_first s1 d1 \<longleftrightarrow> source_first s2 d2) \<longleftrightarrow> s1 = s2"
  using assms source_first_total [of s1 d1] source_first_antisym [of s1 d1] by (auto simp: doubleton_eq_iff)

section \<open>Accepted bindings\<close>

definition packet_ends :: "address_family \<Rightarrow> layer_view \<Rightarrow> (u8 list \<times> u8 list) option" where
  "packet_ends fam l = (if fam = IPv4 then get4 (lv_endpoints l) else get6 (lv_endpoints l))"

lemma payload_ok:
  assumes "(if c then tcp_payload (Bytes bs) stop offset else udp_payload (Bytes bs) stop offset) = Inr (a, z, wire, tcp)"
  shows "offset + 8 \<le> a \<and> a \<le> length bs \<and> a \<le> z \<and> z = min (a + wire) (length bs) \<and> a + wire \<le> stop"
  using assms
  by (auto simp: tcp_payload_def udp_payload_def min_def split: if_splits option.splits
      dest!: add_size_Some header_at_within)

lemma bind_packet_cases:
  assumes "bind_packet fam domains p l = Inr b"
  obtains rng start stop wire tcp src dst bs where
    "validate_network_range domains p l = Inr rng" "pk_bytes p = Bytes bs"
    "packet_ends fam l = Some (src, dst)" "lv_payload_offset l = start"
    "start \<le> length bs" "stop = min (start + wire) (length bs)" "start + wire \<le> nr_end rng"
    "lr_offset (lv_layers l ! lv_network_index l) \<le> start" "lv_transport_protocol l \<in> {6, 17}"
    "lr_offset (lv_layers l ! lv_transport_index l) + 8 \<le> start"
    "b = bind_endpoints fam domains p l rng (lv_transport_protocol l) (src, dst) (start, stop, wire, tcp)"
proof -
  obtain rng where rng: "validate_network_range domains p l = Inr rng"
    using assms by (auto simp: bind_packet_def split: sum.splits)
  obtain bs where bs: "pk_bytes p = Bytes bs"
    using validate_network_range_ok(1) [OF rng] by (auto simp: range_ok_def)
  let ?t = "lv_layers l ! lv_transport_index l"
  let ?pay = "if lr_kind ?t = layer_TCP then tcp_payload (pk_bytes p) (nr_end rng) (lr_offset ?t)
              else udp_payload (pk_bytes p) (nr_end rng) (lr_offset ?t)"
  obtain start stop wire tcp where pay: "?pay = Inr (start, stop, wire, tcp)"
    using assms by (cases ?pay) (auto simp: bind_packet_def rng Let_def split: if_splits)
  have c: "expected_protocol (lr_kind ?t) \<noteq> 0" "lv_transport_protocol l = expected_protocol (lr_kind ?t)"
    "lr_offset (lv_layers l ! lv_network_index l) \<le> lr_offset ?t"
    using assms by (auto simp: bind_packet_def rng Let_def split: if_splits)
  obtain src dst where ends: "packet_ends fam l = Some (src, dst)" and start: "lv_payload_offset l = start"
    and b: "b = bind_endpoints fam domains p l rng (expected_protocol (lr_kind ?t)) (src, dst) (start, stop, wire, tcp)"
    using assms pay by (cases "packet_ends fam l") (auto simp: bind_packet_def rng Let_def packet_ends_def split: if_splits)
  have "lv_transport_protocol l \<in> {6, 17}"
    using c by (auto simp: expected_protocol_def split: if_splits)
  with payload_ok [OF pay [unfolded bs]] c ends start b rng bs that show thesis by auto
qed

section \<open>Properties\<close>

lemma bind_endpoints_simps:
  "pb_key (bind_endpoints fam domains p l rng pr (src, dst) (start, stop, wire, tcp)) =
     session_key_of fam (dl_namespace domains) (nr_domain rng) pr (src, lv_src_port l) (dst, lv_dst_port l)"
  "pb_direction (bind_endpoints fam domains p l rng pr (src, dst) (start, stop, wire, tcp)) =
     (if source_first (src, lv_src_port l) (dst, lv_dst_port l) then AToB else BToA)"
  "pb_payload (bind_endpoints fam domains p l rng pr (src, dst) (start, stop, wire, tcp)) =
     take (stop - start) (drop start (the (span_data (pk_bytes p))))"
  "payload_wire_bytes (pb_transport (bind_endpoints fam domains p l rng pr (src, dst) (start, stop, wire, tcp))) =
     wire mod 2 ^ 32"
  "payload_complete (pb_transport (bind_endpoints fam domains p l rng pr (src, dst) (start, stop, wire, tcp))) =
     (length (take (stop - start) (drop start (the (span_data (pk_bytes p))))) = wire)"
  by (simp_all add: bind_endpoints_def Let_def)

text \<open>
  C21. Two packets that are bound under the same observation map get the same key exactly when they
  belong to one conversation: same domain, same transport protocol, and the same unordered pair of
  address and port; and then they have the same direction exactly when they have the same source.
\<close>

theorem session_key_conversation:
  assumes "bind_packet fam domains p1 l1 = Inr b1" "bind_packet fam domains p2 l2 = Inr b2"
    "packet_ends fam l1 = Some (s1, d1)" "packet_ends fam l2 = Some (s2, d2)"
    "{length s1, length d1, length s2, length d2} = {n}"
  shows "(pb_key b1 = pb_key b2 \<longleftrightarrow>
      resolve_packet_domain domains (pk_source_id p1) = resolve_packet_domain domains (pk_source_id p2) \<and>
      lv_transport_protocol l1 = lv_transport_protocol l2 \<and>
      {(s1, lv_src_port l1), (d1, lv_dst_port l1)} = {(s2, lv_src_port l2), (d2, lv_dst_port l2)}) \<and>
    (pb_key b1 = pb_key b2 \<longrightarrow>
      (pb_direction b1 = pb_direction b2 \<longleftrightarrow> (s1, lv_src_port l1) = (s2, lv_src_port l2)))"
proof -
  have len: "length s1 = n" "length d1 = n" "length s2 = n" "length d2 = n" using assms(5) by auto
  obtain r1 f1 where r1: "validate_network_range domains p1 l1 = Inr r1"
    and b1: "b1 = bind_endpoints fam domains p1 l1 r1 (lv_transport_protocol l1) (s1, d1) f1"
    by (rule bind_packet_cases [OF assms(1)]) (use assms(3) in auto)
  obtain r2 f2 where r2: "validate_network_range domains p2 l2 = Inr r2"
    and b2: "b2 = bind_endpoints fam domains p2 l2 r2 (lv_transport_protocol l2) (s2, d2) f2"
    by (rule bind_packet_cases [OF assms(2)]) (use assms(4) in auto)
  obtain a1 z1 w1 t1 where f1: "f1 = (a1, z1, w1, t1)" by (metis prod.exhaust)
  obtain a2 z2 w2 t2 where f2: "f2 = (a2, z2, w2, t2)" by (metis prod.exhaust)
  note dom = validate_network_range_ok(2) [OF r1] validate_network_range_ok(2) [OF r2]
  have key: "pb_key b1 = pb_key b2 \<longleftrightarrow>
      nr_domain r1 = nr_domain r2 \<and> lv_transport_protocol l1 = lv_transport_protocol l2 \<and>
      {(s1, lv_src_port l1), (d1, lv_dst_port l1)} = {(s2, lv_src_port l2), (d2, lv_dst_port l2)}"
    unfolding b1 b2 f1 f2 bind_endpoints_simps
    by (rule session_key_of_eq [where n = n]) (simp_all add: len)
  have "(pb_direction b1 = pb_direction b2) \<longleftrightarrow> (s1, lv_src_port l1) = (s2, lv_src_port l2)"
    if "pb_key b1 = pb_key b2"
    unfolding b1 b2 f1 f2 bind_endpoints_simps
    using source_first_swap [of "(s1, lv_src_port l1)" "(d1, lv_dst_port l1)"] that key len by auto
  with key show ?thesis by (simp add: dom)
qed

text \<open>
  C22. An accepted packet's payload is the slice of the captured bytes at the offset the decoder
  reported; it ends where the transport header says or where the capture ends, is marked complete
  exactly when nothing is missing, never exceeds the wire length, and its length survives the
  narrowing to 32 bits. A refused packet leaves the key and the binding as they were.
\<close>

theorem session_binding_sound:
  assumes "build_packet_binding fam domains p l (Some key) (Some out) = (e, key', out')"
  shows "(e \<noteq> PktNone \<longrightarrow> key' = Some key \<and> out' = Some out) \<and>
    (e = PktNone \<longrightarrow>
      (\<exists>b bs wire. out' = Some b \<and> key' = Some (pb_key b) \<and> pk_bytes p = Bytes bs \<and>
        pb_payload b = take wire (drop (lv_payload_offset l) bs) \<and> lv_payload_offset l \<le> length bs \<and>
        payload_wire_bytes (pb_transport b) = wire \<and> wire < 65576 \<and>
        (payload_complete (pb_transport b) \<longleftrightarrow> lv_payload_offset l + wire \<le> length bs) \<and>
        (pk_wire_len p \<noteq> 0 \<longrightarrow> lv_payload_offset l + wire \<le> pk_wire_len p)))"
proof (cases "bind_packet fam domains p l")
  case (Inl err)
  then have "err \<noteq> PktNone" using bind_packet_error [of fam domains p l] by simp
  with Inl assms show ?thesis by (auto simp: build_packet_binding_def)
next
  case (Inr b)
  obtain rng start stop wire tcp src dst bs where c:
    "validate_network_range domains p l = Inr rng" "pk_bytes p = Bytes bs" "lv_payload_offset l = start"
    "start \<le> length bs" "stop = min (start + wire) (length bs)" "start + wire \<le> nr_end rng"
    "lr_offset (lv_layers l ! lv_network_index l) \<le> start"
    "b = bind_endpoints fam domains p l rng (lv_transport_protocol l) (src, dst) (start, stop, wire, tcp)"
    by (rule bind_packet_cases [OF Inr])
  have "wire < 65576" using c(6,7) validate_network_range_ok(6) [OF c(1)] by simp
  moreover have "pk_wire_len p \<noteq> 0 \<longrightarrow> start + wire \<le> pk_wire_len p"
    using validate_network_range_ok(1) [OF c(1)] c(6) by (auto simp: range_ok_def)
  moreover have "take (stop - start) (drop start bs) = take wire (drop start bs)"
    by (simp add: c(5) min_def)
  ultimately show ?thesis
    using assms Inr c(2-4)
    by (auto simp: build_packet_binding_def c(8) bind_endpoints_simps)
qed

text \<open>
  C23. Building a control input returns on every packet, whatever extension headers it chains: each
  of them takes one more decoded layer. A refusal leaves the layer facts and the output alone; an
  acceptance gives the bytes between the end of the headers and the end of the network packet, as
  far as they are captured, says whether all of them are, and only touches the transport protocol
  of the layer facts.
\<close>

theorem control_input_returns:
  "\<exists>e l' out'. build_control_input domains p l (Some out) = Some (e, l', out') \<and>
     (e \<noteq> PktNone \<longrightarrow> l' = l \<and> out' = Some out) \<and>
     (e = PktNone \<longrightarrow>
       l' = l\<lparr>lv_transport_protocol := lv_transport_protocol l'\<rparr> \<and> lv_transport_protocol l' \<in> {1, 58} \<and>
       (\<exists>c bs start stop. out' = Some c \<and> pk_bytes p = Bytes bs \<and> start \<le> length bs \<and> start \<le> stop \<and>
          ci_body c = Bytes (take (stop - start) (drop start bs)) \<and>
          ci_body_complete c = (stop \<le> length bs) \<and> ci_layer c = l' \<and> ci_packet c = p \<and>
          resolve_packet_domain domains (pk_source_id p) = Inr (ci_domain c) \<and>
          (pk_wire_len p \<noteq> 0 \<longrightarrow> stop \<le> pk_wire_len p)))"
proof (cases "validate_network_range domains p l")
  case (Inl e)
  moreover have "e \<noteq> PktNone" using Inl validate_network_range_error [of domains p l] by simp
  ultimately show ?thesis by (simp add: build_control_input_def)
next
  case (Inr rng)
  note ok = validate_network_range_ok [OF Inr]
  let ?i = "lv_network_index l + 1"
  let ?loop = "if nr_family rng = IPv6 then extension_loop p l rng ?i else Some (Inr (rng, ?i))"
  obtain r where r: "?loop = Some r" "r \<noteq> Inl PktNone"
    and after: "\<forall>rng' i. r = Inr (rng', i) \<longrightarrow> range_ok p rng' \<and> nr_domain rng' = nr_domain rng"
    using extension_loop_ok [OF ok(1) ok(7), of l ?i] ok(1) by (cases "nr_family rng = IPv6") auto
  have step: "build_control_input domains p l (Some out) =
      (case r of Inl e \<Rightarrow> Some (e, l, Some out)
       | Inr (rng', i) \<Rightarrow> (case finish_control p l rng' i of Inl e \<Rightarrow> Some (e, l, Some out)
           | Inr (l', c) \<Rightarrow> Some (PktNone, l', Some c)))"
    unfolding build_control_input_def Inr r(1) [symmetric] sum.case using r(1)
    by (simp split: sum.split)
  show ?thesis
  proof (cases r)
    case (Inl e)
    with r(2) step show ?thesis by simp
  next
    case x: (Inr x)
    obtain rng' i where rng': "x = (rng', i)" by (cases x)
    have ok': "range_ok p rng'" "nr_domain rng' = nr_domain rng" using after x rng' by simp_all
    then obtain bs where bs: "pk_bytes p = Bytes bs" "pk_wire_len p \<noteq> 0 \<longrightarrow> nr_end rng' \<le> pk_wire_len p"
        "nr_domain rng' = nr_domain rng" unfolding range_ok_def by blast
    show ?thesis
    proof (cases "finish_control p l rng' i")
      case (Inl e)
      with finish_control_error [of p l rng' i] step x rng' show ?thesis by simp
    next
      case (Inr y)
      obtain l' c where y: "y = (l', c)" by (cases y)
      have fin: "l' = l\<lparr>lv_transport_protocol := lv_transport_protocol l'\<rparr>" "lv_transport_protocol l' \<in> {1, 58}"
        "c = control_output p l' rng'" "nr_body rng' \<le> nr_end rng'" "nr_body rng' \<le> length bs"
        using Inr y bs(1) by (auto simp: finish_control_def Let_def split: if_splits)
      have "ci_body c = Bytes (take (nr_end rng' - nr_body rng') (drop (nr_body rng') bs))"
        by (simp add: fin(3) control_output_def bs(1) min_def)
      moreover have "ci_body_complete c = (nr_end rng' \<le> length bs)" "ci_layer c = l'" "ci_packet c = p"
        "resolve_packet_domain domains (pk_source_id p) = Inr (ci_domain c)"
        using ok(2) by (simp_all add: fin(3) control_output_def bs)
      ultimately have "\<exists>d bs start stop. Some c = Some d \<and> pk_bytes p = Bytes bs \<and> start \<le> length bs \<and> start \<le> stop \<and>
          ci_body d = Bytes (take (stop - start) (drop start bs)) \<and>
          ci_body_complete d = (stop \<le> length bs) \<and> ci_layer d = l' \<and> ci_packet d = p \<and>
          resolve_packet_domain domains (pk_source_id p) = Inr (ci_domain d) \<and>
          (pk_wire_len p \<noteq> 0 \<longrightarrow> stop \<le> pk_wire_len p)"
        using fin(4,5) bs(1,2) by blast
      moreover have "build_control_input domains p l (Some out) = Some (PktNone, l', Some c)"
        using step x rng' Inr y by simp
      ultimately show ?thesis using fin(1,2) by blast
    qed
  qed
qed

section \<open>Samples\<close>

definition sample_lookup :: domain_lookup where
  "sample_lookup = \<lparr>dl_namespace = ''tap'', dl_bindings = [], dl_source_id_as_domain = True, dl_charged_bytes = 0\<rparr>"

definition sample_packet :: "u8 list \<Rightarrow> packet_view" where
  "sample_packet bs =
     \<lparr>pk_timestamp_ns = 0, pk_captured_len = length bs, pk_wire_len = length bs, pk_source_id = 3, pk_bytes = Bytes bs\<rparr>"

definition sample_layers :: "layer_ref list \<Rightarrow> ip_endpoints \<Rightarrow> u16 \<Rightarrow> u16 \<Rightarrow> nat \<Rightarrow> layer_view" where
  "sample_layers refs ends sport dport payload =
     \<lparr>lv_status = Decoded, lv_layer_count = length refs,
      lv_layers = refs @ replicate (15 - length refs) \<lparr>lr_kind = layer_TOP, lr_offset = 0\<rparr>,
      lv_endpoint_scope = Innermost, lv_network_index = 0, lv_transport_index = 1, lv_payload_offset = payload,
      lv_src_mac = replicate 6 0, lv_dst_mac = replicate 6 0, lv_src_mac_valid = False, lv_dst_mac_valid = False,
      lv_address_state = AddressAvailable, lv_transport_protocol = 6, lv_src_port = sport, lv_dst_port = dport,
      lv_ports_valid = True, lv_endpoints = ends\<rparr>"

text \<open>A TCP segment from 10.0.0.1 port 9 to 10.0.0.2 port 80 with two bytes of payload, and its reverse.\<close>

definition sample_tcp :: "u8 list" where
  "sample_tcp =
     [0x45, 0, 0, 42, 0, 0, 0, 0, 64, 6, 0, 0, 10, 0, 0, 1, 10, 0, 0, 2,
      0, 9, 0, 80, 0, 0, 0, 1, 0, 0, 0, 2, 0x50, 0x10, 1, 0, 0, 0, 0, 0, 7, 8]"

definition sample_refs :: "layer_ref list" where
  "sample_refs = [\<lparr>lr_kind = layer_IPv4, lr_offset = 0\<rparr>, \<lparr>lr_kind = layer_TCP, lr_offset = 20\<rparr>]"

definition sample_forth :: layer_view where
  "sample_forth = sample_layers sample_refs (Endpoints4 [10, 0, 0, 1] [10, 0, 0, 2]) 9 80 40"

definition sample_back :: layer_view where
  "sample_back = sample_layers sample_refs (Endpoints4 [10, 0, 0, 2] [10, 0, 0, 1]) 80 9 40"

lemmas evaluate_bind = bind_packet_def validate_network_range_def resolve_packet_domain_def resolve_domain_def
  packet_bounds_ok_def layer_selection_ok_def max_layer_depth_def is_network_layer_def ipv4_range_def ipv6_range_def
  header_at_def add_size_def be16_def be32_def high_nibble_def low_nibble_def u64_max_def Let_def
  expected_protocol_def endpoint_available_def tcp_payload_def udp_payload_def layers_after_def
  sample_lookup_def sample_packet_def sample_layers_def

lemma sample_bind:
  "\<exists>b. bind_packet IPv4 sample_lookup (sample_packet sample_tcp) sample_forth = Inr b"
  "\<exists>b. bind_packet IPv4 sample_lookup (sample_packet sample_tcp) sample_back = Inr b"
  by (simp_all add: evaluate_bind sample_tcp_def sample_forth_def sample_back_def sample_refs_def)

theorem session_key_conversation_witness:
  "\<exists>b1 b2. bind_packet IPv4 sample_lookup (sample_packet sample_tcp) sample_forth = Inr b1 \<and>
     bind_packet IPv4 sample_lookup (sample_packet sample_tcp) sample_back = Inr b2 \<and>
     pb_key b1 = pb_key b2 \<and> pb_direction b1 \<noteq> pb_direction b2"
proof -
  obtain b1 b2 where b: "bind_packet IPv4 sample_lookup (sample_packet sample_tcp) sample_forth = Inr b1"
    "bind_packet IPv4 sample_lookup (sample_packet sample_tcp) sample_back = Inr b2"
    using sample_bind by blast
  from session_key_conversation [OF b, of "[10, 0, 0, 1]" "[10, 0, 0, 2]" "[10, 0, 0, 2]" "[10, 0, 0, 1]" 4]
  have "pb_key b1 = pb_key b2 \<and> pb_direction b1 \<noteq> pb_direction b2"
    by (simp add: packet_ends_def sample_forth_def sample_back_def sample_layers_def doubleton_eq_iff)
  with b show ?thesis by blast
qed

theorem session_binding_sound_witness:
  "\<exists>key out e key' b. build_packet_binding IPv4 sample_lookup (sample_packet sample_tcp) sample_forth (Some key) (Some out) =
      (e, key', Some b) \<and> e = PktNone \<and> pb_payload b = [7, 8] \<and> payload_complete (pb_transport b)"
proof -
  obtain b where b: "bind_packet IPv4 sample_lookup (sample_packet sample_tcp) sample_forth = Inr b"
    using sample_bind by blast
  then have r: "build_packet_binding IPv4 sample_lookup (sample_packet sample_tcp) sample_forth (Some (pb_key b)) (Some b) =
      (PktNone, Some (pb_key b), Some b)" by (simp add: build_packet_binding_def)
  have p: "pk_bytes (sample_packet sample_tcp) = Bytes sample_tcp" "lv_payload_offset sample_forth = 40"
    "pk_wire_len (sample_packet sample_tcp) = 42" "length sample_tcp = 42" "drop 40 sample_tcp = [7, 8]"
    by (simp_all add: sample_packet_def sample_forth_def sample_layers_def sample_tcp_def)
  obtain wire where w: "pb_payload b = take wire [7, 8]" "payload_wire_bytes (pb_transport b) = wire"
    "payload_complete (pb_transport b) \<longleftrightarrow> 40 + wire \<le> 42"
    using session_binding_sound [OF r] by (auto simp: p)
  have "wire = 2" using b w(2)
    by (auto simp: evaluate_bind sample_tcp_def sample_forth_def sample_refs_def bind_endpoints_simps)
  with r w show ?thesis by auto
qed

text \<open>An ICMPv6 echo behind one destination-options header.\<close>

definition sample_icmp6 :: "u8 list" where
  "sample_icmp6 = 
     [0x60, 0, 0, 0, 0, 16, 60, 64, 0, 0, 0, 0, 0, 0, 0, 0, 0, 0, 0, 0, 0, 0, 0, 0, 0, 0, 0, 0, 0, 0, 0, 0,
      0, 0, 0, 0, 0, 0, 0, 0, 58, 0, 0, 0, 0, 0, 0, 0, 128, 0, 0, 0, 0, 1, 0, 1]"

definition sample_icmp6_layers :: layer_view where
  "sample_icmp6_layers =
     sample_layers [\<lparr>lr_kind = layer_IPv6, lr_offset = 0\<rparr>, \<lparr>lr_kind = layer_DSTOPTS, lr_offset = 40\<rparr>]
       NoEndpoints 0 0 48"

theorem control_input_returns_witness:
  "\<exists>out l' c. build_control_input sample_lookup (sample_packet sample_icmp6) sample_icmp6_layers (Some out) =
      Some (PktNone, l', Some c) \<and> ci_body c = Bytes [128, 0, 0, 0, 0, 1, 0, 1] \<and> ci_layer c = l' \<and>
      lv_transport_protocol l' = 58"
proof -
  let ?p = "sample_packet sample_icmp6" and ?l = sample_icmp6_layers
  define out where
    "out = control_output ?p ?l \<lparr>nr_domain = 0, nr_end = 0, nr_body = 0, nr_protocol = 0, nr_family = IPv6\<rparr>"
  from control_input_returns [of sample_lookup ?p ?l out] obtain e l' out' where
    r: "build_control_input sample_lookup ?p ?l (Some out) = Some (e, l', out')" and
    ok: "e = PktNone \<longrightarrow> (\<exists>c. out' = Some c \<and> ci_layer c = l')" by blast
  have "e = PktNone \<and> lv_transport_protocol l' = 58 \<and>
      (\<forall>c. out' = Some c \<longrightarrow> ci_body c = Bytes [128, 0, 0, 0, 0, 1, 0, 1])"
  proof -
    have v: "validate_network_range sample_lookup ?p ?l =
        Inr \<lparr>nr_domain = 3, nr_end = 56, nr_body = 40, nr_protocol = 60, nr_family = IPv6\<rparr>"
      by (simp add: evaluate_bind sample_icmp6_def sample_icmp6_layers_def)
    have st: "extension_step ?p ?l \<lparr>nr_domain = 3, nr_end = 56, nr_body = 40, nr_protocol = 60, nr_family = IPv6\<rparr> (Suc 0) =
        Inr \<lparr>nr_domain = 3, nr_end = 56, nr_body = 48, nr_protocol = 58, nr_family = IPv6\<rparr>"
      by (simp add: extension_step_def extension_kind_def extension_length_def evaluate_bind sample_icmp6_def
          sample_icmp6_layers_def)
    have lp: "extension_loop ?p ?l \<lparr>nr_domain = 3, nr_end = 56, nr_body = 40, nr_protocol = 60, nr_family = IPv6\<rparr> (Suc 0) =
        Some (Inr (\<lparr>nr_domain = 3, nr_end = 56, nr_body = 48, nr_protocol = 58, nr_family = IPv6\<rparr>, Suc (Suc 0)))"
      by (simp add: extension_loop.simps [of _ _ _ "Suc 0"] extension_loop.simps [of _ _ _ "Suc (Suc 0)"] is_extension_def st)
    have i: "lv_network_index ?l = 0" "lv_layer_count ?l = 2" by (simp_all add: sample_icmp6_layers_def sample_layers_def)
    let ?rng = "\<lparr>nr_domain = 3, nr_end = 56, nr_body = 48, nr_protocol = 58, nr_family = IPv6\<rparr>"
    let ?l' = "?l\<lparr>lv_transport_protocol := 58\<rparr>"
    have fin: "finish_control ?p ?l ?rng (Suc (Suc 0)) = Inr (?l', control_output ?p ?l' ?rng)"
      by (simp add: finish_control_def Let_def sample_packet_def sample_icmp6_def sample_icmp6_layers_def sample_layers_def)
    have "build_control_input sample_lookup ?p ?l (Some out) = Some (PktNone, ?l', Some (control_output ?p ?l' ?rng))"
      by (simp add: build_control_input_def v lp i fin)
    moreover have "ci_body (control_output ?p ?l' ?rng) = Bytes [128, 0, 0, 0, 0, 1, 0, 1]"
      by (simp add: control_output_def sample_packet_def sample_icmp6_def)
    ultimately show ?thesis using r by simp
  qed
  with r ok show ?thesis by blast
qed

end
