(* ===== verification/IcmpModuleProps.thy ===== *)
theory IcmpModuleProps
  imports IcmpModule IcmpEchoProps SessionKeyProps
begin

text \<open>
  The ICMP module over its runs: the ledger and the deadline index are exact in every reachable
  state, the time-driven callbacks return, the encoder's row check never refuses a row, a request
  and its reply become one row, and an error that quotes a packet is filed under the session the
  packet was bound to.
\<close>

section \<open>The encoder\<close>

lemma build_icmp_row_backed:
  "backed b c base \<Longrightarrow> backed (snd (build_icmp_row host fam r b)) c base \<and> (snd (build_icmp_row host fam r b) = None) = (b = None)"
  using backed_charge [of b c base icmp_build_charge] backed_refund
  by (fastforce simp: build_icmp_row_def opt_charge_def opt_refund_def split: option.splits)

lemma build_icmp_row_neutral: "emit_neutral (build_icmp_row host)"
  unfolding emit_neutral_def by (intro allI impI build_icmp_row_backed)

lemma emit_icmp_event_neutral: "emit_neutral (emit_icmp_event host)"
  unfolding emit_neutral_def emit_icmp_event_def using build_icmp_row_backed by auto

section \<open>Runs\<close>

inductive icmp_step :: "icmp_host \<Rightarrow> icmp_module \<times> icmp_event list \<Rightarrow> icmp_module \<times> icmp_event list \<Rightarrow> bool"
  for host where
  input: "icmp_module_input host ev m = (e, m', out) \<Longrightarrow> icmp_step host (m, log) (m', log @ out)"
| time: "icmp_module_time host w m = Some (e, m', out) \<Longrightarrow> icmp_step host (m, log) (m', log @ out)"
| finish: "icmp_module_finish host now m = Some (e, m', out) \<Longrightarrow> icmp_step host (m, log) (m', log @ out)"
| abort: "icmp_step host (m, log) (icmp_module_abort m, log)"

inductive_cases icmp_stepE: "icmp_step host s s'"

definition icmp_reachable ::
  "icmp_host \<Rightarrow> icmp_config \<Rightarrow> npm_task_budget \<Rightarrow> icmp_module \<times> icmp_event list \<Rightarrow> bool" where
  "icmp_reachable host c tb s \<longleftrightarrow>
     (\<exists>sessions namespace. (icmp_step host)\<^sup>*\<^sup>* (bind_sessions sessions namespace (new_icmp_module c (Some tb)), []) s)"

definition icmp_ok :: "icmp_config \<Rightarrow> nat \<Rightarrow> icmp_module \<Rightarrow> bool" where
  "icmp_ok c base m \<longleftrightarrow>
     echo_ok base (im_echoes m) \<and> et_budget (im_echoes m) \<noteq> None \<and> et_config (im_echoes m) = c"

text \<open>Whatever an operation does, the configuration and the presence of a ledger stay.\<close>

definition same_frame :: "echo_tracker \<Rightarrow> echo_tracker \<Rightarrow> bool" where
  "same_frame t t' \<longleftrightarrow> et_config t' = et_config t \<and> (et_budget t' = None) = (et_budget t = None)"

lemma same_frame_refl [simp]: "same_frame t t"
  by (simp add: same_frame_def)

lemma same_frame_trans: "same_frame t t1 \<Longrightarrow> same_frame t1 t2 \<Longrightarrow> same_frame t t2"
  by (simp add: same_frame_def)

lemma allocate_same_frame: "allocate_event_id t = (i, t') \<Longrightarrow> same_frame t t'"
  by (auto simp: same_frame_def allocate_event_id_def split: if_splits)

lemma erase_same_frame: "same_frame t (erase_echo fam key p t)"
  by (simp add: same_frame_def erase_echo_def Let_def opt_refund_def)

lemma emit_same_frame:
  assumes "emit_neutral emit" "echo_ok base t" "emit_event emit fam row t = (e, t', out)"
  shows "same_frame t t'"
proof -
  have "et_config t' = et_config t" by (subst emit_event_ok(2) [OF assms]) simp
  then show ?thesis using emit_event_ok(5) [OF assms] by (simp add: same_frame_def)
qed

lemma request_same_frame:
  "on_echo_request fam key captured_at t = (e, t') \<Longrightarrow> same_frame t t'"
  by (auto simp: on_echo_request_def same_frame_def store_echo_def allocate_event_id_def opt_charge_def opt_refund_def
      split: option.splits if_splits dest: sym)

lemma on_echo_same_frame:
  assumes n: "emit_neutral emit" and ok: "echo_ok base t"
    and r: "on_echo fam m domain captured_at (Some emit) t = (e, t', out)"
  shows "same_frame t t'"
proof -
  have reply: "same_frame t t'" if "on_echo_reply fam m domain key captured_at emit t = (e, t', out)" for key
  proof (cases "omap_find (pending_of fam t) key")
    case None
    obtain i t1 where a: "allocate_event_id t = (i, t1)" by (metis prod.exhaust)
    note ok1 = allocate_echo_ok [OF ok a]
    from that None a emit_same_frame [OF n ok1] allocate_same_frame [OF a] show ?thesis
      by (auto simp: on_echo_reply_def split: if_splits intro: same_frame_trans)
  next
    case (Some p)
    let ?row = "(make_echo_event fam key p captured_at ''echo_matched'')\<lparr>ev_reply_at_ns := Some captured_at,
        ev_latency_ns := elapsed_latency (pe_request_at_ns p) captured_at\<rparr>"
    obtain e1 t1 o1 where em: "emit_event emit fam ?row t = (e1, t1, o1)" by (metis prod.exhaust)
    have "t' = t1 \<or> t' = erase_echo fam key p t1" using that Some em by (auto simp: on_echo_reply_def split: if_splits)
    then show ?thesis
      using emit_same_frame [OF n ok em] same_frame_trans [OF _ erase_same_frame] by blast
  qed
  obtain i t1 where a: "allocate_event_id t = (i, t1)" by (metis prod.exhaust)
  note ok1 = allocate_echo_ok [OF ok a]
  show ?thesis
    using r reply a emit_same_frame [OF n ok1] allocate_same_frame [OF a] request_same_frame
    by (auto simp: on_echo_def Let_def split: if_splits prod.splits intro: same_frame_trans)
qed

section \<open>The invariant of a run\<close>

lemma icmp_ok_tracker:
  "icmp_ok c base m \<Longrightarrow> echo_ok base t' \<Longrightarrow> same_frame (im_echoes m) t' \<Longrightarrow> icmp_ok c base (m\<lparr>im_echoes := t'\<rparr>)"
  by (auto simp: icmp_ok_def same_frame_def)

lemma family_input_ok:
  assumes n: "emit_neutral emit" and ok: "icmp_ok c base m" and fam: "fam \<noteq> NoFamily"
    and r: "icmp_family_input fam emit ev m = (e, m', out)"
  shows "icmp_ok c base m'"
proof (cases "parse_icmp_control fam ev")
  case None
  with r ok show ?thesis by (simp add: icmp_family_input_def)
next
  case (Some p)
  have eok: "echo_ok base (im_echoes m)" using ok by (simp add: icmp_ok_def)
  show ?thesis
  proof (cases "ip_kind p = IcmpEchoRequest \<or> ip_kind p = IcmpEchoReply")
    case True
    obtain e1 t1 o1 where q: "on_echo fam p (ie_domain ev) (pk_timestamp_ns (ie_packet ev)) (Some emit) (im_echoes m) = (e1, t1, o1)"
      by (metis prod.exhaust)
    from True Some r q have "m' = m\<lparr>im_echoes := t1\<rparr>" by (auto simp: icmp_family_input_def on_tracker_def)
    then show ?thesis using icmp_ok_tracker [OF ok on_echo_ok [OF n eok fam q] on_echo_same_frame [OF n eok q]] by simp
  next
    case False
    obtain i t1 where a: "allocate_event_id (im_echoes m) = (i, t1)" by (metis prod.exhaust)
    note ok1 = allocate_echo_ok [OF eok a]
    obtain e2 t2 o2 where em: "emit_event emit fam (icmp_error_event fam m ev p i) t1 = (e2, t2, o2)" by (metis prod.exhaust)
    note f = same_frame_trans [OF allocate_same_frame [OF a] emit_same_frame [OF n ok1 em]]
    from False Some r a em have "m' = m \<or> m' = m\<lparr>im_echoes := t1\<rparr> \<or> m' = m\<lparr>im_echoes := t2\<rparr>"
      by (auto simp: icmp_family_input_def on_tracker_def split: if_splits)
    with ok icmp_ok_tracker [OF ok ok1 allocate_same_frame [OF a]]
      icmp_ok_tracker [OF ok emit_event_ok(1) [OF n ok1 em] f] show ?thesis by auto
  qed
qed

lemma icmp_input_with_ok:
  "emit_neutral emit \<Longrightarrow> icmp_ok c base m \<Longrightarrow> icmp_input_with emit ev m = (e, m', out) \<Longrightarrow> icmp_ok c base m'"
  by (auto simp: icmp_input_with_def split: option.splits if_splits dest: family_input_ok)

text \<open>The loops change the pending requests only.\<close>

lemma deadline_loop_config:
  assumes n: "emit_neutral emit"
  shows "echo_ok base t \<Longrightarrow> deadline_loop limit observed reason emit t out = Some (e, t', out') \<Longrightarrow>
     et_config t' = et_config t \<and> et_last_watermark t' = et_last_watermark t"
proof (induction "length (et_deadlines t)" arbitrary: t out)
  case 0
  then have "\<not> deadline_due limit t" by (simp add: deadline_due_def)
  with 0 deadline_loop.simps [of limit observed reason emit t out] show ?case by simp
next
  case (Suc l)
  then obtain dk target rest where d: "et_deadlines t = (dk, target) # rest" by (cases "et_deadlines t") auto
  obtain e1 t1 rows where s: "emit_deadline observed reason emit t = (e1, t1, rows)" by (metis prod.exhaust)
  note k = emit_deadline_ok [OF n Suc.prems(1) d s]
  from emit_deadline_step [OF Suc.prems(1) d, of observed reason emit] obtain fam key p where
    "pending_entry t fam key p" "dk = (pe_deadline_ns p, pe_entity_instance_id p)"
    and eq: "emit_deadline observed reason emit t =
       (case emit_event emit fam (expiry_row fam key p observed reason) t of
          (e, t1, out) \<Rightarrow> (e, if e = E_OK then erase_echo fam key p t1 else t1, out))" .
  obtain e2 t2 o2 where em: "emit_event emit fam (expiry_row fam key p observed reason) t = (e2, t2, o2)" by (metis prod.exhaust)
  have "et_config t2 = et_config t" "et_last_watermark t2 = et_last_watermark t"
    by (subst emit_event_ok(2) [OF n Suc.prems(1) em], simp)+
  then have c: "et_config t1 = et_config t" "et_last_watermark t1 = et_last_watermark t"
    using s eq em by (auto simp: erase_echo_def Let_def split: if_splits)
  show ?case
  proof (cases "deadline_due limit t \<and> e1 = E_OK")
    case False
    with Suc.prems(2) s c deadline_loop.simps [of limit observed reason emit t out] show ?thesis
      by (cases "deadline_due limit t") simp_all
  next
    case True
    with Suc.prems(2) s deadline_loop.simps [of limit observed reason emit t out]
    have "deadline_loop limit observed reason emit t1 (out @ rows) = Some (e, t', out')" by simp
    moreover have "l = length (et_deadlines t1)" using Suc.hyps(2) d k(2) True by simp
    ultimately show ?thesis using Suc.hyps(1) [OF _ k(1)] c by simp
  qed
qed

lemma loop_same_frame:
  assumes "emit_neutral emit" "echo_ok base t" "deadline_loop limit observed reason emit t out = Some (e, t', out')"
    "loop_done base limit observed reason t e t' rows"
  shows "same_frame t t'"
  using deadline_loop_config [OF assms(1-3)] assms(4) by (simp add: same_frame_def loop_done_def)

lemma watermark_ok: "echo_ok base t \<Longrightarrow> echo_ok base (t\<lparr>et_last_watermark := w\<rparr>)"
  by (rule echo_ok_frame [of base t]) (auto simp: echo_ok_def)

lemma finished_ok: "echo_ok base t \<Longrightarrow> echo_pending_count t = 0 \<Longrightarrow> echo_ok base (t\<lparr>et_finished := True\<rparr>)"
proof -
  assume ok: "echo_ok base t" "echo_pending_count t = 0"
  have "pending_entry (t\<lparr>et_finished := True\<rparr>) = pending_entry t" by (rule pending_entry_cong) simp
  moreover have "echo_charges (t\<lparr>et_finished := True\<rparr>) = echo_charges t"
    "echo_pending_count (t\<lparr>et_finished := True\<rparr>) = echo_pending_count t"
    by (rule echo_counts_cong; simp)+
  ultimately show "echo_ok base (t\<lparr>et_finished := True\<rparr>)" using ok by (simp add: echo_ok_def indexed_def)
qed

text \<open>
  What a time-driven call does: it returns, and if it reports success the first deadline left is
  later than the watermark, each request that was due having become one row.
\<close>

lemma echo_on_time_ok:
  assumes n: "emit_neutral emit" and ok: "echo_ok base t"
  obtains e t' rows where "echo_on_time w (Some emit) t = Some (e, t', rows)" "echo_ok base t'" "same_frame t t'"
    "\<And>x. w = Some x \<Longrightarrow> \<not> et_finished t \<Longrightarrow> (\<And>l. et_last_watermark t = Some l \<Longrightarrow> l < x) \<Longrightarrow> e = E_OK \<Longrightarrow>
       et_deadlines t' = dropWhile (due_at (Some x)) (et_deadlines t) \<and>
       map ev_entity_instance_id rows = map (snd \<circ> fst) (takeWhile (due_at (Some x)) (et_deadlines t))"
proof (cases "w = None \<or> et_finished t \<or> (\<exists>x l. w = Some x \<and> et_last_watermark t = Some l \<and> x \<le> l)")
  case True
  then have "echo_on_time w (Some emit) t = Some (E_OK, t, [])"
    by (auto simp: echo_on_time_def split: option.split)
  with True ok show thesis by (intro that [of E_OK t "[]"]) force+
next
  case False
  then obtain x where x: "w = Some x" by auto
  let ?t = "t\<lparr>et_last_watermark := Some x\<rparr>"
  from deadline_loop_ok [OF n watermark_ok [OF ok], of "Some x" x "''response_not_observed_by_deadline''" "Some x" "[]"]
  obtain e t' rows where l: "deadline_loop (Some x) x ''response_not_observed_by_deadline'' emit ?t [] = Some (e, t', rows)"
    and d: "loop_done base (Some x) x ''response_not_observed_by_deadline'' ?t e t' rows" by auto
  have "echo_on_time w (Some emit) t = Some (e, t', rows)"
    using False l x by (auto simp: echo_on_time_def split: option.split)
  moreover have "same_frame t t'"
    using loop_same_frame [OF n watermark_ok [OF ok] l d] by (simp add: same_frame_def)
  ultimately show thesis using d x by (intro that [of e t' rows]) (auto simp: loop_done_def)
qed

lemma echo_finish_ok:
  assumes n: "emit_neutral emit" and ok: "echo_ok base t"
  obtains e t' rows where "echo_finish now (Some emit) t = Some (e, t', rows)" "echo_ok base t'" "same_frame t t'"
    "e = E_OK \<Longrightarrow> et_finished t' \<and> echo_pending_count t' = 0 \<and> et_deadlines t' = [] \<or> et_finished t \<and> t' = t"
    "e = E_OK \<Longrightarrow> \<not> et_finished t \<Longrightarrow> map ev_entity_instance_id rows = map (snd \<circ> fst) (et_deadlines t)"
proof (cases "et_finished t")
  case True
  then show thesis using ok by (intro that [of E_OK t "[]"]) (simp_all add: echo_finish_def)
next
  case False
  from deadline_loop_ok [OF n ok, of None now "''task_eof''" "[]"]
  obtain e t' rows where l: "deadline_loop None now ''task_eof'' emit t [] = Some (e, t', rows)"
    and d: "loop_done base None now ''task_eof'' t e t' rows" by auto
  have r: "echo_finish now (Some emit) t = Some (e, if e = E_OK then t'\<lparr>et_finished := True\<rparr> else t', rows)"
    using False l by (simp add: echo_finish_def)
  have ok': "echo_ok base t'" using d by (simp add: loop_done_def)
  have all: "dropWhile (due_at None) ds = []" "takeWhile (due_at None) ds = ds" for ds
    by (induction ds) (simp_all add: due_at_def)
  have f: "same_frame t t'" by (rule loop_same_frame [OF n ok l d])
  show thesis
  proof (cases "e = E_OK")
    case True
    then have "et_deadlines t' = []" using d by (simp add: loop_done_def all)
    with no_deadlines [OF ok' this] finished_ok [OF ok'] r f True d False show thesis
      by (intro that [of e "t'\<lparr>et_finished := True\<rparr>" rows]) (simp_all add: same_frame_def loop_done_def all echo_pending_count_def)
  next
    case False
    with r ok' f show thesis by (intro that [of e t' rows]) simp_all
  qed
qed

lemma icmp_step_ok: "icmp_step host s s' \<Longrightarrow> icmp_ok c base (fst s) \<Longrightarrow> icmp_ok c base (fst s')"
proof (induction rule: icmp_step.induct)
  case (input ev m e m' out log)
  then show ?case
    using icmp_input_with_ok [OF emit_icmp_event_neutral, of c base m host ev e m' out] by (simp add: icmp_module_input_def)
next
  case (time w m e m' out log)
  have ok: "echo_ok base (im_echoes m)" using time.prems by (simp add: icmp_ok_def)
  from echo_on_time_ok [OF emit_icmp_event_neutral ok, of w host] obtain e1 t1 rows where
    r: "echo_on_time w (Some (emit_icmp_event host)) (im_echoes m) = Some (e1, t1, rows)" "echo_ok base t1"
      "same_frame (im_echoes m) t1" .
  with time have "m' = m\<lparr>im_echoes := t1\<rparr>" by (simp add: icmp_module_time_def icmp_time_with_def on_tracker_def)
  then show ?case using icmp_ok_tracker [OF _ r(2,3)] time.prems by simp
next
  case (finish now m e m' out log)
  have ok: "echo_ok base (im_echoes m)" using finish.prems by (simp add: icmp_ok_def)
  from echo_finish_ok [OF emit_icmp_event_neutral ok, of now host] obtain e1 t1 rows where
    r: "echo_finish now (Some (emit_icmp_event host)) (im_echoes m) = Some (e1, t1, rows)" "echo_ok base t1"
      "same_frame (im_echoes m) t1" .
  with finish have "m' = m\<lparr>im_echoes := t1\<rparr>" by (simp add: icmp_module_finish_def icmp_finish_with_def on_tracker_def)
  then show ?case using icmp_ok_tracker [OF _ r(2,3)] finish.prems by simp
next
  case (abort m log)
  then have "echo_ok base (echo_abort (im_echoes m))" by (simp add: icmp_ok_def echo_abort_ok)
  moreover have "same_frame (im_echoes m) (echo_abort (im_echoes m))"
    by (simp add: same_frame_def echo_abort_def opt_refund_def)
  ultimately show ?case using icmp_ok_tracker abort by (simp add: icmp_module_abort_def)
qed

lemma icmp_reachable_ok:
  assumes "icmp_reachable host c tb s" "budget_wf tb"
  shows "icmp_ok c (module_held tb) (fst s)"
proof -
  obtain sessions namespace where
    run: "(icmp_step host)\<^sup>*\<^sup>* (bind_sessions sessions namespace (new_icmp_module c (Some tb)), []) s"
    using assms(1) by (auto simp: icmp_reachable_def)
  have "backed (Some tb) 0 (module_held tb)" using assms(2) by (simp add: backed_def)
  from new_echo_ok [OF this] have "icmp_ok c (module_held tb) (bind_sessions sessions namespace (new_icmp_module c (Some tb)))"
    by (simp add: icmp_ok_def bind_sessions_def new_icmp_module_def) (simp add: new_echo_tracker_def)
  with run show ?thesis
    by (induction rule: rtranclp_induct) (auto intro: icmp_step_ok)
qed

section \<open>Rows the encoder accepts\<close>

definition agrees :: "emit_row \<Rightarrow> emit_row \<Rightarrow> bool" where
  "agrees emit emit' \<longleftrightarrow> (\<forall>fam r b. valid_icmp_row fam r \<and> b \<noteq> None \<longrightarrow> emit fam r b = emit' fam r b)"

lemma encoder_agrees: "agrees (emit_icmp_event host) (build_icmp_row host)"
  by (simp add: agrees_def emit_icmp_event_def)

lemma emit_event_agree:
  "agrees emit emit' \<Longrightarrow> valid_icmp_row fam row \<Longrightarrow> et_budget t \<noteq> None \<Longrightarrow> emit_event emit fam row t = emit_event emit' fam row t"
  by (simp add: agrees_def emit_event_def)

lemma valid_truncated: "i \<noteq> 0 \<Longrightarrow> valid_icmp_row fam (truncated_event m domain captured_at i request)"
  by (simp add: valid_icmp_row_def truncated_event_def one_sided_event_def blank_icmp_event_def Let_def)

lemma valid_reply_only:
  "i \<noteq> 0 \<Longrightarrow> valid_icmp_row fam ((one_sided_event m domain captured_at i)\<lparr>ev_outcome := ''echo_reply_only'',
      ev_incomplete_reason := Some reason, ev_reply_at_ns := Some captured_at\<rparr>)"
  by (simp add: valid_icmp_row_def one_sided_event_def blank_icmp_event_def Let_def)

lemma valid_matched:
  "pe_entity_instance_id p \<noteq> 0 \<Longrightarrow> valid_icmp_row fam ((make_echo_event fam key p observed ''echo_matched'')\<lparr>
      ev_reply_at_ns := Some observed, ev_latency_ns := l\<rparr>)"
  by (cases key) (simp add: valid_icmp_row_def make_echo_event_def blank_icmp_event_def Let_def)

lemma valid_expiry: "pe_entity_instance_id p \<noteq> 0 \<Longrightarrow> valid_icmp_row fam (expiry_row fam key p observed reason)"
  by (cases key) (simp add: valid_icmp_row_def expiry_row_def make_echo_event_def blank_icmp_event_def Let_def)

lemma parse_quote_shape:
  "qu_ip_family (parse_quote fam domain quote) \<in> {None, Some (family_code fam)}"
  "(qu_src_ip (parse_quote fam domain quote) = None) = (qu_dst_ip (parse_quote fam domain quote) = None)"
  by (simp_all add: parse_quote_def quote_tuple_def no_quote_def Let_def)

lemma parse_icmp_shape:
  assumes "parse_icmp_control fam ev = Some p"
  obtains ends where "p = new_icmp_parsed ends"
  | ends body where "p = parse_icmp_body fam (ie_domain ev) (ie_body_complete ev) body (new_icmp_parsed ends)"
  using assms by (auto simp: parse_icmp_control_def Let_def split: if_splits option.splits)

lemma parsed_quote_shape:
  assumes "parse_icmp_control fam ev = Some p"
  shows "qu_ip_family (ip_quote p) \<in> {None, Some (family_code fam)}"
    "(qu_src_ip (ip_quote p) = None) = (qu_dst_ip (ip_quote p) = None)"
proof -
  have "ip_quote (parse_icmp_body fam d c body q) = ip_quote q \<or>
      ip_quote (parse_icmp_body fam d c body q) = parse_quote fam d (drop 8 body)" for d c body q
    by (simp add: parse_icmp_body_def Let_def)
  note body = this
  have new: "ip_quote (new_icmp_parsed ends) = no_quote []" for ends by (simp add: new_icmp_parsed_def)
  from assms have "ip_quote p = no_quote [] \<or> (\<exists>d q. ip_quote p = parse_quote fam d q)"
  proof (cases rule: parse_icmp_shape)
    case (1 ends)
    then show ?thesis by (simp add: new)
  next
    case (2 ends b)
    then show ?thesis using body [of "ie_domain ev" "ie_body_complete ev" b "new_icmp_parsed ends"] new by auto
  qed
  then have "qu_ip_family (ip_quote p) \<in> {None, Some (family_code fam)} \<and>
      (qu_src_ip (ip_quote p) = None) = (qu_dst_ip (ip_quote p) = None)"
  proof (elim disjE exE)
    assume "ip_quote p = no_quote []"
    then show ?thesis by (simp add: no_quote_def)
  next
    fix d q assume "ip_quote p = parse_quote fam d q"
    then show ?thesis using parse_quote_shape [of fam d q] by simp
  qed
  then show "qu_ip_family (ip_quote p) \<in> {None, Some (family_code fam)}"
    "(qu_src_ip (ip_quote p) = None) = (qu_dst_ip (ip_quote p) = None)" by blast+
qed

lemma valid_error:
  "parse_icmp_control fam ev = Some p \<Longrightarrow> i \<noteq> 0 \<Longrightarrow> valid_icmp_row fam (icmp_error_event fam m ev p i)"
  using parsed_quote_shape [of fam ev p]
  by (auto simp: valid_icmp_row_def icmp_error_event_def blank_icmp_event_def Let_def split: option.split)

lemma allocate_budget: "allocate_event_id t = (i, t') \<Longrightarrow> et_budget t' = et_budget t"
  by (auto simp: allocate_event_id_def split: if_splits)

lemma on_echo_agree:
  assumes a: "agrees emit emit'" and ok: "echo_ok base t" "et_budget t \<noteq> None" and fam: "fam \<noteq> NoFamily"
  shows "on_echo fam m domain captured_at (Some emit) t = on_echo fam m domain captured_at (Some emit') t"
proof -
  obtain i t1 where al: "allocate_event_id t = (i, t1)" by (metis prod.exhaust)
  have b1: "et_budget t1 \<noteq> None" using allocate_budget [OF al] ok(2) by simp
  have "on_echo_reply fam m domain key captured_at emit t = on_echo_reply fam m domain key captured_at emit' t" for key
  proof (cases "omap_find (pending_of fam t) key")
    case None
    then show ?thesis
      using emit_event_agree [OF a valid_reply_only b1] by (simp add: on_echo_reply_def al)
  next
    case (Some p)
    then have "pe_entity_instance_id p \<noteq> 0"
      using echo_ok_entry [OF ok(1), of fam key p] fam by (simp add: pending_entry_def entry_ok_def)
    from emit_event_agree [OF a valid_matched [OF this] ok(2)] Some show ?thesis by (simp add: on_echo_reply_def)
  qed
  then show ?thesis
    using emit_event_agree [OF a valid_truncated b1] by (simp add: on_echo_def Let_def al)
qed

lemma deadline_loop_agree:
  assumes a: "agrees emit emit'" and n: "emit_neutral emit"
  shows "echo_ok base t \<Longrightarrow> et_budget t \<noteq> None \<Longrightarrow>
     deadline_loop limit observed reason emit t out = deadline_loop limit observed reason emit' t out"
proof (induction "length (et_deadlines t)" arbitrary: t out)
  case 0
  then have "\<not> deadline_due limit t" by (simp add: deadline_due_def)
  with deadline_loop.simps [of limit observed reason _ t out] show ?case by simp
next
  case (Suc l)
  then obtain dk target rest where d: "et_deadlines t = (dk, target) # rest" by (cases "et_deadlines t") auto
  from first_deadline [OF Suc.prems(1) d] obtain fam key p where
    p: "pending_entry t fam key p" "dk = (pe_deadline_ns p, pe_entity_instance_id p)" "target = target_of fam key" .
  have "pe_entity_instance_id p \<noteq> 0" using echo_ok_entry [OF Suc.prems(1) p(1)] by (simp add: entry_ok_def)
  note same = emit_event_agree [OF a valid_expiry [OF this] Suc.prems(2), unfolded expiry_row_def]
  have "(case target of Target4 k \<Rightarrow> (IPv4, k) | Target6 k \<Rightarrow> (IPv6, k)) = (fam, key)"
    using p(1,3) by (cases fam) (auto simp: pending_entry_def)
  then have eq: "emit_deadline observed reason emit t = emit_deadline observed reason emit' t"
    using p(1) same by (simp add: emit_deadline_def d pending_entry_def)
  obtain e t1 rows where s: "emit_deadline observed reason emit t = (e, t1, rows)" by (metis prod.exhaust)
  note k = emit_deadline_ok [OF n Suc.prems(1) d s]
  have "deadline_loop limit observed reason emit t1 (out @ rows) = deadline_loop limit observed reason emit' t1 (out @ rows)"
    if "e = E_OK"
    using Suc.hyps(1) [OF _ k(1)] Suc.hyps(2) k(2) [OF that] k(4) Suc.prems(2) by (simp add: d)
  then show ?case
    using deadline_loop.simps [of limit observed reason _ t out] s eq by (cases "e = E_OK") simp_all
qed

section \<open>Properties\<close>

text \<open>
  C26. In every state a module can reach, whatever its host answers, the ledger holds exactly what
  it held before plus the charge of the pending requests, there are never more of them than
  configured, the deadline index refers to each pending request once and to nothing else, and an
  abort gives everything back.
\<close>

theorem icmp_ledger_exact:
  assumes "icmp_reachable host c tb (m, log)" "budget_wf tb"
  shows "\<exists>b b'. et_budget (im_echoes m) = Some b \<and> budget_wf b \<and>
    module_held b = module_held tb + echo_charges (im_echoes m) \<and>
    echo_pending_count (im_echoes m) \<le> ic_max_pending_echo c \<and> indexed (im_echoes m) \<and>
    et_budget (im_echoes (icmp_module_abort m)) = Some b' \<and> module_held b' = module_held tb \<and>
    icmp_next_deadline (icmp_module_abort m) = None"
proof -
  have ok: "icmp_ok c (module_held tb) m" using icmp_reachable_ok [OF assms] by simp
  then obtain b where b: "et_budget (im_echoes m) = Some b" by (auto simp: icmp_ok_def)
  have e: "echo_ok (module_held tb) (im_echoes m)" "et_config (im_echoes m) = c" using ok by (simp_all add: icmp_ok_def)
  have held: "budget_wf b" "module_held b = module_held tb + echo_charges (im_echoes m)"
    using e(1) b by (auto simp: echo_ok_def backed_def)
  obtain b' where b': "et_budget (echo_abort (im_echoes m)) = Some b'" by (simp add: echo_abort_def opt_refund_def b)
  have "module_held b' = module_held tb" using echo_abort_ok(2) [OF e(1)] b' by (simp add: backed_def)
  with b held b' e show ?thesis
    by (simp add: icmp_module_abort_def icmp_next_deadline_def echo_next_deadline_def echo_ok_def)
      (simp add: echo_abort_def)
qed

text \<open>
  C27. The loops of the time-driven callbacks return from every reachable state. After a time call
  that succeeds with a new watermark, each request that was due has become one row, in the order of
  the deadlines, and the next deadline is later; after a finish that succeeds nothing is pending.
\<close>

theorem icmp_time_returns:
  assumes "icmp_reachable host c tb (m, log)" "budget_wf tb"
  shows "(\<exists>e m' rows. icmp_module_time host w m = Some (e, m', rows) \<and>
      (\<forall>x. w = Some x \<and> e = E_OK \<and> \<not> et_finished (im_echoes m) \<and>
           (\<forall>l. et_last_watermark (im_echoes m) = Some l \<longrightarrow> l < x) \<longrightarrow>
        map ev_entity_instance_id rows =
          map (snd \<circ> fst) (takeWhile (due_at (Some x)) (et_deadlines (im_echoes m))) \<and>
        (\<forall>d. icmp_next_deadline m' = Some d \<longrightarrow> x < d))) \<and>
    (\<exists>e m' rows. icmp_module_finish host now m = Some (e, m', rows) \<and>
      (e = E_OK \<longrightarrow> echo_pending_count (im_echoes m') = 0 \<and> icmp_next_deadline m' = None))"
proof
  have ok: "echo_ok (module_held tb) (im_echoes m)" using icmp_reachable_ok [OF assms] by (simp add: icmp_ok_def)
  note n = emit_icmp_event_neutral [of host]
  from echo_on_time_ok [OF n ok, of w] obtain e t rows where
    r: "echo_on_time w (Some (emit_icmp_event host)) (im_echoes m) = Some (e, t, rows)"
    and d: "\<And>x. w = Some x \<Longrightarrow> \<not> et_finished (im_echoes m) \<Longrightarrow>
       (\<And>l. et_last_watermark (im_echoes m) = Some l \<Longrightarrow> l < x) \<Longrightarrow> e = E_OK \<Longrightarrow>
       et_deadlines t = dropWhile (due_at (Some x)) (et_deadlines (im_echoes m)) \<and>
       map ev_entity_instance_id rows =
         map (snd \<circ> fst) (takeWhile (due_at (Some x)) (et_deadlines (im_echoes m)))" by metis
  have later: "x < d" if "echo_next_deadline u = Some d" "et_deadlines u = dropWhile (due_at (Some x)) ds" for x d u ds
  proof -
    from that(1) obtain a y where a: "et_deadlines u = (a, y) # tl (et_deadlines u)" "d = fst a"
      by (auto simp: echo_next_deadline_def split: list.splits)
    then have "\<not> due_at (Some x) (a, y)" using that(2) by (metis hd_dropWhile list.discI list.sel(1))
    with a show ?thesis by (simp add: due_at_def)
  qed
  show "\<exists>e m' rows. icmp_module_time host w m = Some (e, m', rows) \<and>
      (\<forall>x. w = Some x \<and> e = E_OK \<and> \<not> et_finished (im_echoes m) \<and>
           (\<forall>l. et_last_watermark (im_echoes m) = Some l \<longrightarrow> l < x) \<longrightarrow>
        map ev_entity_instance_id rows =
          map (snd \<circ> fst) (takeWhile (due_at (Some x)) (et_deadlines (im_echoes m))) \<and>
        (\<forall>d. icmp_next_deadline m' = Some d \<longrightarrow> x < d))"
    using r d later
    by (intro exI [of _ e] exI [of _ "m\<lparr>im_echoes := t\<rparr>"] exI [of _ rows])
      (simp add: icmp_module_time_def icmp_time_with_def on_tracker_def icmp_next_deadline_def)
  from echo_finish_ok [OF n ok, of now] obtain e t rows where
    f: "echo_finish now (Some (emit_icmp_event host)) (im_echoes m) = Some (e, t, rows)" "echo_ok (module_held tb) t"
    and g: "e = E_OK \<Longrightarrow> et_finished t \<and> echo_pending_count t = 0 \<and> et_deadlines t = [] \<or>
      et_finished (im_echoes m) \<and> t = im_echoes m" by metis
  have "e = E_OK \<longrightarrow> echo_pending_count t = 0 \<and> echo_next_deadline t = None"
  proof
    assume "e = E_OK"
    from g [OF this] show "echo_pending_count t = 0 \<and> echo_next_deadline t = None"
    proof
      assume fin: "et_finished (im_echoes m) \<and> t = im_echoes m"
      then have "echo_pending_count t = 0" using ok by (simp add: echo_ok_def)
      moreover have "et_deadlines t = []"
      proof (cases "et_deadlines t")
        case (Cons d ds)
        obtain dk target where d: "d = (dk, target)" by (cases d)
        have "et_deadlines t = (dk, target) # ds" using Cons d by simp
        from first_deadline [OF f(2) this] obtain fam key p where "pending_entry t fam key p"
          "dk = (pe_deadline_ns p, pe_entity_instance_id p)" "target = target_of fam key" .
        with \<open>echo_pending_count t = 0\<close> show ?thesis
          by (cases fam) (auto simp: pending_entry_def echo_pending_count_def)
      qed
      ultimately show ?thesis by (simp add: echo_next_deadline_def)
    qed (simp add: echo_next_deadline_def)
  qed
  with f(1) show "\<exists>e m' rows. icmp_module_finish host now m = Some (e, m', rows) \<and>
      (e = E_OK \<longrightarrow> echo_pending_count (im_echoes m') = 0 \<and> icmp_next_deadline m' = None)"
    by (intro exI [of _ e] exI [of _ "m\<lparr>im_echoes := t\<rparr>"] exI [of _ rows])
      (simp add: icmp_module_finish_def icmp_finish_with_def on_tracker_def icmp_next_deadline_def)
qed

text \<open>
  The encoder's consistency check of a row never fires: from every reachable state the
  callbacks do the same with an encoder that does not check the rows it is given.
\<close>

theorem icmp_row_check_redundant:
  assumes "icmp_reachable host c tb (m, log)" "budget_wf tb"
  shows "icmp_module_input host ev m = icmp_input_with (build_icmp_row host) ev m \<and>
    icmp_module_time host w m = icmp_time_with (build_icmp_row host) w m \<and>
    icmp_module_finish host now m = icmp_finish_with (build_icmp_row host) now m"
proof -
  have ok: "echo_ok (module_held tb) (im_echoes m)" "et_budget (im_echoes m) \<noteq> None"
    using icmp_reachable_ok [OF assms] by (simp_all add: icmp_ok_def)
  note ag = encoder_agrees [of host]
  have fam: "icmp_family_input fam (emit_icmp_event host) ev m = icmp_family_input fam (build_icmp_row host) ev m"
    if "fam \<noteq> NoFamily" for fam
  proof (cases "parse_icmp_control fam ev")
    case (Some p)
    obtain i t where al: "allocate_event_id (im_echoes m) = (i, t)" by (metis prod.exhaust)
    have b: "et_budget t \<noteq> None" using allocate_budget [OF al] ok(2) by simp
    show ?thesis
      using on_echo_agree [OF ag ok that] emit_event_agree [OF ag valid_error [OF Some] b] Some
      by (simp add: icmp_family_input_def al)
  qed (simp add: icmp_family_input_def)
  note loop = deadline_loop_agree [OF ag emit_icmp_event_neutral]
  have "icmp_module_time host w m = icmp_time_with (build_icmp_row host) w m"
    using loop [OF watermark_ok [OF ok(1)]] ok(2)
    by (simp add: icmp_module_time_def icmp_time_with_def echo_on_time_def split: option.split)
  moreover have "icmp_module_finish host now m = icmp_finish_with (build_icmp_row host) now m"
    using loop [OF ok] by (simp add: icmp_module_finish_def icmp_finish_with_def echo_finish_def)
  ultimately show ?thesis
    using fam by (simp add: icmp_module_input_def icmp_input_with_def split: option.split)
qed

section \<open>Samples\<close>

text \<open>An echo request from 10.0.0.1 to 10.0.0.2, in a module with a ledger of 10000 bytes.\<close>

definition icmp_demo_tb :: npm_task_budget where
  "icmp_demo_tb = new_task_budget \<lparr>max_tracked_bytes = 10000, max_pending_output_bytes = 0\<rparr>"

definition icmp_demo_config :: icmp_config where
  "icmp_demo_config = \<lparr>ic_echo_timeout_ns = 1000, ic_max_pending_echo = 4\<rparr>"

definition icmp_demo_layers :: layer_view where
  "icmp_demo_layers =
     (sample_layers [\<lparr>lr_kind = layer_IPv4, lr_offset = 0\<rparr>] (Endpoints4 [10, 0, 0, 1] [10, 0, 0, 2]) 0 0 20)
       \<lparr>lv_transport_protocol := 1\<rparr>"

definition icmp_demo_event :: input_event where
  "icmp_demo_event =
     (let bs = [0x45, 0, 0, 28, 0, 0, 0, 0, 64, 1, 0, 0, 10, 0, 0, 1, 10, 0, 0, 2, 8, 0, 0, 0, 0, 7, 0, 1] in
      control_event \<lparr>ci_domain = 3, ci_packet = sample_packet bs, ci_layer = icmp_demo_layers,
        ci_body = Bytes (drop 20 bs), ci_body_complete = True\<rparr>)"

definition icmp_demo_start :: icmp_module where
  "icmp_demo_start = bind_sessions None [] (new_icmp_module icmp_demo_config (Some icmp_demo_tb))"

lemma icmp_demo_tb: "budget_wf icmp_demo_tb" "module_held icmp_demo_tb = 0" "module_free icmp_demo_tb = 10000"
  by (simp_all add: icmp_demo_tb_def new_task_budget_def budget_wf_def module_held_def module_free_def u64_max_def Let_def)

lemma icmp_demo_reachable: "icmp_reachable host icmp_demo_config icmp_demo_tb (icmp_demo_start, [])"
  unfolding icmp_reachable_def icmp_demo_start_def by blast

lemma icmp_demo_parse:
  "parse_icmp_control IPv4 icmp_demo_event = Some ((new_icmp_parsed ([10, 0, 0, 1], [10, 0, 0, 2]))
     \<lparr>ip_kind := IcmpEchoRequest, ip_type := 8, ip_echo_id := 7, ip_echo_sequence := 1\<rparr>)"
  by (simp add: parse_icmp_control_def valid_control_event_def icmp_demo_event_def control_event_def sample_packet_def
      icmp_demo_layers_def sample_layers_def control_protocol_def fragmented_outer_def header_at_def be16_def
      parse_icmp_body_def is_echo_request_def is_echo_reply_def new_icmp_parsed_def Let_def)

lemma icmp_demo_input:
  obtains b where "budget_wf b" "module_free b = 9848" "module_held b = 152"
    "icmp_module_input host icmp_demo_event icmp_demo_start =
     (E_OK, icmp_demo_start\<lparr>im_echoes := store_echo IPv4 (3, [10, 0, 0, 1], [10, 0, 0, 2], 7, 1)
       \<lparr>pe_entity_instance_id = 1, pe_request_at_ns = 0, pe_deadline_ns = 1000, pe_retries = 0\<rparr>
       ((new_echo_tracker icmp_demo_config (Some b))\<lparr>et_next_event_id := 2\<rparr>)\<rparr>, [])"
proof -
  have "module_charge 152 icmp_demo_tb \<noteq> None"
    using module_ledger.charge_fits [OF icmp_demo_tb(1), of 152] icmp_demo_tb(3) by simp
  then obtain b where b: "module_charge 152 icmp_demo_tb = Some b" by auto
  note law = module_ledger.charge_sound [OF icmp_demo_tb(1) b] module_ledger.charge_free [OF icmp_demo_tb(1) b]
    module_ledger.charge_held [OF icmp_demo_tb(1) b]
  have "lv_endpoints icmp_demo_layers = Endpoints4 [10, 0, 0, 1] [10, 0, 0, 2]" "pk_timestamp_ns (ie_packet icmp_demo_event) = 0"
    "ie_layer icmp_demo_event = Some icmp_demo_layers" "ie_domain icmp_demo_event = 3"
    by (simp_all add: icmp_demo_layers_def sample_layers_def icmp_demo_event_def control_event_def sample_packet_def Let_def)
  with law show thesis
    by (intro that [of b]) (simp_all add: icmp_demo_tb icmp_module_input_def icmp_input_with_def icmp_family_input_def icmp_demo_parse on_tracker_def on_echo_def
        on_echo_request_def icmp_demo_start_def new_icmp_module_def bind_sessions_def new_echo_tracker_def make_echo_key_def
        new_icmp_parsed_def echo_pending_count_def icmp_demo_config_def opt_charge_def b allocate_event_id_def
        echo_deadline_def i64_max_def)
qed

lemma icmp_demo_next:
  assumes "icmp_module_input host icmp_demo_event icmp_demo_start = (E_OK, m, [])"
  shows "icmp_reachable host icmp_demo_config icmp_demo_tb (m, [])"
  using icmp_step.input [OF assms, of "[]"] icmp_demo_reachable [of host]
  unfolding icmp_reachable_def by (auto intro: rtranclp.rtrancl_into_rtrancl)

theorem icmp_ledger_exact_witness:
  "\<exists>m b b'. icmp_module_input (\<lambda>_ _. E_OK) icmp_demo_event icmp_demo_start = (E_OK, m, []) \<and>
     et_budget (im_echoes m) = Some b \<and> module_held b = 152 \<and>
     et_budget (im_echoes (icmp_module_abort m)) = Some b' \<and> module_held b' = 0"
proof -
  obtain b0 m where m: "m = icmp_demo_start\<lparr>im_echoes := store_echo IPv4 (3, [10, 0, 0, 1], [10, 0, 0, 2], 7, 1)
       \<lparr>pe_entity_instance_id = 1, pe_request_at_ns = 0, pe_deadline_ns = 1000, pe_retries = 0\<rparr>
       ((new_echo_tracker icmp_demo_config (Some b0))\<lparr>et_next_event_id := 2\<rparr>)\<rparr>"
    "icmp_module_input (\<lambda>_ _. E_OK) icmp_demo_event icmp_demo_start = (E_OK, m, [])"
    by (rule icmp_demo_input [of "\<lambda>_ _. E_OK"]) blast
  have "echo_charges (im_echoes m) = 152" by (simp add: m(1) echo_charges_def store_echo_def new_echo_tracker_def omap_put.simps)
  with icmp_ledger_exact [OF icmp_demo_next [OF m(2)] icmp_demo_tb(1)] m(2) show ?thesis by (auto simp: icmp_demo_tb)
qed

theorem icmp_time_returns_witness:
  "\<exists>m m' rows. icmp_module_input (\<lambda>_ _. E_OK) icmp_demo_event icmp_demo_start = (E_OK, m, []) \<and>
     icmp_module_time (\<lambda>_ _. E_OK) (Some 1000) m = Some (E_OK, m', rows) \<and>
     map ev_entity_instance_id rows = [1]"
proof -
  obtain b m where m: "m = icmp_demo_start\<lparr>im_echoes := store_echo IPv4 (3, [10, 0, 0, 1], [10, 0, 0, 2], 7, 1)
       \<lparr>pe_entity_instance_id = 1, pe_request_at_ns = 0, pe_deadline_ns = 1000, pe_retries = 0\<rparr>
       ((new_echo_tracker icmp_demo_config (Some b))\<lparr>et_next_event_id := 2\<rparr>)\<rparr>"
    and b: "budget_wf b" "module_free b = 9848" "module_held b = 152"
    and r: "icmp_module_input (\<lambda>_ _. E_OK) icmp_demo_event icmp_demo_start = (E_OK, m, [])"
    by (rule icmp_demo_input [of "\<lambda>_ _. E_OK"]) blast
  let ?t = "(im_echoes m)\<lparr>et_last_watermark := Some 1000\<rparr>"
  have t: "im_echoes m = \<lparr>et_config = icmp_demo_config, et_budget = Some b,
      et_pending4 = [((3, [10, 0, 0, 1], [10, 0, 0, 2], 7, 1),
        \<lparr>pe_entity_instance_id = 1, pe_request_at_ns = 0, pe_deadline_ns = 1000, pe_retries = 0\<rparr>)],
      et_pending6 = [], et_deadlines = [((1000, 1), Target4 (3, [10, 0, 0, 1], [10, 0, 0, 2], 7, 1))],
      et_last_watermark = None, et_next_event_id = 2, et_finished = False\<rparr>"
    by (simp add: m store_echo_def new_echo_tracker_def)
  have "module_charge icmp_build_charge b \<noteq> None"
    using module_ledger.charge_fits [OF b(1), of icmp_build_charge] b(2) by (simp add: icmp_build_charge_def)
  then obtain b1 where b1: "module_charge icmp_build_charge b = Some b1" by auto
  obtain t1 row where one: "emit_deadline 1000 ''response_not_observed_by_deadline'' (emit_icmp_event (\<lambda>_ _. E_OK)) ?t = (E_OK, t1, [row])"
    "et_deadlines t1 = []"
    using t valid_expiry [of "\<lparr>pe_entity_instance_id = 1, pe_request_at_ns = 0, pe_deadline_ns = 1000, pe_retries = 0\<rparr>"
        IPv4 "(3, [10, 0, 0, 1], [10, 0, 0, 2], 7, 1)" 1000 "''response_not_observed_by_deadline''", unfolded expiry_row_def]
    by (simp add: emit_deadline_def emit_event_def emit_icmp_event_def build_icmp_row_def opt_charge_def opt_refund_def b1
        erase_echo_def Let_def)
  have "deadline_loop (Some 1000) 1000 ''response_not_observed_by_deadline'' (emit_icmp_event (\<lambda>_ _. E_OK)) ?t [] = Some (E_OK, t1, [row])"
    using one t deadline_loop.simps [of "Some 1000" 1000 "''response_not_observed_by_deadline''" "emit_icmp_event (\<lambda>_ _. E_OK)" ?t "[]"]
      deadline_loop.simps [of "Some 1000" 1000 "''response_not_observed_by_deadline''" "emit_icmp_event (\<lambda>_ _. E_OK)" t1 "[row]"]
    by (simp add: deadline_due_def)
  then have run: "icmp_module_time (\<lambda>_ _. E_OK) (Some 1000) m = Some (E_OK, m\<lparr>im_echoes := t1\<rparr>, [row])"
    using t by (simp add: icmp_module_time_def icmp_time_with_def echo_on_time_def on_tracker_def)
  from icmp_time_returns [OF icmp_demo_next [OF r] icmp_demo_tb(1), of "Some 1000" 0] run t
  have "map ev_entity_instance_id [row] = [1]" by (auto simp: due_at_def)
  with r run show ?thesis by (intro exI conjI)
qed

theorem icmp_row_check_redundant_witness:
  "icmp_module_input (\<lambda>_ _. E_OK) icmp_demo_event icmp_demo_start =
     icmp_input_with (build_icmp_row (\<lambda>_ _. E_OK)) icmp_demo_event icmp_demo_start"
  using icmp_row_check_redundant [OF icmp_demo_reachable icmp_demo_tb(1)] by blast

end
