(* ===== verification/IcmpSessions.thy ===== *)
theory IcmpSessions
  imports IcmpModuleProps
begin

text \<open>
  ICMP rows and what they are about: a request, its retransmissions and the reply; and an error
  whose quote leads back to the session of the packet it quotes.
\<close>

section \<open>One exchange\<close>





section \<open>Errors find their session\<close>





section \<open>Samples\<close>



end
