(* ===== verification/TlsHello.thy ===== *)
theory TlsHello
  imports FlowPrelude
begin

text \<open>
  The TLS Hello parser, modules/tls/npm_tls_hello.cpp: the body of one ClientHello or ServerHello
  message becomes its facts or an error; and the JSON encoding of ALPN identifiers. The code's
  std::string_view is a list of bytes.
\<close>

section \<open>Facts and errors\<close>

text \<open>The errors for a null output and a failed allocation are not modelled.\<close>

datatype tls_hello_error = HelloMalformed | HelloLimit

record tls_hello =
  th_legacy_version :: u16
  th_offered_versions :: "u16 list"
  th_selected_version :: "u16 option"
  th_cipher_suite :: "u16 option"
  th_sni :: "u8 list option"
  th_offered_alpn :: "u8 list list"
  th_selected_alpn :: "u8 list option"
  th_hello_retry_request :: bool
  th_complete_at_ns :: "int option"

definition new_tls_hello :: "int option \<Rightarrow> tls_hello" where
  "new_tls_hello complete_at =
     \<lparr>th_legacy_version = 0, th_offered_versions = [], th_selected_version = None, th_cipher_suite = None,
      th_sni = None, th_offered_alpn = [], th_selected_alpn = None, th_hello_retry_request = False,
      th_complete_at_ns = complete_at\<rparr>"

type_synonym hello_result = "tls_hello_error + tls_hello"

definition max_sni_bytes :: nat where "max_sni_bytes = 255"
definition max_alpn_json_bytes :: nat where "max_alpn_json_bytes = 512"

definition hello_retry_request_random :: "u8 list" where
  "hello_retry_request_random =
     [0xcf, 0x21, 0xad, 0x74, 0xe5, 0x9a, 0x61, 0x11, 0xbe, 0x1d, 0x8c, 0x02, 0x1e, 0x65, 0xb8, 0x91,
      0xc2, 0xa2, 0x11, 0x16, 0x7a, 0xbb, 0x8c, 0x5e, 0x07, 0x9e, 0x09, 0xe2, 0xc8, 0xa8, 0x33, 0x9c]"

section \<open>The reader\<close>

text \<open>Each operation returns the value and the bytes that are left.\<close>

definition rd_take :: "nat \<Rightarrow> u8 list \<Rightarrow> (u8 list \<times> u8 list) option" where
  "rd_take n bs = (if n > length bs then None else Some (take n bs, drop n bs))"

fun rd_u8 :: "u8 list \<Rightarrow> (u8 \<times> u8 list) option" where
  "rd_u8 (b # bs) = Some (b, bs)"
| "rd_u8 [] = None"

fun rd_u16 :: "u8 list \<Rightarrow> (u16 \<times> u8 list) option" where
  "rd_u16 (a # b # bs) = Some (read_be16 a b, bs)"
| "rd_u16 _ = None"

text \<open>A vector with a 16-bit or an 8-bit length in front.\<close>

definition rd_vec16 :: "u8 list \<Rightarrow> (u8 list \<times> u8 list) option" where
  "rd_vec16 bs = Option.bind (rd_u16 bs) (\<lambda>(n, r). rd_take (unat n) r)"

definition rd_vec8 :: "u8 list \<Rightarrow> (u8 list \<times> u8 list) option" where
  "rd_vec8 bs = Option.bind (rd_u8 bs) (\<lambda>(n, r). rd_take (unat n) r)"

lemma rd_take_shorter: "rd_take n bs = Some (v, r) \<Longrightarrow> length r \<le> length bs"
  by (auto simp: rd_take_def split: if_splits)

lemma rd_u8_shorter: "rd_u8 bs = Some (v, r) \<Longrightarrow> length r < length bs"
  by (cases bs) auto

lemma rd_u16_shorter: "rd_u16 bs = Some (v, r) \<Longrightarrow> length r < length bs"
  by (cases bs rule: rd_u16.cases) auto

lemma rd_vec8_shorter: "rd_vec8 bs = Some (v, r) \<Longrightarrow> length r < length bs"
  by (auto simp: rd_vec8_def bind_eq_Some_conv dest!: rd_u8_shorter rd_take_shorter)

lemma rd_vec16_shorter: "rd_vec16 bs = Some (v, r) \<Longrightarrow> length r < length bs"
  by (auto simp: rd_vec16_def bind_eq_Some_conv dest!: rd_u16_shorter rd_take_shorter)

section \<open>Server names\<close>

definition sni_alnum :: "u8 \<Rightarrow> bool" where
  "sni_alnum b \<longleftrightarrow> 97 \<le> b \<and> b \<le> 122 \<or> 65 \<le> b \<and> b \<le> 90 \<or> 48 \<le> b \<and> b \<le> 57"

definition dot :: u8 where "dot = 46"
definition hyphen :: u8 where "hyphen = 45"

fun sni_loop :: "nat \<Rightarrow> u8 \<Rightarrow> u8 list \<Rightarrow> bool" where
  "sni_loop label_length previous [] \<longleftrightarrow> label_length > 0 \<and> label_length \<le> 63 \<and> previous \<noteq> hyphen"
| "sni_loop label_length previous (b # bs) \<longleftrightarrow>
     (if b = dot then
        \<not> (label_length = 0 \<or> label_length > 63 \<or> previous = hyphen) \<and> sni_loop 0 b bs
      else
        (sni_alnum b \<or> b = hyphen) \<and> \<not> (label_length = 0 \<and> b = hyphen) \<and> sni_loop (label_length + 1) b bs)"

definition valid_sni :: "u8 list \<Rightarrow> bool" where
  "valid_sni name \<longleftrightarrow>
     \<not> (name = [] \<or> length name > max_sni_bytes \<or> hd name = dot \<or> last name = dot) \<and> sni_loop 0 0 name"

text \<open>The one host name of the list; a name type other than host_name is malformed.\<close>

definition sni_name :: "u8 list \<Rightarrow> u8 list option" where
  "sni_name bs =
     Option.bind (rd_u16 bs) (\<lambda>(n, r).
       if unat n \<noteq> length r \<or> n = 0 then None
       else Option.bind (rd_u8 r) (\<lambda>(type, r).
         if type \<noteq> 0 then None
         else Option.bind (rd_vec16 r) (\<lambda>(name, r). if r \<noteq> [] then None else Some name)))"

definition parse_sni :: "u8 list \<Rightarrow> tls_hello \<Rightarrow> hello_result" where
  "parse_sni bs h =
     (case sni_name bs of None \<Rightarrow> Inl HelloMalformed
      | Some name \<Rightarrow>
          if length name > max_sni_bytes then Inl HelloLimit
          else if \<not> valid_sni name then Inl HelloMalformed
          else Inr (h\<lparr>th_sni := Some name\<rparr>))"

section \<open>ALPN\<close>

definition hex_nibble :: "u8 \<Rightarrow> u8" where
  "hex_nibble n = (if n < 10 then 48 + n else 87 + n)"

definition json_byte :: "u8 \<Rightarrow> u8 list" where
  "json_byte b =
     (if b = 34 \<or> b = 92 then [92, b]
      else if b < 0x20 \<or> b > 0x7e then [92, 117, 48, 48, hex_nibble (drop_bit 4 b), hex_nibble (b AND 0x0f)]
      else [b])"

text \<open>\<open>None\<close> is the error kLimit: the text and its two closing bytes must fit after every byte.\<close>

fun json_bytes :: "u8 list \<Rightarrow> u8 list \<Rightarrow> u8 list option" where
  "json_bytes next_text [] = Some next_text"
| "json_bytes next_text (b # bs) =
     (let text' = next_text @ json_byte b in
      if length text' + 2 > max_alpn_json_bytes then None else json_bytes text' bs)"

fun json_strings :: "u8 list \<Rightarrow> u8 list list \<Rightarrow> tls_hello_error + u8 list" where
  "json_strings next_text [] = Inr next_text"
| "json_strings next_text (p # ps) =
     (if p = [] \<or> length p > 255 then Inl HelloMalformed
      else
        (case json_bytes ((if length next_text > 1 then next_text @ [44] else next_text) @ [34]) p of
           None \<Rightarrow> Inl HelloLimit
         | Some text' \<Rightarrow> json_strings (text' @ [34]) ps))"

definition encode_alpn_json :: "u8 list list \<Rightarrow> tls_hello_error + u8 list" where
  "encode_alpn_json ps =
     (case json_strings [91] ps of Inl e \<Rightarrow> Inl e
      | Inr text' \<Rightarrow> if length (text' @ [93]) > max_alpn_json_bytes then Inl HelloLimit else Inr (text' @ [93]))"

text \<open>The protocols of the list; a server selects exactly one, a client offers each once.\<close>

function alpn_loop :: "bool \<Rightarrow> u8 list \<Rightarrow> tls_hello \<Rightarrow> tls_hello option" where
  "alpn_loop server bs h =
     (if bs = [] then Some h
      else
        (case rd_vec8 bs of None \<Rightarrow> None
         | Some (protocol, r) \<Rightarrow>
             if protocol = [] then None
             else if server then
               (if th_selected_alpn h \<noteq> None then None else alpn_loop server r (h\<lparr>th_selected_alpn := Some protocol\<rparr>))
             else
               (if protocol \<in> set (th_offered_alpn h) then None
                else alpn_loop server r (h\<lparr>th_offered_alpn := th_offered_alpn h @ [protocol]\<rparr>))))"
  by pat_completeness auto

termination
  by (relation "measure (\<lambda>(server, bs, h). length bs)") (auto dest: rd_vec8_shorter)

declare alpn_loop.simps [simp del]

definition parse_alpn :: "u8 list \<Rightarrow> bool \<Rightarrow> tls_hello \<Rightarrow> hello_result" where
  "parse_alpn bs server h =
     (case rd_u16 bs of None \<Rightarrow> Inl HelloMalformed
      | Some (n, r) \<Rightarrow>
          if unat n \<noteq> length r \<or> n = 0 then Inl HelloMalformed
          else case alpn_loop server r h of None \<Rightarrow> Inl HelloMalformed
          | Some h' \<Rightarrow>
              (case encode_alpn_json (if server then [the (th_selected_alpn h')] else th_offered_alpn h') of
                 Inl e \<Rightarrow> Inl e | Inr _ \<Rightarrow> Inr h'))"

section \<open>Versions\<close>

function versions_loop :: "u8 list \<Rightarrow> u16 list \<Rightarrow> u16 list option" where
  "versions_loop bs vs =
     (if bs = [] then Some vs
      else case rd_u16 bs of None \<Rightarrow> None | Some (v, r) \<Rightarrow> versions_loop r (vs @ [v]))"
  by pat_completeness auto

termination
  by (relation "measure (\<lambda>(bs, vs). length bs)") (auto dest: rd_u16_shorter)

declare versions_loop.simps [simp del]

definition parse_versions :: "u8 list \<Rightarrow> bool \<Rightarrow> tls_hello \<Rightarrow> hello_result" where
  "parse_versions bs server h =
     (if server then
        (case rd_u16 bs of None \<Rightarrow> Inl HelloMalformed
         | Some (v, r) \<Rightarrow> if r \<noteq> [] then Inl HelloMalformed else Inr (h\<lparr>th_selected_version := Some v\<rparr>))
      else
        (case rd_u8 bs of None \<Rightarrow> Inl HelloMalformed
         | Some (n, r) \<Rightarrow>
             if unat n \<noteq> length r \<or> n = 0 \<or> odd (unat n) then Inl HelloMalformed
             else case versions_loop r (th_offered_versions h) of None \<Rightarrow> Inl HelloMalformed
             | Some vs \<Rightarrow> Inr (h\<lparr>th_offered_versions := vs\<rparr>)))"

section \<open>Extensions\<close>

text \<open>Which of the three extensions have been seen: server_name, ALPN, supported_versions.\<close>

type_synonym seen = "bool \<times> bool \<times> bool"

definition parse_extension :: "bool \<Rightarrow> u16 \<Rightarrow> u8 list \<Rightarrow> seen \<Rightarrow> tls_hello \<Rightarrow> tls_hello_error + seen \<times> tls_hello" where
  "parse_extension server type value seen h =
     (case seen of (sni, alpn, versions) \<Rightarrow>
        if type = 0 then
          (if sni then Inl HelloMalformed
           else if server then (if value = [] then Inr ((True, alpn, versions), h) else Inl HelloMalformed)
           else map_sum id (Pair (True, alpn, versions)) (parse_sni value h))
        else if type = 16 then
          (if alpn then Inl HelloMalformed
           else map_sum id (Pair (sni, True, versions)) (parse_alpn value server h))
        else if type = 43 then
          (if versions then Inl HelloMalformed
           else map_sum id (Pair (sni, alpn, True)) (parse_versions value server h))
        else Inr (seen, h))"

function extensions_loop :: "bool \<Rightarrow> u8 list \<Rightarrow> seen \<Rightarrow> tls_hello \<Rightarrow> hello_result" where
  "extensions_loop server bs seen h =
     (if bs = [] then Inr h
      else case rd_u16 bs of None \<Rightarrow> Inl HelloMalformed
      | Some (type, r) \<Rightarrow>
          (case rd_vec16 r of None \<Rightarrow> Inl HelloMalformed
           | Some (value, r') \<Rightarrow>
               (case parse_extension server type value seen h of Inl e \<Rightarrow> Inl e
                | Inr (seen', h') \<Rightarrow> extensions_loop server r' seen' h')))"
  by pat_completeness auto

termination
  by (relation "measure (\<lambda>(server, bs, seen, h). length bs)") (auto dest!: rd_u16_shorter rd_vec16_shorter)

declare extensions_loop.simps [simp del]

definition parse_extensions :: "u8 list \<Rightarrow> bool \<Rightarrow> tls_hello \<Rightarrow> hello_result" where
  "parse_extensions bs server h =
     (if bs = [] then Inr h
      else case rd_u16 bs of None \<Rightarrow> Inl HelloMalformed
      | Some (n, r) \<Rightarrow>
          if unat n \<noteq> length r then Inl HelloMalformed else extensions_loop server r (False, False, False) h)"

section \<open>Hello messages\<close>

text \<open>The fields before the extensions: version, random and session id, then what differs.\<close>

definition hello_prefix :: "u8 list \<Rightarrow> (u16 \<times> u8 list \<times> u8 list) option" where
  "hello_prefix body =
     Option.bind (rd_u16 body) (\<lambda>(version, r).
     Option.bind (rd_take 32 r) (\<lambda>(random, r).
     Option.bind (rd_u8 r) (\<lambda>(session_length, r).
       if unat session_length > 32 then None
       else Option.bind (rd_take (unat session_length) r) (\<lambda>(_, r). Some (version, random, r)))))"

definition parse_client :: "u8 list \<Rightarrow> tls_hello \<Rightarrow> hello_result" where
  "parse_client body h =
     (case Option.bind (hello_prefix body) (\<lambda>(version, random, r).
             Option.bind (rd_u16 r) (\<lambda>(cipher_length, r).
               if unat cipher_length < 2 \<or> odd (unat cipher_length) then None
               else Option.bind (rd_take (unat cipher_length) r) (\<lambda>(_, r).
                 Option.bind (rd_u8 r) (\<lambda>(compression_length, r).
                   if compression_length = 0 then None
                   else Option.bind (rd_take (unat compression_length) r) (\<lambda>(methods, r). Some (version, methods, r)))))) of
        None \<Rightarrow> Inl HelloMalformed
      | Some (version, methods, r) \<Rightarrow>
          if 0 \<notin> set methods then Inl HelloMalformed
          else parse_extensions r False (h\<lparr>th_legacy_version := version\<rparr>))"

definition parse_server :: "u8 list \<Rightarrow> tls_hello \<Rightarrow> hello_result" where
  "parse_server body h =
     (case Option.bind (hello_prefix body) (\<lambda>(version, random, r).
             Option.bind (rd_u16 r) (\<lambda>(cipher, r).
               Option.bind (rd_u8 r) (\<lambda>(compression, r).
                 if compression \<noteq> 0 then None else Some (version, random, cipher, r)))) of
        None \<Rightarrow> Inl HelloMalformed
      | Some (version, random, cipher, r) \<Rightarrow>
          parse_extensions r True (h\<lparr>th_legacy_version := version, th_cipher_suite := Some cipher,
            th_hello_retry_request := (random = hello_retry_request_random)\<rparr>))"

definition parse_tls_hello :: "u8 \<Rightarrow> u8 list \<Rightarrow> int option \<Rightarrow> hello_result" where
  "parse_tls_hello message_type body complete_at =
     (if message_type \<noteq> 1 \<and> message_type \<noteq> 2 then Inl HelloMalformed
      else if message_type = 1 then parse_client body (new_tls_hello complete_at)
      else parse_server body (new_tls_hello complete_at))"

end
