(* ===== verification/TlsFramer.thy ===== *)
theory TlsFramer
  imports TlsHello TcpStreamContract
begin

text \<open>
  The TLS record and handshake framer of one session, modules/tls/npm_tls_framer.cpp: the bytes of
  each direction become handshake messages (the Hellos parsed) and the other records, of which the
  first two bytes are kept. Until one direction has begun with a ClientHello the session is not a
  candidate, and a direction that does not look like TLS is disabled.
\<close>

section \<open>State\<close>

datatype tls_framer_error =
  TlsNone | TlsNotTls | TlsMidstream | TlsGap | TlsCaptureTruncation | TlsMalformedRecord | TlsMalformedHello |
  TlsHelloLimit | TlsUnsupportedFraming | TlsIncomplete | TlsInvalidInput

datatype tls_framed_kind =
  ClientHello | ServerHello | OtherHandshake | ChangeCipherSpec | ApplicationData | Alert

record tls_framed =
  fe_kind :: tls_framed_kind
  fe_direction :: packet_direction
  fe_message_type :: u8
  fe_record_length :: u16
  fe_control_bytes :: "u8 list"
  fe_first_byte_at_ns :: "int option"
  fe_complete_at_ns :: "int option"
  fe_hello :: "tls_hello option"

text \<open>
  The arrays of header bytes with their counts are the lists of the bytes seen; the two control
  bytes of an event are zero where the record was shorter. The fields that the code never writes,
  the origin and the encrypted boundary, are left out.
\<close>

record tls_direction =
  td_record_header :: "u8 list"
  td_record_remaining :: nat
  td_handshake_header :: "u8 list"
  td_handshake_remaining :: nat
  td_hello_bytes :: "u8 list"
  td_first_record_checked :: bool
  td_gap_seen :: bool
  td_ended :: bool
  td_next_offset :: nat
  td_record_type :: u8
  td_record_length :: u16
  td_message_type :: u8
  td_first_message_seen :: bool
  td_disabled :: bool
  td_message_times :: "bool \<times> int option"
  td_record_times :: "bool \<times> int option"
  td_message_first_at_ns :: "int option"
  td_control_bytes :: "u8 list"

definition new_tls_direction :: tls_direction where
  "new_tls_direction =
     \<lparr>td_record_header = [], td_record_remaining = 0, td_handshake_header = [], td_handshake_remaining = 0,
      td_hello_bytes = [], td_first_record_checked = False, td_gap_seen = False, td_ended = False,
      td_next_offset = 0, td_record_type = 0, td_record_length = 0, td_message_type = 0,
      td_first_message_seen = False, td_disabled = False, td_message_times = (True, None),
      td_record_times = (True, None), td_message_first_at_ns = None, td_control_bytes = []\<rparr>"

record tls_framer =
  tl_max_hello_bytes :: nat
  tl_ab :: tls_direction
  tl_ba :: tls_direction
  tl_candidate :: bool
  tl_closed :: bool
  tl_client_direction :: packet_direction
  tl_first_client_byte_at_ns :: "int option"

definition new_tls_framer :: "nat \<Rightarrow> tls_framer" where
  "new_tls_framer max_hello =
     \<lparr>tl_max_hello_bytes = max_hello, tl_ab = new_tls_direction, tl_ba = new_tls_direction, tl_candidate = False,
      tl_closed = False, tl_client_direction = AToB, tl_first_client_byte_at_ns = None\<rparr>"

fun tls_dir :: "packet_direction \<Rightarrow> tls_framer \<Rightarrow> tls_direction" where
  "tls_dir AToB f = tl_ab f"
| "tls_dir BToA f = tl_ba f"

fun tls_put :: "packet_direction \<Rightarrow> tls_direction \<Rightarrow> tls_framer \<Rightarrow> tls_framer" where
  "tls_put AToB t f = f\<lparr>tl_ab := t\<rparr>"
| "tls_put BToA t f = f\<lparr>tl_ba := t\<rparr>"

definition tls_retained_bytes :: "tls_framer \<Rightarrow> nat" where
  "tls_retained_bytes f = length (td_hello_bytes (tl_ab f)) + length (td_hello_bytes (tl_ba f))"

section \<open>Small operations\<close>

text \<open>MarkTime on the pair of the known flag and the latest capture time.\<close>

fun mark_tls_time :: "int option \<Rightarrow> bool \<times> int option \<Rightarrow> bool \<times> int option" where
  "mark_tls_time None (known, latest) = (False, latest)"
| "mark_tls_time (Some c) (known, latest) =
     (known, case latest of None \<Rightarrow> Some c | Some m \<Rightarrow> if c > m then Some c else latest)"

fun known_time :: "bool \<times> int option \<Rightarrow> int option" where
  "known_time (known, latest) = (if known then latest else None)"

definition record_kind :: "u8 \<Rightarrow> tls_framed_kind" where
  "record_kind type = (if type = 20 then ChangeCipherSpec else if type = 21 then Alert else ApplicationData)"

definition silence :: "tls_direction \<Rightarrow> tls_direction" where
  "silence t = t\<lparr>td_hello_bytes := [], td_disabled := True\<rparr>"

definition tls_fail :: "tls_framer \<Rightarrow> tls_framer" where
  "tls_fail f = f\<lparr>tl_closed := True, tl_ab := silence (tl_ab f), tl_ba := silence (tl_ba f)\<rparr>"

definition no_candidate :: "packet_direction \<Rightarrow> tls_framer \<Rightarrow> tls_framer" where
  "no_candidate d f =
     (let f1 = tls_put d (silence (tls_dir d f)) f in
      if td_disabled (tl_ab f1) \<and> td_disabled (tl_ba f1) then f1\<lparr>tl_closed := True\<rparr> else f1)"

type_synonym tls_work = "tls_framer \<times> tls_framed list"
type_synonym tls_round = "(tls_framer_error \<times> tls_work) + u8 list \<times> tls_work"

text \<open>The refusal that depends on whether the session is a candidate.\<close>

definition refuse :: "tls_framer_error \<Rightarrow> tls_framer_error \<Rightarrow> packet_direction \<Rightarrow> tls_framer \<Rightarrow> tls_framer_error \<times> tls_framer" where
  "refuse as_candidate otherwise d f =
     (if tl_candidate f then (as_candidate, tls_fail f) else (otherwise, no_candidate d f))"

section \<open>Ends of messages and records\<close>

definition tls_message_event ::
  "packet_direction \<Rightarrow> tls_direction \<Rightarrow> tls_framed_kind \<Rightarrow> tls_hello option \<Rightarrow> tls_framed" where
  "tls_message_event d t kind hello =
     \<lparr>fe_kind = kind, fe_direction = d, fe_message_type = td_message_type t, fe_record_length = 0,
      fe_control_bytes = [0, 0], fe_first_byte_at_ns = td_message_first_at_ns t,
      fe_complete_at_ns = known_time (td_message_times t), fe_hello = hello\<rparr>"

definition reset_message :: "tls_direction \<Rightarrow> tls_direction" where
  "reset_message t =
     t\<lparr>td_handshake_header := [], td_handshake_remaining := 0, td_hello_bytes := [], td_message_type := 0,
       td_message_first_at_ns := None, td_message_times := (True, None)\<rparr>"

definition is_hello :: "u8 \<Rightarrow> bool" where
  "is_hello type \<longleftrightarrow> type = 1 \<or> type = 2"

definition finish_tls_message :: "packet_direction \<Rightarrow> tls_work \<Rightarrow> tls_framer_error \<times> tls_work" where
  "finish_tls_message d w =
     (case w of (f, out) \<Rightarrow>
        (let t = tls_dir d f; done = tls_put d (reset_message t) f in
         if is_hello (td_message_type t) then
           (case parse_tls_hello (td_message_type t) (td_hello_bytes t) (known_time (td_message_times t)) of
              Inl HelloLimit \<Rightarrow> (TlsHelloLimit, tls_fail f, out)
            | Inl HelloMalformed \<Rightarrow> (TlsMalformedHello, tls_fail f, out)
            | Inr h \<Rightarrow>
                (TlsNone, done,
                 out @ [tls_message_event d t (if td_message_type t = 1 then ClientHello else ServerHello) (Some h)]))
         else (TlsNone, done, out @ [tls_message_event d t OtherHandshake None])))"

definition tls_record_event :: "packet_direction \<Rightarrow> tls_direction \<Rightarrow> tls_framed" where
  "tls_record_event d t =
     \<lparr>fe_kind = record_kind (td_record_type t), fe_direction = d, fe_message_type = 0,
      fe_record_length = td_record_length t, fe_control_bytes = take 2 (td_control_bytes t @ [0, 0]),
      fe_first_byte_at_ns = None, fe_complete_at_ns = known_time (td_record_times t), fe_hello = None\<rparr>"

definition reset_record :: "tls_direction \<Rightarrow> tls_direction" where
  "reset_record t =
     t\<lparr>td_record_header := [], td_record_remaining := 0, td_record_type := 0, td_record_length := 0,
       td_control_bytes := [], td_record_times := (True, None)\<rparr>"

definition finish_tls_record :: "packet_direction \<Rightarrow> tls_work \<Rightarrow> tls_work" where
  "finish_tls_record d w =
     (case w of (f, out) \<Rightarrow>
        (let t = tls_dir d f in
         (tls_put d (reset_record t) f, if td_record_type t \<noteq> 22 then out @ [tls_record_event d t] else out)))"

section \<open>Handshake bytes inside a record\<close>

definition message_length :: "u8 list \<Rightarrow> nat" where
  "message_length h = unat (h ! 1) * 65536 + unat (h ! 2) * 256 + unat (h ! 3)"

text \<open>A full message header: what it announces is checked; an empty message ends at once.\<close>

definition announce_message :: "packet_direction \<Rightarrow> tls_framer \<Rightarrow> tls_framer" where
  "announce_message d f =
     (let t = tls_dir d f in
      tls_put d (t\<lparr>td_message_type := td_handshake_header t ! 0,
                   td_handshake_remaining := message_length (td_handshake_header t)\<rparr>) f)"

definition accept_message :: "packet_direction \<Rightarrow> tls_framer \<Rightarrow> tls_framer" where
  "accept_message d f =
     (let t = tls_dir d f;
          f1 = (if tl_candidate f then f
                else f\<lparr>tl_candidate := True, tl_client_direction := d,
                       tl_first_client_byte_at_ns := td_message_first_at_ns t\<rparr>) in
      tls_put d (t\<lparr>td_first_message_seen := True\<rparr>) f1)"

definition open_tls_message :: "packet_direction \<Rightarrow> u8 list \<Rightarrow> tls_work \<Rightarrow> tls_round" where
  "open_tls_message d rest w =
     (let f = announce_message d (fst w); out = snd w; t = tls_dir d f in
      if \<not> tl_candidate f \<and> (td_first_message_seen t \<or> td_message_type t \<noteq> 1)
      then Inl (TlsNotTls, no_candidate d f, out)
      else
        (let f1 = accept_message d f in
         if is_hello (td_message_type t) \<and>
            td_handshake_remaining t > tl_max_hello_bytes f - min (tl_max_hello_bytes f) 4
         then Inl (TlsHelloLimit, tls_fail f1, out)
         else if td_handshake_remaining t = 0 then
           (case finish_tls_message d (f1, out) of
              (e, w') \<Rightarrow> if e \<noteq> TlsNone then Inl (e, w') else Inr (rest, w'))
         else Inr (rest, f1, out)))"

definition take_message_header :: "int option \<Rightarrow> u8 list \<Rightarrow> tls_direction \<Rightarrow> tls_direction" where
  "take_message_header captured chunk t =
     (let t1 = (if td_handshake_header t = []
                then t\<lparr>td_message_first_at_ns := captured, td_message_times := (True, None)\<rparr> else t) in
      t1\<lparr>td_handshake_header := td_handshake_header t1 @ chunk,
         td_record_remaining := td_record_remaining t1 - length chunk,
         td_message_times := mark_tls_time captured (td_message_times t1)\<rparr>)"

definition message_header_round :: "int option \<Rightarrow> packet_direction \<Rightarrow> u8 list \<Rightarrow> tls_work \<Rightarrow> tls_round" where
  "message_header_round captured d bs w =
     (let t0 = tls_dir d (fst w); count = min (4 - length (td_handshake_header t0)) (length bs);
          t = take_message_header captured (take count bs) t0; w' = (tls_put d t (fst w), snd w) in
      if length (td_handshake_header t) < 4 then Inr (drop count bs, w')
      else open_tls_message d (drop count bs) w')"

definition take_message_body :: "int option \<Rightarrow> u8 list \<Rightarrow> tls_direction \<Rightarrow> tls_direction" where
  "take_message_body captured chunk t =
     t\<lparr>td_hello_bytes := (if is_hello (td_message_type t) then td_hello_bytes t @ chunk else td_hello_bytes t),
       td_record_remaining := td_record_remaining t - length chunk,
       td_handshake_remaining := td_handshake_remaining t - length chunk,
       td_message_times := mark_tls_time captured (td_message_times t)\<rparr>"

definition message_body_round :: "int option \<Rightarrow> packet_direction \<Rightarrow> u8 list \<Rightarrow> tls_work \<Rightarrow> tls_round" where
  "message_body_round captured d bs w =
     (let t0 = tls_dir d (fst w); count = min (td_handshake_remaining t0) (length bs);
          t = take_message_body captured (take count bs) t0; w' = (tls_put d t (fst w), snd w) in
      if td_handshake_remaining t = 0 then
        (case finish_tls_message d w' of
           (e, w'') \<Rightarrow> if e \<noteq> TlsNone then Inl (e, w'') else Inr (drop count bs, w''))
      else Inr (drop count bs, w'))"

definition in_message_header :: "tls_direction \<Rightarrow> bool" where
  "in_message_header t \<longleftrightarrow> length (td_handshake_header t) < 4 \<and> td_handshake_remaining t = 0"

definition handshake_round :: "int option \<Rightarrow> packet_direction \<Rightarrow> u8 list \<Rightarrow> tls_work \<Rightarrow> tls_round" where
  "handshake_round captured d bs w =
     (if in_message_header (tls_dir d (fst w)) then message_header_round captured d bs w
      else message_body_round captured d bs w)"

text \<open>A round consumes a byte or leaves a message that announced no more bytes.\<close>

definition stuck_message :: "tls_direction \<Rightarrow> nat" where
  "stuck_message t = (if length (td_handshake_header t) \<ge> 4 \<and> td_handshake_remaining t = 0 then 1 else 0)"

lemma tls_dir_put [simp]: "tls_dir d (tls_put d t f) = t" "d \<noteq> d' \<Longrightarrow> tls_dir d (tls_put d' t f) = tls_dir d f"
  by (cases d; cases d'; simp)+

lemma tls_put_fields [simp]:
  "tl_candidate (tls_put d t f) = tl_candidate f" "tl_closed (tls_put d t f) = tl_closed f"
  "tl_max_hello_bytes (tls_put d t f) = tl_max_hello_bytes f"
  "tl_client_direction (tls_put d t f) = tl_client_direction f"
  "tl_first_client_byte_at_ns (tls_put d t f) = tl_first_client_byte_at_ns f"
  by (cases d; simp)+

lemma tls_dir_flags [simp]:
  "tls_dir d (f\<lparr>tl_candidate := c, tl_client_direction := p, tl_first_client_byte_at_ns := b\<rparr>) = tls_dir d f"
  by (cases d) simp_all

lemma finish_tls_message_header:
  "finish_tls_message d w = (TlsNone, w') \<Longrightarrow> td_handshake_header (tls_dir d (fst w')) = []"
  by (auto simp: finish_tls_message_def reset_message_def Let_def split: prod.splits if_splits sum.splits tls_hello_error.splits)

lemma open_tls_message_rest: "open_tls_message d rest w = Inr (bs', w') \<Longrightarrow> bs' = rest"
  by (auto simp: open_tls_message_def Let_def split: prod.splits if_splits)

lemma message_header_shorter:
  assumes "message_header_round captured d bs w = Inr (bs', w')" "bs \<noteq> []" "length (td_handshake_header (tls_dir d (fst w))) < 4"
  shows "length bs' < length bs"
proof -
  obtain f out where w: "w = (f, out)" by (cases w)
  have "bs' = drop (min (4 - length (td_handshake_header (tls_dir d f))) (length bs)) bs"
    using assms(1) open_tls_message_rest
    by (auto simp: w message_header_round_def take_message_header_def Let_def split: if_splits)
  with assms(2,3) w show ?thesis by simp
qed

lemma handshake_round_smaller:
  assumes "handshake_round captured d bs w = Inr (bs', w')" "bs \<noteq> []"
  shows "2 * length bs' + stuck_message (tls_dir d (fst w')) < 2 * length bs + stuck_message (tls_dir d (fst w))"
proof (cases "in_message_header (tls_dir d (fst w))")
  case True
  then have "length bs' < length bs"
    using assms message_header_shorter by (simp add: handshake_round_def in_message_header_def)
  then show ?thesis by (auto simp: stuck_message_def)
next
  case False
  obtain f out where w: "w = (f, out)" by (cases w)
  let ?t = "tls_dir d f"
  show ?thesis
  proof (cases "td_handshake_remaining ?t = 0")
    case True
    then have "bs' = bs \<and> td_handshake_header (tls_dir d (fst w')) = []"
      using assms False
      by (auto simp: w handshake_round_def message_body_round_def take_message_body_def Let_def dest: finish_tls_message_header
          split: prod.splits if_splits)
    with True False show ?thesis by (simp add: w stuck_message_def in_message_header_def)
  next
    case pos: False
    then have "length bs' < length bs"
      using assms False
      by (auto simp: w handshake_round_def message_body_round_def take_message_body_def Let_def split: prod.splits if_splits)
    then show ?thesis by (auto simp: stuck_message_def)
  qed
qed

function handshake_loop ::
  "int option \<Rightarrow> packet_direction \<Rightarrow> u8 list \<Rightarrow> tls_work \<Rightarrow> tls_framer_error \<times> tls_work" where
  "handshake_loop captured d bs w =
     (if bs = [] then (TlsNone, w)
      else case handshake_round captured d bs w of Inl r \<Rightarrow> r
      | Inr (bs', w') \<Rightarrow> handshake_loop captured d bs' w')"
  by pat_completeness auto

termination
  by (relation "measure (\<lambda>(captured, d, bs, w). 2 * length bs + stuck_message (tls_dir d (fst w)))")
    (use handshake_round_smaller in auto)

declare handshake_loop.simps [simp del]

section \<open>Records\<close>

definition record_header_ok :: "u8 list \<Rightarrow> bool" where
  "record_header_ok h \<longleftrightarrow>
     (let size = read_be16 (h ! 3) (h ! 4) in
      \<not> (h ! 0 < 20 \<or> h ! 0 > 23 \<or> h ! 1 \<noteq> 3 \<or> h ! 2 < 1 \<or> h ! 2 > 3 \<or> size = 0 \<or> size > 18432))"

text \<open>A full record header: the record it announces is checked against what the session is at.\<close>

definition open_tls_record :: "packet_direction \<Rightarrow> u8 list \<Rightarrow> tls_work \<Rightarrow> tls_round" where
  "open_tls_record d rest w =
     (case w of (f, out) \<Rightarrow>
        (let t = tls_dir d f; h = td_record_header t; size = read_be16 (h ! 3) (h ! 4) in
         if \<not> record_header_ok h then (case refuse TlsMalformedRecord TlsNotTls d f of (e, f') \<Rightarrow> Inl (e, f', out))
         else if \<not> tl_candidate f \<and> h ! 0 \<noteq> 22 then Inl (TlsNotTls, no_candidate d f, out)
         else if h ! 0 \<noteq> 22 \<and> (td_handshake_header t \<noteq> [] \<or> td_handshake_remaining t \<noteq> 0)
         then (case refuse TlsUnsupportedFraming TlsNotTls d f of (e, f') \<Rightarrow> Inl (e, f', out))
         else Inr (rest, tls_put d (t\<lparr>td_first_record_checked := True, td_record_type := h ! 0, td_record_length := size,
                                     td_record_remaining := unat size\<rparr>) f, out)))"

definition take_record_header :: "int option \<Rightarrow> u8 list \<Rightarrow> tls_direction \<Rightarrow> tls_direction" where
  "take_record_header captured chunk t =
     t\<lparr>td_record_header := td_record_header t @ chunk, td_record_times := mark_tls_time captured (td_record_times t)\<rparr>"

definition record_header_round :: "int option \<Rightarrow> packet_direction \<Rightarrow> u8 list \<Rightarrow> tls_work \<Rightarrow> tls_round" where
  "record_header_round captured d bs w =
     (let t0 = tls_dir d (fst w); count = min (5 - length (td_record_header t0)) (length bs);
          t = take_record_header captured (take count bs) t0; w' = (tls_put d t (fst w), snd w) in
      if length (td_record_header t) < 5 then Inr (drop count bs, w')
      else open_tls_record d (drop count bs) w')"

text \<open>The bytes of a record that is not a handshake record: two of them are kept.\<close>

definition take_control_bytes :: "int option \<Rightarrow> u8 list \<Rightarrow> tls_direction \<Rightarrow> tls_direction" where
  "take_control_bytes captured chunk t =
     t\<lparr>td_control_bytes := td_control_bytes t @ take (2 - length (td_control_bytes t)) chunk,
       td_record_times := mark_tls_time captured (td_record_times t),
       td_record_remaining := td_record_remaining t - length chunk\<rparr>"

definition record_body_round :: "int option \<Rightarrow> packet_direction \<Rightarrow> u8 list \<Rightarrow> tls_work \<Rightarrow> tls_round" where
  "record_body_round captured d bs w =
     (let t = tls_dir d (fst w); count = min (td_record_remaining t) (length bs) in
      case (if td_record_type t \<noteq> 22 then (TlsNone, tls_put d (take_control_bytes captured (take count bs) t) (fst w), snd w)
            else handshake_loop captured d (take count bs) w) of
        (e, w') \<Rightarrow>
          if e \<noteq> TlsNone then Inl (e, w')
          else Inr (drop count bs, if td_record_remaining (tls_dir d (fst w')) = 0 then finish_tls_record d w' else w'))"

definition in_record_header :: "tls_direction \<Rightarrow> bool" where
  "in_record_header t \<longleftrightarrow> length (td_record_header t) < 5 \<and> td_record_remaining t = 0"

definition record_round :: "int option \<Rightarrow> packet_direction \<Rightarrow> u8 list \<Rightarrow> tls_work \<Rightarrow> tls_round" where
  "record_round captured d bs w =
     (if in_record_header (tls_dir d (fst w)) then record_header_round captured d bs w
      else record_body_round captured d bs w)"

definition stuck_record :: "tls_direction \<Rightarrow> nat" where
  "stuck_record t = (if length (td_record_header t) \<ge> 5 \<and> td_record_remaining t = 0 then 1 else 0)"

lemma open_tls_record_rest: "open_tls_record d rest w = Inr (bs', w') \<Longrightarrow> bs' = rest"
  by (auto simp: open_tls_record_def Let_def split: prod.splits if_splits)

lemma record_header_shorter:
  assumes "record_header_round captured d bs w = Inr (bs', w')" "bs \<noteq> []" "length (td_record_header (tls_dir d (fst w))) < 5"
  shows "length bs' < length bs"
proof -
  obtain f out where w: "w = (f, out)" by (cases w)
  have "bs' = drop (min (5 - length (td_record_header (tls_dir d f))) (length bs)) bs"
    using assms(1) open_tls_record_rest
    by (auto simp: w record_header_round_def take_record_header_def Let_def split: if_splits)
  with assms(2,3) w show ?thesis by simp
qed

lemma record_round_smaller:
  assumes "record_round captured d bs w = Inr (bs', w')" "bs \<noteq> []"
  shows "2 * length bs' + stuck_record (tls_dir d (fst w')) < 2 * length bs + stuck_record (tls_dir d (fst w))"
proof (cases "in_record_header (tls_dir d (fst w))")
  case True
  then have "length bs' < length bs"
    using assms record_header_shorter by (simp add: record_round_def in_record_header_def)
  then show ?thesis by (auto simp: stuck_record_def)
next
  case False
  obtain f out where w: "w = (f, out)" by (cases w)
  show ?thesis
  proof (cases "td_record_remaining (tls_dir d f) = 0")
    case True
    have reset: "td_record_header (tls_dir d (fst (finish_tls_record d u))) = []" for u
      by (simp add: finish_tls_record_def reset_record_def Let_def split: prod.split)
    have "bs' = bs \<and> td_record_header (tls_dir d (fst w')) = []"
      using assms(1) False True reset
      by (auto simp: w record_round_def record_body_round_def handshake_loop.simps take_control_bytes_def Let_def
          split: if_splits)
    with True False show ?thesis by (simp add: w stuck_record_def in_record_header_def)
  next
    case pos: False
    then have "length bs' < length bs"
      using assms False
      by (auto simp: w record_round_def record_body_round_def Let_def split: prod.splits if_splits)
    then show ?thesis by (auto simp: stuck_record_def)
  qed
qed

function record_loop ::
  "int option \<Rightarrow> packet_direction \<Rightarrow> u8 list \<Rightarrow> tls_work \<Rightarrow> tls_framer_error \<times> tls_work" where
  "record_loop captured d bs w =
     (if bs = [] then (TlsNone, w)
      else case record_round captured d bs w of Inl r \<Rightarrow> r
      | Inr (bs', w') \<Rightarrow> record_loop captured d bs' w')"
  by pat_completeness auto

termination
  by (relation "measure (\<lambda>(captured, d, bs, w). 2 * length bs + stuck_record (tls_dir d (fst w)))")
    (use record_round_smaller in auto)

declare record_loop.simps [simp del]

section \<open>Stream events\<close>

text \<open>
  Consume for a non-null output; the events it appends are returned. A data event is a pointer to
  as many bytes as it claims.
\<close>

definition idle_direction :: "tls_direction \<Rightarrow> bool" where
  "idle_direction t \<longleftrightarrow>
     td_record_header t = [] \<and> td_record_remaining t = 0 \<and> td_handshake_header t = [] \<and> td_handshake_remaining t = 0"

definition tls_stream_end :: "packet_direction \<Rightarrow> tls_framer \<Rightarrow> tls_framer_error \<times> tls_framer" where
  "tls_stream_end d f =
     (let f1 = tls_put d ((tls_dir d f)\<lparr>td_ended := True\<rparr>) f in
      if tl_candidate f \<and> \<not> idle_direction (tls_dir d f) then (TlsIncomplete, tls_fail f1)
      else
        (let f2 = tls_put d ((tls_dir d f1)\<lparr>td_disabled := True\<rparr>) f1 in
         (TlsNone, if \<not> tl_candidate f2 \<and> td_disabled (tl_ab f2) \<and> td_disabled (tl_ba f2)
                   then f2\<lparr>tl_closed := True\<rparr> else f2)))"

definition tls_consume ::
  "tcp_stream_context \<Rightarrow> tcp_stream_event \<Rightarrow> tls_framer \<Rightarrow> tls_framer_error \<times> tls_work" where
  "tls_consume cx ev f =
     (let d = cx_direction cx; t = tls_dir d f in
      if tl_closed f \<or> td_disabled t then (TlsNone, f, [])
      else if cx_origin cx \<noteq> OriginSyn then
        (case refuse TlsUnsupportedFraming TlsMidstream d f of (e, f') \<Rightarrow> (e, f', []))
      else if ev_begin ev \<noteq> td_next_offset t \<or> ev_end ev < ev_begin ev then
        (case refuse TlsUnsupportedFraming TlsNotTls d f of (e, f') \<Rightarrow> (e, f', []))
      else
        (case ev_kind ev of
           EventGap \<Rightarrow>
             (case refuse (if ev_includes_capture_truncation ev then TlsCaptureTruncation else TlsGap) TlsNotTls d
                (tls_put d (t\<lparr>td_gap_seen := True, td_next_offset := ev_end ev\<rparr>) f) of (e, f') \<Rightarrow> (e, f', []))
         | EventEnd \<Rightarrow> (case tls_stream_end d f of (e, f') \<Rightarrow> (e, f', []))
         | EventData \<Rightarrow>
             (case span_data (ev_bytes ev) of None \<Rightarrow> (TlsInvalidInput, f, [])
              | Some bs \<Rightarrow>
                  if bs = [] \<or> ev_end ev - ev_begin ev \<noteq> length bs then (TlsInvalidInput, f, [])
                  else record_loop (ev_captured_at_ns ev) d bs (tls_put d (t\<lparr>td_next_offset := ev_end ev\<rparr>) f, []))))"

end
