(* ===== verification/TlsHelloProps.thy ===== *)
theory TlsHelloProps
  imports TlsHello
begin

text \<open>
  What the Hello parser accepts: server names are exactly the well-formed host names, the JSON text
  of an ALPN list can be read back, and a ClientHello written out with its extensions parses to
  what was written.
\<close>

section \<open>Server names\<close>

fun sni_labels :: "u8 list \<Rightarrow> u8 list list" where
  "sni_labels [] = [[]]"
| "sni_labels (b # bs) =
     (if b = dot then [] # sni_labels bs else (b # hd (sni_labels bs)) # tl (sni_labels bs))"

definition sni_label_ok :: "u8 list \<Rightarrow> bool" where
  "sni_label_ok l \<longleftrightarrow>
     l \<noteq> [] \<and> length l \<le> 63 \<and> hd l \<noteq> hyphen \<and> last l \<noteq> hyphen \<and> list_all (\<lambda>b. sni_alnum b \<or> b = hyphen) l"

lemma sni_labels_nonempty [simp]: "sni_labels bs \<noteq> []"
  by (cases bs) auto

lemma dot_neq_hyphen [simp]: "dot \<noteq> hyphen" "hyphen \<noteq> dot" "\<not> sni_alnum dot"
  by (simp_all add: dot_def hyphen_def sni_alnum_def)

text \<open>The loop has read \<open>cur\<close> of the current label.\<close>

lemma sni_loop_labels:
  assumes "cur \<noteq> [] \<Longrightarrow> hd cur \<noteq> hyphen \<and> previous = last cur"
    "list_all (\<lambda>b. sni_alnum b \<or> b = hyphen) cur" "previous = hyphen \<longrightarrow> cur \<noteq> []"
  shows "sni_loop (length cur) previous bs \<longleftrightarrow>
    list_all sni_label_ok ((cur @ hd (sni_labels bs)) # tl (sni_labels bs))"
  using assms
proof (induction bs arbitrary: cur previous)
  case Nil
  then show ?case by (cases "cur = []") (auto simp: sni_label_ok_def)
next
  case (Cons b bs)
  show ?case
  proof (cases "b = dot")
    case True
    have "sni_loop 0 dot bs \<longleftrightarrow> list_all sni_label_ok (sni_labels bs)"
      using Cons.IH [of "[]" dot] by (cases "sni_labels bs") auto
    moreover have "sni_label_ok cur \<longleftrightarrow> \<not> (length cur = 0 \<or> 63 < length cur \<or> previous = hyphen)"
      using Cons.prems by (cases "cur = []") (auto simp: sni_label_ok_def)
    ultimately show ?thesis using True by auto
  next
    case False
    show ?thesis
    proof (cases "(sni_alnum b \<or> b = hyphen) \<and> \<not> (cur = [] \<and> b = hyphen)")
      case True
      have "sni_loop (length (cur @ [b])) b bs \<longleftrightarrow>
          list_all sni_label_ok (((cur @ [b]) @ hd (sni_labels bs)) # tl (sni_labels bs))"
        by (rule Cons.IH) (use Cons.prems True in \<open>auto simp: hd_append\<close>)
      with True False show ?thesis by auto
    next
      case no: False
      then have "\<not> sni_label_ok (cur @ b # hd (sni_labels bs))" by (auto simp: sni_label_ok_def)
      with no False show ?thesis by auto
    qed
  qed
qed

lemma sni_labels_ends:
  "list_all sni_label_ok (sni_labels name) \<Longrightarrow> name \<noteq> [] \<and> hd name \<noteq> dot \<and> last name \<noteq> dot"
proof (induction name)
  case (Cons b bs)
  show ?case
  proof (cases "b = dot")
    case True
    with Cons.prems show ?thesis by (simp add: sni_label_ok_def)
  next
    case False
    have "bs \<noteq> [] \<Longrightarrow> last bs \<noteq> dot"
    proof -
      assume "bs \<noteq> []"
      have "list_all sni_label_ok (tl (sni_labels bs))" using Cons.prems False by simp
      then show "last bs \<noteq> dot" using \<open>bs \<noteq> []\<close>
      proof (induction bs)
        case (Cons c cs)
        show ?case
        proof (cases "cs = []")
          case True
          with Cons.prems show ?thesis by (auto simp: sni_label_ok_def split: if_splits)
        next
          case False
          have "list_all sni_label_ok (tl (sni_labels cs))"
            using Cons.prems(1) by (cases "sni_labels cs") (auto split: if_splits)
          with Cons.IH False show ?thesis by simp
        qed
      qed simp
    qed
    with False show ?thesis by simp
  qed
qed (simp add: sni_label_ok_def)

text \<open>
  C28. A server name is accepted exactly when it is a host name: at most 255 bytes, its
  dot-separated labels each of 1 to 63 letters, digits and hyphens, with no hyphen at either end.
\<close>

theorem tls_sni_host_name:
  "valid_sni name \<longleftrightarrow> length name \<le> 255 \<and> list_all sni_label_ok (sni_labels name)"
proof -
  have "sni_loop 0 0 name \<longleftrightarrow> list_all sni_label_ok (sni_labels name)"
    using sni_loop_labels [of "[]" 0 name] by (simp add: hyphen_def)
  then show ?thesis using sni_labels_ends [of name] by (auto simp: valid_sni_def max_sni_bytes_def)
qed

section \<open>ALPN lists as JSON\<close>

definition hex_value :: "u8 \<Rightarrow> u8" where
  "hex_value c = (if c < 58 then c - 48 else c - 87)"

text \<open>A reader of the JSON strings: the bytes of the string and what follows its closing quote.\<close>

fun json_read :: "u8 list \<Rightarrow> (u8 list \<times> u8 list) option" where
  "json_read [] = None"
| "json_read (b # r) =
     (if b = 34 then Some ([], r)
      else if b \<noteq> 92 then map_option (apfst (Cons b)) (json_read r)
      else (case r of [] \<Rightarrow> None
        | c # r' \<Rightarrow>
            if c \<noteq> 117 then map_option (apfst (Cons c)) (json_read r')
            else (case r' of _ # _ # high # low # r'' \<Rightarrow>
                map_option (apfst (Cons (push_bit 4 (hex_value high) OR hex_value low))) (json_read r'')
              | _ \<Rightarrow> None)))"

lemma json_read_shorter: "json_read bs = Some (v, r) \<Longrightarrow> length r < length bs"
proof (induction bs arbitrary: v r rule: json_read.induct)
  case (2 b bs)
  then show ?case by (force simp: apfst_def map_prod_def split: if_splits list.splits prod.splits)
qed simp

text \<open>The rest of an array, behind its opening bracket or a comma.\<close>

function json_array :: "u8 list \<Rightarrow> u8 list list option" where
  "json_array bs =
     (if bs = [93] then Some []
      else if bs = [] \<or> hd bs \<noteq> 34 then None
      else (case json_read (tl bs) of None \<Rightarrow> None
        | Some (p, r) \<Rightarrow>
            if r \<noteq> [] \<and> hd r = 44 then map_option (Cons p) (json_array (tl r))
            else if r = [93] then Some [p] else None))"
  by pat_completeness auto

termination
  by (relation "measure length") (auto dest!: json_read_shorter simp: neq_Nil_conv)

declare json_array.simps [simp del]

definition decode_alpn_json :: "u8 list \<Rightarrow> u8 list list option" where
  "decode_alpn_json bs = (if bs = [] \<or> hd bs \<noteq> 91 then None else json_array (tl bs))"

lemma nibble_cases: "n < 16 \<Longrightarrow> n \<in> {0, 1, 2, 3, 4, 5, 6, 7, 8, 9, 10, 11, 12, 13, 14, 15}" for n :: u8
proof -
  assume "n < 16"
  then have "unat n \<in> {0, 1, 2, 3, 4, 5, 6, 7, 8, 9, 10, 11, 12, 13, 14, 15}" by (simp add: word_less_nat_alt) presburger
  then have "(of_nat (unat n) :: u8) \<in> of_nat ` {0, 1, 2, 3, 4, 5, 6, 7, 8, 9, 10, 11, 12, 13, 14, 15 :: nat}"
    by (rule imageI)
  then show "n \<in> {0, 1, 2, 3, 4, 5, 6, 7, 8, 9, 10, 11, 12, 13, 14, 15}" by simp
qed

lemma hex_nibble_ok: "n < 16 \<Longrightarrow> hex_value (hex_nibble n) = n \<and> 0x20 \<le> hex_nibble n \<and> hex_nibble n \<le> 0x7e" for n :: u8
  by (drule nibble_cases) (auto simp: hex_nibble_def hex_value_def)

lemma byte_nibbles: "drop_bit 4 b < 16" "b AND 0x0f < 16" "push_bit 4 (drop_bit 4 b) OR (b AND 0x0f) = b" for b :: u8
proof -
  have "(0x0f :: u8) = mask 4" by (simp add: mask_eq_exp_minus_1)
  then have m: "b AND 0x0f = take_bit 4 b" by (simp only: take_bit_eq_mask)
  have "unat b < 2 ^ LENGTH(8)" by (rule unsigned_less)
  then have "unat b div 16 < 16" by simp
  moreover have "unat (drop_bit 4 b) = unat b div 16"
    by (rule trans [OF unat_drop_bit_eq]) (simp add: drop_bit_eq_div)
  ultimately show "drop_bit 4 b < 16" by (simp add: word_less_nat_alt)
  show "b AND 0x0f < 16"
    by (simp only: m word_less_nat_alt unsigned_take_bit_eq) (simp add: take_bit_nat_less_exp [of 4, simplified])
  show "push_bit 4 (drop_bit 4 b) OR (b AND 0x0f) = b"
    by (simp only: m) (rule bit_word_eqI, auto simp: bit_simps)
qed

lemma json_read_byte: "json_read (json_byte b @ bs) = map_option (apfst (Cons b)) (json_read bs)"
  using hex_nibble_ok [OF byte_nibbles(1) [of b]] hex_nibble_ok [OF byte_nibbles(2) [of b]] byte_nibbles(3) [of b]
  by (simp add: json_byte_def)

lemma json_read_bytes: "json_read (concat (map json_byte p) @ 34 # bs) = Some (p, bs)"
  by (induction p) (simp_all add: json_read_byte)

lemma json_bytes_text: "json_bytes js p = Some js' \<Longrightarrow> js' = js @ concat (map json_byte p)"
  by (induction js p rule: json_bytes.induct) (auto simp: Let_def split: if_splits)

text \<open>The text of a nonempty list without its brackets.\<close>

fun json_list :: "u8 list list \<Rightarrow> u8 list" where
  "json_list [] = []"
| "json_list (p # ps) = 34 # concat (map json_byte p) @ 34 # (if ps = [] then [] else 44 # json_list ps)"

lemma json_strings_text:
  "json_strings js ps = Inr js' \<Longrightarrow> js \<noteq> [] \<Longrightarrow>
     js' = js @ (if length js > 1 \<and> ps \<noteq> [] then [44] else []) @ json_list ps"
proof (induction js ps rule: json_strings.induct)
  case (2 js p ps)
  let ?start = "(if length js > 1 then js @ [44] else js) @ [34]"
  obtain t where t: "json_bytes ?start p = Some t" and r: "json_strings (t @ [34]) ps = Inr js'"
    using 2(2) by (auto split: if_splits option.splits)
  note tt = json_bytes_text [OF t]
  have "length (t @ [34]) > 1" using 2(3) tt by simp
  moreover have "js' = (t @ [34]) @ (if length (t @ [34]) > 1 \<and> ps \<noteq> [] then [44] else []) @ json_list ps"
    using 2(1) [OF _ t r] 2(2) by (auto split: if_splits)
  ultimately show ?case using tt by auto
qed simp

lemma json_array_list: "json_array (json_list ps @ [93]) = Some ps"
proof (induction ps)
  case (Cons p ps)
  show ?case
  proof (cases "ps = []")
    case True
    then show ?thesis using json_read_bytes [of p "[93]"] by (subst json_array.simps) simp
  next
    case False
    then show ?thesis using Cons json_read_bytes [of p "44 # json_list ps @ [93]"] by (subst json_array.simps) simp
  qed
qed (simp add: json_array.simps)

lemma json_byte_printable: "list_all (\<lambda>c. 0x20 \<le> c \<and> c \<le> 0x7e) (json_byte b)"
  using hex_nibble_ok [OF byte_nibbles(1) [of b]] hex_nibble_ok [OF byte_nibbles(2) [of b]]
  by (auto simp: json_byte_def)

lemma json_list_printable: "list_all (\<lambda>c. 0x20 \<le> c \<and> c \<le> 0x7e) (json_list ps)"
proof (induction ps)
  case (Cons p ps)
  have "list_all (\<lambda>c. 0x20 \<le> c \<and> c \<le> 0x7e) (concat (map json_byte p))"
    by (induction p) (simp_all add: json_byte_printable)
  with Cons show ?case by simp
qed simp

text \<open>
  C29. The JSON text of an ALPN list loses nothing: whatever bytes the identifiers have, the text is
  printable ASCII of at most 512 bytes, and reading it back gives the identifiers in their order.
\<close>

theorem tls_alpn_json_reversible:
  assumes "encode_alpn_json ps = Inr js"
  shows "decode_alpn_json js = Some ps \<and> length js \<le> 512 \<and> list_all (\<lambda>c. 0x20 \<le> c \<and> c \<le> 0x7e) js"
proof -
  obtain t where t: "json_strings [91] ps = Inr t" "js = t @ [93]" "length js \<le> 512"
    using assms by (auto simp: encode_alpn_json_def max_alpn_json_bytes_def split: sum.splits if_splits)
  have eq: "js = 91 # json_list ps @ [93]" using json_strings_text [OF t(1)] t(2) by simp
  with t(3) json_list_printable [of ps] show ?thesis by (simp add: decode_alpn_json_def json_array_list)
qed

text \<open>An identifier with a quote, a backslash and a byte that is not ASCII.\<close>

theorem tls_alpn_json_reversible_witness:
  "\<exists>js. encode_alpn_json [[104, 50], [34, 92, 0xe9]] = Inr js \<and> decode_alpn_json js = Some [[104, 50], [34, 92, 0xe9]]"
proof -
  obtain js where t: "encode_alpn_json [[104, 50], [34, 92, 0xe9]] = Inr js"
    by (simp add: encode_alpn_json_def json_byte_def max_alpn_json_bytes_def Let_def)
  with tls_alpn_json_reversible [OF t] show ?thesis by blast
qed

section \<open>A ClientHello as it is written\<close>

definition vec8 :: "u8 list \<Rightarrow> u8 list" where
  "vec8 v = of_nat (length v) # v"

definition vec16 :: "u8 list \<Rightarrow> u8 list" where
  "vec16 v = write16 (of_nat (length v)) @ v"

lemma rd_u16_write16 [simp]: "rd_u16 (write16 w @ bs) = Some (w, bs)"
  by (simp add: write16_def read_be16_write16)

lemma rd_take_append [simp]: "rd_take (length v) (v @ r) = Some (v, r)"
  by (simp add: rd_take_def)

lemma rd_vec8_vec8: "length v < 256 \<Longrightarrow> rd_vec8 (vec8 v @ r) = Some (v, r)"
  by (simp add: rd_vec8_def vec8_def unat_of_nat)

lemma rd_vec16_vec16: "length v < 65536 \<Longrightarrow> rd_vec16 (vec16 v @ r) = Some (v, r)"
  by (simp add: rd_vec16_def vec16_def unat_of_nat)

lemma vec_nonempty [simp]: "write16 w \<noteq> []" "vec8 v \<noteq> []" "vec16 v \<noteq> []"
  by (simp_all add: vec8_def vec16_def write16_def)

lemma length_vec [simp]: "length (vec8 v) = length v + 1" "length (vec16 v) = length v + 2"
  by (simp_all add: vec8_def vec16_def)

datatype tls_ext = ExtSni "u8 list" | ExtAlpn "u8 list list" | ExtVersions "u16 list" | ExtOther u16 "u8 list"

fun ext_type :: "tls_ext \<Rightarrow> u16" where
  "ext_type (ExtSni n) = 0"
| "ext_type (ExtAlpn ps) = 16"
| "ext_type (ExtVersions vs) = 43"
| "ext_type (ExtOther t v) = t"

fun ext_value :: "tls_ext \<Rightarrow> u8 list" where
  "ext_value (ExtSni n) = vec16 (0 # vec16 n)"
| "ext_value (ExtAlpn ps) = vec16 (concat (map vec8 ps))"
| "ext_value (ExtVersions vs) = vec8 (concat (map write16 vs))"
| "ext_value (ExtOther t v) = v"

definition known_type :: "u16 \<Rightarrow> bool" where
  "known_type t \<longleftrightarrow> t = 0 \<or> t = 16 \<or> t = 43"

fun ext_ok :: "tls_ext \<Rightarrow> bool" where
  "ext_ok (ExtSni n) \<longleftrightarrow> valid_sni n"
| "ext_ok (ExtAlpn ps) \<longleftrightarrow> ps \<noteq> [] \<and> distinct ps \<and> (case encode_alpn_json ps of Inl _ \<Rightarrow> False | Inr _ \<Rightarrow> True)"
| "ext_ok (ExtVersions vs) \<longleftrightarrow> vs \<noteq> [] \<and> length vs < 128"
| "ext_ok (ExtOther t v) \<longleftrightarrow> \<not> known_type t \<and> length v < 65536"

fun apply_ext :: "tls_ext \<Rightarrow> tls_hello \<Rightarrow> tls_hello" where
  "apply_ext (ExtSni n) h = h\<lparr>th_sni := Some n\<rparr>"
| "apply_ext (ExtAlpn ps) h = h\<lparr>th_offered_alpn := th_offered_alpn h @ ps\<rparr>"
| "apply_ext (ExtVersions vs) h = h\<lparr>th_offered_versions := th_offered_versions h @ vs\<rparr>"
| "apply_ext (ExtOther t v) h = h"

definition ext_bytes :: "tls_ext \<Rightarrow> u8 list" where
  "ext_bytes e = write16 (ext_type e) @ vec16 (ext_value e)"

lemma alpn_loop_list:
  "list_all (\<lambda>p. p \<noteq> [] \<and> length p < 256) ps \<Longrightarrow> distinct (th_offered_alpn h @ ps) \<Longrightarrow>
     alpn_loop False (concat (map vec8 ps)) h = Some (h\<lparr>th_offered_alpn := th_offered_alpn h @ ps\<rparr>)"
proof (induction ps arbitrary: h)
  case (Cons p ps)
  from Cons show ?case by (subst alpn_loop.simps) (simp add: rd_vec8_vec8)
qed (simp add: alpn_loop.simps)

lemma versions_loop_list: "versions_loop (concat (map write16 ws)) vs = Some (vs @ ws)"
proof (induction ws arbitrary: vs)
  case (Cons w ws)
  from Cons show ?case by (subst versions_loop.simps) simp
qed (simp add: versions_loop.simps)

text \<open>An encodable list has short identifiers and is short itself.\<close>

lemma json_strings_short: "json_strings js ps = Inr js' \<Longrightarrow> list_all (\<lambda>p. p \<noteq> [] \<and> length p < 256) ps"
  by (induction js ps rule: json_strings.induct) (auto split: if_splits option.splits)

lemma encodable_short:
  assumes "encode_alpn_json ps = Inr js"
  shows "list_all (\<lambda>p. p \<noteq> [] \<and> length p < 256) ps" "length (concat (map vec8 ps)) \<le> 512"
proof -
  obtain t where t: "json_strings [91] ps = Inr t" "js = t @ [93]"
    using assms by (auto simp: encode_alpn_json_def split: sum.splits if_splits)
  show "list_all (\<lambda>p. p \<noteq> [] \<and> length p < 256) ps" by (rule json_strings_short [OF t(1)])
  have one: "length p \<le> length (concat (map json_byte p))" for p
    by (induction p) (auto simp: json_byte_def)
  have "length (concat (map vec8 ps)) \<le> length (json_list ps)"
  proof (induction ps)
    case (Cons p ps)
    then show ?case using one [of p] by auto
  qed simp
  also have "\<dots> \<le> 512"
    using json_strings_text [OF t(1)] tls_alpn_json_reversible [OF assms] t(2) by simp
  finally show "length (concat (map vec8 ps)) \<le> 512" .
qed

fun ext_seen :: "tls_ext \<Rightarrow> seen \<Rightarrow> bool" where
  "ext_seen (ExtSni n) (sni, alpn, versions) \<longleftrightarrow> sni"
| "ext_seen (ExtAlpn ps) (sni, alpn, versions) \<longleftrightarrow> alpn"
| "ext_seen (ExtVersions vs) (sni, alpn, versions) \<longleftrightarrow> versions"
| "ext_seen (ExtOther t v) seen \<longleftrightarrow> False"

fun mark_seen :: "tls_ext \<Rightarrow> seen \<Rightarrow> seen" where
  "mark_seen (ExtSni n) (sni, alpn, versions) = (True, alpn, versions)"
| "mark_seen (ExtAlpn ps) (sni, alpn, versions) = (sni, True, versions)"
| "mark_seen (ExtVersions vs) (sni, alpn, versions) = (sni, alpn, True)"
| "mark_seen (ExtOther t v) seen = seen"

lemma ext_value_short: "ext_ok e \<Longrightarrow> length (ext_value e) < 65536"
proof (cases e)
  case (ExtSni n)
  then show "ext_ok e \<Longrightarrow> ?thesis" by (simp add: valid_sni_def max_sni_bytes_def)
next
  case (ExtAlpn ps)
  then show "ext_ok e \<Longrightarrow> ?thesis" using encodable_short(2) [of ps] by (auto split: sum.splits)
next
  case (ExtVersions vs)
  have "length (concat (map write16 vs)) = 2 * length vs" by (induction vs) simp_all
  with ExtVersions show "ext_ok e \<Longrightarrow> ?thesis" by simp
qed simp

lemma parse_extension_client:
  assumes "ext_ok e" "\<not> ext_seen e seen" "\<not> fst (snd seen) \<Longrightarrow> th_offered_alpn h = []"
  shows "parse_extension False (ext_type e) (ext_value e) seen h = Inr (mark_seen e seen, apply_ext e h)"
proof (cases seen)
  case (fields sni alpn versions)
  show ?thesis
  proof (cases e)
    case (ExtSni n)
    have "length n \<le> 255" using assms(1) ExtSni by (simp add: valid_sni_def max_sni_bytes_def)
    moreover from this have "unat (of_nat (length n + 3) :: u16) = length n + 3" by (simp only: unat_of_nat) simp
    then have "unat (3 + word_of_nat (length n) :: u16) = Suc (Suc (Suc (length n)))" by (simp add: add.commute)
    ultimately have "sni_name (ext_value e) = Some n"
      using rd_vec16_vec16 [of n "[]"]
      by (simp add: ExtSni sni_name_def vec16_def [of "0 # _"] unat_of_nat word_unat_eq_iff)
    with assms(1,2) ExtSni \<open>length n \<le> 255\<close> show ?thesis
      by (simp add: fields parse_extension_def parse_sni_def max_sni_bytes_def)
  next
    case (ExtAlpn ps)
    then obtain js where js: "encode_alpn_json ps = Inr js" "ps \<noteq> []" "distinct ps" "th_offered_alpn h = []"
      using assms by (auto simp: fields split: sum.splits)
    note short = encodable_short [OF js(1)]
    have n: "concat (map vec8 ps) \<noteq> []" using js(2) by (auto simp: vec8_def neq_Nil_conv)
    with short(2) js alpn_loop_list [OF short(1), of h] assms(2) ExtAlpn show ?thesis
      by (simp add: fields parse_extension_def parse_alpn_def vec16_def unat_of_nat word_unat_eq_iff)
  next
    case (ExtVersions vs)
    have "length (concat (map write16 vs)) = 2 * length vs" by (induction vs) simp_all
    moreover have "unat (of_nat (2 * length vs) :: u8) = 2 * length vs"
      using assms(1) ExtVersions by (simp only: unat_of_nat) simp
    then have "unat (2 * word_of_nat (length vs) :: u8) = 2 * length vs" by simp
    ultimately show ?thesis using assms(1,2) ExtVersions versions_loop_list [of vs]
      by (simp add: fields parse_extension_def parse_versions_def vec8_def unat_of_nat word_unat_eq_iff)
  next
    case (ExtOther t v)
    with assms(1) show ?thesis by (auto simp: fields parse_extension_def known_type_def)
  qed
qed

lemma extensions_loop_client:
  assumes "list_all ext_ok exts" "distinct (filter known_type (map ext_type exts))"
    "list_all (\<lambda>e. \<not> ext_seen e seen) exts" "\<not> fst (snd seen) \<Longrightarrow> th_offered_alpn h = []"
  shows "extensions_loop False (concat (map ext_bytes exts)) seen h = Inr (fold apply_ext exts h)"
  using assms
proof (induction exts arbitrary: seen h)
  case (Cons e exts)
  let ?rest = "concat (map ext_bytes exts)"
  have e: "parse_extension False (ext_type e) (ext_value e) seen h = Inr (mark_seen e seen, apply_ext e h)"
    using parse_extension_client [of e seen h] Cons.prems by simp
  have v: "rd_vec16 (vec16 (ext_value e) @ ?rest) = Some (ext_value e, ?rest)"
    using Cons.prems(1) ext_value_short by (intro rd_vec16_vec16) simp
  have other: "\<not> ext_seen e' (mark_seen e seen)" if "e' \<in> set exts" for e'
  proof -
    have "\<not> ext_seen e' seen" using that Cons.prems(3) by (simp add: list_all_iff)
    moreover have "ext_type e' \<noteq> ext_type e" if k: "known_type (ext_type e)"
    proof
      assume "ext_type e' = ext_type e"
      with \<open>e' \<in> set exts\<close> have "ext_type e \<in> ext_type ` set exts" by (metis imageI)
      with Cons.prems(2) k show False by simp
    qed
    ultimately show ?thesis by (cases e; cases e'; cases seen) (auto simp: known_type_def)
  qed
  have "extensions_loop False ?rest (mark_seen e seen) (apply_ext e h) = Inr (fold apply_ext exts (apply_ext e h))"
  proof (rule Cons.IH)
    show "list_all ext_ok exts" "distinct (filter known_type (map ext_type exts))"
      using Cons.prems by (simp_all split: if_splits)
    show "list_all (\<lambda>e'. \<not> ext_seen e' (mark_seen e seen)) exts" using other by (simp add: list_all_iff)
    show "th_offered_alpn (apply_ext e h) = []" if "\<not> fst (snd (mark_seen e seen))"
      using that Cons.prems(4) by (cases e; cases seen) auto
  qed
  then show ?case
    by (subst extensions_loop.simps) (simp add: ext_bytes_def e v)
qed (simp add: extensions_loop.simps)

record client_hello =
  ch_version :: u16
  ch_random :: "u8 list"
  ch_session :: "u8 list"
  ch_ciphers :: "u8 list"
  ch_methods :: "u8 list"
  ch_extensions :: "tls_ext list"

definition client_hello_ok :: "client_hello \<Rightarrow> bool" where
  "client_hello_ok c \<longleftrightarrow>
     length (ch_random c) = 32 \<and> length (ch_session c) \<le> 32 \<and>
     2 \<le> length (ch_ciphers c) \<and> even (length (ch_ciphers c)) \<and> length (ch_ciphers c) < 65536 \<and>
     0 \<in> set (ch_methods c) \<and> length (ch_methods c) < 256 \<and>
     list_all ext_ok (ch_extensions c) \<and> distinct (filter known_type (map ext_type (ch_extensions c))) \<and>
     length (concat (map ext_bytes (ch_extensions c))) < 65536"

definition client_hello_bytes :: "client_hello \<Rightarrow> u8 list" where
  "client_hello_bytes c =
     write16 (ch_version c) @ ch_random c @ vec8 (ch_session c) @ vec16 (ch_ciphers c) @ vec8 (ch_methods c) @
     (if ch_extensions c = [] then [] else vec16 (concat (map ext_bytes (ch_extensions c))))"

text \<open>
  C30. A ClientHello that is written out with any extensions in any order, the three that matter at
  most once each, parses to exactly the facts that were written: version, server name, ALPN list
  and versions; extensions of other types are skipped whatever they contain.
\<close>

theorem tls_client_hello_roundtrip:
  assumes "client_hello_ok c"
  shows "parse_tls_hello 1 (client_hello_bytes c) complete_at =
    Inr (fold apply_ext (ch_extensions c) ((new_tls_hello complete_at)\<lparr>th_legacy_version := ch_version c\<rparr>))"
proof -
  let ?exts = "concat (map ext_bytes (ch_extensions c))"
  let ?tail = "if ch_extensions c = [] then [] else vec16 ?exts"
  let ?h = "(new_tls_hello complete_at)\<lparr>th_legacy_version := ch_version c\<rparr>"
  have ok: "length (ch_random c) = 32" "length (ch_session c) \<le> 32" "length (ch_methods c) < 256"
    "2 \<le> length (ch_ciphers c)" "even (length (ch_ciphers c))" "length (ch_ciphers c) < 65536"
    "0 \<in> set (ch_methods c)" "ch_methods c \<noteq> []" "length ?exts < 65536"
    using assms by (auto simp: client_hello_ok_def)
  have "rd_take 32 (ch_random c @ r) = Some (ch_random c, r)" for r
    using rd_take_append [of "ch_random c"] ok(1) by simp
  then have prefix: "hello_prefix (client_hello_bytes c) =
      Some (ch_version c, ch_random c, vec16 (ch_ciphers c) @ vec8 (ch_methods c) @ ?tail)"
    using ok(2) by (simp add: hello_prefix_def client_hello_bytes_def vec8_def unat_of_nat)
  have tail: "parse_extensions ?tail False ?h = Inr (fold apply_ext (ch_extensions c) ?h)"
  proof (cases "ch_extensions c = []")
    case False
    have "extensions_loop False ?exts (False, False, False) ?h = Inr (fold apply_ext (ch_extensions c) ?h)"
    proof (rule extensions_loop_client)
      have "\<not> ext_seen e (False, False, False)" for e by (cases e) simp_all
      then show "list_all (\<lambda>e. \<not> ext_seen e (False, False, False)) (ch_extensions c)" by (simp add: list_all_iff)
    qed (use assms in \<open>simp_all add: client_hello_ok_def new_tls_hello_def\<close>)
    with False ok(9) show ?thesis
      unfolding parse_extensions_def by (simp add: vec16_def unat_of_nat)
  qed (simp add: parse_extensions_def)
  have "of_nat (length (ch_methods c)) \<noteq> (0 :: u8)" using ok(3,8) by (simp add: word_unat_eq_iff unat_of_nat)
  then show ?thesis
    using ok(3-7) tail
    by (simp add: parse_tls_hello_def parse_client_def prefix vec16_def [of "ch_ciphers c"] vec8_def unat_of_nat)
qed

text \<open>A hello for one host with two protocols and versions 1.3 and 1.2, behind an unknown extension.\<close>

definition sample_client_hello :: client_hello where
  "sample_client_hello =
     \<lparr>ch_version = 0x0303, ch_random = replicate 32 7, ch_session = [], ch_ciphers = [0x13, 1], ch_methods = [0],
      ch_extensions = [ExtOther 10 [1, 2], ExtSni [97, 46, 98], ExtAlpn [[104, 50], [120]], ExtVersions [0x0304, 0x0303]]\<rparr>"

theorem tls_client_hello_roundtrip_witness:
  "parse_tls_hello 1 (client_hello_bytes sample_client_hello) (Some 5) =
     Inr ((new_tls_hello (Some 5))\<lparr>th_legacy_version := 0x0303, th_sni := Some [97, 46, 98],
       th_offered_alpn := [[104, 50], [120]], th_offered_versions := [0x0304, 0x0303]\<rparr>)"
proof -
  have sni: "valid_sni [97, 46, 98]"
    by (simp add: valid_sni_def max_sni_bytes_def dot_def hyphen_def sni_alnum_def)
  have alpn: "encode_alpn_json [[104, 50], [120]] = Inr [91, 34, 104, 50, 34, 44, 34, 120, 34, 93]"
    by (simp add: encode_alpn_json_def json_byte_def max_alpn_json_bytes_def Let_def)
  have "client_hello_ok sample_client_hello"
    by (simp add: client_hello_ok_def sample_client_hello_def sni alpn known_type_def ext_bytes_def)
  from tls_client_hello_roundtrip [OF this, of "Some 5"] show ?thesis
    by (simp add: sample_client_hello_def new_tls_hello_def)
qed

end
