(* ===== verification/TlsFramerProps.thy ===== *)
theory TlsFramerProps
  imports TlsFramer TlsHelloProps
begin

text \<open>
  The framer does not depend on how its bytes are cut into events, which is what lets the module
  feed it slices: the rounds of records and of handshake messages are both instances of the locale
  of byte loops.
\<close>

section \<open>Clocks\<close>

lemma mark_tls_time_twice: "mark_tls_time c (mark_tls_time c kt) = mark_tls_time c kt"
  by (cases c; cases kt) (auto split: option.split)

lemma tls_put_put [simp]: "tls_put d t (tls_put d t' f) = tls_put d t f"
  by (cases d) simp_all

lemma tls_put_same [simp]: "tls_put d (tls_dir d f) f = f"
  by (cases d) simp_all

lemma cut_enough:
  assumes "k \<le> length xs"
  shows "min k (length (xs @ ys)) = min k (length xs)" "take (min k (length xs)) (xs @ ys) = take (min k (length xs)) xs"
    "drop (min k (length xs)) (xs @ ys) = drop (min k (length xs)) xs @ ys"
  using assms by auto

lemma cut_partial:
  assumes "length xs < k"
  shows "take (min k (length (xs @ ys))) (xs @ ys) = xs @ take (min (k - length xs) (length ys)) ys"
    "drop (min k (length (xs @ ys))) (xs @ ys) = drop (min (k - length xs) (length ys)) ys"
    "take (min k (length xs)) xs = xs" "drop (min k (length xs)) xs = []"
  using assms by (auto simp: min_def)

section \<open>Rounds on a prefix\<close>

lemma append_if:
  "(if c then Inr (bs @ ys, w) else case r of Inl e \<Rightarrow> Inl e | Inr (bs', w') \<Rightarrow> Inr (bs' @ ys, w')) =
   (case if c then Inr (bs, w) else r of Inl e \<Rightarrow> Inl e | Inr (bs', w') \<Rightarrow> Inr (bs' @ ys, w'))"
  by simp

lemma finish_tls_message_rest:
  "finish_tls_message d w = (TlsNone, w') \<Longrightarrow>
     td_record_remaining (tls_dir d (fst w')) = td_record_remaining (tls_dir d (fst w)) \<and>
     td_record_type (tls_dir d (fst w')) = td_record_type (tls_dir d (fst w)) \<and>
     td_record_header (tls_dir d (fst w')) = td_record_header (tls_dir d (fst w))"
  by (auto simp: finish_tls_message_def reset_message_def Let_def
      split: prod.splits if_splits sum.splits tls_hello_error.splits)

lemma announce_accept_record [simp]:
  "td_record_remaining (tls_dir d (announce_message d f)) = td_record_remaining (tls_dir d f)"
  "td_record_type (tls_dir d (announce_message d f)) = td_record_type (tls_dir d f)"
  "td_record_header (tls_dir d (announce_message d f)) = td_record_header (tls_dir d f)"
  "td_record_remaining (tls_dir d (accept_message d f)) = td_record_remaining (tls_dir d f)"
  "td_record_type (tls_dir d (accept_message d f)) = td_record_type (tls_dir d f)"
  "td_record_header (tls_dir d (accept_message d f)) = td_record_header (tls_dir d f)"
  by (simp_all add: announce_message_def accept_message_def Let_def)

lemma open_tls_message_append:
  "open_tls_message d (rest @ ys) w =
     (case open_tls_message d rest w of Inl r \<Rightarrow> Inl r | Inr (bs', w') \<Rightarrow> Inr (bs' @ ys, w'))"
  by (auto simp: open_tls_message_def Let_def split: prod.split)

lemma open_tls_record_append:
  "open_tls_record d (rest @ ys) w =
     (case open_tls_record d rest w of Inl r \<Rightarrow> Inl r | Inr (bs', w') \<Rightarrow> Inr (bs' @ ys, w'))"
  by (auto simp: open_tls_record_def Let_def split: prod.split)

text \<open>What a round takes in two parts.\<close>

lemma take_message_header_twice:
  "xs \<noteq> [] \<Longrightarrow> take_message_header captured ys (take_message_header captured xs t) = take_message_header captured (xs @ ys) t"
  by (simp add: take_message_header_def Let_def mark_tls_time_twice diff_diff_left)

lemma take_message_body_twice:
  "take_message_body captured ys (take_message_body captured xs t) = take_message_body captured (xs @ ys) t"
  by (simp add: take_message_body_def mark_tls_time_twice diff_diff_left)

lemma take_record_header_twice:
  "take_record_header captured ys (take_record_header captured xs t) = take_record_header captured (xs @ ys) t"
  by (simp add: take_record_header_def mark_tls_time_twice)

lemma take_control_bytes_twice:
  "take_control_bytes captured ys (take_control_bytes captured xs t) = take_control_bytes captured (xs @ ys) t"
  by (simp add: take_control_bytes_def mark_tls_time_twice diff_diff_left min_def)

lemma take_header_fields [simp]:
  "td_handshake_header (take_message_header captured chunk t) = td_handshake_header t @ chunk"
  "td_handshake_remaining (take_message_header captured chunk t) = td_handshake_remaining t"
  "td_handshake_remaining (take_message_body captured chunk t) = td_handshake_remaining t - length chunk"
  "td_handshake_header (take_message_body captured chunk t) = td_handshake_header t"
  "td_record_header (take_record_header captured chunk t) = td_record_header t @ chunk"
  "td_record_remaining (take_record_header captured chunk t) = td_record_remaining t"
  by (simp_all add: take_message_header_def take_message_body_def take_record_header_def Let_def)

text \<open>A round that has enough bytes, and one that has not.\<close>

lemma message_header_enough:
  assumes "4 - length (td_handshake_header (tls_dir d (fst w))) \<le> length xs"
  shows "message_header_round captured d (xs @ ys) w =
    (case message_header_round captured d xs w of Inl r \<Rightarrow> Inl r | Inr (bs', w') \<Rightarrow> Inr (bs' @ ys, w'))"
  by (simp only: message_header_round_def Let_def cut_enough [OF assms] open_tls_message_append) (rule append_if)

lemma message_header_partial:
  assumes "length xs < 4 - length (td_handshake_header (tls_dir d (fst w)))" "xs \<noteq> []"
    "td_handshake_remaining (tls_dir d (fst w)) = 0"
  shows "\<exists>w'. message_header_round captured d xs w = Inr ([], w') \<and> in_message_header (tls_dir d (fst w')) \<and>
    message_header_round captured d (xs @ ys) w = message_header_round captured d ys w'"
proof -
  let ?t = "take_message_header captured xs (tls_dir d (fst w))"
  let ?w = "(tls_put d ?t (fst w), snd w)"
  have short: "length (td_handshake_header (tls_dir d (fst w))) + length xs < 4" using assms(1) by linarith
  then have "message_header_round captured d xs w = Inr ([], ?w)"
    by (simp add: message_header_round_def Let_def)
  moreover have "in_message_header (tls_dir d (fst ?w))" using short assms(3) by (simp add: in_message_header_def)
  moreover have "message_header_round captured d (xs @ ys) w = message_header_round captured d ys ?w"
    by (simp only: message_header_round_def Let_def cut_partial [OF assms(1)] fst_conv snd_conv tls_dir_put tls_put_put
        take_message_header_twice [OF assms(2)] take_header_fields) (simp only: length_append diff_diff_left add.assoc)
  ultimately show ?thesis by blast
qed

lemma message_body_enough:
  assumes "td_handshake_remaining (tls_dir d (fst w)) \<le> length xs"
  shows "message_body_round captured d (xs @ ys) w =
    (case message_body_round captured d xs w of Inl r \<Rightarrow> Inl r | Inr (bs', w') \<Rightarrow> Inr (bs' @ ys, w'))"
  by (simp only: message_body_round_def Let_def cut_enough [OF assms]) (simp split: sum.split prod.split)

lemma message_body_partial:
  assumes "length xs < td_handshake_remaining (tls_dir d (fst w))"
  shows "\<exists>w'. message_body_round captured d xs w = Inr ([], w') \<and> \<not> in_message_header (tls_dir d (fst w')) \<and>
    message_body_round captured d (xs @ ys) w = message_body_round captured d ys w'"
proof -
  let ?t = "take_message_body captured xs (tls_dir d (fst w))"
  let ?w = "(tls_put d ?t (fst w), snd w)"
  have "message_body_round captured d xs w = Inr ([], ?w)"
    using assms by (simp add: message_body_round_def Let_def)
  moreover have "\<not> in_message_header (tls_dir d (fst ?w))" using assms by (simp add: in_message_header_def)
  moreover have "message_body_round captured d (xs @ ys) w = message_body_round captured d ys ?w"
    by (simp only: message_body_round_def Let_def cut_partial [OF assms] fst_conv snd_conv tls_dir_put tls_put_put
        take_message_body_twice take_header_fields) (simp only: length_append diff_diff_left add.assoc)
  ultimately show ?thesis by blast
qed

lemma handshake_round_append:
  assumes "xs \<noteq> []"
  shows "handshake_round captured d (xs @ ys) w =
      (case handshake_round captured d xs w of Inl r \<Rightarrow> Inl r | Inr (bs', w') \<Rightarrow> Inr (bs' @ ys, w')) \<or>
    (\<exists>w'. handshake_round captured d xs w = Inr ([], w') \<and>
       handshake_round captured d (xs @ ys) w = handshake_round captured d ys w')"
proof (cases "in_message_header (tls_dir d (fst w))")
  case True
  show ?thesis
  proof (cases "4 - length (td_handshake_header (tls_dir d (fst w))) \<le> length xs")
    case enough: True
    with True message_header_enough [OF enough] show ?thesis by (simp add: handshake_round_def)
  next
    case partial: False
    then obtain w' where "message_header_round captured d xs w = Inr ([], w')" "in_message_header (tls_dir d (fst w'))"
      "message_header_round captured d (xs @ ys) w = message_header_round captured d ys w'"
      using message_header_partial [of xs d w captured ys] assms True by (auto simp: in_message_header_def)
    with True show ?thesis by (auto simp: handshake_round_def)
  qed
next
  case False
  show ?thesis
  proof (cases "td_handshake_remaining (tls_dir d (fst w)) \<le> length xs")
    case enough: True
    with False message_body_enough [OF enough] show ?thesis by (simp add: handshake_round_def)
  next
    case partial: False
    then obtain w' where "message_body_round captured d xs w = Inr ([], w')" "\<not> in_message_header (tls_dir d (fst w'))"
      "message_body_round captured d (xs @ ys) w = message_body_round captured d ys w'"
      using message_body_partial [of xs d w captured ys] by auto
    with False show ?thesis by (auto simp: handshake_round_def)
  qed
qed

lemma round_append_cases:
  assumes "step (xs @ ys) s = (case step xs s of Inl r \<Rightarrow> Inl r | Inr (bs', s') \<Rightarrow> Inr (bs' @ ys, s')) \<or>
    (\<exists>s'. step xs s = Inr ([], s') \<and> step (xs @ ys) s = step ys s')"
  shows "step xs s = Inl r \<Longrightarrow> step (xs @ ys) s = Inl r"
    "step xs s = Inr (xs', s') \<Longrightarrow> xs' \<noteq> [] \<Longrightarrow> step (xs @ ys) s = Inr (xs' @ ys, s')"
    "step xs s = Inr ([], s') \<Longrightarrow> step (xs @ ys) s = Inr (ys, s') \<or> step (xs @ ys) s = step ys s'"
  using assms by auto

lemma handshake_round_error: "handshake_round captured d bs w = Inl (e, w') \<Longrightarrow> e \<noteq> TlsNone"
  by (auto simp: handshake_round_def message_header_round_def message_body_round_def open_tls_message_def Let_def
      split: prod.splits if_splits)

interpretation handshake: byte_rounds "handshake_round captured d" "handshake_loop captured d"
    "\<lambda>bs w. 2 * length bs + stuck_message (tls_dir d (fst w))" TlsNone
  for captured d
proof unfold_locales
  show "handshake_loop captured d bs w = (if bs = [] then (TlsNone, w) else
      case handshake_round captured d bs w of Inl r \<Rightarrow> r | Inr (bs', w') \<Rightarrow> handshake_loop captured d bs' w')" for bs w
    by (subst handshake_loop.simps) simp
next
  note cases = round_append_cases [where step = "handshake_round captured d", OF handshake_round_append]
  show "handshake_round captured d xs w = Inl r \<Longrightarrow> xs \<noteq> [] \<Longrightarrow> handshake_round captured d (xs @ ys) w = Inl r" for xs ys w r
    using cases(1) [where xs = xs and ys = ys and s = w] by blast
  show "handshake_round captured d xs w = Inr (xs', w') \<Longrightarrow> xs \<noteq> [] \<Longrightarrow> xs' \<noteq> [] \<Longrightarrow>
    handshake_round captured d (xs @ ys) w = Inr (xs' @ ys, w')" for xs ys w xs' w'
    using cases(2) [where xs = xs and ys = ys and s = w] by blast
  show "handshake_round captured d xs w = Inr ([], w') \<Longrightarrow> xs \<noteq> [] \<Longrightarrow> ys \<noteq> [] \<Longrightarrow>
    handshake_round captured d (xs @ ys) w = Inr (ys, w') \<or>
    handshake_round captured d (xs @ ys) w = handshake_round captured d ys w'" for xs ys w w'
    using cases(3) [where xs = xs and ys = ys and s = w] by blast
qed (fact handshake_round_smaller handshake_round_error)+

section \<open>Records on a prefix\<close>

abbreviation same_record :: "packet_direction \<Rightarrow> tls_work \<Rightarrow> tls_work \<Rightarrow> bool" where
  "same_record d w w' \<equiv> td_record_type (tls_dir d (fst w')) = td_record_type (tls_dir d (fst w)) \<and>
     td_record_header (tls_dir d (fst w')) = td_record_header (tls_dir d (fst w))"

lemma open_tls_message_record:
  "open_tls_message d rest w = Inr (bs', w') \<Longrightarrow>
     td_record_remaining (tls_dir d (fst w')) = td_record_remaining (tls_dir d (fst w)) \<and> same_record d w w'"
  by (auto simp: open_tls_message_def Let_def dest!: finish_tls_message_rest split: prod.splits if_splits)

lemma handshake_round_rest:
  assumes "handshake_round captured d bs w = Inr (bs', w')"
  shows "\<exists>n. n \<le> length bs \<and> bs' = drop n bs \<and>
    td_record_remaining (tls_dir d (fst w')) = td_record_remaining (tls_dir d (fst w)) - n \<and> same_record d w w'"
proof (cases "in_message_header (tls_dir d (fst w))")
  case True
  let ?n = "min (4 - length (td_handshake_header (tls_dir d (fst w)))) (length bs)"
  let ?w = "(tls_put d (take_message_header captured (take ?n bs) (tls_dir d (fst w))) (fst w), snd w)"
  have "bs' = drop ?n bs \<and> td_record_remaining (tls_dir d (fst w')) = td_record_remaining (tls_dir d (fst ?w)) \<and> same_record d ?w w'"
    using assms True open_tls_message_record open_tls_message_rest
    by (auto simp: handshake_round_def message_header_round_def Let_def split: if_splits)
  then show ?thesis by (intro exI [of _ ?n]) (auto simp: take_message_header_def Let_def min_def split: if_splits)
next
  case False
  let ?n = "min (td_handshake_remaining (tls_dir d (fst w))) (length bs)"
  let ?w = "(tls_put d (take_message_body captured (take ?n bs) (tls_dir d (fst w))) (fst w), snd w)"
  have "bs' = drop ?n bs \<and> td_record_remaining (tls_dir d (fst w')) = td_record_remaining (tls_dir d (fst ?w)) \<and> same_record d ?w w'"
    using assms False
    by (auto simp: handshake_round_def message_body_round_def Let_def dest!: finish_tls_message_rest split: if_splits prod.splits)
  then show ?thesis by (intro exI [of _ ?n]) (auto simp: take_message_body_def min_def split: if_splits)
qed

lemma handshake_loop_rest:
  "handshake_loop captured d bs w = (TlsNone, w') \<Longrightarrow>
     td_record_remaining (tls_dir d (fst w')) = td_record_remaining (tls_dir d (fst w)) - length bs \<and> same_record d w w'"
proof (induction captured d bs w rule: handshake_loop.induct)
  case (1 captured d bs w)
  show ?case
  proof (cases "bs = []")
    case True
    with 1(2) show ?thesis by (simp add: handshake.loop_Nil)
  next
    case False
    then obtain bs1 w1 where r: "handshake_round captured d bs w = Inr (bs1, w1)" "handshake_loop captured d bs1 w1 = (TlsNone, w')"
      using 1(2) handshake_round_error [of captured d bs w] handshake_loop.simps [of captured d bs w]
      by (auto split: sum.splits)
    with 1(1) [OF False r(1) refl r(2)] handshake_round_rest [OF r(1)] show ?thesis by auto
  qed
qed

lemma record_header_enough:
  assumes "5 - length (td_record_header (tls_dir d (fst w))) \<le> length xs"
  shows "record_header_round captured d (xs @ ys) w =
    (case record_header_round captured d xs w of Inl r \<Rightarrow> Inl r | Inr (bs', w') \<Rightarrow> Inr (bs' @ ys, w'))"
  by (simp only: record_header_round_def Let_def cut_enough [OF assms] open_tls_record_append) (rule append_if)

lemma record_header_partial:
  assumes "length xs < 5 - length (td_record_header (tls_dir d (fst w)))" "td_record_remaining (tls_dir d (fst w)) = 0"
  shows "\<exists>w'. record_header_round captured d xs w = Inr ([], w') \<and> in_record_header (tls_dir d (fst w')) \<and>
    record_header_round captured d (xs @ ys) w = record_header_round captured d ys w'"
proof -
  let ?t = "take_record_header captured xs (tls_dir d (fst w))"
  let ?w = "(tls_put d ?t (fst w), snd w)"
  have short: "length (td_record_header (tls_dir d (fst w))) + length xs < 5" using assms(1) by linarith
  then have "record_header_round captured d xs w = Inr ([], ?w)" by (simp add: record_header_round_def Let_def)
  moreover have "in_record_header (tls_dir d (fst ?w))" using short assms(2) by (simp add: in_record_header_def)
  moreover have "record_header_round captured d (xs @ ys) w = record_header_round captured d ys ?w"
    by (simp only: record_header_round_def Let_def cut_partial [OF assms(1)] fst_conv snd_conv tls_dir_put tls_put_put
        take_record_header_twice take_header_fields) (simp only: length_append diff_diff_left add.assoc)
  ultimately show ?thesis by blast
qed

lemma record_body_enough:
  assumes "td_record_remaining (tls_dir d (fst w)) \<le> length xs"
  shows "record_body_round captured d (xs @ ys) w =
    (case record_body_round captured d xs w of Inl r \<Rightarrow> Inl r | Inr (bs', w') \<Rightarrow> Inr (bs' @ ys, w'))"
  by (simp only: record_body_round_def Let_def cut_enough [OF assms]) (simp split: prod.split)

text \<open>The bytes of a record, by its type, as one function of the chunk.\<close>

definition record_chunk :: "int option \<Rightarrow> packet_direction \<Rightarrow> u8 list \<Rightarrow> tls_work \<Rightarrow> tls_framer_error \<times> tls_work" where
  "record_chunk captured d chunk w =
     (if td_record_type (tls_dir d (fst w)) \<noteq> 22
      then (TlsNone, tls_put d (take_control_bytes captured chunk (tls_dir d (fst w))) (fst w), snd w)
      else handshake_loop captured d chunk w)"

lemma record_chunk_rest:
  "record_chunk captured d chunk w = (TlsNone, w') \<Longrightarrow>
     td_record_remaining (tls_dir d (fst w')) = td_record_remaining (tls_dir d (fst w)) - length chunk \<and> same_record d w w'"
  by (auto simp: record_chunk_def take_control_bytes_def split: if_splits dest!: handshake_loop_rest)

lemma record_chunk_append:
  "record_chunk captured d (xs @ ys) w =
     (case record_chunk captured d xs w of (e, w') \<Rightarrow> if e = TlsNone then record_chunk captured d ys w' else (e, w'))"
proof (cases "td_record_type (tls_dir d (fst w)) = 22")
  case False
  then show ?thesis
    by (simp add: record_chunk_def take_control_bytes_twice)  (simp add: take_control_bytes_def)
next
  case True
  have "td_record_type (tls_dir d (fst w')) = 22" if "handshake_loop captured d xs w = (TlsNone, w')" for w'
    using handshake_loop_rest [OF that] True by simp
  with True show ?thesis by (auto simp: record_chunk_def handshake.loop_append split: prod.split)
qed

lemma record_body_chunk:
  "record_body_round captured d bs w =
     (let count = min (td_record_remaining (tls_dir d (fst w))) (length bs) in
      case record_chunk captured d (take count bs) w of
        (e, w') \<Rightarrow>
          if e \<noteq> TlsNone then Inl (e, w')
          else Inr (drop count bs, if td_record_remaining (tls_dir d (fst w')) = 0 then finish_tls_record d w' else w'))"
  by (simp add: record_body_round_def record_chunk_def Let_def)

lemma record_body_partial:
  assumes "length xs < td_record_remaining (tls_dir d (fst w))"
  shows "(\<exists>r. record_body_round captured d xs w = Inl r \<and> record_body_round captured d (xs @ ys) w = Inl r) \<or>
    (\<exists>w'. record_body_round captured d xs w = Inr ([], w') \<and> \<not> in_record_header (tls_dir d (fst w')) \<and>
       record_body_round captured d (xs @ ys) w = record_body_round captured d ys w')"
proof -
  obtain e w1 where c: "record_chunk captured d xs w = (e, w1)" by (cases "record_chunk captured d xs w")
  note whole = record_body_chunk [of captured d "xs @ ys" w, unfolded Let_def cut_partial [OF assms] record_chunk_append c]
  have first: "record_body_round captured d xs w = (case (e, w1) of (e, w') \<Rightarrow> if e \<noteq> TlsNone then Inl (e, w')
      else Inr ([], if td_record_remaining (tls_dir d (fst w')) = 0 then finish_tls_record d w' else w'))"
    using assms by (simp add: record_body_chunk c Let_def)
  show ?thesis
  proof (cases "e = TlsNone")
    case True
    have left: "td_record_remaining (tls_dir d (fst w1)) = td_record_remaining (tls_dir d (fst w)) - length xs"
      using record_chunk_rest c True by blast
    have "record_body_round captured d (xs @ ys) w = record_body_round captured d ys w1"
      using whole True by (simp add: record_body_chunk [of captured d ys w1] left Let_def)
    moreover have "record_body_round captured d xs w = Inr ([], w1)" using first True left assms by simp
    moreover have "\<not> in_record_header (tls_dir d (fst w1))" using left assms by (simp add: in_record_header_def)
    ultimately show ?thesis by blast
  next
    case False
    with first whole show ?thesis by simp
  qed
qed

lemma record_round_append:
  assumes "xs \<noteq> []"
  shows "record_round captured d (xs @ ys) w =
      (case record_round captured d xs w of Inl r \<Rightarrow> Inl r | Inr (bs', w') \<Rightarrow> Inr (bs' @ ys, w')) \<or>
    (\<exists>w'. record_round captured d xs w = Inr ([], w') \<and>
       record_round captured d (xs @ ys) w = record_round captured d ys w')"
proof (cases "in_record_header (tls_dir d (fst w))")
  case True
  show ?thesis
  proof (cases "5 - length (td_record_header (tls_dir d (fst w))) \<le> length xs")
    case enough: True
    with True record_header_enough [OF enough] show ?thesis by (simp add: record_round_def)
  next
    case partial: False
    then obtain w' where "record_header_round captured d xs w = Inr ([], w')" "in_record_header (tls_dir d (fst w'))"
      "record_header_round captured d (xs @ ys) w = record_header_round captured d ys w'"
      using record_header_partial [of xs d w captured ys] True by (auto simp: in_record_header_def)
    with True show ?thesis by (auto simp: record_round_def)
  qed
next
  case False
  show ?thesis
  proof (cases "td_record_remaining (tls_dir d (fst w)) \<le> length xs")
    case enough: True
    with False record_body_enough [OF enough] show ?thesis by (simp add: record_round_def)
  next
    case partial: False
    then consider r where "record_body_round captured d xs w = Inl r" "record_body_round captured d (xs @ ys) w = Inl r"
      | w' where "record_body_round captured d xs w = Inr ([], w')" "\<not> in_record_header (tls_dir d (fst w'))"
        "record_body_round captured d (xs @ ys) w = record_body_round captured d ys w'"
      using record_body_partial [of xs d w captured ys] by auto
    then show ?thesis by cases (use False in \<open>auto simp: record_round_def\<close>)
  qed
qed

lemma record_round_error: "record_round captured d bs w = Inl (e, w') \<Longrightarrow> e \<noteq> TlsNone"
  by (auto simp: record_round_def record_header_round_def record_body_round_def open_tls_record_def refuse_def Let_def
      split: prod.splits if_splits)

interpretation records: byte_rounds "record_round captured d" "record_loop captured d"
    "\<lambda>bs w. 2 * length bs + stuck_record (tls_dir d (fst w))" TlsNone
  for captured d
proof unfold_locales
  show "record_loop captured d bs w = (if bs = [] then (TlsNone, w) else
      case record_round captured d bs w of Inl r \<Rightarrow> r | Inr (bs', w') \<Rightarrow> record_loop captured d bs' w')" for bs w
    by (subst record_loop.simps) simp
next
  note cases = round_append_cases [where step = "record_round captured d", OF record_round_append]
  show "record_round captured d xs w = Inl r \<Longrightarrow> xs \<noteq> [] \<Longrightarrow> record_round captured d (xs @ ys) w = Inl r" for xs ys w r
    using cases(1) [where xs = xs and ys = ys and s = w] by blast
  show "record_round captured d xs w = Inr (xs', w') \<Longrightarrow> xs \<noteq> [] \<Longrightarrow> xs' \<noteq> [] \<Longrightarrow>
    record_round captured d (xs @ ys) w = Inr (xs' @ ys, w')" for xs ys w xs' w'
    using cases(2) [where xs = xs and ys = ys and s = w] by blast
  show "record_round captured d xs w = Inr ([], w') \<Longrightarrow> xs \<noteq> [] \<Longrightarrow> ys \<noteq> [] \<Longrightarrow>
    record_round captured d (xs @ ys) w = Inr (ys, w') \<or>
    record_round captured d (xs @ ys) w = record_round captured d ys w'" for xs ys w w'
    using cases(3) [where xs = xs and ys = ys and s = w] by blast
qed (fact record_round_smaller record_round_error)+

section \<open>Slices of an event\<close>

text \<open>The rounds neither read the offset expected next nor the events already emitted.\<close>

definition moved :: "packet_direction \<Rightarrow> nat \<Rightarrow> tls_framed list \<Rightarrow> tls_work \<Rightarrow> tls_work" where
  "moved d n pre w = (tls_put d ((tls_dir d (fst w))\<lparr>td_next_offset := n\<rparr>) (fst w), pre @ snd w)"

lemma tls_fail_moved [simp]:
  "tls_fail (tls_put d ((tls_dir d f)\<lparr>td_next_offset := n\<rparr>) f) =
     tls_put d ((tls_dir d (tls_fail f))\<lparr>td_next_offset := n\<rparr>) (tls_fail f)"
  by (cases d) (simp_all add: tls_fail_def silence_def)

lemma no_candidate_moved [simp]:
  "no_candidate d (tls_put d ((tls_dir d f)\<lparr>td_next_offset := n\<rparr>) f) =
     tls_put d ((tls_dir d (no_candidate d f))\<lparr>td_next_offset := n\<rparr>) (no_candidate d f)"
  by (cases d) (auto simp add: no_candidate_def silence_def Let_def)

lemma direction_steps_moved [simp]:
  "reset_message (t\<lparr>td_next_offset := n\<rparr>) = (reset_message t)\<lparr>td_next_offset := n\<rparr>"
  "reset_record (t\<lparr>td_next_offset := n\<rparr>) = (reset_record t)\<lparr>td_next_offset := n\<rparr>"
  "take_message_header captured chunk (t\<lparr>td_next_offset := n\<rparr>) = (take_message_header captured chunk t)\<lparr>td_next_offset := n\<rparr>"
  "take_message_body captured chunk (t\<lparr>td_next_offset := n\<rparr>) = (take_message_body captured chunk t)\<lparr>td_next_offset := n\<rparr>"
  "take_record_header captured chunk (t\<lparr>td_next_offset := n\<rparr>) = (take_record_header captured chunk t)\<lparr>td_next_offset := n\<rparr>"
  "take_control_bytes captured chunk (t\<lparr>td_next_offset := n\<rparr>) = (take_control_bytes captured chunk t)\<lparr>td_next_offset := n\<rparr>"
  by (cases t; simp add: reset_message_def reset_record_def take_message_header_def take_message_body_def
      take_record_header_def take_control_bytes_def Let_def)+

lemma finish_tls_message_moved:
  "finish_tls_message d (moved d n pre w) = map_prod id (moved d n pre) (finish_tls_message d w)"
  by (auto simp: finish_tls_message_def moved_def tls_message_event_def Let_def
      split: prod.split sum.split tls_hello_error.split)

lemma finish_tls_record_moved: "finish_tls_record d (moved d n pre w) = moved d n pre (finish_tls_record d w)"
  by (auto simp: finish_tls_record_def moved_def tls_record_event_def Let_def split: prod.split)

abbreviation round_moved :: "packet_direction \<Rightarrow> nat \<Rightarrow> tls_framed list \<Rightarrow> tls_round \<Rightarrow> tls_round" where
  "round_moved d n pre \<equiv> map_sum (map_prod id (moved d n pre)) (map_prod id (moved d n pre))"

lemma announce_accept_moved [simp]:
  "announce_message d (tls_put d ((tls_dir d f)\<lparr>td_next_offset := n\<rparr>) f) =
     tls_put d ((tls_dir d (announce_message d f))\<lparr>td_next_offset := n\<rparr>) (announce_message d f)"
  "accept_message d (tls_put d ((tls_dir d f)\<lparr>td_next_offset := n\<rparr>) f) =
     tls_put d ((tls_dir d (accept_message d f))\<lparr>td_next_offset := n\<rparr>) (accept_message d f)"
  by (cases d; cases "tls_dir d f"; simp add: announce_message_def accept_message_def Let_def)+

lemma open_tls_message_moved: "open_tls_message d rest (moved d n pre w) = round_moved d n pre (open_tls_message d rest w)"
proof -
  have finish: "finish_tls_message d (tls_put d ((tls_dir d f)\<lparr>td_next_offset := n\<rparr>) f, pre @ out) =
      map_prod id (moved d n pre) (finish_tls_message d (f, out))" for f out
    using finish_tls_message_moved [of d n pre "(f, out)"] by (simp add: moved_def)
  show ?thesis
    by (cases "finish_tls_message d (accept_message d (announce_message d (fst w)), snd w)")
      (auto simp: open_tls_message_def Let_def moved_def finish min_def)
qed

lemma open_tls_record_moved: "open_tls_record d rest (moved d n pre w) = round_moved d n pre (open_tls_record d rest w)"
proof -
  have begin_record: "t\<lparr>td_next_offset := n, td_first_record_checked := c, td_record_type := y, td_record_length := k,
      td_record_remaining := r\<rparr> = t\<lparr>td_first_record_checked := c, td_record_type := y, td_record_length := k,
      td_record_remaining := r, td_next_offset := n\<rparr>" for t :: tls_direction and c y k r
    by (cases t) simp
  show ?thesis
    by (cases w) (simp add: open_tls_record_def refuse_def begin_record Let_def moved_def split: prod.split)
qed

lemma handshake_round_moved:
  "handshake_round captured d bs (moved d n pre w) = round_moved d n pre (handshake_round captured d bs w)"
proof -
  have finish: "finish_tls_message d (tls_put d (t\<lparr>td_next_offset := n\<rparr>) f, pre @ out) =
      map_prod id (moved d n pre) (finish_tls_message d (tls_put d t f, out))" for t f out
    using finish_tls_message_moved [of d n pre "(tls_put d t f, out)"] by (simp add: moved_def)
  have open_message: "open_tls_message d rest (tls_put d (t\<lparr>td_next_offset := n\<rparr>) f, pre @ out) =
      round_moved d n pre (open_tls_message d rest (tls_put d t f, out))" for rest t f out
    using open_tls_message_moved [of d rest n pre "(tls_put d t f, out)"] by (simp add: moved_def)
  have "message_header_round captured d bs (moved d n pre w) = round_moved d n pre (message_header_round captured d bs w)"
    by (simp add: message_header_round_def moved_def open_message Let_def del: length_append length_take)
  moreover have "message_body_round captured d bs (moved d n pre w) = round_moved d n pre (message_body_round captured d bs w)"
    by (auto simp: message_body_round_def moved_def finish Let_def split: prod.split)
  ultimately show ?thesis by (simp add: handshake_round_def in_message_header_def moved_def)
qed

lemma record_round_moved:
  "record_round captured d bs (moved d n pre w) = round_moved d n pre (record_round captured d bs w)"
proof -
  have open_record: "open_tls_record d rest (tls_put d (t\<lparr>td_next_offset := n\<rparr>) f, pre @ out) =
      round_moved d n pre (open_tls_record d rest (tls_put d t f, out))" for rest t f out
    using open_tls_record_moved [of d rest n pre "(tls_put d t f, out)"] by (simp add: moved_def)
  have "record_header_round captured d bs (moved d n pre w) = round_moved d n pre (record_header_round captured d bs w)"
    by (simp add: record_header_round_def moved_def open_record Let_def del: length_append length_take)
  moreover have left: "td_record_remaining (tls_dir d (fst (moved d n pre u))) = td_record_remaining (tls_dir d (fst u))" for u
    by (simp add: moved_def)
  moreover have chunk: "record_chunk captured d c (moved d n pre w) = map_prod id (moved d n pre) (record_chunk captured d c w)" for c
    by (auto simp: record_chunk_def handshake.loop_carried [OF handshake_round_moved]) (simp_all add: moved_def)
  moreover have "record_body_round captured d bs (moved d n pre w) = round_moved d n pre (record_body_round captured d bs w)"
    by (cases "record_chunk captured d (take (min (td_record_remaining (tls_dir d (fst w))) (length bs)) bs) w")
      (simp add: record_body_chunk chunk left Let_def finish_tls_record_moved)
  ultimately show ?thesis by (simp add: record_round_def in_record_header_def moved_def)
qed

lemma record_loop_moved:
  "record_loop captured d bs (moved d n pre w) = map_prod id (moved d n pre) (record_loop captured d bs w)"
  by (rule records.loop_carried) (rule record_round_moved)

text \<open>While no error is reported the direction stays open, and expects the offset it was told.\<close>

abbreviation still_open :: "packet_direction \<Rightarrow> tls_framer \<Rightarrow> tls_framer \<Rightarrow> bool" where
  "still_open d f f' \<equiv> tl_closed f' = tl_closed f \<and> td_disabled (tls_dir d f') = td_disabled (tls_dir d f) \<and>
     td_next_offset (tls_dir d f') = td_next_offset (tls_dir d f)"

lemma direction_steps_open [simp]:
  "still_open d f (announce_message d f)" "still_open d f (accept_message d f)"
  "still_open d f (tls_put d (take_message_header captured chunk (tls_dir d f)) f)"
  "still_open d f (tls_put d (take_message_body captured chunk (tls_dir d f)) f)"
  "still_open d f (tls_put d (take_record_header captured chunk (tls_dir d f)) f)"
  "still_open d f (tls_put d (take_control_bytes captured chunk (tls_dir d f)) f)"
  "still_open d f (tls_put d (reset_message (tls_dir d f)) f)"
  "still_open d f (tls_put d (reset_record (tls_dir d f)) f)"
  by (simp_all add: announce_message_def accept_message_def take_message_header_def take_message_body_def
      take_record_header_def take_control_bytes_def reset_message_def reset_record_def Let_def)

lemma finish_tls_message_open: "finish_tls_message d w = (TlsNone, w') \<Longrightarrow> still_open d (fst w) (fst w')"
  by (auto simp: finish_tls_message_def reset_message_def Let_def split: prod.splits if_splits sum.splits tls_hello_error.splits)

lemma finish_tls_record_open: "still_open d (fst w) (fst (finish_tls_record d w))"
  by (auto simp: finish_tls_record_def reset_record_def Let_def split: prod.split)

lemma open_tls_message_open: "open_tls_message d rest w = Inr (bs', w') \<Longrightarrow> still_open d (fst w) (fst w')"
  by (auto simp: open_tls_message_def Let_def dest!: finish_tls_message_open split: if_splits prod.splits)

lemma handshake_round_open:
  assumes "handshake_round captured d bs w = Inr (bs', w')"
  shows "still_open d (fst w) (fst w')"
proof -
  note steps = direction_steps_open(3,4) [where d = d and f = "fst w" and captured = captured]
  have "still_open d (fst w) (fst w')" if "message_header_round captured d bs w = Inr (bs', w')"
    using that steps(1) by (auto simp: message_header_round_def Let_def dest!: open_tls_message_open split: if_splits)
  moreover have "still_open d (fst w) (fst w')" if "message_body_round captured d bs w = Inr (bs', w')"
    using that steps(2) by (auto simp: message_body_round_def Let_def dest!: finish_tls_message_open split: if_splits prod.splits)
  ultimately show ?thesis using assms by (auto simp: handshake_round_def split: if_splits)
qed

lemma handshake_loop_open:
  assumes "handshake_loop captured d bs w = (TlsNone, w')"
  shows "still_open d (fst w) (fst w')"
  by (rule handshake.loop_related [OF assms])
    (auto intro: reflpI transpI simp: handshake_round_open)

lemma record_round_open:
  assumes "record_round captured d bs w = Inr (bs', w')"
  shows "still_open d (fst w) (fst w')"
proof -
  note steps = direction_steps_open(5,6) [where d = d and f = "fst w" and captured = captured]
  have "still_open d (fst w) (fst w')" if "record_header_round captured d bs w = Inr (bs', w')"
    using that steps(1)
    by (auto simp: record_header_round_def open_tls_record_def refuse_def Let_def split: if_splits prod.splits)
  moreover have chunk: "still_open d (fst w) (fst u)" if "record_chunk captured d c w = (TlsNone, u)" for c u
    using that steps(2) handshake_loop_open by (auto simp: record_chunk_def split: if_splits)
  moreover have "still_open d (fst w) (fst w')" if "record_body_round captured d bs w = Inr (bs', w')"
    using that chunk finish_tls_record_open
    by (auto simp: record_body_chunk Let_def split: if_splits prod.splits)
  ultimately show ?thesis using assms by (auto simp: record_round_def split: if_splits)
qed

lemma record_loop_open:
  assumes "record_loop captured d bs w = (TlsNone, w')"
  shows "still_open d (fst w) (fst w')"
  by (rule records.loop_related [OF assms])
    (auto intro: reflpI transpI simp: record_round_open)

text \<open>The data event that carries these bytes from this offset.\<close>

definition data_slice :: "tcp_stream_event \<Rightarrow> nat \<Rightarrow> u8 list \<Rightarrow> tcp_stream_event" where
  "data_slice ev from bs =
     ev\<lparr>ev_kind := EventData, ev_begin := from, ev_end := from + length bs, ev_bytes := Bytes bs\<rparr>"

definition forget_offset :: "packet_direction \<Rightarrow> tls_framer \<Rightarrow> tls_framer" where
  "forget_offset d f = tls_put d ((tls_dir d f)\<lparr>td_next_offset := 0\<rparr>) f"

lemma consume_data_slice:
  assumes "bs \<noteq> []"
  shows "tls_consume cx (data_slice ev from bs) f =
    (let d = cx_direction cx; t = tls_dir d f in
     if tl_closed f \<or> td_disabled t then (TlsNone, f, [])
     else if cx_origin cx \<noteq> OriginSyn then
       (case refuse TlsUnsupportedFraming TlsMidstream d f of (e, f') \<Rightarrow> (e, f', []))
     else if from \<noteq> td_next_offset t then (case refuse TlsUnsupportedFraming TlsNotTls d f of (e, f') \<Rightarrow> (e, f', []))
     else record_loop (ev_captured_at_ns ev) d bs (moved d (from + length bs) [] (f, [])))"
  using assms by (simp add: tls_consume_def data_slice_def moved_def Let_def)

lemma moved_moved [simp]: "moved d n pre (moved d m pre' w) = moved d n (pre @ pre') w"
  by (simp add: moved_def)

lemma moved_same: "moved d n [] w = w \<Longrightarrow> moved d n pre w = (fst w, pre @ snd w)"
  by (cases w) (simp add: moved_def)

text \<open>Two slices of a direction in good order.\<close>

lemma record_loop_slices:
  assumes first: "record_loop captured d xs (moved d m [] w) = (e1, w1)"
  shows "record_loop captured d (xs @ ys) (moved d n [] w) =
    (if e1 = TlsNone
     then (case record_loop captured d ys (moved d n [] (fst w1, [])) of (e2, w2) \<Rightarrow> (e2, fst w2, snd w1 @ snd w2))
     else (e1, moved d n [] w1))"
proof -
  have xs: "record_loop captured d xs (moved d n [] w) = (e1, moved d n [] w1)"
    using record_loop_moved [of captured d xs n "[]" "moved d m [] w"] first by simp
  obtain e2 w2 where ys: "record_loop captured d ys (moved d n [] (fst w1, [])) = (e2, w2)"
    by (cases "record_loop captured d ys (moved d n [] (fst w1, []))")
  have "moved d n [] w2 = w2" using record_loop_moved [of captured d ys n "[]" "moved d n [] (fst w1, [])"] ys by simp
  moreover have "moved d n [] w1 = moved d n (snd w1) (moved d n [] (fst w1, []))" by (simp add: moved_def)
  ultimately have "record_loop captured d ys (moved d n [] w1) = (e2, fst w2, snd w1 @ snd w2)"
    using record_loop_moved [of captured d ys n "snd w1" "moved d n [] (fst w1, [])"] ys moved_same [of d n w2] by simp
  then show ?thesis by (simp add: records.loop_append xs ys)
qed

text \<open>
  C31. The framer of the TLS module does not depend on how the bytes of a direction are cut into data
  events: consuming two consecutive slices, the second only where the first reports no error, gives
  the error, the framed events, the framer and with it every later behaviour of the one event that
  carries both. After an error the two framers differ at most in the offset that the direction
  that failed would expect next.
\<close>

theorem tls_segmentation_independent:
  fixes f :: tls_framer
  assumes "xs \<noteq> []" "ys \<noteq> []"
  shows "case tls_consume cx (data_slice ev from xs) f of (e1, f1, out1) \<Rightarrow>
    (case tls_consume cx (data_slice ev from (xs @ ys)) f of (e, f', out) \<Rightarrow>
       if e1 = TlsNone
       then (case tls_consume cx (data_slice ev (from + length xs) ys) f1 of (e2, f2, out2) \<Rightarrow>
               e = e2 \<and> f' = f2 \<and> out = out1 @ out2)
       else e = e1 \<and> out = out1 \<and> forget_offset (cx_direction cx) f' = forget_offset (cx_direction cx) f1)"
proof (cases "tl_closed f \<or> td_disabled (tls_dir (cx_direction cx) f) \<or> cx_origin cx \<noteq> OriginSyn \<or>
    from \<noteq> td_next_offset (tls_dir (cx_direction cx) f)")
  case True
  with assms show ?thesis by (auto simp: consume_data_slice refuse_def Let_def split: prod.split)
next
  case False
  define d where "d = cx_direction cx"
  define c where "c = ev_captured_at_ns ev"
  let ?mid = "from + length xs" and ?stop = "from + length (xs @ ys)"
  have first: "tls_consume cx (data_slice ev from xs) f = record_loop c d xs (moved d ?mid [] (f, []))"
    and whole: "tls_consume cx (data_slice ev from (xs @ ys)) f = record_loop c d (xs @ ys) (moved d ?stop [] (f, []))"
    using False assms by (auto simp: consume_data_slice c_def d_def Let_def)
  obtain e1 f1 out1 where r: "record_loop c d xs (moved d ?mid [] (f, [])) = (e1, f1, out1)"
    by (cases "record_loop c d xs (moved d ?mid [] (f, []))")
  note both = record_loop_slices [OF r, of ys ?stop]
  show ?thesis
  proof (cases "e1 = TlsNone")
    case True
    have "still_open d (fst (moved d ?mid [] (f, []))) f1" using record_loop_open [of c d xs _ "(f1, out1)"] r True by simp
    then have "tls_consume cx (data_slice ev ?mid ys) f1 = record_loop c d ys (moved d ?stop [] (f1, []))"
      using False assms by (simp add: consume_data_slice moved_def c_def d_def Let_def add.assoc)
    with True first whole r both show ?thesis by (auto split: prod.split)
  next
    case False
    with first whole r both show ?thesis by (auto simp: forget_offset_def moved_def d_def)
  qed
qed

text \<open>A record header cut in two, then an empty ClientHello, which the whole and the parts refuse alike.\<close>

definition client_context :: tcp_stream_context where
  "client_context =
     \<lparr>cx_session = Some 7, cx_direction = AToB, cx_origin = OriginSyn, cx_capture_truncation_seen = False,
      cx_final_drain = False, cx_observed_at_ns = 5\<rparr>"

theorem tls_segmentation_independent_witness:
  "(case tls_consume client_context (data_slice default_event 0 [22, 3, 1]) (new_tls_framer 4096) of (e1, f1, out1) \<Rightarrow>
     e1 = TlsNone \<and>
     (case tls_consume client_context (data_slice default_event 0 ([22, 3, 1] @ [0, 4, 1, 0, 0, 0])) (new_tls_framer 4096) of
        (e, f', out) \<Rightarrow>
          if e1 = TlsNone
          then (case tls_consume client_context (data_slice default_event (0 + length [22 :: u8, 3, 1]) [0, 4, 1, 0, 0, 0]) f1 of
                  (e2, f2, out2) \<Rightarrow> e = e2 \<and> f' = f2 \<and> out = out1 @ out2)
          else e = e1 \<and> out = out1 \<and>
            forget_offset (cx_direction client_context) f' = forget_offset (cx_direction client_context) f1)) \<and>
   fst (tls_consume client_context (data_slice default_event 0 ([22, 3, 1] @ [0, 4, 1, 0, 0, 0])) (new_tls_framer 4096)) =
     TlsMalformedHello"
proof -
  note evaluate = tls_consume_def data_slice_def client_context_def default_event_def new_tls_framer_def new_tls_direction_def
    record_round_def in_record_header_def record_header_round_def take_record_header_def open_tls_record_def
    record_header_ok_def read_be16_def record_body_round_def handshake_round_def in_message_header_def
    message_header_round_def take_message_header_def open_tls_message_def announce_message_def accept_message_def
    message_length_def finish_tls_message_def is_hello_def parse_tls_hello_def parse_client_def hello_prefix_def Let_def
  have "fst (tls_consume client_context (data_slice default_event 0 [22, 3, 1]) (new_tls_framer 4096)) = TlsNone"
    by (simp add: evaluate record_loop.simps)
  moreover have "fst (tls_consume client_context (data_slice default_event 0 ([22, 3, 1] @ [0, 4, 1, 0, 0, 0])) (new_tls_framer 4096)) =
      TlsMalformedHello"
    by (simp add: evaluate record_loop.simps handshake_loop.simps)
  ultimately show ?thesis
    using tls_segmentation_independent [of "[22, 3, 1]" "[0, 4, 1, 0, 0, 0]" client_context default_event 0 "new_tls_framer 4096"]
    by (auto split: prod.splits)
qed

end
