(* ===== verification/TlsFramerBounds.thy ===== *)
theory TlsFramerBounds
  imports TlsFramerProps
begin

text \<open>
  What the TLS framer retains: an open direction holds the bytes of one Hello that fits the configured
  size, a closed one no more, whatever events arrive.
\<close>

section \<open>Bounded retention\<close>

definition hello_limit :: "tls_framer \<Rightarrow> nat" where
  "hello_limit f = tl_max_hello_bytes f - min (tl_max_hello_bytes f) 4"

text \<open>
  An open direction retains bytes only inside a Hello that fits, and a direction that no longer
  reads retains no more.
\<close>

definition hello_fits :: "nat \<Rightarrow> tls_direction \<Rightarrow> bool" where
  "hello_fits limit t \<longleftrightarrow>
     (length (td_handshake_header t) < 4 \<longrightarrow> td_handshake_remaining t = 0 \<and> td_hello_bytes t = []) \<and>
     (if is_hello (td_message_type t) then length (td_hello_bytes t) + td_handshake_remaining t \<le> limit
      else td_hello_bytes t = [])"

definition retention_ok :: "nat \<Rightarrow> tls_direction \<Rightarrow> bool" where
  "retention_ok limit t \<longleftrightarrow> length (td_hello_bytes t) \<le> limit \<and> (td_disabled t \<or> hello_fits limit t)"

abbreviation framer_ok :: "tls_framer \<Rightarrow> bool" where
  "framer_ok f \<equiv> \<forall>d. retention_ok (hello_limit f) (tls_dir d f)"

abbreviation work_ok :: "packet_direction \<Rightarrow> tls_framer \<Rightarrow> bool" where
  "work_ok d f \<equiv> hello_fits (hello_limit f) (tls_dir d f) \<and> framer_ok f"

lemma hello_fits_ok: "hello_fits limit t \<Longrightarrow> retention_ok limit t"
  by (auto simp: hello_fits_def retention_ok_def split: if_splits)

lemma hello_limit_put [simp]: "hello_limit (tls_put d t f) = hello_limit f"
  by (simp add: hello_limit_def)

lemma work_ok_put: "framer_ok f \<Longrightarrow> hello_fits (hello_limit f) t \<Longrightarrow> work_ok d (tls_put d t f)"
  by (metis hello_fits_ok hello_limit_put tls_dir_put)

lemma tls_framer_ok_put: "framer_ok f \<Longrightarrow> retention_ok (hello_limit f) t \<Longrightarrow> framer_ok (tls_put d t f)"
  by (metis hello_limit_put tls_dir_put)

lemma silence_ok [simp]: "retention_ok limit (silence t)"
  by (simp add: retention_ok_def silence_def)

lemma tls_fail_ok: "framer_ok (tls_fail f)"
proof -
  have "tls_dir d (tls_fail f) = silence (tls_dir d f)" for d by (cases d) (simp_all add: tls_fail_def)
  then show ?thesis by simp
qed

lemma no_candidate_ok: "framer_ok f \<Longrightarrow> framer_ok (no_candidate d f)"
proof -
  assume "framer_ok f"
  then have "framer_ok (tls_put d (silence (tls_dir d f)) f)" by (rule tls_framer_ok_put) simp
  moreover have "tls_dir d' (f\<lparr>tl_closed := c\<rparr>) = tls_dir d' f" "hello_limit (f\<lparr>tl_closed := c\<rparr>) = hello_limit f" for d' c f
    by (cases d') (simp_all add: hello_limit_def)
  ultimately show ?thesis by (simp add: no_candidate_def Let_def)
qed

lemma refuse_ok: "framer_ok f \<Longrightarrow> refuse a b d f = (e, f') \<Longrightarrow> framer_ok f'"
  using tls_fail_ok no_candidate_ok by (auto simp: refuse_def split: if_splits)

text \<open>The steps of a direction keep its Hello within the limit.\<close>

lemma reset_message_fits [simp]: "hello_fits limit (reset_message t)"
  by (simp add: hello_fits_def reset_message_def is_hello_def)

lemma reset_record_fits [simp]: "hello_fits limit (reset_record t) = hello_fits limit t"
  by (simp add: hello_fits_def reset_record_def)

lemma take_fits [simp]:
  "hello_fits limit (take_record_header captured chunk t) = hello_fits limit t"
  "hello_fits limit (take_control_bytes captured chunk t) = hello_fits limit t"
  by (simp_all add: hello_fits_def take_record_header_def take_control_bytes_def)

lemma take_message_header_fits:
  "hello_fits limit t \<Longrightarrow> length (td_handshake_header t) < 4 \<Longrightarrow> hello_fits limit (take_message_header captured chunk t)"
  by (auto simp: hello_fits_def take_message_header_def Let_def)

lemma take_message_body_fits:
  "hello_fits limit t \<Longrightarrow> \<not> in_message_header t \<Longrightarrow> length chunk \<le> td_handshake_remaining t \<Longrightarrow>
     hello_fits limit (take_message_body captured chunk t)"
  by (auto simp: hello_fits_def take_message_body_def in_message_header_def split: if_splits)

lemma finish_tls_message_ok:
  assumes "finish_tls_message d w = (e, w')" "framer_ok (fst w)"
  shows "framer_ok (fst w')" "e = TlsNone \<Longrightarrow> work_ok d (fst w')"
proof -
  have "work_ok d (tls_put d (reset_message (tls_dir d f)) f)" if "framer_ok f" for f
    using that by (rule work_ok_put) simp
  then show "framer_ok (fst w')" "e = TlsNone \<Longrightarrow> work_ok d (fst w')"
    using assms tls_fail_ok
    by (auto simp: finish_tls_message_def Let_def split: prod.splits if_splits sum.splits tls_hello_error.splits)
qed

text \<open>Rounds and loops: an error leaves the framer within its limit, success the direction too.\<close>

abbreviation round_ok :: "packet_direction \<Rightarrow> tls_round \<Rightarrow> bool" where
  "round_ok d r \<equiv> (case r of Inl (e, w') \<Rightarrow> framer_ok (fst w') | Inr (bs', w') \<Rightarrow> work_ok d (fst w'))"

lemma announce_accept_limits [simp]:
  "hello_limit (announce_message d f) = hello_limit f" "hello_limit (accept_message d f) = hello_limit f"
  "tls_dir d (accept_message d f) = (tls_dir d f)\<lparr>td_first_message_seen := True\<rparr>"
  "d' \<noteq> d \<Longrightarrow> tls_dir d' (announce_message d f) = tls_dir d' f"
  "d' \<noteq> d \<Longrightarrow> tls_dir d' (accept_message d f) = tls_dir d' f"
  by (cases d; cases d'; simp add: announce_message_def accept_message_def hello_limit_def Let_def)+

lemma open_tls_message_ok:
  assumes ok: "work_ok d (fst w)" and header: "td_hello_bytes (tls_dir d (fst w)) = []"
    and full: "length (td_handshake_header (tls_dir d (fst w))) = 4"
  shows "round_ok d (open_tls_message d rest w)"
proof -
  let ?f = "announce_message d (fst w)"
  let ?g = "accept_message d ?f"
  have announced: "retention_ok (hello_limit ?f) (tls_dir d' ?f) \<or> d' = d" for d'
    using ok by (cases "d' = d") simp_all
  have begun: "framer_ok (no_candidate d ?f)"
  proof -
    have "td_hello_bytes (tls_dir d ?f) = []" using header by (simp add: announce_message_def Let_def)
    then have "framer_ok (tls_put d (silence (tls_dir d ?f)) ?f)" using announced by (metis hello_limit_put silence_ok tls_dir_put)
    then have "framer_ok (no_candidate d (tls_put d (silence (tls_dir d ?f)) ?f))" by (rule no_candidate_ok)
    moreover have "no_candidate d (tls_put d (silence t) f) = no_candidate d (tls_put d t f)" for t f
      by (simp add: no_candidate_def silence_def Let_def)
    ultimately show ?thesis by simp
  qed
  have fits: "work_ok d ?g" if "is_hello (td_message_type (tls_dir d ?f)) \<longrightarrow> td_handshake_remaining (tls_dir d ?f) \<le> hello_limit ?f"
  proof -
    have "hello_fits (hello_limit ?g) (tls_dir d ?g)"
      using that header full by (auto simp: hello_fits_def announce_message_def Let_def)
    moreover have "retention_ok (hello_limit ?g) (tls_dir d' ?g)" for d'
      using announced [of d'] calculation hello_fits_ok by (cases "d' = d") auto
    ultimately show ?thesis by blast
  qed
  show ?thesis
    using begun fits tls_fail_ok finish_tls_message_ok [of d "(?g, snd w)"]
    by (auto simp: open_tls_message_def hello_limit_def Let_def split: prod.split)
qed

lemma handshake_round_ok:
  assumes ok: "work_ok d (fst w)"
  shows "round_ok d (handshake_round captured d bs w)"
proof (cases "in_message_header (tls_dir d (fst w))")
  case True
  let ?t = "tls_dir d (fst w)"
  let ?n = "min (4 - length (td_handshake_header ?t)) (length bs)"
  let ?u = "take_message_header captured (take ?n bs) ?t"
  have fits: "work_ok d (tls_put d ?u (fst w))"
    using ok True take_message_header_fits by (intro work_ok_put) (auto simp: in_message_header_def)
  have opened: "round_ok d (open_tls_message d (drop ?n bs) (tls_put d ?u (fst w), snd w))"
    if "\<not> length (td_handshake_header ?u) < 4"
  proof (rule open_tls_message_ok)
    show "work_ok d (fst (tls_put d ?u (fst w), snd w))" using fits by simp
    show "td_hello_bytes (tls_dir d (fst (tls_put d ?u (fst w), snd w))) = []"
      using ok True by (simp add: hello_fits_def in_message_header_def take_message_header_def Let_def)
    show "length (td_handshake_header (tls_dir d (fst (tls_put d ?u (fst w), snd w)))) = 4"
      using that True by (simp add: in_message_header_def min_def split: if_splits)
  qed
  show ?thesis
  proof (cases "length (td_handshake_header ?u) < 4")
    case short: True
    then have "message_header_round captured d bs w = Inr (drop ?n bs, tls_put d ?u (fst w), snd w)"
      unfolding message_header_round_def Let_def by (simp only: tls_dir_put fst_conv if_True)
    with True fits show ?thesis by (simp add: handshake_round_def)
  next
    case False
    then have "message_header_round captured d bs w = open_tls_message d (drop ?n bs) (tls_put d ?u (fst w), snd w)"
      unfolding message_header_round_def Let_def by (simp only: tls_dir_put fst_conv if_False)
    with True opened False show ?thesis by (simp add: handshake_round_def)
  qed
next
  case False
  let ?t = "tls_dir d (fst w)"
  let ?u = "take_message_body captured (take (min (td_handshake_remaining ?t) (length bs)) bs) ?t"
  have fits: "work_ok d (tls_put d ?u (fst w))"
    using ok False take_message_body_fits by (intro work_ok_put) auto
  then show ?thesis
    using False finish_tls_message_ok [of d "(tls_put d ?u (fst w), snd w)"]
    by (auto simp: handshake_round_def message_body_round_def Let_def split: prod.split)
qed

lemma handshake_loop_ok:
  assumes "work_ok d (fst w)" "handshake_loop captured d bs w = (e, w')"
  shows "framer_ok (fst w') \<and> (e = TlsNone \<longrightarrow> work_ok d (fst w'))"
proof (rule handshake.loop_kept [OF assms(2), where P = "\<lambda>w. work_ok d (fst w)" and Q = "\<lambda>w. framer_ok (fst w)"])
  show "work_ok d (fst w') " if "work_ok d (fst w)" "handshake_round captured d bs w = Inr (bs', w')" for bs w bs' w'
    using handshake_round_ok [OF that(1), of captured bs] that(2) by simp
  show "framer_ok (fst w')" if "work_ok d (fst w)" "handshake_round captured d bs w = Inl (e, w')" for bs w e w'
    using handshake_round_ok [OF that(1), of captured bs] that(2) by simp
qed (use assms in auto)

lemma open_tls_record_ok:
  assumes ok: "work_ok d (fst w)"
  shows "round_ok d (open_tls_record d rest w)"
proof -
  have "work_ok d (tls_put d ((tls_dir d (fst w))\<lparr>td_first_record_checked := c, td_record_type := y, td_record_length := k,
      td_record_remaining := r\<rparr>) (fst w))" for c y k r
    using ok by (intro work_ok_put) (simp_all add: hello_fits_def)
  moreover have "framer_ok (no_candidate d (fst w))" using ok no_candidate_ok by blast
  moreover have "framer_ok f'" if "refuse a b d (fst w) = (e, f')" for a b e f' using ok that refuse_ok by blast
  ultimately show ?thesis by (auto simp: open_tls_record_def Let_def split: prod.split)
qed

lemma record_round_ok:
  assumes ok: "work_ok d (fst w)"
  shows "round_ok d (record_round captured d bs w)"
proof -
  have header: "work_ok d (tls_put d (take_record_header captured c (tls_dir d (fst w))) (fst w))" for c
    using ok by (intro work_ok_put) simp_all
  then have "round_ok d (record_header_round captured d bs w)"
    using open_tls_record_ok [where d = d and w = "(tls_put d (take_record_header captured c (tls_dir d (fst w))) (fst w), snd w)" for c]
    by (simp add: record_header_round_def Let_def del: length_append length_take)
  moreover have chunk: "framer_ok (fst w') \<and> (e = TlsNone \<longrightarrow> work_ok d (fst w'))"
    if "record_chunk captured d c w = (e, w')" for c e w'
  proof (cases "td_record_type (tls_dir d (fst w)) = 22")
    case True
    then have "handshake_loop captured d c w = (e, w')" using that by (simp add: record_chunk_def)
    with ok show ?thesis by (rule handshake_loop_ok)
  next
    case False
    have "work_ok d (tls_put d (take_control_bytes captured c (tls_dir d (fst w))) (fst w))"
      using ok by (intro work_ok_put) simp_all
    with that False show ?thesis by (auto simp: record_chunk_def)
  qed
  moreover have finish: "work_ok d (fst (finish_tls_record d u))" if "work_ok d (fst u)" for u
  proof -
    have "work_ok d (tls_put d (reset_record (tls_dir d (fst u))) (fst u))"
      using that by (intro work_ok_put) simp_all
    then show ?thesis by (cases u) (simp add: finish_tls_record_def Let_def)
  qed
  moreover have "round_ok d (record_body_round captured d bs w)"
    using chunk finish by (auto simp: record_body_chunk Let_def split: prod.split)
  ultimately show ?thesis by (simp add: record_round_def)
qed

lemma record_loop_ok:
  assumes "work_ok d (fst w)" "record_loop captured d bs w = (e, w')"
  shows "framer_ok (fst w')"
proof -
  have "framer_ok (fst w') \<and> (e = TlsNone \<longrightarrow> work_ok d (fst w'))"
  proof (rule records.loop_kept [OF assms(2), where P = "\<lambda>w. work_ok d (fst w)" and Q = "\<lambda>w. framer_ok (fst w)"])
    show "work_ok d (fst w') " if "work_ok d (fst w)" "record_round captured d bs w = Inr (bs', w')" for bs w bs' w'
      using record_round_ok [OF that(1), of captured bs] that(2) by simp
    show "framer_ok (fst w')" if "work_ok d (fst w)" "record_round captured d bs w = Inl (e, w')" for bs w e w'
      using record_round_ok [OF that(1), of captured bs] that(2) by simp
  qed (use assms in auto)
  then show ?thesis by blast
qed

lemma tls_stream_end_ok: "framer_ok f \<Longrightarrow> tls_stream_end d f = (e, f') \<Longrightarrow> framer_ok f'"
proof -
  assume ok: "framer_ok f" and eq: "tls_stream_end d f = (e, f')"
  have ended: "retention_ok (hello_limit f) ((tls_dir d f)\<lparr>td_ended := True, td_disabled := True\<rparr>)"
    using ok by (auto simp: retention_ok_def)
  have "framer_ok (tls_put d ((tls_dir d f)\<lparr>td_ended := True, td_disabled := True\<rparr>) f)"
    using ok ended by (rule tls_framer_ok_put)
  moreover have "tls_dir d' (f\<lparr>tl_closed := c\<rparr>) = tls_dir d' f" "hello_limit (f\<lparr>tl_closed := c\<rparr>) = hello_limit f" for d' c f
    by (cases d') (simp_all add: hello_limit_def)
  ultimately show ?thesis using eq tls_fail_ok by (auto simp: tls_stream_end_def Let_def split: if_splits)
qed

lemma tls_consume_ok:
  assumes ok: "framer_ok f" and eq: "tls_consume cx ev f = (e, f', out)"
  shows "framer_ok f'"
proof (cases "tl_closed f \<or> td_disabled (tls_dir (cx_direction cx) f)")
  case True
  with ok eq show ?thesis by (auto simp: tls_consume_def Let_def)
next
  case False
  let ?d = "cx_direction cx"
  let ?t = "tls_dir ?d f"
  have fits: "hello_fits (hello_limit f) ?t" using ok False by (auto simp: retention_ok_def)
  have next_offset: "work_ok ?d (tls_put ?d (?t\<lparr>td_next_offset := n\<rparr>) f)" for n
    using ok fits by (intro work_ok_put) (simp_all add: hello_fits_def)
  have gap: "framer_ok (tls_put ?d (?t\<lparr>td_gap_seen := True, td_next_offset := n\<rparr>) f)" for n
    using ok fits work_ok_put [of f "?t\<lparr>td_gap_seen := True, td_next_offset := n\<rparr>" ?d] by (simp add: hello_fits_def)
  have data: "framer_ok f'" if "record_loop c ?d bs (tls_put ?d (?t\<lparr>td_next_offset := n\<rparr>) f, []) = (e, f', out)" for c bs n
    using record_loop_ok [OF _ that] next_offset by simp
  show ?thesis
    using eq False ok refuse_ok [OF ok] refuse_ok [OF gap] tls_stream_end_ok [OF ok] data
    by (simp add: tls_consume_def Let_def split: if_splits prod.splits tcp_stream_event_kind.splits option.splits)
qed

definition tls_run :: "nat \<Rightarrow> (tcp_stream_context \<times> tcp_stream_event) list \<Rightarrow> tls_framer" where
  "tls_run max_hello = foldl (\<lambda>f (cx, ev). fst (snd (tls_consume cx ev f))) (new_tls_framer max_hello)"

text \<open>No step changes the configured size.\<close>

abbreviation round_size :: "nat \<Rightarrow> tls_round \<Rightarrow> bool" where
  "round_size m r \<equiv> (case r of Inl (e, w') \<Rightarrow> tl_max_hello_bytes (fst w') = m | Inr (bs', w') \<Rightarrow> tl_max_hello_bytes (fst w') = m)"

lemma small_steps_size [simp]:
  "tl_max_hello_bytes (tls_fail f) = tl_max_hello_bytes f"
  "tl_max_hello_bytes (no_candidate d f) = tl_max_hello_bytes f"
  "tl_max_hello_bytes (snd (refuse a b d f)) = tl_max_hello_bytes f"
  "tl_max_hello_bytes (announce_message d f) = tl_max_hello_bytes f"
  "tl_max_hello_bytes (accept_message d f) = tl_max_hello_bytes f"
  "tl_max_hello_bytes (fst (snd (finish_tls_message d w))) = tl_max_hello_bytes (fst w)"
  "tl_max_hello_bytes (fst (finish_tls_record d w)) = tl_max_hello_bytes (fst w)"
  by (simp_all add: tls_fail_def no_candidate_def refuse_def announce_message_def accept_message_def finish_tls_message_def
      finish_tls_record_def Let_def split: prod.split sum.split tls_hello_error.split)

lemma finish_tls_message_size: "finish_tls_message d w = (e, w') \<Longrightarrow> tl_max_hello_bytes (fst w') = tl_max_hello_bytes (fst w)"
  by (metis small_steps_size(6) snd_conv)

lemma refuse_size: "refuse a b d f = (e, f') \<Longrightarrow> tl_max_hello_bytes f' = tl_max_hello_bytes f"
  by (metis small_steps_size(3) snd_conv)

lemma open_tls_size:
  "tl_max_hello_bytes (fst w) = m \<Longrightarrow> round_size m (open_tls_message d rest w)"
  "tl_max_hello_bytes (fst w) = m \<Longrightarrow> round_size m (open_tls_record d rest w)"
  by (auto simp: open_tls_message_def open_tls_record_def Let_def dest: finish_tls_message_size refuse_size
      split: prod.split)

lemma handshake_round_size: "round_size (tl_max_hello_bytes (fst w)) (handshake_round captured d bs w)"
proof -
  have opened: "round_size (tl_max_hello_bytes (fst w)) (open_tls_message d rest (tls_put d t (fst w), snd w))" for rest t
    by (rule open_tls_size(1)) simp
  have "round_size (tl_max_hello_bytes (fst w)) (message_header_round captured d bs w)"
    using opened by (simp add: message_header_round_def Let_def del: length_append length_take)
  moreover have "round_size (tl_max_hello_bytes (fst w)) (message_body_round captured d bs w)"
    by (auto simp: message_body_round_def Let_def dest: finish_tls_message_size split: prod.split)
  ultimately show ?thesis by (simp add: handshake_round_def)
qed

lemma handshake_loop_size: "tl_max_hello_bytes (fst (snd (handshake_loop captured d bs w))) = tl_max_hello_bytes (fst w)"
proof -
  obtain e w' where r: "handshake_loop captured d bs w = (e, w')" by (cases "handshake_loop captured d bs w")
  let ?P = "\<lambda>u. tl_max_hello_bytes (fst u) = tl_max_hello_bytes (fst w)"
  have "?P w' \<and> (e = TlsNone \<longrightarrow> ?P w')"
  proof (rule handshake.loop_kept [OF r, where P = ?P and Q = ?P])
    show "?P u'" if "?P u" "handshake_round captured d bs u = Inr (bs', u')" for bs u bs' u'
      using handshake_round_size [of u captured d bs] that by simp
    show "?P u'" if "?P u" "handshake_round captured d bs u = Inl (e, u')" for bs u e u'
      using handshake_round_size [of u captured d bs] that by simp
  qed auto
  with r show ?thesis by simp
qed

lemma record_round_size: "round_size (tl_max_hello_bytes (fst w)) (record_round captured d bs w)"
proof -
  have "tl_max_hello_bytes (fst w') = tl_max_hello_bytes (fst w)" if "record_chunk captured d c w = (e, w')" for c e w'
    using that handshake_loop_size [of captured d c w] by (auto simp: record_chunk_def split: if_splits)
  then have "round_size (tl_max_hello_bytes (fst w)) (record_body_round captured d bs w)"
    by (auto simp: record_body_chunk Let_def split: prod.split)
  moreover have "round_size (tl_max_hello_bytes (fst w)) (record_header_round captured d bs w)"
  proof -
    have "round_size (tl_max_hello_bytes (fst w)) (open_tls_record d rest (tls_put d t (fst w), snd w))" for rest t
      by (rule open_tls_size(2)) simp
    then show ?thesis by (simp add: record_header_round_def Let_def del: length_append length_take)
  qed
  ultimately show ?thesis by (simp add: record_round_def)
qed

lemma record_loop_size:
  assumes "record_loop captured d bs w = (e, w')"
  shows "tl_max_hello_bytes (fst w') = tl_max_hello_bytes (fst w)"
proof -
  let ?P = "\<lambda>u. tl_max_hello_bytes (fst u) = tl_max_hello_bytes (fst w)"
  have "?P w' \<and> (e = TlsNone \<longrightarrow> ?P w')"
  proof (rule records.loop_kept [OF assms, where P = ?P and Q = ?P])
    show "?P u'" if "?P u" "record_round captured d bs u = Inr (bs', u')" for bs u bs' u'
      using record_round_size [of u captured d bs] that by simp
    show "?P u'" if "?P u" "record_round captured d bs u = Inl (e, u')" for bs u e u'
      using record_round_size [of u captured d bs] that by simp
  qed auto
  then show ?thesis by simp
qed

lemma tls_consume_size: "tls_consume cx ev f = (e, f', out) \<Longrightarrow> tl_max_hello_bytes f' = tl_max_hello_bytes f"
  by (auto simp: tls_consume_def tls_stream_end_def Let_def dest!: refuse_size record_loop_size
      split: if_splits prod.splits tcp_stream_event_kind.splits option.splits)

lemma tls_run_ok: "framer_ok (tls_run max_hello events) \<and> tl_max_hello_bytes (tls_run max_hello events) = max_hello"
proof (induction events rule: rev_induct)
  case Nil
  have "retention_ok limit new_tls_direction" for limit
    by (simp add: retention_ok_def hello_fits_def new_tls_direction_def is_hello_def)
  moreover have "tls_dir d (new_tls_framer max_hello) = new_tls_direction" for d by (cases d) (simp_all add: new_tls_framer_def)
  ultimately show ?case by (simp add: tls_run_def) (simp add: new_tls_framer_def)
next
  case (snoc x events)
  obtain cx ev where x: "x = (cx, ev)" by (cases x)
  let ?f = "tls_run max_hello events"
  obtain e f' out where c: "tls_consume cx ev ?f = (e, f', out)" by (cases "tls_consume cx ev ?f")
  have "framer_ok f'" using tls_consume_ok [OF _ c] snoc by blast
  moreover have "tls_run max_hello (events @ [x]) = f'" using c by (simp add: tls_run_def x)
  moreover have "tl_max_hello_bytes f' = max_hello" using tls_consume_size [OF c] snoc by simp
  ultimately show ?case by simp
qed

text \<open>
  C32. Whatever events a session delivers in whatever order, the framer of the TLS module never retains
  more than two Hellos of the configured size less their headers: what the module reserves for a
  session when it creates its tracker covers what the framer may hold.
\<close>

theorem tls_retention_bounded:
  "tls_retained_bytes (tls_run max_hello events) \<le> 2 * (max_hello - min max_hello 4)"
proof -
  have "retention_ok (hello_limit (tls_run max_hello events)) (tl_ab (tls_run max_hello events))"
    "retention_ok (hello_limit (tls_run max_hello events)) (tl_ba (tls_run max_hello events))"
    using tls_run_ok [of max_hello events] by (metis tls_dir.simps)+
  then show ?thesis
    using tls_run_ok [of max_hello events] by (simp add: retention_ok_def hello_limit_def tls_retained_bytes_def)
qed

end
