(* ===== verification/TlsHandshake.thy ===== *)
theory TlsHandshake
  imports TlsFramer
begin

text \<open>
  The handshake tracker of one session, modules/tls/npm_tls_handshake.cpp: what the framer cuts out
  of the two directions drives the phases of one handshake, which ends in one result, at the latest
  when its deadline passes or the session ends. The types are those of npm_tls_contract.h and
  npm_tls_handshake.h.
\<close>

interpretation tls_clock: capture_clock mark_tls_time
  by unfold_locales (auto split: option.split)

section \<open>State and results\<close>

datatype tls_outcome = ServerHelloObserved | FatalAlertObserved | OutcomeIncomplete

datatype tls_reason =
  NoReason | EncryptedAfterServerHello | EncryptedAfterChangeCipherSpec | DeadlineAfterServerHello |
  SessionEndAfterServerHello | ClientHelloIncomplete | ServerHelloNotObservedByDeadline |
  HelloRetryRequestUnfinished | ClientPathGap | ServerPathGap | ReasonCaptureTruncation | ReasonMalformedRecord |
  ReasonMalformedHello | HelloLimitExceeded | UnsupportedVersion | ReasonUnsupportedFraming | ServerStreamEnd |
  ReasonSessionEnd

datatype tls_phase =
  PhaseCandidate | AwaitingServerHello | AwaitingRetryClientHello | AwaitingFinalServerHello |
  AwaitingTls12Boundary | PhaseClosed

record tls_handshake =
  hs_entity_instance_id :: u64
  hs_session_id :: u64
  hs_client_direction :: packet_direction
  hs_phase :: tls_phase
  hs_first_client_hello :: "tls_hello option"
  hs_retry_client_hello :: "tls_hello option"
  hs_final_server_hello :: "tls_hello option"
  hs_retry_count :: u8
  hs_first_client_byte_at_ns :: "int option"
  hs_deadline_ns :: "int option"

record tls_result =
  tr_handshake :: tls_handshake
  tr_outcome :: tls_outcome
  tr_incomplete_reason :: tls_reason
  tr_observed_at_ns :: int
  tr_latency_ns :: "int option"
  tr_alert_level :: "u8 option"
  tr_alert_description :: "u8 option"

text \<open>Of the configuration the tracker reads the timeout and the size of a Hello.\<close>

record tls_config =
  tc_handshake_timeout_ns :: int
  tc_max_hello_bytes :: nat

datatype tls_tracker_error = TrackerNone | TrackerInvalidInput

record tls_tracker =
  tt_session_id :: u64
  tt_config :: tls_config
  tt_framer :: tls_framer
  tt_candidate :: "tls_handshake option"
  tt_last_watermark_ns :: "int option"
  tt_closed :: bool

definition new_tls_tracker :: "u64 \<Rightarrow> tls_config \<Rightarrow> tls_tracker" where
  "new_tls_tracker sid c =
     \<lparr>tt_session_id = sid, tt_config = c, tt_framer = new_tls_framer (tc_max_hello_bytes c), tt_candidate = None,
      tt_last_watermark_ns = None, tt_closed = False\<rparr>"

section \<open>Small operations\<close>

definition offers_version :: "tls_hello \<Rightarrow> u16 \<Rightarrow> bool" where
  "offers_version h v \<longleftrightarrow> v \<in> set (th_offered_versions h)"

definition valid_client_hello :: "tls_hello \<Rightarrow> bool" where
  "valid_client_hello h \<longleftrightarrow>
     th_legacy_version h = 0x0303 \<and>
     (th_offered_versions h = [] \<or> offers_version h 0x0303 \<or> offers_version h 0x0304)"

definition valid_cipher_suite :: "u16 \<Rightarrow> bool" where
  "valid_cipher_suite c \<longleftrightarrow> c \<noteq> 0 \<and> c \<noteq> 0x00ff \<and> c \<noteq> 0x5600"

definition framer_reason :: "tls_framer_error \<Rightarrow> packet_direction \<Rightarrow> packet_direction \<Rightarrow> tls_reason" where
  "framer_reason e direction client =
     (case e of
        TlsGap \<Rightarrow> if direction = client then ClientPathGap else ServerPathGap
      | TlsCaptureTruncation \<Rightarrow> ReasonCaptureTruncation
      | TlsMalformedRecord \<Rightarrow> ReasonMalformedRecord
      | TlsMalformedHello \<Rightarrow> ReasonMalformedHello
      | TlsHelloLimit \<Rightarrow> HelloLimitExceeded
      | TlsIncomplete \<Rightarrow> ClientHelloIncomplete
      | _ \<Rightarrow> ReasonUnsupportedFraming)"

definition tls_deadline :: "int \<Rightarrow> int \<Rightarrow> int" where
  "tls_deadline first timeout = (if first > i64_max - timeout then i64_max else first + timeout)"

interpretation tls_deadline: saturating_deadline tls_deadline
  by unfold_locales (simp add: tls_deadline_def)

definition tls_next_deadline :: "tls_tracker \<Rightarrow> int option" where
  "tls_next_deadline t = (if tt_closed t then None else Option.bind (tt_candidate t) hs_deadline_ns)"

definition tls_rejected :: "tls_tracker \<Rightarrow> bool" where
  "tls_rejected t \<longleftrightarrow> tt_candidate t = None \<and> tl_closed (tt_framer t)"

section \<open>Closing\<close>

text \<open>
  The two times are subtracted as int64_t without a guard; the model keeps the difference itself,
  which is the code's as long as it is an int64.
\<close>

definition tls_latency :: "tls_handshake \<Rightarrow> int option" where
  "tls_latency c =
     (case (Option.bind (hs_first_client_hello c) th_complete_at_ns, Option.bind (hs_final_server_hello c) th_complete_at_ns) of
        (Some client_at, Some server_at) \<Rightarrow> if server_at \<ge> client_at then Some (server_at - client_at) else None
      | _ \<Rightarrow> None)"

type_synonym tls_call = "tls_tracker \<times> tls_result option"

definition tls_close :: "tls_outcome \<Rightarrow> tls_reason \<Rightarrow> int \<Rightarrow> tls_call \<Rightarrow> tls_call" where
  "tls_close outcome reason observed s =
     (case s of (t, res) \<Rightarrow>
        (case tt_candidate t of None \<Rightarrow> s
         | Some c \<Rightarrow>
             if tt_closed t then s
             else
               (t\<lparr>tt_candidate := None, tt_closed := True\<rparr>,
                Some \<lparr>tr_handshake = c\<lparr>hs_phase := PhaseClosed\<rparr>, tr_outcome = outcome, tr_incomplete_reason = reason,
                      tr_observed_at_ns = observed, tr_latency_ns = tls_latency c, tr_alert_level = None,
                      tr_alert_description = None\<rparr>)))"

abbreviation tls_give_up :: "tls_reason \<Rightarrow> int \<Rightarrow> tls_call \<Rightarrow> tls_call" where
  "tls_give_up reason observed \<equiv> tls_close OutcomeIncomplete reason observed"

section \<open>Framed events\<close>

definition put_candidate :: "tls_handshake \<Rightarrow> tls_call \<Rightarrow> tls_call" where
  "put_candidate c s = (case s of (t, res) \<Rightarrow> (t\<lparr>tt_candidate := Some c\<rparr>, res))"

definition on_alert :: "tls_framed \<Rightarrow> int \<Rightarrow> tls_call \<Rightarrow> tls_call" where
  "on_alert ev observed s =
     (if fe_record_length ev = 2 \<and> fe_control_bytes ev ! 0 = 2 then
        (case tls_close FatalAlertObserved NoReason (case fe_complete_at_ns ev of None \<Rightarrow> observed | Some c \<Rightarrow> c) s of
           (t, res) \<Rightarrow>
             (t, map_option (\<lambda>r. r\<lparr>tr_alert_level := Some 2, tr_alert_description := Some (fe_control_bytes ev ! 1)\<rparr>) res))
      else s)"

definition on_change_cipher_spec :: "tls_framed \<Rightarrow> tls_handshake \<Rightarrow> int \<Rightarrow> tls_call \<Rightarrow> tls_call" where
  "on_change_cipher_spec ev c observed s =
     (if fe_record_length ev \<noteq> 1 \<or> fe_control_bytes ev ! 0 \<noteq> 1 then tls_give_up ReasonUnsupportedFraming observed s
      else if hs_phase c = AwaitingTls12Boundary then
        tls_close ServerHelloObserved EncryptedAfterChangeCipherSpec observed s
      else s)"

definition on_client_hello :: "tls_hello \<Rightarrow> bool \<Rightarrow> tls_handshake \<Rightarrow> int \<Rightarrow> tls_call \<Rightarrow> tls_call" where
  "on_client_hello h client c observed s =
     (if \<not> client \<or> \<not> valid_client_hello h then
        tls_give_up (if client then UnsupportedVersion else ReasonUnsupportedFraming) observed s
      else if hs_phase c = PhaseCandidate then
        put_candidate (c\<lparr>hs_first_client_hello := Some h, hs_phase := AwaitingServerHello\<rparr>) s
      else if hs_phase c = AwaitingRetryClientHello \<and> offers_version h 0x0304 then
        put_candidate (c\<lparr>hs_retry_client_hello := Some h, hs_phase := AwaitingFinalServerHello\<rparr>) s
      else tls_give_up ReasonUnsupportedFraming observed s)"

text \<open>The first ClientHello is there whenever a ServerHello is looked at; the code relies on it.\<close>

definition first_offers_tls13 :: "tls_handshake \<Rightarrow> bool" where
  "first_offers_tls13 c = (case hs_first_client_hello c of None \<Rightarrow> False | Some h \<Rightarrow> offers_version h 0x0304)"

definition on_retry_request :: "tls_hello \<Rightarrow> tls_handshake \<Rightarrow> int \<Rightarrow> tls_call \<Rightarrow> tls_call" where
  "on_retry_request h c observed s =
     (if hs_phase c \<noteq> AwaitingServerHello \<or> th_selected_version h \<noteq> Some 0x0304 \<or> \<not> first_offers_tls13 c \<or>
         th_selected_alpn h \<noteq> None
      then tls_give_up ReasonUnsupportedFraming observed s
      else put_candidate (c\<lparr>hs_retry_count := 1, hs_phase := AwaitingRetryClientHello\<rparr>) s)"

definition on_final_server_hello :: "tls_hello \<Rightarrow> tls_handshake \<Rightarrow> int \<Rightarrow> tls_call \<Rightarrow> tls_call" where
  "on_final_server_hello h c observed s =
     (let tls13 = (th_selected_version h = Some 0x0304) in
      if th_selected_version h \<noteq> None \<and> \<not> tls13 \<and> th_selected_version h \<noteq> Some 0x0303 then
        tls_give_up UnsupportedVersion observed s
      else if hs_phase c = AwaitingFinalServerHello \<and> \<not> tls13 then tls_give_up UnsupportedVersion observed s
      else if tls13 \<and> (\<not> first_offers_tls13 c \<or> th_selected_alpn h \<noteq> None) then
        tls_give_up UnsupportedVersion observed s
      else if tls13 then
        tls_close ServerHelloObserved EncryptedAfterServerHello observed
          (put_candidate (c\<lparr>hs_final_server_hello := Some h\<rparr>) s)
      else put_candidate (c\<lparr>hs_final_server_hello := Some h, hs_phase := AwaitingTls12Boundary\<rparr>) s)"

definition on_server_hello :: "tls_hello \<Rightarrow> bool \<Rightarrow> tls_handshake \<Rightarrow> int \<Rightarrow> tls_call \<Rightarrow> tls_call" where
  "on_server_hello h client c observed s =
     (if client \<or> hs_phase c \<noteq> AwaitingServerHello \<and> hs_phase c \<noteq> AwaitingFinalServerHello then
        tls_give_up ReasonUnsupportedFraming observed s
      else if th_legacy_version h \<noteq> 0x0303 \<or>
          (case th_cipher_suite h of None \<Rightarrow> True | Some suite \<Rightarrow> \<not> valid_cipher_suite suite) then
        tls_give_up UnsupportedVersion observed s
      else if th_hello_retry_request h then on_retry_request h c observed s
      else on_final_server_hello h c observed s)"

definition on_framed_event :: "tls_framed \<Rightarrow> int \<Rightarrow> tls_call \<Rightarrow> tls_call" where
  "on_framed_event ev observed s =
     (case tt_candidate (fst s) of None \<Rightarrow> s
      | Some c \<Rightarrow>
          if tt_closed (fst s) then s
          else
            (let client = (fe_direction ev = hs_client_direction c) in
             if hs_first_client_hello c = None \<and> fe_kind ev \<noteq> ClientHello then
               tls_give_up ClientHelloIncomplete observed s
             else
               (case fe_kind ev of
                  Alert \<Rightarrow> on_alert ev observed s
                | ChangeCipherSpec \<Rightarrow> on_change_cipher_spec ev c observed s
                | ApplicationData \<Rightarrow>
                    if \<not> client \<or> hs_phase c = AwaitingTls12Boundary then tls_give_up ReasonUnsupportedFraming observed s
                    else s
                | OtherHandshake \<Rightarrow>
                    if hs_phase c = AwaitingRetryClientHello \<or> hs_phase c = AwaitingFinalServerHello \<and> client then
                      tls_give_up ReasonUnsupportedFraming observed s
                    else s
                | ClientHello \<Rightarrow>
                    (case fe_hello ev of None \<Rightarrow> tls_give_up ReasonMalformedHello observed s
                     | Some h \<Rightarrow> on_client_hello h client c observed s)
                | ServerHello \<Rightarrow>
                    (case fe_hello ev of None \<Rightarrow> tls_give_up ReasonMalformedHello observed s
                     | Some h \<Rightarrow> on_server_hello h client c observed s))))"

section \<open>Stream events\<close>

definition adopt_candidate :: "tls_tracker \<Rightarrow> tls_tracker" where
  "adopt_candidate t =
     (if tt_candidate t = None \<and> tl_candidate (tt_framer t) then
        t\<lparr>tt_candidate := Some
            \<lparr>hs_entity_instance_id = 0, hs_session_id = tt_session_id t,
             hs_client_direction = tl_client_direction (tt_framer t), hs_phase = PhaseCandidate,
             hs_first_client_hello = None, hs_retry_client_hello = None, hs_final_server_hello = None,
             hs_retry_count = 0, hs_first_client_byte_at_ns = tl_first_client_byte_at_ns (tt_framer t),
             hs_deadline_ns = map_option (\<lambda>first. tls_deadline first (tc_handshake_timeout_ns (tt_config t)))
               (tl_first_client_byte_at_ns (tt_framer t))\<rparr>\<rparr>
      else t)"

text \<open>The loop over the framed events leaves Consume when the handshake is closed.\<close>

fun on_framed_events :: "tls_framed list \<Rightarrow> int \<Rightarrow> tls_call \<Rightarrow> tls_call" where
  "on_framed_events [] observed s = s"
| "on_framed_events (ev # evs) observed s =
     (let s' = on_framed_event ev observed s in
      if tt_closed (fst s') then s' else on_framed_events evs observed s')"

definition incomplete_reason :: "tls_framer_error \<Rightarrow> packet_direction \<Rightarrow> tls_handshake \<Rightarrow> tls_reason" where
  "incomplete_reason framed direction c =
     (if framed = TlsIncomplete \<and> (hs_phase c = AwaitingRetryClientHello \<or> hs_phase c = AwaitingFinalServerHello)
      then HelloRetryRequestUnfinished
      else if framed = TlsIncomplete \<and> hs_first_client_hello c \<noteq> None \<and> direction \<noteq> hs_client_direction c
      then ServerStreamEnd
      else framer_reason framed direction (hs_client_direction c))"

definition after_framer_error ::
  "tls_framer_error \<Rightarrow> tcp_stream_context \<Rightarrow> tcp_stream_event \<Rightarrow> tls_call \<Rightarrow> tls_call" where
  "after_framer_error framed cx ev s =
     (case tt_candidate (fst s) of None \<Rightarrow> s
      | Some c \<Rightarrow>
          if framed = TlsNone then s
          else if hs_final_server_hello c \<noteq> None \<and> hs_phase c = AwaitingTls12Boundary \<and> framed = TlsIncomplete \<and>
            ev_end_reason ev = Some EndSessionEnd
          then tls_close ServerHelloObserved SessionEndAfterServerHello (cx_observed_at_ns cx) s
          else tls_give_up (incomplete_reason framed (cx_direction cx) c) (cx_observed_at_ns cx) s)"

definition after_server_fin :: "tcp_stream_context \<Rightarrow> tcp_stream_event \<Rightarrow> tls_call \<Rightarrow> tls_call" where
  "after_server_fin cx ev s =
     (case tt_candidate (fst s) of None \<Rightarrow> s
      | Some c \<Rightarrow>
          if \<not> tt_closed (fst s) \<and> ev_kind ev = EventEnd \<and> ev_end_reason ev = Some EndFin \<and>
            cx_direction cx \<noteq> hs_client_direction c \<and> hs_final_server_hello c = None
          then tls_give_up ServerStreamEnd (cx_observed_at_ns cx) s
          else s)"

definition tls_track ::
  "tcp_stream_context \<Rightarrow> tcp_stream_event \<Rightarrow> tls_tracker \<Rightarrow> tls_tracker_error \<times> tls_call" where
  "tls_track cx ev t =
     (if cx_session cx \<noteq> Some (tt_session_id t) then (TrackerInvalidInput, t, None)
      else if tt_closed t then (TrackerNone, t, None)
      else
        (case tls_consume cx ev (tt_framer t) of (framed, f, events) \<Rightarrow>
           let t1 = t\<lparr>tt_framer := f\<rparr> in
           if framed = TlsInvalidInput then (TrackerInvalidInput, t1, None)
           else
             (let s = on_framed_events events (cx_observed_at_ns cx) (adopt_candidate t1, None) in
              if tt_closed (fst s) then (TrackerNone, s)
              else (TrackerNone, after_server_fin cx ev (after_framer_error framed cx ev s)))))"

section \<open>Time and the end of the session\<close>

definition tls_watermark :: "int \<Rightarrow> tls_tracker \<Rightarrow> tls_call" where
  "tls_watermark w t =
     (if tt_closed t \<or> (case tt_last_watermark_ns t of None \<Rightarrow> False | Some l \<Rightarrow> w \<le> l) then (t, None)
      else
        (let t1 = t\<lparr>tt_last_watermark_ns := Some w\<rparr> in
         case tt_candidate t of None \<Rightarrow> (t1, None)
         | Some c \<Rightarrow>
             if (case hs_deadline_ns c of None \<Rightarrow> True | Some d \<Rightarrow> w < d) then (t1, None)
             else if hs_final_server_hello c \<noteq> None then tls_close ServerHelloObserved DeadlineAfterServerHello w (t1, None)
             else if hs_phase c = AwaitingRetryClientHello \<or> hs_phase c = AwaitingFinalServerHello then
               tls_give_up HelloRetryRequestUnfinished w (t1, None)
             else if hs_first_client_hello c = None then tls_give_up ClientHelloIncomplete w (t1, None)
             else tls_give_up ServerHelloNotObservedByDeadline w (t1, None)))"

definition tls_session_end :: "int \<Rightarrow> tls_tracker \<Rightarrow> tls_call" where
  "tls_session_end observed t =
     (case tt_candidate t of None \<Rightarrow> (t, None)
      | Some c \<Rightarrow>
          if tt_closed t then (t, None)
          else if hs_final_server_hello c \<noteq> None then tls_close ServerHelloObserved SessionEndAfterServerHello observed (t, None)
          else if hs_phase c = AwaitingRetryClientHello \<or> hs_phase c = AwaitingFinalServerHello then
            tls_give_up HelloRetryRequestUnfinished observed (t, None)
          else if hs_first_client_hello c = None then tls_give_up ClientHelloIncomplete observed (t, None)
          else tls_give_up ReasonSessionEnd observed (t, None))"

definition tls_abort :: "tls_tracker \<Rightarrow> tls_tracker" where
  "tls_abort t = t\<lparr>tt_candidate := None, tt_closed := True\<rparr>"

end
