(* ===== verification/TlsModule.thy ===== *)
theory TlsModule
  imports TlsHandshake ModuleHost StreamCursor
begin

text \<open>
  The TLS protocol module, modules/tls/npm_tls_module.cpp, with the row check, build charge and
  columns of its encoder (npm_tls_result_encoder.cpp): a session that begins with data gets a tracker,
  which reads the stream in slices; its result becomes a row, and then only the identity is kept.
\<close>

section \<open>Rows\<close>

fun tls_outcome_name :: "tls_outcome \<Rightarrow> string" where
  "tls_outcome_name ServerHelloObserved = ''server_hello_observed''"
| "tls_outcome_name FatalAlertObserved = ''fatal_alert_observed''"
| "tls_outcome_name OutcomeIncomplete = ''incomplete''"

fun tls_reason_name :: "tls_reason \<Rightarrow> string" where
  "tls_reason_name NoReason = ''''"
| "tls_reason_name EncryptedAfterServerHello = ''encrypted_after_server_hello''"
| "tls_reason_name EncryptedAfterChangeCipherSpec = ''encrypted_after_change_cipher_spec''"
| "tls_reason_name DeadlineAfterServerHello = ''deadline_after_server_hello''"
| "tls_reason_name SessionEndAfterServerHello = ''session_end_after_server_hello''"
| "tls_reason_name ClientHelloIncomplete = ''client_hello_incomplete''"
| "tls_reason_name ServerHelloNotObservedByDeadline = ''server_hello_not_observed_by_deadline''"
| "tls_reason_name HelloRetryRequestUnfinished = ''hello_retry_request_unfinished''"
| "tls_reason_name ClientPathGap = ''client_path_gap''"
| "tls_reason_name ServerPathGap = ''server_path_gap''"
| "tls_reason_name ReasonCaptureTruncation = ''capture_truncation''"
| "tls_reason_name ReasonMalformedRecord = ''malformed_record''"
| "tls_reason_name ReasonMalformedHello = ''malformed_hello''"
| "tls_reason_name HelloLimitExceeded = ''hello_limit_exceeded''"
| "tls_reason_name UnsupportedVersion = ''unsupported_version''"
| "tls_reason_name ReasonUnsupportedFraming = ''unsupported_framing''"
| "tls_reason_name ServerStreamEnd = ''server_stream_end''"
| "tls_reason_name ReasonSessionEnd = ''session_end''"

definition valid_tls_row :: "tls_result \<Rightarrow> bool" where
  "valid_tls_row r \<longleftrightarrow>
     (let h = tr_handshake r in
      \<not> (hs_entity_instance_id h = 0 \<or> hs_session_id h = 0 \<or> hs_retry_count h > 1 \<or> hs_phase h \<noteq> PhaseClosed) \<and>
      (if tr_outcome r = FatalAlertObserved
       then tr_incomplete_reason r = NoReason \<and> tr_alert_level r = Some 2 \<and> tr_alert_description r \<noteq> None
       else tr_incomplete_reason r \<noteq> NoReason \<and> tr_alert_level r = None \<and> tr_alert_description r = None))"

definition tls_build_charge :: "tls_result \<Rightarrow> nat" where
  "tls_build_charge r =
     16 * 1024 +
     (case hs_first_client_hello (tr_handshake r) of None \<Rightarrow> 0 | Some h \<Rightarrow> 2 * length (th_offered_alpn h) * 255) +
     (case Option.bind (hs_final_server_hello (tr_handshake r)) th_selected_alpn of None \<Rightarrow> 0 | Some a \<Rightarrow> 6 * length a)"

text \<open>The columns that the encoder computes; the others are fields of the result and of the key.\<close>

record tls_columns =
  tw_offered_tls13 :: "bool option"
  tw_selected_version :: "u16 option"
  tw_cipher_suite :: "u16 option"
  tw_sni :: "u8 list option"
  tw_offered_alpn :: "u8 list option"
  tw_selected_alpn :: "u8 list option"
  tw_client_at_ns :: "int option"
  tw_server_at_ns :: "int option"
  tw_outcome :: string
  tw_incomplete_reason :: "string option"

definition offered_alpn_column :: "tls_hello option \<Rightarrow> u8 list option option" where
  "offered_alpn_column client =
     (case client of None \<Rightarrow> Some None
      | Some h \<Rightarrow>
          if th_offered_alpn h = [] then Some None
          else case encode_alpn_json (th_offered_alpn h) of Inl e \<Rightarrow> None | Inr js \<Rightarrow> Some (Some js))"

definition selected_version_of :: "tls_hello \<Rightarrow> u16" where
  "selected_version_of h = (case th_selected_version h of None \<Rightarrow> th_legacy_version h | Some v \<Rightarrow> v)"

text \<open>One JSON string, without the brackets of the array.\<close>

definition selected_alpn_column :: "tls_hello option \<Rightarrow> u8 list option option" where
  "selected_alpn_column server =
     (case server of None \<Rightarrow> Some None
      | Some h \<Rightarrow>
          if selected_version_of h = 0x0304 then Some None
          else case th_selected_alpn h of None \<Rightarrow> Some None
          | Some a \<Rightarrow>
              (case encode_alpn_json [a] of Inl e \<Rightarrow> None
               | Inr js \<Rightarrow> Some (Some (take (length js - 2) (drop 1 js)))))"

definition tls_columns_of :: "tls_result \<Rightarrow> tls_columns option" where
  "tls_columns_of r =
     (let client = hs_first_client_hello (tr_handshake r); server = hs_final_server_hello (tr_handshake r) in
      case offered_alpn_column client of None \<Rightarrow> None
      | Some alpn \<Rightarrow>
          (case selected_alpn_column server of None \<Rightarrow> None
           | Some selected \<Rightarrow>
               Some \<lparr>tw_offered_tls13 = map_option (\<lambda>h. 0x0304 \<in> set (th_offered_versions h)) client,
                 tw_selected_version = map_option selected_version_of server,
                 tw_cipher_suite = Option.bind server th_cipher_suite,
                 tw_sni = Option.bind client th_sni, tw_offered_alpn = alpn, tw_selected_alpn = selected,
                 tw_client_at_ns = Option.bind client th_complete_at_ns,
                 tw_server_at_ns = Option.bind server th_complete_at_ns,
                 tw_outcome = tls_outcome_name (tr_outcome r),
                 tw_incomplete_reason =
                   (if tr_incomplete_reason r = NoReason then None else Some (tls_reason_name (tr_incomplete_reason r)))\<rparr>))"

text \<open>
  Parameters: the charge of a session's identity, which depends on the sizes of the library's nodes
  and of the key, and what building the batch and emitting it returns.
\<close>

record tls_host =
  hh_identity :: "npm_session_key \<Rightarrow> nat"
  hh_send :: "npm_session_key \<Rightarrow> tls_result \<Rightarrow> tls_columns \<Rightarrow> errno"

definition emit_tls_handshake ::
  "tls_host \<Rightarrow> npm_session_key \<Rightarrow> tls_result \<Rightarrow> npm_task_budget option \<Rightarrow> errno \<times> npm_task_budget option" where
  "emit_tls_handshake host key r b =
     (if b = None \<or> \<not> valid_tls_row r then (E_INVAL, b)
      else case opt_charge (tls_build_charge r) b of None \<Rightarrow> (E_NOSPC, b)
      | Some b' \<Rightarrow>
          (case tls_columns_of r of None \<Rightarrow> E_INVAL | Some cols \<Rightarrow> hh_send host key r cols,
           opt_refund (tls_build_charge r) b'))"

section \<open>Sessions\<close>

definition tracker_base_charge :: nat where "tracker_base_charge = 64 * 1024"

definition max_parse_chunk :: nat where "max_parse_chunk = 256"

record tls_session =
  se_key :: npm_session_key
  se_identity_charge :: nat
  se_tracker :: "tls_tracker option"
  se_reserved :: nat

record tls_module =
  tm_config :: tls_config
  tm_budget :: "npm_task_budget option"
  tm_sessions :: "(u64, tls_session) omap"
  tm_finished :: bool
  tm_aborted :: bool

definition new_tls_module :: "tls_config \<Rightarrow> npm_task_budget option \<Rightarrow> tls_module" where
  "new_tls_module c b =
     \<lparr>tm_config = c, tm_budget = b, tm_sessions = [], tm_finished = False, tm_aborted = False\<rparr>"

definition tracker_charge :: "tls_config \<Rightarrow> nat" where
  "tracker_charge c = tracker_base_charge + 8 * tc_max_hello_bytes c"

definition tls_remember_session :: "tls_host \<Rightarrow> session_view \<Rightarrow> tls_module \<Rightarrow> errno \<times> tls_module" where
  "tls_remember_session host view m =
     (case (tm_budget m, sv_key view) of
        (Some _, Some key) \<Rightarrow>
          if sv_session_id view = 0 then (E_INVAL, m)
          else if omap_find (tm_sessions m) (sv_session_id view) \<noteq> None then (E_OK, m)
          else
            (let bytes = hh_identity host key + tracker_charge (tm_config m) in
             case opt_charge bytes (tm_budget m) of None \<Rightarrow> (E_NOSPC, m)
             | Some b \<Rightarrow>
                 if sk_protocol key \<noteq> 6 then (E_INVAL, m\<lparr>tm_budget := opt_refund bytes b\<rparr>)
                 else
                   (E_OK, m\<lparr>tm_budget := b, tm_sessions := omap_put (sv_session_id view)
                      \<lparr>se_key = key, se_identity_charge = hh_identity host key,
                       se_tracker = Some (new_tls_tracker (sv_session_id view) (tm_config m)), se_reserved = bytes\<rparr>
                      (tm_sessions m)\<rparr>))
      | _ \<Rightarrow> (E_INVAL, m))"

type_synonym session_ledger = "tls_session \<times> npm_task_budget option"

definition release_tracker :: "session_ledger \<Rightarrow> session_ledger" where
  "release_tracker s =
     (case s of (st, b) \<Rightarrow>
        if se_tracker st = None then s
        else (st\<lparr>se_tracker := None, se_reserved := se_identity_charge st\<rparr>,
              opt_refund (se_reserved st - se_identity_charge st) b))"

definition tls_forget_session :: "u64 \<Rightarrow> tls_module \<Rightarrow> tls_module" where
  "tls_forget_session sid m =
     (case omap_find (tm_sessions m) sid of None \<Rightarrow> m
      | Some st \<Rightarrow>
          (case release_tracker (st, tm_budget m) of (st', b) \<Rightarrow>
             m\<lparr>tm_budget := opt_refund (se_reserved st') b, tm_sessions := omap_erase sid (tm_sessions m)\<rparr>))"

type_synonym tls_emitted = "(npm_session_key \<times> tls_result) list"

definition emit_result ::
  "tls_host \<Rightarrow> u64 \<Rightarrow> tls_result option \<Rightarrow> session_ledger \<Rightarrow> errno \<times> session_ledger \<times> tls_emitted" where
  "emit_result host sid res s =
     (case res of None \<Rightarrow> (E_OK, s, [])
      | Some r \<Rightarrow>
          (let row = r\<lparr>tr_handshake := (tr_handshake r)\<lparr>hs_entity_instance_id := sid\<rparr>\<rparr> in
           case emit_tls_handshake host (se_key (fst s)) row (snd s) of
             (e, b) \<Rightarrow> (e, release_tracker (fst s, b), if e = E_OK then [(se_key (fst s), row)] else [])))"

section \<open>Callbacks\<close>

type_synonym tls_module_call = "errno \<times> tls_module \<times> tls_emitted"

abbreviation tm_closed :: "tls_module \<Rightarrow> bool" where
  "tm_closed m \<equiv> tm_finished m \<or> tm_aborted m"

definition put_tls_session :: "u64 \<Rightarrow> session_ledger \<Rightarrow> tls_module \<Rightarrow> tls_module" where
  "put_tls_session sid s m = m\<lparr>tm_sessions := omap_put sid (fst s) (tm_sessions m), tm_budget := snd s\<rparr>"

definition tls_module_input :: "npm_input \<Rightarrow> tls_module \<Rightarrow> errno" where
  "tls_module_input input m =
     (if tm_closed m \<or> in_kind input \<noteq> InTcpPacket \<or> in_session input = None \<or> in_direction input = None
      then E_INVAL else E_OK)"

definition tls_module_session_end :: "tls_host \<Rightarrow> session_view \<Rightarrow> int \<Rightarrow> tls_module \<Rightarrow> tls_module_call" where
  "tls_module_session_end host view observed m =
     (if tm_closed m then (E_INVAL, m, [])
      else case omap_find (tm_sessions m) (sv_session_id view) of None \<Rightarrow> (E_OK, m, [])
      | Some st \<Rightarrow>
          (case se_tracker st of None \<Rightarrow> (E_OK, tls_forget_session (sv_session_id view) m, [])
           | Some t \<Rightarrow>
               (case tls_session_end observed t of (t', res) \<Rightarrow>
                  case emit_result host (sv_session_id view) res (st\<lparr>se_tracker := Some t'\<rparr>, tm_budget m) of
                    (e, s, out) \<Rightarrow> (e, tls_forget_session (sv_session_id view) (put_tls_session (sv_session_id view) s m), out))))"

fun earlier :: "int option \<Rightarrow> int option \<Rightarrow> int option" where
  "earlier minimum None = minimum"
| "earlier None (Some d) = Some d"
| "earlier (Some m) (Some d) = (if d < m then Some d else Some m)"

definition tls_module_deadline :: "tls_module \<Rightarrow> int option" where
  "tls_module_deadline m =
     (if tm_closed m then None
      else foldl (\<lambda>minimum (sid, st). earlier minimum (Option.bind (se_tracker st) tls_next_deadline)) None (tm_sessions m))"

text \<open>The loop of OnTime over the sessions stops at the first row that cannot be emitted.\<close>

fun time_walk ::
  "tls_host \<Rightarrow> int \<Rightarrow> (u64, tls_session) omap \<Rightarrow> npm_task_budget option
    \<Rightarrow> errno \<times> ((u64, tls_session) omap \<times> npm_task_budget option) \<times> tls_emitted" where
  "time_walk host w [] b = (E_OK, ([], b), [])"
| "time_walk host w ((sid, st) # ss) b =
     (case (case se_tracker st of None \<Rightarrow> (E_OK, (st, b), [])
            | Some t \<Rightarrow>
                (case tls_watermark w t of (t', res) \<Rightarrow> emit_result host sid res (st\<lparr>se_tracker := Some t'\<rparr>, b))) of
        (e, (st', b'), out) \<Rightarrow>
          if e \<noteq> E_OK then (e, ((sid, st') # ss, b'), out)
          else case time_walk host w ss b' of (e', (ss', b''), out') \<Rightarrow> (e', ((sid, st') # ss', b''), out @ out'))"

definition tls_module_time :: "tls_host \<Rightarrow> int option \<Rightarrow> tls_module \<Rightarrow> tls_module_call" where
  "tls_module_time host watermark m =
     (if tm_closed m then (E_INVAL, m, [])
      else case watermark of None \<Rightarrow> (E_OK, m, [])
      | Some w \<Rightarrow>
          (case time_walk host w (tm_sessions m) (tm_budget m) of
             (e, (ss, b), out) \<Rightarrow> (e, m\<lparr>tm_sessions := ss, tm_budget := b\<rparr>, out)))"

definition tls_module_finish :: "tls_module \<Rightarrow> errno \<times> tls_module" where
  "tls_module_finish m =
     (if tm_closed m \<or> tm_sessions m \<noteq> [] then (E_INVAL, m) else (E_OK, m\<lparr>tm_finished := True\<rparr>))"

text \<open>Abort forgets the first session until none is left.\<close>

fun forget_first :: "(u64, tls_session) omap \<Rightarrow> tls_module \<Rightarrow> tls_module" where
  "forget_first [] m = m"
| "forget_first ((sid, st) # ss) m = forget_first ss (tls_forget_session sid m)"

definition tls_module_abort :: "tls_module \<Rightarrow> tls_module" where
  "tls_module_abort m = (if tm_aborted m then m else forget_first (tm_sessions m) (m\<lparr>tm_aborted := True\<rparr>))"

section \<open>Readable streams\<close>

definition parse_slice :: "nat \<Rightarrow> tcp_stream_event \<Rightarrow> tcp_stream_event" where
  "parse_slice n ev =
     (if n \<noteq> 0 \<and> n \<noteq> span_size (ev_bytes ev)
      then ev\<lparr>ev_bytes := span_take n (ev_bytes ev), ev_end := ev_begin ev + n\<rparr> else ev)"

definition consumed_bytes :: "tcp_stream_event \<Rightarrow> nat" where
  "consumed_bytes ev = (if ev_kind ev = EventData then min (span_size (ev_bytes ev)) max_parse_chunk else 0)"

text \<open>A session is remembered when a stream that began with a SYN delivers data.\<close>

definition begin_session ::
  "tls_host \<Rightarrow> session_view \<Rightarrow> tcp_stream_context \<Rightarrow> tcp_stream_event \<Rightarrow> tls_module \<Rightarrow> errno \<times> tls_module" where
  "begin_session host view cx ev m =
     (if omap_find (tm_sessions m) (sv_session_id view) = None \<and> cx_origin cx = OriginSyn \<and> ev_kind ev = EventData
      then tls_remember_session host view m else (E_OK, m))"

definition release_if_done :: "session_ledger \<Rightarrow> session_ledger" where
  "release_if_done s =
     (case se_tracker (fst s) of None \<Rightarrow> s
      | Some t \<Rightarrow> if tt_closed t \<or> tls_rejected t then release_tracker s else s)"

text \<open>One round of the loop: the error, the events left, the module and the rows.\<close>

definition readable_round ::
  "tls_host \<Rightarrow> session_view \<Rightarrow> tcp_stream_context \<Rightarrow> tcp_stream_event \<Rightarrow> tcp_stream_event list \<Rightarrow> tls_module
    \<Rightarrow> errno \<times> tcp_stream_event list \<times> tls_module \<times> tls_emitted" where
  "readable_round host view cx ev evs m =
     (let sid = sv_session_id view; n = consumed_bytes ev in
      case begin_session host view cx ev m of (e, m1) \<Rightarrow>
        if e \<noteq> E_OK then (e, evs, m1, [])
        else
          (case Option.bind (omap_find (tm_sessions m1) sid) (\<lambda>st. map_option (Pair st) (se_tracker st)) of
             None \<Rightarrow> (case cursor_consume n evs of (e, evs') \<Rightarrow> (e, evs', m1, []))
           | Some (st, t) \<Rightarrow>
               (case tls_track (cx\<lparr>cx_session := Some sid\<rparr>) (parse_slice n ev) t of (te, t', res) \<Rightarrow>
                  let st1 = st\<lparr>se_tracker := Some t'\<rparr>; m2 = put_tls_session sid (st1, tm_budget m1) m1 in
                  if te \<noteq> TrackerNone then (E_INVAL, evs, m2, [])
                  else case cursor_consume n evs of (e, evs') \<Rightarrow>
                    if e \<noteq> E_OK then (e, evs', m2, [])
                    else case emit_result host sid res (st1, tm_budget m1) of (e, s, out) \<Rightarrow>
                      if e \<noteq> E_OK then (e, evs', put_tls_session sid s m2, out)
                      else (E_OK, evs', put_tls_session sid (release_if_done s) m2, out))))"

lemma readable_round_smaller:
  "readable_round host view cx ev (ev # evs) m = (E_OK, evs', m', out) \<Longrightarrow> cursor_size evs' < cursor_size (ev # evs)"
  by (auto simp: readable_round_def Let_def dest: cursor_consume_smaller split: prod.splits if_splits option.splits)

function readable_loop ::
  "tls_host \<Rightarrow> session_view \<Rightarrow> tcp_stream_context \<Rightarrow> tcp_stream_event list \<Rightarrow> tls_module \<Rightarrow> tls_module_call" where
  "readable_loop host view cx [] m = (E_OK, m, [])"
| "readable_loop host view cx (ev # evs) m =
     (case readable_round host view cx ev (ev # evs) m of (e, evs', m', out) \<Rightarrow>
        if e \<noteq> E_OK then (e, m', out)
        else case readable_loop host view cx evs' m' of (e', m'', out') \<Rightarrow> (e', m'', out @ out'))"
  by pat_completeness auto

termination
  by (relation "measure (\<lambda>(host, view, cx, evs, m). cursor_size evs)") (simp, metis case_prod_conv in_measure readable_round_smaller)

definition tls_module_readable ::
  "tls_host \<Rightarrow> session_view option \<Rightarrow> tcp_stream_context \<Rightarrow> tcp_stream_event list \<Rightarrow> tls_module \<Rightarrow> tls_module_call" where
  "tls_module_readable host session cx evs m =
     (case session of None \<Rightarrow> (E_INVAL, m, [])
      | Some view \<Rightarrow> if tm_closed m then (E_INVAL, m, []) else readable_loop host view cx evs m)"

end
