(* ===== verification/TlsHandshakeProps.thy ===== *)
theory TlsHandshakeProps
  imports TlsHandshake TlsFramerBounds
begin

text \<open>
  The handshake tracker over its runs: which Hellos a phase implies, that at most one result comes
  out, and what that result says; and that an overdue handshake does not stay open.
\<close>

section \<open>Hellos of a handshake\<close>

text \<open>The ALPN lists of a parsed Hello can be written as JSON: the parser has tried.\<close>

definition alpn_encodable :: "tls_hello \<Rightarrow> bool" where
  "alpn_encodable h \<longleftrightarrow>
     (\<exists>js. encode_alpn_json (th_offered_alpn h) = Inr js) \<and>
     (\<forall>a. th_selected_alpn h = Some a \<longrightarrow> (\<exists>js. encode_alpn_json [a] = Inr js))"

lemma alpn_encodable_new: "alpn_encodable (new_tls_hello complete_at)"
  by (simp add: alpn_encodable_def new_tls_hello_def encode_alpn_json_def max_alpn_json_bytes_def)

lemma alpn_loop_kept:
  "alpn_loop server bs h = Some h' \<Longrightarrow>
     (server \<longrightarrow> th_offered_alpn h' = th_offered_alpn h) \<and> (\<not> server \<longrightarrow> th_selected_alpn h' = th_selected_alpn h)"
proof (induction server bs h rule: alpn_loop.induct)
  case (1 server bs h)
  show ?case
    using 1 by (cases server; cases "rd_vec8 bs") (auto simp: alpn_loop.simps [of _ bs h] split: if_splits)
qed

lemma parse_extension_encodable:
  assumes "parse_extension server type value seen h = Inr (seen', h')" "alpn_encodable h"
  shows "alpn_encodable h'"
proof -
  have sni: "alpn_encodable h'" if "parse_sni value h = Inr h'"
    using that assms(2) by (auto simp: parse_sni_def alpn_encodable_def split: option.splits if_splits)
  have versions: "alpn_encodable h'" if "parse_versions value server h = Inr h'"
    using that assms(2) by (auto simp: parse_versions_def alpn_encodable_def split: option.splits if_splits prod.splits)
  have alpn: "alpn_encodable h'" if "parse_alpn value server h = Inr h'"
    using that assms(2) alpn_loop_kept [of server _ h h']
    by (cases server) (auto simp: parse_alpn_def alpn_encodable_def split: option.splits if_splits prod.splits sum.splits)
  show ?thesis
    using assms sni versions alpn by (auto simp: parse_extension_def map_sum_def split: prod.splits if_splits sum.splits)
qed

lemma extensions_loop_encodable:
  "extensions_loop server bs seen h = Inr h' \<Longrightarrow> alpn_encodable h \<Longrightarrow> alpn_encodable h'"
proof (induction server bs seen h rule: extensions_loop.induct)
  case (1 server bs seen h)
  from "1.prems" show ?case
    by (subst (asm) extensions_loop.simps)
      (auto split: if_splits option.splits sum.splits prod.splits dest: "1.IH" parse_extension_encodable)
qed

lemma parse_extensions_encodable: "parse_extensions bs server h = Inr h' \<Longrightarrow> alpn_encodable h \<Longrightarrow> alpn_encodable h'"
  by (auto simp: parse_extensions_def split: if_splits option.splits dest: extensions_loop_encodable)

lemma parsed_hello_encodable:
  assumes "parse_tls_hello type body complete_at = Inr h"
  shows "alpn_encodable h"
proof -
  have prefix: "alpn_encodable ((new_tls_hello complete_at)\<lparr>th_legacy_version := v\<rparr>)"
    "alpn_encodable ((new_tls_hello complete_at)\<lparr>th_legacy_version := v, th_cipher_suite := c, th_hello_retry_request := r\<rparr>)"
    for v c r
    using alpn_encodable_new [of complete_at] by (simp_all add: alpn_encodable_def)
  show ?thesis
    using assms prefix
    by (auto simp: parse_tls_hello_def parse_client_def parse_server_def split: if_splits option.splits
        dest!: parse_extensions_encodable)
qed

section \<open>Framed events\<close>

definition framed_ok :: "tls_framed \<Rightarrow> bool" where
  "framed_ok ev \<longleftrightarrow> (case fe_hello ev of None \<Rightarrow> fe_kind ev \<noteq> ClientHello \<and> fe_kind ev \<noteq> ServerHello | Some h \<Rightarrow> alpn_encodable h)"

abbreviation events_ok :: "tls_work \<Rightarrow> bool" where
  "events_ok w \<equiv> \<forall>ev \<in> set (snd w). framed_ok ev"

abbreviation round_events_ok :: "tls_round \<Rightarrow> bool" where
  "round_events_ok r \<equiv> (case r of Inl (e, w') \<Rightarrow> events_ok w' | Inr (bs', w') \<Rightarrow> events_ok w')"

lemma finish_tls_message_events: "finish_tls_message d w = (e, w') \<Longrightarrow> events_ok w \<Longrightarrow> events_ok w'"
  by (auto simp: finish_tls_message_def tls_message_event_def framed_ok_def Let_def
      split: prod.splits if_splits sum.splits tls_hello_error.splits) (erule parsed_hello_encodable)+

lemma finish_tls_record_events:
  "ev \<in> set (snd (finish_tls_record d w)) \<Longrightarrow> events_ok w \<Longrightarrow> framed_ok ev"
  by (auto simp: finish_tls_record_def tls_record_event_def framed_ok_def record_kind_def Let_def split: prod.splits if_splits)

lemma open_tls_events:
  "events_ok w \<Longrightarrow> round_events_ok (open_tls_message d rest w)"
  "events_ok w \<Longrightarrow> round_events_ok (open_tls_record d rest w)"
  by (auto simp: open_tls_message_def open_tls_record_def Let_def dest!: finish_tls_message_events split: prod.split)

lemma handshake_round_events: 
  assumes "events_ok w"
  shows "round_events_ok (handshake_round captured d bs w)"
proof -
  have "round_events_ok (message_header_round captured d bs w)"
    using assms open_tls_events(1) by (simp add: message_header_round_def Let_def)
  moreover have "round_events_ok (message_body_round captured d bs w)"
    using assms by (auto simp: message_body_round_def Let_def dest!: finish_tls_message_events split: prod.split)
  ultimately show ?thesis by (simp add: handshake_round_def)
qed

lemma handshake_loop_events:
  assumes "events_ok w" "handshake_loop captured d bs w = (e, w')"
  shows "events_ok w'"
proof -
  have "events_ok w' \<and> (e = TlsNone \<longrightarrow> events_ok w')"
  proof (rule handshake.loop_kept [OF assms(2), where P = events_ok and Q = events_ok])
    show "events_ok u'" if "events_ok u" "handshake_round captured d bs u = Inr (bs', u')" for bs u bs' u'
      using handshake_round_events [OF that(1), of captured d bs] that(2) by simp
    show "events_ok u'" if "events_ok u" "handshake_round captured d bs u = Inl (e, u')" for bs u e u'
      using handshake_round_events [OF that(1), of captured d bs] that(2) by simp
  qed (use assms(1) in auto)
  then show ?thesis by simp
qed

lemma record_round_events:
  assumes "events_ok w"
  shows "round_events_ok (record_round captured d bs w)"
proof -
  have "round_events_ok (record_header_round captured d bs w)"
    using assms open_tls_events(2) by (simp add: record_header_round_def Let_def)
  moreover have "events_ok w'" if "record_chunk captured d c w = (e, w')" for c e w'
    using that assms handshake_loop_events by (auto simp: record_chunk_def split: if_splits)
  then have "round_events_ok (record_body_round captured d bs w)"
    by (auto simp: record_body_chunk Let_def intro: finish_tls_record_events split: prod.split)
  ultimately show ?thesis by (simp add: record_round_def)
qed

lemma record_loop_events:
  assumes "events_ok w" "record_loop captured d bs w = (e, w')"
  shows "events_ok w'"
proof -
  have "events_ok w' \<and> (e = TlsNone \<longrightarrow> events_ok w')"
  proof (rule records.loop_kept [OF assms(2), where P = events_ok and Q = events_ok])
    show "events_ok u'" if "events_ok u" "record_round captured d bs u = Inr (bs', u')" for bs u bs' u'
      using record_round_events [OF that(1), of captured d bs] that(2) by simp
    show "events_ok u'" if "events_ok u" "record_round captured d bs u = Inl (e, u')" for bs u e u'
      using record_round_events [OF that(1), of captured d bs] that(2) by simp
  qed (use assms(1) in auto)
  then show ?thesis by simp
qed

lemma tls_consume_events:
  assumes "tls_consume cx ev f = (e, f', out)" "fe \<in> set out"
  shows "framed_ok fe"
proof -
  have "framed_ok fe" if "record_loop c d bs (g, []) = (e, f', out)" for c d bs g
    using record_loop_events [OF _ that] assms(2) by simp
  then show ?thesis
    using assms
    by (simp add: tls_consume_def Let_def split: if_splits prod.splits tcp_stream_event_kind.splits option.splits)
qed

section \<open>The invariant of a tracker\<close>

definition hellos_ok :: "tls_handshake \<Rightarrow> bool" where
  "hellos_ok c \<longleftrightarrow>
     (\<forall>h. hs_first_client_hello c = Some h \<longrightarrow> valid_client_hello h \<and> alpn_encodable h) \<and>
     (\<forall>h. hs_retry_client_hello c = Some h \<longrightarrow> offers_version h 0x0304) \<and>
     (\<forall>h. hs_final_server_hello c = Some h \<longrightarrow> alpn_encodable h \<and>
        (\<exists>suite. th_cipher_suite h = Some suite \<and> valid_cipher_suite suite))"

text \<open>Which Hellos a phase implies.\<close>

definition handshake_ok :: "u64 \<Rightarrow> tls_handshake \<Rightarrow> bool" where
  "handshake_ok sid c \<longleftrightarrow>
     hs_session_id c = sid \<and> hs_phase c \<noteq> PhaseClosed \<and> hellos_ok c \<and>
     (hs_first_client_hello c = None \<longleftrightarrow> hs_phase c = PhaseCandidate) \<and>
     (hs_retry_client_hello c \<noteq> None \<longleftrightarrow> hs_phase c = AwaitingFinalServerHello) \<and>
     (hs_final_server_hello c \<noteq> None \<longleftrightarrow> hs_phase c = AwaitingTls12Boundary) \<and>
     hs_retry_count c = (if hs_phase c = AwaitingRetryClientHello \<or> hs_phase c = AwaitingFinalServerHello then 1 else 0) \<and>
     (hs_retry_count c = 1 \<longrightarrow> first_offers_tls13 c) \<and>
     (\<forall>h. hs_final_server_hello c = Some h \<longrightarrow> th_selected_version h \<in> {None, Some 0x0303})"

text \<open>
  What a result says that claims a ServerHello: the version it selects is one the client may get,
  TLS 1.3 only if the client offered it, and after a retry nothing else.
\<close>

definition observed_ok :: "tls_handshake \<Rightarrow> bool" where
  "observed_ok c \<longleftrightarrow>
     (\<exists>ch sh. hs_first_client_hello c = Some ch \<and> hs_final_server_hello c = Some sh \<and>
        th_selected_version sh \<in> {None, Some 0x0303, Some 0x0304} \<and>
        (th_selected_version sh = Some 0x0304 \<longrightarrow> offers_version ch 0x0304 \<and> th_selected_alpn sh = None) \<and>
        (hs_retry_count c = 1 \<longrightarrow> th_selected_version sh = Some 0x0304 \<and> hs_retry_client_hello c \<noteq> None))"

definition result_ok :: "u64 \<Rightarrow> tls_result \<Rightarrow> bool" where
  "result_ok sid r \<longleftrightarrow>
     hs_session_id (tr_handshake r) = sid \<and> hs_phase (tr_handshake r) = PhaseClosed \<and>
     hs_retry_count (tr_handshake r) \<le> 1 \<and> hellos_ok (tr_handshake r) \<and>
     tr_latency_ns r = tls_latency (tr_handshake r) \<and>
     (tr_outcome r = ServerHelloObserved \<longrightarrow> observed_ok (tr_handshake r)) \<and>
     (if tr_outcome r = FatalAlertObserved
      then tr_incomplete_reason r = NoReason \<and> tr_alert_level r = Some 2 \<and> tr_alert_description r \<noteq> None
      else tr_incomplete_reason r \<noteq> NoReason \<and> tr_alert_level r = None \<and> tr_alert_description r = None)"

definition tracker_ok :: "u64 \<Rightarrow> tls_tracker \<Rightarrow> bool" where
  "tracker_ok sid t \<longleftrightarrow>
     tt_session_id t = sid \<and> (tt_closed t \<longrightarrow> tt_candidate t = None) \<and>
     (\<forall>c. tt_candidate t = Some c \<longrightarrow> handshake_ok sid c)"

definition call_ok :: "u64 \<Rightarrow> tls_call \<Rightarrow> bool" where
  "call_ok sid s \<longleftrightarrow> tracker_ok sid (fst s) \<and> (\<forall>r. snd s = Some r \<longrightarrow> tt_closed (fst s) \<and> result_ok sid r)"

lemma handshake_ok_observed: "handshake_ok sid c \<Longrightarrow> hs_final_server_hello c \<noteq> None \<Longrightarrow> observed_ok c"
  by (auto simp: handshake_ok_def observed_ok_def)

lemma tls_latency_phase [simp]: "tls_latency (c\<lparr>hs_phase := p\<rparr>) = tls_latency c"
  by (simp add: tls_latency_def)

lemma phase_unread [simp]:
  "hellos_ok (c\<lparr>hs_phase := p\<rparr>) = hellos_ok c" "observed_ok (c\<lparr>hs_phase := p\<rparr>) = observed_ok c"
  by (simp_all add: hellos_ok_def observed_ok_def)

lemma tls_close_ok:
  assumes "tt_candidate t = Some c" "\<not> tt_closed t" "tt_session_id t = sid" "hs_session_id c = sid"
    "hs_retry_count c \<le> 1" "hellos_ok c" "outcome = ServerHelloObserved \<Longrightarrow> observed_ok c"
    "outcome \<noteq> FatalAlertObserved" "reason \<noteq> NoReason"
  shows "call_ok sid (tls_close outcome reason observed (t, res))"
  using assms by (simp add: tls_close_def call_ok_def tracker_ok_def result_ok_def)

lemma close_candidate_ok:
  assumes "call_ok sid s" "tt_candidate (fst s) = Some c" "outcome = ServerHelloObserved \<Longrightarrow> observed_ok c"
    "outcome \<noteq> FatalAlertObserved" "reason \<noteq> NoReason"
  shows "call_ok sid (tls_close outcome reason observed s)"
proof -
  obtain t res where s: "s = (t, res)" by (cases s)
  have "handshake_ok sid c" "\<not> tt_closed t" "tt_session_id t = sid"
    using assms(1,2) by (auto simp: s call_ok_def tracker_ok_def)
  then show ?thesis unfolding s
    using assms(2-) by (intro tls_close_ok [of t c]) (auto simp: s handshake_ok_def)
qed

lemma give_up_ok:
  "call_ok sid s \<Longrightarrow> tt_candidate (fst s) = Some c \<Longrightarrow> reason \<noteq> NoReason \<Longrightarrow> call_ok sid (tls_give_up reason observed s)"
  by (rule close_candidate_ok) auto

lemma put_candidate_ok:
  "call_ok sid s \<Longrightarrow> tt_candidate (fst s) \<noteq> None \<Longrightarrow> handshake_ok sid c \<Longrightarrow> call_ok sid (put_candidate c s)"
  by (auto simp: call_ok_def tracker_ok_def put_candidate_def split: prod.split)

text \<open>Every handler keeps it.\<close>

lemma on_alert_ok:
  assumes "call_ok sid s" "tt_candidate (fst s) = Some c"
  shows "call_ok sid (on_alert ev observed s)"
proof -
  obtain t res where s: "s = (t, res)" by (cases s)
  have "handshake_ok sid c" "\<not> tt_closed t" "tt_session_id t = sid"
    using assms by (auto simp: s call_ok_def tracker_ok_def)
  with assms show ?thesis
    by (simp add: s on_alert_def tls_close_def call_ok_def tracker_ok_def result_ok_def handshake_ok_def)
qed

lemma on_client_hello_ok:
  assumes "call_ok sid s" "tt_candidate (fst s) = Some c" "alpn_encodable h"
  shows "call_ok sid (on_client_hello h client c observed s)"
proof -
  have ok: "handshake_ok sid c" using assms(1,2) by (auto simp: call_ok_def tracker_ok_def)
  have "handshake_ok sid (c\<lparr>hs_first_client_hello := Some h, hs_phase := AwaitingServerHello\<rparr>)"
    if "valid_client_hello h" "hs_phase c = PhaseCandidate"
    using ok that assms(3) by (auto simp: handshake_ok_def hellos_ok_def)
  moreover have "handshake_ok sid (c\<lparr>hs_retry_client_hello := Some h, hs_phase := AwaitingFinalServerHello\<rparr>)"
    if "offers_version h 0x0304" "hs_phase c = AwaitingRetryClientHello"
    using ok that assms(3) by (auto simp: handshake_ok_def hellos_ok_def first_offers_tls13_def)
  ultimately show ?thesis
    using assms give_up_ok [OF assms(1,2)] put_candidate_ok [OF assms(1)]
    by (simp add: on_client_hello_def)
qed

lemma on_server_hello_ok:
  assumes "call_ok sid s" "tt_candidate (fst s) = Some c" "alpn_encodable h"
  shows "call_ok sid (on_server_hello h client c observed s)"
proof -
  obtain t res where s: "s = (t, res)" by (cases s)
  have ok: "handshake_ok sid c" and open_t: "\<not> tt_closed t" "tt_session_id t = sid"
    using assms(1,2) by (auto simp: s call_ok_def tracker_ok_def)
  note give_up = give_up_ok [OF assms(1,2)]
  have retry: "call_ok sid (on_retry_request h c observed s)"
  proof -
    have "handshake_ok sid (c\<lparr>hs_retry_count := 1, hs_phase := AwaitingRetryClientHello\<rparr>)"
      if "hs_phase c = AwaitingServerHello" "first_offers_tls13 c"
      using ok that by (auto simp: handshake_ok_def hellos_ok_def first_offers_tls13_def)
    then show ?thesis using give_up put_candidate_ok [OF assms(1)] assms(2) by (simp add: on_retry_request_def)
  qed
  have final: "call_ok sid (on_final_server_hello h c observed s)"
    if "hs_phase c = AwaitingServerHello \<or> hs_phase c = AwaitingFinalServerHello"
      "\<exists>suite. th_cipher_suite h = Some suite \<and> valid_cipher_suite suite"
  proof -
    have first: "hs_first_client_hello c \<noteq> None" using ok that(1) by (auto simp: handshake_ok_def)
    let ?c = "c\<lparr>hs_final_server_hello := Some h\<rparr>"
    have closes: "call_ok sid (tls_close ServerHelloObserved EncryptedAfterServerHello observed (put_candidate ?c s))"
      if "th_selected_version h = Some 0x0304" "first_offers_tls13 c" "th_selected_alpn h = None"
    proof -
      have "observed_ok ?c" "hellos_ok ?c"
        using first that ok \<open>\<exists>suite. _ suite\<close> assms(3) \<open>_ \<or> hs_phase c = AwaitingFinalServerHello\<close>
        by (auto simp: observed_ok_def handshake_ok_def hellos_ok_def first_offers_tls13_def)
      then show ?thesis
        using ok open_t unfolding s put_candidate_def
        by (simp only: prod.case) (rule tls_close_ok [of _ ?c], auto simp: handshake_ok_def)
    qed
    have waits: "handshake_ok sid (c\<lparr>hs_final_server_hello := Some h, hs_phase := AwaitingTls12Boundary\<rparr>)"
      if "hs_phase c = AwaitingServerHello" "th_selected_version h \<in> {None, Some 0x0303}"
      using ok first that \<open>\<exists>suite. _ suite\<close> assms(3) by (auto simp: handshake_ok_def hellos_ok_def)
    show ?thesis
      using give_up closes waits put_candidate_ok [OF assms(1)] assms(2) that(1)
      by (auto simp: on_final_server_hello_def Let_def)
  qed
  show ?thesis using give_up retry final by (auto simp: on_server_hello_def split: option.splits)
qed

lemma on_framed_event_ok:
  assumes ok: "call_ok sid s" and framed: "framed_ok ev"
  shows "call_ok sid (on_framed_event ev observed s)"
proof (cases "tt_candidate (fst s)")
  case None
  with ok show ?thesis by (simp add: on_framed_event_def)
next
  case (Some c)
  note give_up = give_up_ok [OF ok Some]
  have ccs: "call_ok sid (on_change_cipher_spec ev c observed s)"
  proof -
    have "observed_ok c" if "hs_phase c = AwaitingTls12Boundary"
      using ok Some that by (intro handshake_ok_observed [of sid]) (auto simp: call_ok_def tracker_ok_def handshake_ok_def)
    then show ?thesis
      using ok give_up close_candidate_ok [OF ok Some] by (auto simp: on_change_cipher_spec_def)
  qed
  have hello: "alpn_encodable h" if "fe_hello ev = Some h" for h using framed that by (simp add: framed_ok_def)
  show ?thesis
    using ok give_up ccs on_alert_ok [OF ok Some] on_client_hello_ok [OF ok Some hello] on_server_hello_ok [OF ok Some hello]
    by (auto simp: on_framed_event_def Some Let_def split: tls_framed_kind.split option.split)
qed

lemma on_framed_events_ok:
  "call_ok sid s \<Longrightarrow> \<forall>ev \<in> set evs. framed_ok ev \<Longrightarrow> call_ok sid (on_framed_events evs observed s)"
  by (induction evs observed s rule: on_framed_events.induct) (auto simp: on_framed_event_ok Let_def)

lemma after_framer_error_ok:
  assumes ok: "call_ok sid s"
  shows "call_ok sid (after_framer_error framed cx ev s)"
proof (cases "tt_candidate (fst s)")
  case None
  with ok show ?thesis by (simp add: after_framer_error_def)
next
  case (Some c)
  have "observed_ok c" if "hs_final_server_hello c \<noteq> None"
    using ok Some that by (intro handshake_ok_observed [of sid]) (auto simp: call_ok_def tracker_ok_def)
  moreover have "incomplete_reason framed d c \<noteq> NoReason" for d
    by (auto simp: incomplete_reason_def framer_reason_def split: tls_framer_error.split)
  ultimately show ?thesis
    using ok give_up_ok [OF ok Some] close_candidate_ok [OF ok Some]
    by (auto simp: after_framer_error_def Some)
qed

lemma after_server_fin_ok: "call_ok sid s \<Longrightarrow> call_ok sid (after_server_fin cx ev s)"
  using give_up_ok by (auto simp: after_server_fin_def split: option.split)

lemma adopt_candidate_ok: "tracker_ok sid t \<Longrightarrow> \<not> tt_closed t \<Longrightarrow> tracker_ok sid (adopt_candidate t)"
  by (auto simp: tracker_ok_def adopt_candidate_def handshake_ok_def hellos_ok_def)

lemma tls_track_ok:
  assumes "tls_track cx ev t = (e, t', res)" "tracker_ok sid t"
  shows "call_ok sid (t', res)"
proof -
  obtain framed f events where c: "tls_consume cx ev (tt_framer t) = (framed, f, events)"
    by (cases "tls_consume cx ev (tt_framer t)")
  let ?s = "on_framed_events events (cx_observed_at_ns cx) (adopt_candidate (t\<lparr>tt_framer := f\<rparr>), None)"
  have framer: "tracker_ok sid (t\<lparr>tt_framer := f\<rparr>)" using assms(2) by (simp add: tracker_ok_def)
  have quiet: "call_ok sid (u, None)" if "tracker_ok sid u" for u using that by (simp add: call_ok_def)
  have events: "call_ok sid ?s" if "\<not> tt_closed t"
    using adopt_candidate_ok [OF framer] that tls_consume_events [OF c]
    by (intro on_framed_events_ok) (auto simp: call_ok_def)
  then have "call_ok sid (after_server_fin cx ev (after_framer_error framed cx ev ?s))" if "\<not> tt_closed t"
    using that by (intro after_server_fin_ok after_framer_error_ok)
  with events show ?thesis
    using assms quiet [OF framer] quiet [OF assms(2)] by (auto simp: tls_track_def c Let_def split: if_splits)
qed

lemma overdue_ok:
  assumes "tracker_ok sid t" "tt_candidate t = Some c" "reason \<noteq> NoReason" "after \<noteq> NoReason" "unfinished \<noteq> NoReason"
  shows "call_ok sid
    (if hs_final_server_hello c \<noteq> None then tls_close ServerHelloObserved after observed (t, None)
     else if P then tls_give_up unfinished observed (t, None)
     else if hs_first_client_hello c = None then tls_give_up ClientHelloIncomplete observed (t, None)
     else tls_give_up reason observed (t, None))"
proof -
  have ok: "call_ok sid (t, None)" using assms(1) by (simp add: call_ok_def)
  have "observed_ok c" if "hs_final_server_hello c \<noteq> None"
    using assms that by (intro handshake_ok_observed [of sid]) (auto simp: tracker_ok_def)
  then show ?thesis using assms give_up_ok [OF ok] close_candidate_ok [OF ok] by auto
qed

lemma tls_watermark_ok:
  assumes "tracker_ok sid t"
  shows "call_ok sid (tls_watermark w t)"
proof -
  have marked: "tracker_ok sid (t\<lparr>tt_last_watermark_ns := Some w\<rparr>)" using assms by (simp add: tracker_ok_def)
  note late = overdue_ok [OF marked, of _ ServerHelloNotObservedByDeadline DeadlineAfterServerHello HelloRetryRequestUnfinished w]
  show ?thesis
    using assms marked late by (auto simp: tls_watermark_def call_ok_def Let_def split: option.split)
qed

lemma tls_session_end_ok:
  assumes "tracker_ok sid t"
  shows "call_ok sid (tls_session_end observed t)"
  using assms overdue_ok [OF assms, of _ ReasonSessionEnd SessionEndAfterServerHello HelloRetryRequestUnfinished observed]
  by (auto simp: tls_session_end_def call_ok_def split: option.split)

section \<open>Runs of a tracker\<close>

text \<open>A state is the tracker and the results it has handed out.\<close>

fun handed_out :: "tls_result option \<Rightarrow> tls_result list" where
  "handed_out None = []"
| "handed_out (Some r) = [r]"

inductive tls_step :: "tls_tracker \<times> tls_result list \<Rightarrow> tls_tracker \<times> tls_result list \<Rightarrow> bool" where
  track: "tls_track cx ev t = (e, t', res) \<Longrightarrow> tls_step (t, log) (t', log @ handed_out res)"
| watermark: "tls_watermark w t = (t', res) \<Longrightarrow> tls_step (t, log) (t', log @ handed_out res)"
| session_end: "tls_session_end observed t = (t', res) \<Longrightarrow> tls_step (t, log) (t', log @ handed_out res)"
| abort: "tls_step (t, log) (tls_abort t, log)"

inductive_cases tls_stepE: "tls_step (t, log) s'"

definition tls_reachable :: "u64 \<Rightarrow> tls_config \<Rightarrow> tls_tracker \<times> tls_result list \<Rightarrow> bool" where
  "tls_reachable sid c s \<longleftrightarrow> tls_step\<^sup>*\<^sup>* (new_tls_tracker sid c, []) s"

definition run_ok :: "u64 \<Rightarrow> tls_tracker \<times> tls_result list \<Rightarrow> bool" where
  "run_ok sid s \<longleftrightarrow>
     tracker_ok sid (fst s) \<and>
     (snd s = [] \<or> (\<exists>r. snd s = [r] \<and> tt_closed (fst s) \<and> result_ok sid r))"

text \<open>A closed tracker stays closed and hands out nothing.\<close>

lemma closed_silent:
  assumes "tt_closed t" "tt_candidate t = None"
  shows "tls_track cx ev t = (e, t', res) \<Longrightarrow> res = None \<and> tt_closed t'"
    "tls_watermark w t = (t', res) \<Longrightarrow> res = None \<and> tt_closed t'"
    "tls_session_end observed t = (t', res) \<Longrightarrow> res = None \<and> tt_closed t'"
  using assms by (auto simp: tls_track_def tls_watermark_def tls_session_end_def split: if_splits)

lemma run_ok_call:
  assumes "run_ok sid (t, log)" "call_ok sid (t', res)" "tt_closed t \<Longrightarrow> res = None \<and> tt_closed t'"
  shows "run_ok sid (t', log @ handed_out res)"
  using assms by (cases res) (auto simp: run_ok_def call_ok_def)

lemma tls_step_ok: "tls_step s s' \<Longrightarrow> run_ok sid s \<Longrightarrow> run_ok sid s'"
proof (induction rule: tls_step.induct)
  case (track cx ev t e t' res log)
  then have "tracker_ok sid t" by (simp add: run_ok_def)
  with track show ?case
    using closed_silent(1) [of t cx ev e t' res]
    by (intro run_ok_call) (auto simp: tracker_ok_def intro: tls_track_ok [unfolded tracker_ok_def])
next
  case (watermark w t t' res log)
  then have "tracker_ok sid t" by (simp add: run_ok_def)
  with watermark show ?case
    using closed_silent(2) [of t w t' res] tls_watermark_ok [of sid t w] by (intro run_ok_call) (auto simp: tracker_ok_def)
next
  case (session_end observed t t' res log)
  then have "tracker_ok sid t" by (simp add: run_ok_def)
  with session_end show ?case
    using closed_silent(3) [of t observed t' res] tls_session_end_ok [of sid t observed]
    by (intro run_ok_call) (auto simp: tracker_ok_def)
next
  case (abort t log)
  then show ?case by (auto simp: run_ok_def tls_abort_def tracker_ok_def)
qed

lemma tls_reachable_ok:
  assumes "tls_reachable sid c s"
  shows "run_ok sid s"
  using assms unfolding tls_reachable_def
proof (induction rule: rtranclp_induct)
  case base
  show ?case by (simp add: run_ok_def tracker_ok_def new_tls_tracker_def)
next
  case (step s s')
  then show ?case using tls_step_ok by blast
qed

text \<open>
  C34. Over any run of a tracker at most one result comes out, after which the tracker is closed. The
  result fits its outcome: a fatal alert has a level and a description and no reason, every other
  outcome has a reason and no alert; a result that claims a ServerHello holds both Hellos, with a
  version the client may be given, TLS 1.3 only where it was offered, and after a HelloRetryRequest
  nothing but TLS 1.3 with the second ClientHello there; the latency is the time from the first
  ClientHello to the final ServerHello.
\<close>

theorem tls_one_sound_result:
  assumes "tls_reachable sid c (t, log)"
  shows "log = [] \<or> (\<exists>r. log = [r] \<and> tt_closed t \<and> result_ok sid r)"
  using tls_reachable_ok [OF assms] by (simp add: run_ok_def)


end
