(* ===== verification/TlsModuleProps.thy ===== *)
theory TlsModuleProps
  imports TlsModule TlsHandshakeProps
begin

text \<open>
  The TLS module over its runs: what the ledger records is exactly what the sessions have reserved,
  a session reserves more than its framer retains, and every row that is emitted says what its
  outcome allows and can be encoded.
\<close>

section \<open>Encoding a result\<close>

abbreviation identified :: "u64 \<Rightarrow> tls_result \<Rightarrow> tls_result" where
  "identified sid r \<equiv> r\<lparr>tr_handshake := (tr_handshake r)\<lparr>hs_entity_instance_id := sid\<rparr>\<rparr>"

lemma identified_ok: "result_ok sid r \<Longrightarrow> result_ok sid (identified sid' r)"
  by (simp add: result_ok_def hellos_ok_def observed_ok_def tls_latency_def)

lemma result_row_valid: "result_ok sid r \<Longrightarrow> sid \<noteq> 0 \<Longrightarrow> valid_tls_row (identified sid r)"
  by (auto simp: result_ok_def valid_tls_row_def word_less_nat_alt word_le_nat_alt Let_def)

lemma result_columns: "result_ok sid r \<Longrightarrow> \<exists>cols. tls_columns_of r = Some cols"
proof -
  assume ok: "result_ok sid r"
  have "offered_alpn_column (hs_first_client_hello (tr_handshake r)) \<noteq> None"
    using ok by (auto simp: offered_alpn_column_def result_ok_def hellos_ok_def alpn_encodable_def split: option.splits sum.splits)
  moreover have "selected_alpn_column (hs_final_server_hello (tr_handshake r)) \<noteq> None"
    using ok by (auto simp: selected_alpn_column_def result_ok_def hellos_ok_def alpn_encodable_def split: option.splits sum.splits)
  ultimately show ?thesis by (auto simp: tls_columns_of_def Let_def)
qed

lemma identified_columns: "result_ok sid r \<Longrightarrow> \<exists>cols. tls_columns_of (identified sid r) = Some cols"
  using result_columns identified_ok by blast

section \<open>One session and the ledger\<close>

definition tracker_fits :: "tls_config \<Rightarrow> u64 \<Rightarrow> tls_tracker \<Rightarrow> bool" where
  "tracker_fits c sid t \<longleftrightarrow>
     tracker_ok sid t \<and> framer_ok (tt_framer t) \<and> tl_max_hello_bytes (tt_framer t) = tc_max_hello_bytes c"

definition session_ok :: "tls_config \<Rightarrow> u64 \<Rightarrow> tls_session \<Rightarrow> bool" where
  "session_ok c sid st \<longleftrightarrow>
     sid \<noteq> 0 \<and>
     se_reserved st = se_identity_charge st + (if se_tracker st = None then 0 else tracker_charge c) \<and>
     (\<forall>t. se_tracker st = Some t \<longrightarrow> tracker_fits c sid t)"

text \<open>A session at work, with what the other sessions hold.\<close>

definition ledger_ok :: "tls_config \<Rightarrow> nat \<Rightarrow> u64 \<Rightarrow> nat \<Rightarrow> session_ledger \<Rightarrow> bool" where
  "ledger_ok c base sid others s \<longleftrightarrow>
     session_ok c sid (fst s) \<and> backed (snd s) (others + se_reserved (fst s)) base \<and> snd s \<noteq> None"

definition row_ok :: "npm_session_key \<times> tls_result \<Rightarrow> bool" where
  "row_ok kr \<longleftrightarrow> (\<exists>sid. sid \<noteq> 0 \<and> hs_entity_instance_id (tr_handshake (snd kr)) = sid \<and> result_ok sid (snd kr))"

lemma opt_refund_None [simp]: "(opt_refund n b = None) = (b = None)"
  by (simp add: opt_refund_def)

lemma opt_charge_Some: "opt_charge n b = Some b' \<Longrightarrow> (b' = None) = (b = None)"
  by (auto simp: opt_charge_def split: option.splits)

lemma new_framer_ok: "framer_ok (new_tls_framer n)"
  using tls_run_ok [of n "[]"] by (simp add: tls_run_def)

lemma new_tracker_fits: "tracker_fits c sid (new_tls_tracker sid c)"
  using new_framer_ok by (simp add: tracker_fits_def tracker_ok_def new_tls_tracker_def) (simp add: new_tls_framer_def)

lemma tls_close_framer [simp]: "tt_framer (fst (tls_close outcome reason observed s)) = tt_framer (fst s)"
  by (auto simp: tls_close_def split: prod.split option.split)

lemma put_candidate_framer [simp]: "tt_framer (fst (put_candidate c s)) = tt_framer (fst s)"
  by (simp add: put_candidate_def split: prod.split)

lemma handlers_framer [simp]:
  "tt_framer (fst (on_alert ev observed s)) = tt_framer (fst s)"
  "tt_framer (fst (on_change_cipher_spec ev c observed s)) = tt_framer (fst s)"
  "tt_framer (fst (on_client_hello h client c observed s)) = tt_framer (fst s)"
  "tt_framer (fst (on_retry_request h c observed s)) = tt_framer (fst s)"
  "tt_framer (fst (on_final_server_hello h c observed s)) = tt_framer (fst s)"
  by (simp_all add: on_alert_def on_change_cipher_spec_def on_client_hello_def on_retry_request_def
      on_final_server_hello_def case_prod_beta Let_def)

lemma on_server_hello_framer [simp]: "tt_framer (fst (on_server_hello h client c observed s)) = tt_framer (fst s)"
  by (simp add: on_server_hello_def)

lemma on_framed_event_framer [simp]: "tt_framer (fst (on_framed_event ev observed s)) = tt_framer (fst s)"
  by (cases "fe_kind ev") (simp_all add: on_framed_event_def Let_def split: option.split)

lemma on_framed_events_framer [simp]: "tt_framer (fst (on_framed_events evs observed s)) = tt_framer (fst s)"
  by (induction evs observed s rule: on_framed_events.induct) (simp_all add: Let_def)

lemma adopt_candidate_framer [simp]: "tt_framer (adopt_candidate t) = tt_framer t"
  by (simp add: adopt_candidate_def)

lemma after_steps_framer [simp]:
  "tt_framer (fst (after_framer_error framed cx ev s)) = tt_framer (fst s)"
  "tt_framer (fst (after_server_fin cx ev s)) = tt_framer (fst s)"
  by (auto simp: after_framer_error_def after_server_fin_def split: option.split)

lemma tls_track_framer:
  assumes "tls_track cx ev t = (e, t', res)"
  shows "tt_framer t' = tt_framer t \<or> tt_framer t' = fst (snd (tls_consume cx ev (tt_framer t)))"
  using assms by (auto simp: tls_track_def Let_def dest!: arg_cong [where f = "\<lambda>s. tt_framer (fst s)"] split: prod.splits if_splits)

lemma tls_track_fits:
  assumes "tls_track cx ev t = (e, t', res)" "tracker_fits c sid t"
  shows "tracker_fits c sid t' \<and> (\<forall>r. res = Some r \<longrightarrow> result_ok sid r)"
proof -
  obtain framed f out where f: "tls_consume cx ev (tt_framer t) = (framed, f, out)"
    by (cases "tls_consume cx ev (tt_framer t)")
  have "framer_ok f" "tl_max_hello_bytes f = tc_max_hello_bytes c"
    using assms(2) tls_consume_ok [OF _ f] tls_consume_size [OF f] by (auto simp: tracker_fits_def)
  then show ?thesis
    using tls_track_ok [OF assms(1), of sid] tls_track_framer [OF assms(1)] assms(2) f
    by (auto simp: tracker_fits_def call_ok_def)
qed

lemma tls_watermark_fits:
  assumes "tls_watermark w t = (t', res)" "tracker_fits c sid t"
  shows "tracker_fits c sid t' \<and> (\<forall>r. res = Some r \<longrightarrow> result_ok sid r)"
proof -
  have "tt_framer (fst (tls_watermark w t)) = tt_framer t"
    by (auto simp: tls_watermark_def Let_def split: option.split)
  with assms show ?thesis using tls_watermark_ok [of sid t w] by (auto simp: tracker_fits_def call_ok_def)
qed

lemma tls_session_end_fits:
  assumes "tls_session_end observed t = (t', res)" "tracker_fits c sid t"
  shows "tracker_fits c sid t' \<and> (\<forall>r. res = Some r \<longrightarrow> result_ok sid r)"
proof -
  have "tt_framer (fst (tls_session_end observed t)) = tt_framer t"
    by (auto simp: tls_session_end_def split: option.split)
  with assms show ?thesis using tls_session_end_ok [of sid t observed] by (auto simp: tracker_fits_def call_ok_def)
qed

lemma ledger_ok_tracker:
  "ledger_ok c base sid others (st, b) \<Longrightarrow> se_tracker st \<noteq> None \<Longrightarrow> tracker_fits c sid t \<Longrightarrow>
     ledger_ok c base sid others (st\<lparr>se_tracker := Some t\<rparr>, b)"
  by (auto simp: ledger_ok_def session_ok_def)

lemma release_tracker_ok:
  assumes "ledger_ok c base sid others s"
  shows "ledger_ok c base sid others (release_tracker s)"
proof (cases "se_tracker (fst s)")
  case None
  with assms show ?thesis by (cases s) (simp add: release_tracker_def)
next
  case (Some t)
  obtain st b where s: "s = (st, b)" by (cases s)
  have "backed b ((others + se_identity_charge st) + (se_reserved st - se_identity_charge st)) base"
    using assms Some by (auto simp: s ledger_ok_def session_ok_def add.assoc)
  from backed_refund [OF this] show ?thesis
    using assms Some by (simp add: s release_tracker_def ledger_ok_def session_ok_def)
qed

lemma emit_tls_handshake_backed:
  assumes "emit_tls_handshake host key r b = (e, b')" "backed b c base"
  shows "backed b' c base \<and> (b' = None) = (b = None)"
proof (cases "opt_charge (tls_build_charge r) b")
  case None
  with assms show ?thesis by (auto simp: emit_tls_handshake_def split: if_splits)
next
  case (Some b1)
  have "backed (opt_refund (tls_build_charge r) b1) c base" by (rule backed_refund [OF backed_charge [OF assms(2) Some]])
  with assms opt_charge_Some [OF Some] Some show ?thesis by (auto simp: emit_tls_handshake_def split: if_splits)
qed

lemma emit_result_ok:
  assumes "emit_result host sid res s = (e, s', out)" "ledger_ok c base sid others s" "\<forall>r. res = Some r \<longrightarrow> result_ok sid r"
  shows "ledger_ok c base sid others s' \<and> (\<forall>kr \<in> set out. row_ok kr)"
proof (cases res)
  case None
  with assms show ?thesis by (simp add: emit_result_def)
next
  case (Some r)
  obtain e1 b where e: "emit_tls_handshake host (se_key (fst s)) (identified sid r) (snd s) = (e1, b)"
    by (cases "emit_tls_handshake host (se_key (fst s)) (identified sid r) (snd s)")
  have sid: "sid \<noteq> 0" using assms(2) by (simp add: ledger_ok_def session_ok_def)
  have "ledger_ok c base sid others (fst s, b)"
    using emit_tls_handshake_backed [OF e, of "others + se_reserved (fst s)" base] assms(2) by (simp add: ledger_ok_def)
  moreover have "row_ok (se_key (fst s), identified sid r)"
    using identified_ok [of sid r sid] assms(3) sid Some by (simp add: row_ok_def)
  ultimately show ?thesis
    using assms(1) e release_tracker_ok by (auto simp: emit_result_def Some Let_def split: if_splits)
qed

lemma release_if_done_ok: "ledger_ok c base sid others s \<Longrightarrow> ledger_ok c base sid others (release_if_done s)"
  by (simp add: release_if_done_def release_tracker_ok split: option.split)

section \<open>The sessions of a module\<close>

definition sessions_ok :: "tls_config \<Rightarrow> (u64, tls_session) omap \<Rightarrow> bool" where
  "sessions_ok c ss \<longleftrightarrow> omap_wf ss \<and> (\<forall>(sid, st) \<in> set ss. session_ok c sid st)"

definition module_ok :: "tls_config \<Rightarrow> nat \<Rightarrow> tls_module \<Rightarrow> bool" where
  "module_ok c base m \<longleftrightarrow>
     tm_config m = c \<and> tm_budget m \<noteq> None \<and> sessions_ok c (tm_sessions m) \<and>
     backed (tm_budget m) (omap_sum se_reserved (tm_sessions m)) base"

abbreviation other_sessions :: "u64 \<Rightarrow> tls_module \<Rightarrow> nat" where
  "other_sessions sid m \<equiv> omap_sum se_reserved (omap_erase sid (tm_sessions m))"

lemma module_session:
  assumes "module_ok c base m" "omap_find (tm_sessions m) sid = Some st"
  shows "ledger_ok c base sid (other_sessions sid m) (st, tm_budget m)"
proof -
  have "session_ok c sid st" using assms omap_find_in by (fastforce simp: module_ok_def sessions_ok_def)
  then show ?thesis using assms omap_sum_erase [OF assms(2), of se_reserved] by (simp add: module_ok_def ledger_ok_def)
qed

lemma sessions_ok_put: "sessions_ok c ss \<Longrightarrow> session_ok c sid st \<Longrightarrow> sessions_ok c (omap_put sid st ss)"
  using omap_put_subset [of sid st ss] by (auto simp: sessions_ok_def om.wf_put)

lemma put_tls_session_ok:
  assumes "module_ok c base m" "ledger_ok c base sid (other_sessions sid m) s"
  shows "module_ok c base (put_tls_session sid s m)" "other_sessions sid (put_tls_session sid s m) = other_sessions sid m"
    "omap_find (tm_sessions (put_tls_session sid s m)) sid = Some (fst s)"
proof -
  have wf: "omap_wf (tm_sessions m)" using assms(1) by (simp add: module_ok_def sessions_ok_def)
  have sum: "omap_sum se_reserved (omap_put sid (fst s) (tm_sessions m)) = se_reserved (fst s) + other_sessions sid m"
    by (rule omap_sum_put_erase [OF wf])
  show "module_ok c base (put_tls_session sid s m)"
    using assms sum by (simp add: module_ok_def put_tls_session_def ledger_ok_def sessions_ok_put add.commute)
  show find: "omap_find (tm_sessions (put_tls_session sid s m)) sid = Some (fst s)"
    by (simp add: put_tls_session_def omap_find_put)
  show "other_sessions sid (put_tls_session sid s m) = other_sessions sid m"
    using omap_sum_erase [OF find, of se_reserved] sum by (simp add: put_tls_session_def)
qed

lemma forget_session_ok:
  assumes "module_ok c base m"
  shows "module_ok c base (tls_forget_session sid m)"
    "tm_sessions (tls_forget_session sid m) = omap_erase sid (tm_sessions m)"
proof -
  have "module_ok c base (tls_forget_session sid m) \<and>
      tm_sessions (tls_forget_session sid m) = omap_erase sid (tm_sessions m)"
  proof (cases "omap_find (tm_sessions m) sid")
    case None
    with assms show ?thesis by (simp add: tls_forget_session_def omap_erase_absent)
  next
    case (Some st)
    obtain st' b where r: "release_tracker (st, tm_budget m) = (st', b)" by (cases "release_tracker (st, tm_budget m)")
    have "ledger_ok c base sid (other_sessions sid m) (st', b)"
      using release_tracker_ok [OF module_session [OF assms Some]] by (simp add: r)
    then have "backed (opt_refund (se_reserved st') b) (other_sessions sid m) base" "b \<noteq> None"
      using backed_refund [of b "other_sessions sid m" "se_reserved st'" base] by (simp_all add: ledger_ok_def)
    moreover have "sessions_ok c (omap_erase sid (tm_sessions m))"
      using assms omap_erase_subset [of sid "tm_sessions m"] by (auto simp: module_ok_def sessions_ok_def om.wf_erase)
    ultimately show ?thesis using assms by (simp add: tls_forget_session_def Some r module_ok_def)
  qed
  then show "module_ok c base (tls_forget_session sid m)"
    "tm_sessions (tls_forget_session sid m) = omap_erase sid (tm_sessions m)" by simp_all
qed

lemma remember_session_ok:
  assumes "tls_remember_session host view m = (e, m')" "module_ok c base m"
  shows "module_ok c base m'"
proof (cases "sv_key view = None \<or> sv_session_id view = 0 \<or> omap_find (tm_sessions m) (sv_session_id view) \<noteq> None")
  case True
  with assms show ?thesis by (auto simp: tls_remember_session_def split: option.splits if_splits)
next
  case False
  then obtain key where key: "sv_key view = Some key" and new: "sv_session_id view \<noteq> 0"
    "omap_find (tm_sessions m) (sv_session_id view) = None" by auto
  let ?bytes = "hh_identity host key + tracker_charge c"
  obtain tb where tb: "tm_budget m = Some tb" using assms(2) by (auto simp: module_ok_def)
  have c: "tm_config m = c" using assms(2) by (simp add: module_ok_def)
  show ?thesis
  proof (cases "opt_charge ?bytes (tm_budget m)")
    case None
    with assms key new tb c show ?thesis by (auto simp: tls_remember_session_def Let_def)
  next
    case (Some b)
    have charged: "backed b (omap_sum se_reserved (tm_sessions m) + ?bytes) base" "b \<noteq> None"
      using assms(2) backed_charge [OF _ Some] opt_charge_Some [OF Some] by (auto simp: module_ok_def)
    show ?thesis
    proof (cases "sk_protocol key = 6")
      case False
      then have "m' = m\<lparr>tm_budget := opt_refund ?bytes b\<rparr>"
        using assms(1) key new tb c Some by (auto simp: tls_remember_session_def Let_def)
      then show ?thesis using assms(2) charged backed_refund [OF charged(1)] by (simp add: module_ok_def)
    next
      case True
      let ?st = "\<lparr>se_key = key, se_identity_charge = hh_identity host key,
        se_tracker = Some (new_tls_tracker (sv_session_id view) c), se_reserved = ?bytes\<rparr>"
      have "m' = m\<lparr>tm_budget := b, tm_sessions := omap_put (sv_session_id view) ?st (tm_sessions m)\<rparr>"
        using assms(1) key new tb c Some True by (auto simp: tls_remember_session_def Let_def)
      moreover have "session_ok c (sv_session_id view) ?st" using new new_tracker_fits by (simp add: session_ok_def)
      ultimately show ?thesis
        using assms(2) charged omap_sum_put_new [OF new(2), of se_reserved ?st]
        by (simp add: module_ok_def sessions_ok_put)
    qed
  qed
qed

section \<open>The callbacks keep the invariant\<close>

lemma module_session_end_ok:
  assumes "tls_module_session_end host view observed m = (e, m', out)" "module_ok c base m"
  shows "module_ok c base m' \<and> (\<forall>kr \<in> set out. row_ok kr)"
proof (cases "tm_closed m \<or> omap_find (tm_sessions m) (sv_session_id view) = None")
  case True
  with assms show ?thesis by (auto simp: tls_module_session_end_def split: if_splits)
next
  case False
  let ?sid = "sv_session_id view"
  obtain st where st: "omap_find (tm_sessions m) ?sid = Some st" using False by auto
  note ledger = module_session [OF assms(2) st]
  show ?thesis
  proof (cases "se_tracker st")
    case None
    with assms False st show ?thesis by (auto simp: tls_module_session_end_def forget_session_ok)
  next
    case (Some t)
    obtain t' res where t: "tls_session_end observed t = (t', res)" by (cases "tls_session_end observed t")
    obtain e1 s out1 where r: "emit_result host ?sid res (st\<lparr>se_tracker := Some t'\<rparr>, tm_budget m) = (e1, s, out1)"
      by (cases "emit_result host ?sid res (st\<lparr>se_tracker := Some t'\<rparr>, tm_budget m)")
    have fits: "tracker_fits c ?sid t' \<and> (\<forall>r. res = Some r \<longrightarrow> result_ok ?sid r)"
      using tls_session_end_fits [OF t, of c ?sid] ledger Some by (auto simp: ledger_ok_def session_ok_def)
    then have ok: "ledger_ok c base ?sid (other_sessions ?sid m) s \<and> (\<forall>kr \<in> set out1. row_ok kr)"
      using emit_result_ok [OF r ledger_ok_tracker [OF ledger]] Some by simp
    have "m' = tls_forget_session ?sid (put_tls_session ?sid s m)" "out = out1"
      using assms(1) False st Some t r by (auto simp: tls_module_session_end_def)
    with ok show ?thesis using put_tls_session_ok(1) [OF assms(2)] forget_session_ok(1) by simp
  qed
qed

lemma time_walk_ok:
  assumes "time_walk host w ss b = (e, (ss', b'), out)" "\<forall>(sid, st) \<in> set ss. session_ok c sid st"
    "backed b (omap_sum se_reserved ss + others) base" "b \<noteq> None"
  shows "map fst ss' = map fst ss \<and> (\<forall>(sid, st) \<in> set ss'. session_ok c sid st) \<and>
    backed b' (omap_sum se_reserved ss' + others) base \<and> b' \<noteq> None \<and> (\<forall>kr \<in> set out. row_ok kr)"
  using assms
proof (induction host w ss b arbitrary: others e ss' b' out rule: time_walk.induct)
  case (2 host w sid st ss b)
  obtain e1 st1 b1 out1 where step: "(case se_tracker st of None \<Rightarrow> (E_OK, (st, b), [])
      | Some t \<Rightarrow> (case tls_watermark w t of (t', res) \<Rightarrow> emit_result host sid res (st\<lparr>se_tracker := Some t'\<rparr>, b))) =
      (e1, (st1, b1), out1)"
    by (metis prod.exhaust)
  have ledger: "ledger_ok c base sid (omap_sum se_reserved ss + others) (st, b)"
    using 2(3-) by (simp add: ledger_ok_def ac_simps)
  have one: "ledger_ok c base sid (omap_sum se_reserved ss + others) (st1, b1) \<and> (\<forall>kr \<in> set out1. row_ok kr)"
  proof (cases "se_tracker st")
    case None
    with step ledger show ?thesis by simp
  next
    case (Some t)
    obtain t' res where t: "tls_watermark w t = (t', res)" by (cases "tls_watermark w t")
    have fits: "tracker_fits c sid t' \<and> (\<forall>r. res = Some r \<longrightarrow> result_ok sid r)"
      using tls_watermark_fits [OF t, of c sid] ledger Some by (auto simp: ledger_ok_def session_ok_def)
    have "emit_result host sid res (st\<lparr>se_tracker := Some t'\<rparr>, b) = (e1, (st1, b1), out1)" using step Some t by simp
    from emit_result_ok [OF this ledger_ok_tracker [OF ledger]] fits Some show ?thesis by simp
  qed
  show ?case
  proof (cases "e1 = E_OK")
    case False
    with 2(2,3) step one show ?thesis by (auto simp: ledger_ok_def ac_simps)
  next
    case True
    obtain e2 ss2 b2 out2 where rest: "time_walk host w ss b1 = (e2, (ss2, b2), out2)"
      by (metis prod.exhaust)
    have "backed b1 (omap_sum se_reserved ss + (se_reserved st1 + others)) base" "b1 \<noteq> None"
      using one by (simp_all add: ledger_ok_def ac_simps)
    then have "map fst ss2 = map fst ss \<and> (\<forall>(sid, st) \<in> set ss2. session_ok c sid st) \<and>
        backed b2 (omap_sum se_reserved ss2 + (se_reserved st1 + others)) base \<and> b2 \<noteq> None \<and> (\<forall>kr \<in> set out2. row_ok kr)"
      using 2(1) [OF step [symmetric] refl refl _ rest] 2(3) True by simp
    with 2(2) step True rest one show ?thesis by (auto simp: ledger_ok_def ac_simps)
  qed
qed auto

lemma module_time_ok:
  assumes "tls_module_time host w m = (e, m', out)" "module_ok c base m"
  shows "module_ok c base m' \<and> (\<forall>kr \<in> set out. row_ok kr)"
proof (cases "tm_closed m \<or> w = None")
  case True
  with assms show ?thesis by (auto simp: tls_module_time_def split: if_splits)
next
  case False
  then obtain now ss b where r: "w = Some now" "time_walk host now (tm_sessions m) (tm_budget m) = (e, (ss, b), out)"
      "m' = m\<lparr>tm_sessions := ss, tm_budget := b\<rparr>"
    using assms(1) by (auto simp: tls_module_time_def split: option.splits prod.splits)
  have "map fst ss = map fst (tm_sessions m) \<and> (\<forall>(sid, st) \<in> set ss. session_ok c sid st) \<and>
      backed b (omap_sum se_reserved ss + 0) base \<and> b \<noteq> None \<and> (\<forall>kr \<in> set out. row_ok kr)"
    using assms(2) by (intro time_walk_ok [OF r(2)]) (simp_all add: module_ok_def sessions_ok_def)
  with r(3) assms(2) show ?thesis by (simp add: module_ok_def sessions_ok_def omap_wf_def omap_keys_def)
qed

end
