(* ===== verification/TlsExchange.thy ===== *)
theory TlsExchange
  imports TlsHandshakeProps
begin

text \<open>
  Whole exchanges, from bytes on the stream to the result: a record with one Hello becomes one framed
  event, and a ClientHello followed by a ServerHello of TLS 1.3 becomes one observed handshake.
\<close>

section \<open>A record with one Hello\<close>

definition hello_message :: "u8 \<Rightarrow> u8 list \<Rightarrow> u8 list" where
  "hello_message type body = [type, 0] @ write16 (of_nat (length body)) @ body"

definition hello_record :: "u8 \<Rightarrow> u8 list \<Rightarrow> u8 list" where
  "hello_record type body = [22, 3, 1] @ write16 (of_nat (length body + 4)) @ hello_message type body"

definition hello_event :: "packet_direction \<Rightarrow> u8 \<Rightarrow> int option \<Rightarrow> tls_hello \<Rightarrow> tls_framed" where
  "hello_event d type captured h =
     \<lparr>fe_kind = (if type = 1 then ClientHello else ServerHello), fe_direction = d, fe_message_type = type,
      fe_record_length = 0, fe_control_bytes = [0, 0], fe_first_byte_at_ns = captured, fe_complete_at_ns = captured,
      fe_hello = Some h\<rparr>"

definition after_hello :: "tls_direction \<Rightarrow> tls_direction" where
  "after_hello t = t\<lparr>td_first_record_checked := True, td_first_message_seen := True\<rparr>"

definition begun :: "packet_direction \<Rightarrow> int option \<Rightarrow> tls_framer \<Rightarrow> tls_framer" where
  "begun d captured f =
     (if tl_candidate f then f
      else f\<lparr>tl_candidate := True, tl_client_direction := d, tl_first_client_byte_at_ns := captured\<rparr>)"

lemma known_mark: "known_time (mark_tls_time captured (True, None)) = captured"
  by (cases captured) auto

lemma message_length_write16: "message_length ([type, 0] @ write16 w) = unat w"
proof -
  have "unat w < 65536" using unsigned_less [of w] by simp
  then show ?thesis
    by (simp add: message_length_def write16_def unat_drop_bit_eq unsigned_ucast_eq drop_bit_eq_div take_bit_eq_mod unat_div)
qed

lemma begun_fields [simp]:
  "tls_dir d' (begun d captured f) = tls_dir d' f" "tl_candidate (begun d captured f)"
  "tl_max_hello_bytes (begun d captured f) = tl_max_hello_bytes f"
  by (cases d'; simp add: begun_def)+

lemma begun_put: "begun d captured (tls_put d' t f) = tls_put d' t (begun d captured f)"
  by (cases d') (simp_all add: begun_def)

lemma put_flags_put [simp]:
  "tls_put d t ((tls_put d t' f)\<lparr>tl_candidate := c, tl_client_direction := p, tl_first_client_byte_at_ns := b\<rparr>) =
     tls_put d t (f\<lparr>tl_candidate := c, tl_client_direction := p, tl_first_client_byte_at_ns := b\<rparr>)"
  by (cases d) simp_all

text \<open>The header of the message, then its body.\<close>

definition hello_opened :: "u8 \<Rightarrow> nat \<Rightarrow> int option \<Rightarrow> tls_direction \<Rightarrow> tls_direction" where
  "hello_opened type n captured t =
     (take_message_header captured ([type, 0] @ write16 (of_nat n)) t)
       \<lparr>td_message_type := type, td_handshake_remaining := n, td_first_message_seen := True\<rparr>"

lemma hello_header_round:
  assumes t: "td_handshake_header (tls_dir d f) = []" "td_handshake_remaining (tls_dir d f) = 0"
    and begin_ok: "tl_candidate f \<or> \<not> td_first_message_seen (tls_dir d f) \<and> type = 1"
    and body: "body \<noteq> []" "length body < 65536" "length body \<le> hello_limit f"
  shows "handshake_round captured d (hello_message type body) (f, out) =
    Inr (body, tls_put d (hello_opened type (length body) captured (tls_dir d f)) (begun d captured f), out)"
proof -
  let ?h = "[type, 0] @ write16 (of_nat (length body))"
  let ?t = "take_message_header captured ?h (tls_dir d f)"
  have len: "message_length ?h = length body" using body(2) by (simp only: message_length_write16) (simp add: unat_of_nat)
  have head: "take 4 (hello_message type body) = ?h" "drop 4 (hello_message type body) = body"
    "length (hello_message type body) = length body + 4"
    by (simp_all add: hello_message_def numeral_eq_Suc write16_def)
  have "handshake_round captured d (hello_message type body) (f, out) = open_tls_message d body (tls_put d ?t f, out)"
    using t by (simp add: handshake_round_def in_message_header_def message_header_round_def head Let_def)
  also have "announce_message d (tls_put d ?t f) =
      tls_put d (?t\<lparr>td_message_type := type, td_handshake_remaining := length body\<rparr>) f"
    using t len by (simp add: announce_message_def Let_def)
  then have "open_tls_message d body (tls_put d ?t f, out) =
      Inr (body, tls_put d (hello_opened type (length body) captured (tls_dir d f)) (begun d captured f), out)"
    using t begin_ok body
    by (auto simp: open_tls_message_def accept_message_def hello_opened_def begun_def take_message_header_def hello_limit_def
        is_hello_def begun_put Let_def)
  finally show ?thesis .
qed

lemma hello_body_round:
  assumes t: "t = hello_opened type (length body) captured t0"
      "td_handshake_header t0 = []" "td_hello_bytes t0 = []"
    and body: "body \<noteq> []" and hello: "is_hello type" "parse_tls_hello type body captured = Inr h"
  shows "handshake_round captured d body (tls_put d t f, out) =
    Inr ([], tls_put d (reset_message (t\<lparr>td_record_remaining := td_record_remaining t - length body\<rparr>)) f,
      out @ [hello_event d type captured h])"
proof -
  have "\<not> in_message_header t" using body by (simp add: t in_message_header_def hello_opened_def)
  moreover have "known_time (mark_tls_time captured (td_message_times t)) = captured"
    using t(2) by (simp add: t(1) hello_opened_def take_message_header_def mark_tls_time_twice known_mark Let_def)
  moreover have "td_message_first_at_ns t = captured" "td_message_type t = type" "td_handshake_remaining t = length body"
      "td_hello_bytes t = []"
    using t(2,3) by (simp_all add: t(1) hello_opened_def take_message_header_def Let_def)
  ultimately show ?thesis
    using hello by (simp add: handshake_round_def message_body_round_def take_message_body_def finish_tls_message_def
        tls_message_event_def hello_event_def reset_message_def is_hello_def Let_def)
qed

lemma handshake_loop_hello:
  assumes t: "td_handshake_header (tls_dir d f) = []" "td_handshake_remaining (tls_dir d f) = 0"
      "td_hello_bytes (tls_dir d f) = []"
    and begin_ok: "tl_candidate f \<or> \<not> td_first_message_seen (tls_dir d f) \<and> type = 1"
    and body: "body \<noteq> []" "length body < 65536" "length body \<le> hello_limit f"
    and hello: "is_hello type" "parse_tls_hello type body captured = Inr h"
  shows "handshake_loop captured d (hello_message type body) (f, out) =
    (TlsNone, tls_put d (reset_message ((tls_dir d f)\<lparr>td_first_message_seen := True,
        td_record_remaining := td_record_remaining (tls_dir d f) - (length body + 4)\<rparr>)) (begun d captured f),
     out @ [hello_event d type captured h])"
proof -
  let ?t = "hello_opened type (length body) captured (tls_dir d f)"
  have "hello_message type body \<noteq> []" by (simp add: hello_message_def)
  then have "handshake_loop captured d (hello_message type body) (f, out) =
      handshake_loop captured d body (tls_put d ?t (begun d captured f), out)"
    using hello_header_round [OF t(1,2) begin_ok body] by (subst handshake_loop.simps) simp
  also have "\<dots> = handshake_loop captured d []
      (tls_put d (reset_message (?t\<lparr>td_record_remaining := td_record_remaining ?t - length body\<rparr>)) (begun d captured f),
       out @ [hello_event d type captured h])"
    using hello_body_round [OF refl t(1,3) body(1) hello] body(1) by (subst handshake_loop.simps) simp
  also have "reset_message (?t\<lparr>td_record_remaining := td_record_remaining ?t - length body\<rparr>) =
      reset_message ((tls_dir d f)\<lparr>td_first_message_seen := True,
        td_record_remaining := td_record_remaining (tls_dir d f) - (length body + 4)\<rparr>)"
    by (cases "tls_dir d f") (simp add: hello_opened_def take_message_header_def reset_message_def Let_def)
  finally show ?thesis by (simp add: handshake.loop_Nil)
qed

lemma hello_record_header:
  assumes "n < 18432 - 4"
  shows "record_header_ok ([22, 3, 1] @ write16 (of_nat (n + 4)))"
    "read_be16 (([22, 3, 1] @ write16 (of_nat (n + 4))) ! 3) (([22, 3, 1] @ write16 (of_nat (n + 4))) ! 4) = of_nat (n + 4)"
    "unat (of_nat (n + 4) :: u16) = n + 4"
proof -
  show size: "unat (of_nat (n + 4) :: u16) = n + 4" using assms by (simp only: unat_of_nat) simp
  show read: "read_be16 (([22, 3, 1] @ write16 (of_nat (n + 4))) ! 3) (([22, 3, 1] @ write16 (of_nat (n + 4))) ! 4) = of_nat (n + 4)"
    by (simp add: write16_def read_be16_write16 del: of_nat_add)
  have "of_nat (n + 4) \<noteq> (0 :: u16)" "\<not> of_nat (n + 4) > (18432 :: u16)"
    using size assms by (simp_all add: word_unat_eq_iff word_less_nat_alt del: of_nat_add)
  with read show "record_header_ok ([22, 3, 1] @ write16 (of_nat (n + 4)))"
    unfolding record_header_ok_def Let_def read by (simp del: of_nat_add)
qed

lemma record_loop_hello:
  assumes idle: "idle_direction (tls_dir d f)" "td_hello_bytes (tls_dir d f) = []"
    and begin_ok: "tl_candidate f \<or> \<not> td_first_message_seen (tls_dir d f) \<and> type = 1"
    and body: "body \<noteq> []" "length body < 18432 - 4" "length body \<le> hello_limit f"
    and hello: "is_hello type" "parse_tls_hello type body captured = Inr h"
  shows "\<exists>t. record_loop captured d (hello_record type body) (f, out) =
    (TlsNone, tls_put d t (begun d captured f), out @ [hello_event d type captured h])"
proof -
  let ?n = "length body"
  let ?h = "[22, 3, 1] @ write16 (of_nat (?n + 4)) :: u8 list"
  let ?start = "tls_dir d f"
  let ?t = "(take_record_header captured ?h ?start)\<lparr>td_first_record_checked := True, td_record_type := 22,
      td_record_length := of_nat (?n + 4), td_record_remaining := ?n + 4\<rparr>"
  let ?m = "hello_message type body"
  note header = hello_record_header [OF body(2)]
  have cut: "take 5 (hello_record type body) = ?h" "drop 5 (hello_record type body) = ?m"
    "length (hello_record type body) = 5 + (?n + 4)" "length ?m = ?n + 4" "length ?h = 5"
    by (simp_all add: hello_record_def hello_message_def numeral_eq_Suc write16_def)
  have opened: "open_tls_record d ?m (tls_put d (take_record_header captured ?h ?start) f, out) = Inr (?m, tls_put d ?t f, out)"
    using idle header
    by (simp add: open_tls_record_def take_record_header_def idle_direction_def Let_def del: of_nat_add)
  have first: "record_round captured d (hello_record type body) (f, out) = Inr (?m, tls_put d ?t f, out)"
    using idle opened cut
    by (simp add: record_round_def in_record_header_def record_header_round_def idle_direction_def Let_def)
  have inner: "handshake_loop captured d ?m (tls_put d ?t f, out) =
      (TlsNone, tls_put d (reset_message (?t\<lparr>td_first_message_seen := True, td_record_remaining := 0\<rparr>))
         (begun d captured (tls_put d ?t f)), out @ [hello_event d type captured h])"
    using handshake_loop_hello [of d "tls_put d ?t f" type body captured h out] idle begin_ok body hello
    by (simp add: take_record_header_def idle_direction_def)
  let ?u = "reset_record (reset_message (?t\<lparr>td_first_message_seen := True, td_record_remaining := 0\<rparr>))"
  have second: "record_round captured d ?m (tls_put d ?t f, out) =
      Inr ([], tls_put d ?u (begun d captured f), out @ [hello_event d type captured h])"
    using inner cut(4)
    by (simp add: record_round_def in_record_header_def record_body_round_def finish_tls_record_def
        reset_message_def [of "td_record_remaining_update _ _"] begun_put Let_def del: of_nat_add)
  have "hello_record type body \<noteq> []" "?m \<noteq> []" by (simp_all add: hello_record_def hello_message_def)
  with first second have "record_loop captured d (hello_record type body) (f, out) =
      (TlsNone, tls_put d ?u (begun d captured f), out @ [hello_event d type captured h])"
    by (simp add: record_loop.simps [of captured d "hello_record type body"] record_loop.simps [of captured d ?m] records.loop_Nil)
  then show ?thesis by blast
qed

section \<open>The time of a Hello\<close>






section \<open>A TLS 1.3 handshake\<close>

lemma consume_hello:
  assumes "\<not> tl_closed f" "tls_dir d f = new_tls_direction" "cx_direction cx = d" "cx_origin cx = OriginSyn"
    and "tl_candidate f \<or> type = 1"
    and "body \<noteq> []" "length body < 18432 - 4" "length body \<le> hello_limit f"
    and "is_hello type" "parse_tls_hello type body (ev_captured_at_ns ev) = Inr h"
  shows "\<exists>t. tls_consume cx (data_slice ev 0 (hello_record type body)) f =
    (TlsNone, tls_put d t (begun d (ev_captured_at_ns ev) f), [hello_event d type (ev_captured_at_ns ev) h])"
proof -
  let ?n = "length (hello_record type body)"
  let ?t = "new_tls_direction\<lparr>td_next_offset := ?n\<rparr>"
  have "tls_consume cx (data_slice ev 0 (hello_record type body)) f =
      record_loop (ev_captured_at_ns ev) d (hello_record type body) (tls_put d ?t f, [])"
    using assms(1-4) by (subst consume_data_slice)
      (simp_all add: moved_def new_tls_direction_def Let_def, simp_all add: hello_record_def)
  then show ?thesis
    using record_loop_hello [of d "tls_put d ?t f" type body "ev_captured_at_ns ev" h "[]"] assms
    by (simp add: begun_put idle_direction_def) (auto simp: new_tls_direction_def)
qed

text \<open>The two Hellos at the tracker.\<close>

definition client_hello_tracker :: "u64 \<Rightarrow> tls_config \<Rightarrow> tls_framer \<Rightarrow> packet_direction \<Rightarrow> int option \<Rightarrow> tls_hello \<Rightarrow> tls_tracker" where
  "client_hello_tracker sid c f d at h =
     (new_tls_tracker sid c)\<lparr>tt_framer := f, tt_candidate := Some
        \<lparr>hs_entity_instance_id = 0, hs_session_id = sid, hs_client_direction = d, hs_phase = AwaitingServerHello,
         hs_first_client_hello = Some h, hs_retry_client_hello = None, hs_final_server_hello = None, hs_retry_count = 0,
         hs_first_client_byte_at_ns = at,
         hs_deadline_ns = map_option (\<lambda>first. tls_deadline first (tc_handshake_timeout_ns c)) at\<rparr>\<rparr>"

lemma track_client_hello:
  assumes "cx_session cx = Some sid" "cx_direction cx = d" "cx_origin cx = OriginSyn"
    and "body \<noteq> []" "length body < 18432 - 4" "length body + 4 \<le> tc_max_hello_bytes c"
    and "parse_tls_hello 1 body (ev_captured_at_ns ev) = Inr h" "valid_client_hello h"
  shows "\<exists>t. tls_track cx (data_slice ev 0 (hello_record 1 body)) (new_tls_tracker sid c) =
    (TrackerNone, client_hello_tracker sid c (tls_put d t (begun d (ev_captured_at_ns ev) (new_tls_framer (tc_max_hello_bytes c))))
       d (ev_captured_at_ns ev) h, None)"
proof -
  let ?f = "new_tls_framer (tc_max_hello_bytes c)"
  have "\<not> tl_closed ?f" "tls_dir d ?f = new_tls_direction" "length body \<le> hello_limit ?f"
    using assms(6) by (cases d; simp add: new_tls_framer_def hello_limit_def)+
  then obtain t where "tls_consume cx (data_slice ev 0 (hello_record 1 body)) ?f =
      (TlsNone, tls_put d t (begun d (ev_captured_at_ns ev) ?f), [hello_event d 1 (ev_captured_at_ns ev) h])"
    using consume_hello [of ?f d cx 1 body ev h] assms by (auto simp: is_hello_def)
  then show ?thesis
    using assms
    by (intro exI [of _ t])
      (simp add: tls_track_def new_tls_tracker_def adopt_candidate_def begun_def new_tls_framer_def hello_event_def
        on_framed_event_def on_client_hello_def put_candidate_def after_framer_error_def after_server_fin_def
        data_slice_def client_hello_tracker_def Let_def)
qed



section \<open>A concrete exchange\<close>

definition sample_client_bytes :: "u8 list" where
  "sample_client_bytes =
     [3, 3] @ replicate 32 7 @ [0, 0, 2, 0x13, 1, 1, 0, 0, 7, 0, 43, 0, 3, 2, 3, 4]"

definition sample_server_bytes :: "u8 list" where
  "sample_server_bytes = [3, 3] @ replicate 32 9 @ [0, 0x13, 1, 0, 0, 6, 0, 43, 0, 2, 3, 4]"

definition sample_config :: tls_config where
  "sample_config = \<lparr>tc_handshake_timeout_ns = 5000000000, tc_max_hello_bytes = 4096\<rparr>"

definition sample_event :: "int \<Rightarrow> tcp_stream_event" where
  "sample_event at = default_event\<lparr>ev_captured_at_ns := Some at\<rparr>"

lemma sample_prefixes:
  "hello_prefix sample_client_bytes = Some (0x0303, replicate 32 7, [0, 2, 0x13, 1, 1, 0, 0, 7, 0, 43, 0, 3, 2, 3, 4])"
  "hello_prefix sample_server_bytes = Some (0x0303, replicate 32 9, [0x13, 1, 0, 0, 6, 0, 43, 0, 2, 3, 4])"
  by (simp_all add: hello_prefix_def sample_client_bytes_def sample_server_bytes_def rd_take_def read_be16_def)

lemma sample_hellos:
  "parse_tls_hello 1 sample_client_bytes at =
     Inr ((new_tls_hello at)\<lparr>th_legacy_version := 0x0303, th_offered_versions := [0x0304]\<rparr>)"
  "parse_tls_hello 2 sample_server_bytes at =
     Inr ((new_tls_hello at)\<lparr>th_legacy_version := 0x0303, th_cipher_suite := Some 0x1301,
       th_selected_version := Some 0x0304\<rparr>)"
proof -
  have "hd (replicate 32 (9 :: u8)) \<noteq> hd hello_retry_request_random" by (simp add: hello_retry_request_random_def)
  then have random: "replicate 32 9 \<noteq> hello_retry_request_random" by metis
  note evaluate = sample_prefixes rd_take_def read_be16_def parse_extensions_def extensions_loop.simps rd_vec16_def
    parse_extension_def parse_versions_def versions_loop.simps new_tls_hello_def
  show "parse_tls_hello 1 sample_client_bytes at =
     Inr ((new_tls_hello at)\<lparr>th_legacy_version := 0x0303, th_offered_versions := [0x0304]\<rparr>)"
    by (simp add: parse_tls_hello_def parse_client_def evaluate)
  show "parse_tls_hello 2 sample_server_bytes at =
     Inr ((new_tls_hello at)\<lparr>th_legacy_version := 0x0303, th_cipher_suite := Some 0x1301,
       th_selected_version := Some 0x0304\<rparr>)"
    using random by (simp add: parse_tls_hello_def parse_server_def evaluate)
qed



text \<open>The run of a client whose server never answers, up to its ClientHello.\<close>

lemma client_hello_tracked:
  obtains t where "tls_track client_context (data_slice (sample_event 10) 0 (hello_record 1 sample_client_bytes))
      (new_tls_tracker 7 sample_config) = (TrackerNone, t, None)"
    "tt_last_watermark_ns t = None" "\<not> tt_closed t" "tls_next_deadline t = Some 5000000010"
    "\<exists>c h. tt_candidate t = Some c \<and> hs_final_server_hello c = None \<and> hs_first_client_hello c = Some h \<and>
      th_offered_alpn h = [] \<and> hs_phase c = AwaitingServerHello"
proof -
  let ?h = "(new_tls_hello (Some 10))\<lparr>th_legacy_version := 0x0303, th_offered_versions := [0x0304]\<rparr>"
  have "\<exists>t. tls_track client_context (data_slice (sample_event 10) 0 (hello_record 1 sample_client_bytes))
      (new_tls_tracker 7 sample_config) =
      (TrackerNone, client_hello_tracker 7 sample_config
         (tls_put AToB t (begun AToB (ev_captured_at_ns (sample_event 10)) (new_tls_framer (tc_max_hello_bytes sample_config))))
         AToB (ev_captured_at_ns (sample_event 10)) ?h, None)"
    using sample_hellos(1)
    by (intro track_client_hello)
      (simp_all add: client_context_def sample_config_def sample_client_bytes_def sample_event_def valid_client_hello_def
        offers_version_def)
  then obtain t where "tls_track client_context (data_slice (sample_event 10) 0 (hello_record 1 sample_client_bytes))
      (new_tls_tracker 7 sample_config) = (TrackerNone, client_hello_tracker 7 sample_config t AToB (Some 10) ?h, None)"
    by (auto simp: sample_event_def)
  then show ?thesis
    by (rule that) (simp_all add: client_hello_tracker_def new_tls_tracker_def tls_next_deadline_def tls_deadline_def
        sample_config_def i64_max_def new_tls_hello_def)
qed

lemma client_hello_reachable:
  obtains t where "tls_reachable 7 sample_config (t, [])" "tt_last_watermark_ns t = None" "\<not> tt_closed t"
    "tls_next_deadline t = Some 5000000010"
    "\<exists>c. tt_candidate t = Some c \<and> hs_final_server_hello c = None \<and> hs_first_client_hello c \<noteq> None \<and>
      hs_phase c = AwaitingServerHello"
proof -
  obtain t where t: "tls_track client_context (data_slice (sample_event 10) 0 (hello_record 1 sample_client_bytes))
      (new_tls_tracker 7 sample_config) = (TrackerNone, t, None)"
    "tt_last_watermark_ns t = None" "\<not> tt_closed t" "tls_next_deadline t = Some 5000000010"
    "\<exists>c h. tt_candidate t = Some c \<and> hs_final_server_hello c = None \<and> hs_first_client_hello c = Some h \<and>
      th_offered_alpn h = [] \<and> hs_phase c = AwaitingServerHello"
    by (rule client_hello_tracked)
  have "tls_reachable 7 sample_config (t, [])"
    using tls_step.track [OF t(1), of "[]"] by (simp add: tls_reachable_def r_into_rtranclp)
  then show ?thesis using t(2-4) by (rule that) (use t(5) in auto)
qed

theorem tls_one_sound_result_witness:
  "\<exists>t log. tls_reachable 7 sample_config (t, log) \<and> log \<noteq> [] \<and> (\<exists>r. log = [r] \<and> tt_closed t \<and> result_ok 7 r)"
proof -
  obtain t c where t: "tls_reachable 7 sample_config (t, [])" "\<not> tt_closed t" "tt_candidate t = Some c"
      "hs_final_server_hello c = None" "hs_first_client_hello c \<noteq> None" "hs_phase c = AwaitingServerHello"
    using client_hello_reachable by metis
  obtain t' r where e: "tls_session_end 90 t = (t', Some r)"
    using t(2-) by (simp add: tls_session_end_def tls_close_def)
  have "tls_reachable 7 sample_config (t', [r])"
    using t(1) tls_step.session_end [OF e, of "[]"] by (simp add: tls_reachable_def rtranclp.rtrancl_into_rtrancl)
  with tls_one_sound_result [OF this] show ?thesis by blast
qed


end
