(* ===== verification/TlsModuleSafety.thy ===== *)
theory TlsModuleSafety
  imports TlsModuleProps TlsExchange
begin

text \<open>
  The runs of a TLS module: reading its streams keeps the invariant, aborting returns what every
  session has reserved, and a session that ends is settled whatever becomes of its row.
\<close>

section \<open>Reading a stream\<close>

lemma begin_session_ok:
  "begin_session host view cx ev m = (e, m') \<Longrightarrow> module_ok c base m \<Longrightarrow> module_ok c base m'"
  using remember_session_ok by (auto simp: begin_session_def split: if_splits)

lemma readable_round_ok:
  assumes "readable_round host view cx ev evs m = (e, evs', m', out)" "module_ok c base m"
  shows "module_ok c base m' \<and> (\<forall>kr \<in> set out. row_ok kr)"
proof -
  let ?sid = "sv_session_id view" and ?n = "consumed_bytes ev"
  obtain e1 m1 where b: "begin_session host view cx ev m = (e1, m1)" by (cases "begin_session host view cx ev m")
  note ok1 = begin_session_ok [OF b assms(2)]
  obtain e2 evs2 where k: "cursor_consume ?n evs = (e2, evs2)" by (cases "cursor_consume ?n evs")
  show ?thesis
  proof (cases "e1 = E_OK \<and> (\<exists>st t. omap_find (tm_sessions m1) ?sid = Some st \<and> se_tracker st = Some t)")
    case False
    then have "e1 = E_OK \<Longrightarrow>
        Option.bind (omap_find (tm_sessions m1) ?sid) (\<lambda>st. map_option (Pair st) (se_tracker st)) = None"
      by (cases "omap_find (tm_sessions m1) ?sid") auto
    with assms(1) b k ok1 show ?thesis by (auto simp: readable_round_def Let_def split: if_splits)
  next
    case True
    then obtain st t where st: "omap_find (tm_sessions m1) ?sid = Some st" "se_tracker st = Some t" by blast
    obtain te t' res where tr: "tls_track (cx\<lparr>cx_session := Some ?sid\<rparr>) (parse_slice ?n ev) t = (te, t', res)"
      by (metis prod.exhaust)
    let ?s1 = "(st\<lparr>se_tracker := Some t'\<rparr>, tm_budget m1)"
    obtain e3 s3 out3 where em: "emit_result host ?sid res ?s1 = (e3, s3, out3)" by (metis prod.exhaust)
    note ledger = module_session [OF ok1 st(1)]
    have fits: "tracker_fits c ?sid t' \<and> (\<forall>r. res = Some r \<longrightarrow> result_ok ?sid r)"
      using tls_track_fits [OF tr, of c ?sid] ledger st(2) by (auto simp: ledger_ok_def session_ok_def)
    then have s1: "ledger_ok c base ?sid (other_sessions ?sid m1) ?s1"
      using ledger_ok_tracker [OF ledger] st(2) by simp
    note put = put_tls_session_ok [OF ok1 s1]
    have s3: "ledger_ok c base ?sid (other_sessions ?sid m1) s3 \<and> (\<forall>kr \<in> set out3. row_ok kr)"
      using emit_result_ok [OF em s1] fits by simp
    have put2: "module_ok c base (put_tls_session ?sid s (put_tls_session ?sid ?s1 m1))"
      if "ledger_ok c base ?sid (other_sessions ?sid m1) s" for s
      using put_tls_session_ok(1) [OF put(1), of ?sid s] that put(2) by simp
    have "module_ok c base (put_tls_session ?sid s3 (put_tls_session ?sid ?s1 m1))"
      "module_ok c base (put_tls_session ?sid (release_if_done s3) (put_tls_session ?sid ?s1 m1))"
      using put2 [of s3] put2 [of "release_if_done s3"] s3 release_if_done_ok by blast+
    with s3 put(1) show ?thesis
      using assms(1) True b k st tr em
      by (auto simp: readable_round_def Let_def split: if_splits)
  qed
qed

lemma readable_loop_ok:
  "readable_loop host view cx evs m = (e, m', out) \<Longrightarrow> module_ok c base m \<Longrightarrow>
     module_ok c base m' \<and> (\<forall>kr \<in> set out. row_ok kr)"
proof (induction host view cx evs m arbitrary: e m' out rule: readable_loop.induct)
  case (2 host view cx ev evs m)
  obtain e1 evs1 m1 out1 where r: "readable_round host view cx ev (ev # evs) m = (e1, evs1, m1, out1)"
    by (metis prod.exhaust)
  note ok = readable_round_ok [OF r 2(3)]
  show ?case
  proof (cases "e1 = E_OK")
    case True
    obtain e2 m2 out2 where l: "readable_loop host view cx evs1 m1 = (e2, m2, out2)" by (metis prod.exhaust)
    then have "module_ok c base m2 \<and> (\<forall>kr \<in> set out2. row_ok kr)"
      using 2(1) [OF r [symmetric] refl refl _ l] ok True by simp
    with 2(2) r l True ok show ?thesis by auto
  qed (use 2(2) r ok in auto)
qed auto

lemma module_readable_ok:
  "tls_module_readable host session cx evs m = (e, m', out) \<Longrightarrow> module_ok c base m \<Longrightarrow>
     module_ok c base m' \<and> (\<forall>kr \<in> set out. row_ok kr)"
  by (auto simp: tls_module_readable_def split: option.splits if_splits dest: readable_loop_ok)

section \<open>Aborting\<close>

lemma forget_session_aborted [simp]: "tm_aborted (tls_forget_session sid m) = tm_aborted m"
  by (simp add: tls_forget_session_def split: option.split prod.split)

lemma put_tls_session_aborted [simp]: "tm_aborted (put_tls_session sid s m) = tm_aborted m"
  by (simp add: put_tls_session_def)

lemma forget_first_ok:
  "module_ok c base m \<Longrightarrow> tm_sessions m = ss \<Longrightarrow>
     module_ok c base (forget_first ss m) \<and> tm_sessions (forget_first ss m) = []"
proof (induction ss m rule: forget_first.induct)
  case (2 sid st ss m)
  have "tm_sessions (tls_forget_session sid m) = ss" using 2(2,3) by (simp add: forget_session_ok(2))
  with 2 show ?case using forget_session_ok(1) by simp
qed simp

lemma module_abort_ok:
  assumes "module_ok c base m" "tm_aborted m \<Longrightarrow> tm_sessions m = []"
  shows "module_ok c base (tls_module_abort m)" "tm_sessions (tls_module_abort m) = []"
  using assms forget_first_ok [of c base "m\<lparr>tm_aborted := True\<rparr>" "tm_sessions m"]
  by (auto simp: tls_module_abort_def module_ok_def)

text \<open>No callback but Abort changes the flag, and none works once it is set.\<close>

lemma remember_session_aborted: "tls_remember_session host view m = (e, m') \<Longrightarrow> tm_aborted m' = tm_aborted m"
  by (auto simp: tls_remember_session_def Let_def split: option.splits if_splits)

lemma readable_round_aborted:
  "readable_round host view cx ev evs m = (e, evs', m', out) \<Longrightarrow> tm_aborted m' = tm_aborted m"
  by (auto simp: readable_round_def begin_session_def Let_def dest: remember_session_aborted
      split: prod.splits if_splits option.splits)

lemma readable_loop_aborted: "readable_loop host view cx evs m = (e, m', out) \<Longrightarrow> tm_aborted m' = tm_aborted m"
proof (induction host view cx evs m arbitrary: e m' out rule: readable_loop.induct)
  case (2 host view cx ev evs m)
  obtain e1 evs1 m1 out1 where r: "readable_round host view cx ev (ev # evs) m = (e1, evs1, m1, out1)"
    by (metis prod.exhaust)
  obtain e2 m2 out2 where l: "readable_loop host view cx evs1 m1 = (e2, m2, out2)" by (metis prod.exhaust)
  show ?case
    using 2(1) [OF r [symmetric] refl refl _ l] 2(2) r l readable_round_aborted [OF r] by (auto split: if_splits)
qed simp

section \<open>Runs\<close>

text \<open>A state is the module and the rows it has emitted.\<close>

inductive tls_module_step :: "tls_host \<Rightarrow> tls_module \<times> tls_emitted \<Rightarrow> tls_module \<times> tls_emitted \<Rightarrow> bool" for host where
  readable: "tls_module_readable host session cx evs m = (e, m', out) \<Longrightarrow> tls_module_step host (m, log) (m', log @ out)"
| session_end: "tls_module_session_end host view observed m = (e, m', out) \<Longrightarrow> tls_module_step host (m, log) (m', log @ out)"
| time: "tls_module_time host w m = (e, m', out) \<Longrightarrow> tls_module_step host (m, log) (m', log @ out)"
| finish: "tls_module_finish m = (e, m') \<Longrightarrow> tls_module_step host (m, log) (m', log)"
| abort: "tls_module_step host (m, log) (tls_module_abort m, log)"

inductive_cases tls_module_stepE: "tls_module_step host (m, log) s"

definition tls_module_reachable :: "tls_host \<Rightarrow> tls_config \<Rightarrow> npm_task_budget \<Rightarrow> tls_module \<times> tls_emitted \<Rightarrow> bool" where
  "tls_module_reachable host c tb s \<longleftrightarrow> (tls_module_step host)\<^sup>*\<^sup>* (new_tls_module c (Some tb), []) s"

definition module_run_ok :: "tls_config \<Rightarrow> nat \<Rightarrow> tls_module \<times> tls_emitted \<Rightarrow> bool" where
  "module_run_ok c base s \<longleftrightarrow>
     module_ok c base (fst s) \<and> (tm_aborted (fst s) \<longrightarrow> tm_sessions (fst s) = []) \<and> (\<forall>kr \<in> set (snd s). row_ok kr)"

lemma module_aborted:
  "tls_module_readable host session cx evs m = (e, m', out) \<Longrightarrow> tm_aborted m' = tm_aborted m \<and> (tm_aborted m \<longrightarrow> m' = m)"
  "tls_module_session_end host view observed m = (e, m', out) \<Longrightarrow> tm_aborted m' = tm_aborted m \<and> (tm_aborted m \<longrightarrow> m' = m)"
  "tls_module_time host w m = (e, m', out) \<Longrightarrow> tm_aborted m' = tm_aborted m \<and> (tm_aborted m \<longrightarrow> m' = m)"
  "tls_module_finish m = (e, m') \<Longrightarrow> tm_aborted m' = tm_aborted m \<and> (tm_aborted m \<longrightarrow> m' = m)"
  by (auto simp: tls_module_readable_def tls_module_session_end_def tls_module_time_def tls_module_finish_def
      dest: readable_loop_aborted split: option.splits prod.splits if_splits)

lemma module_finish_ok: "tls_module_finish m = (e, m') \<Longrightarrow> module_ok c base m \<Longrightarrow> module_ok c base m'"
  by (auto simp: tls_module_finish_def module_ok_def split: if_splits)

lemma module_step_ok: "tls_module_step host s s' \<Longrightarrow> module_run_ok c base s \<Longrightarrow> module_run_ok c base s'"
proof (induction rule: tls_module_step.induct)
  case (readable session cx evs m e m' out log)
  with module_readable_ok module_aborted(1) show ?case by (fastforce simp: module_run_ok_def)
next
  case (session_end view observed m e m' out log)
  with module_session_end_ok module_aborted(2) show ?case by (fastforce simp: module_run_ok_def)
next
  case (time w m e m' out log)
  with module_time_ok module_aborted(3) show ?case by (fastforce simp: module_run_ok_def)
next
  case (finish m e m' log)
  with module_finish_ok module_aborted(4) show ?case by (fastforce simp: module_run_ok_def)
next
  case (abort m log)
  then show ?case using module_abort_ok [of c base m] by (auto simp: module_run_ok_def)
qed

lemma tls_module_reachable_ok:
  assumes "tls_module_reachable host c tb s" "budget_wf tb"
  shows "module_run_ok c (module_held tb) s"
proof -
  have "(tls_module_step host)\<^sup>*\<^sup>* (new_tls_module c (Some tb), []) s" using assms(1) by (simp add: tls_module_reachable_def)
  then show ?thesis
  proof (induction rule: rtranclp_induct)
    case base
    with assms(2) show ?case
      by (simp add: module_run_ok_def module_ok_def new_tls_module_def sessions_ok_def backed_def)
  qed (rule module_step_ok)
qed

lemma tracker_retention: "tracker_fits c sid t \<Longrightarrow> tls_retained_bytes (tt_framer t) \<le> tracker_charge c"
proof -
  assume fits: "tracker_fits c sid t"
  have "retention_ok (hello_limit (tt_framer t)) (tl_ab (tt_framer t))" "retention_ok (hello_limit (tt_framer t)) (tl_ba (tt_framer t))"
    using fits by (metis tracker_fits_def tls_dir.simps)+
  then have "length (td_hello_bytes (tl_ab (tt_framer t))) \<le> tc_max_hello_bytes c"
    "length (td_hello_bytes (tl_ba (tt_framer t))) \<le> tc_max_hello_bytes c"
    using fits by (auto simp: tracker_fits_def retention_ok_def hello_limit_def)
  then show ?thesis by (simp add: tls_retained_bytes_def tracker_charge_def)
qed

text \<open>
  C36. Whatever the callbacks of a TLS module deliver, in whatever order: the task's budget holds for it
  exactly what its sessions have reserved, a session with a tracker has reserved at least what the
  tracker's framer retains, and aborting the module forgets every session and returns everything.
\<close>

theorem tls_module_ledger_exact:
  assumes "tls_module_reachable host c tb (m, log)" "budget_wf tb" "tm_budget m = Some tb'"
  shows "module_held tb' = module_held tb + omap_sum se_reserved (tm_sessions m) \<and>
    (\<forall>(sid, st) \<in> set (tm_sessions m). \<forall>t. se_tracker st = Some t \<longrightarrow> tls_retained_bytes (tt_framer t) \<le> se_reserved st) \<and>
    tm_sessions (tls_module_abort m) = [] \<and> backed (tm_budget (tls_module_abort m)) 0 (module_held tb)"
proof -
  have ok: "module_run_ok c (module_held tb) (m, log)" by (rule tls_module_reachable_ok [OF assms(1,2)])
  have "tls_retained_bytes (tt_framer t) \<le> se_reserved st"
    if "(sid, st) \<in> set (tm_sessions m)" "se_tracker st = Some t" for sid st t
    using that ok tracker_retention [of c sid t] by (fastforce simp: module_run_ok_def module_ok_def sessions_ok_def session_ok_def)
  then show ?thesis
    using ok module_abort_ok [of c "module_held tb" m] assms(3)
    by (auto simp: module_run_ok_def module_ok_def backed_def)
qed

text \<open>
  C37. A session that ends with a handshake under way is settled whatever becomes of its row: it is
  forgotten and all it had reserved is returned, the row is only refused when the budget cannot take
  the build charge or by the host, its columns can always be computed, and it is reported as emitted
  exactly when the host took it.
\<close>

theorem tls_session_end_settles:
  assumes "tls_module_reachable host c tb (m, log)" "budget_wf tb" "tm_budget m = Some tb'" "\<not> tm_closed m"
    "omap_find (tm_sessions m) (sv_session_id view) = Some st" "se_tracker st = Some t"
    "tls_session_end observed t = (t', Some r)" "tls_module_session_end host view observed m = (e, m', out)"
  shows "tm_sessions m' = omap_erase (sv_session_id view) (tm_sessions m) \<and>
    backed (tm_budget m') (omap_sum se_reserved (tm_sessions m')) (module_held tb) \<and>
    (\<exists>cols. tls_columns_of (identified (sv_session_id view) r) = Some cols \<and>
      e = (if module_free tb' < tls_build_charge r then E_NOSPC
           else hh_send host (se_key st) (identified (sv_session_id view) r) cols)) \<and>
    out = (if e = E_OK then [(se_key st, identified (sv_session_id view) r)] else [])"
proof -
  let ?sid = "sv_session_id view" and ?row = "identified (sv_session_id view) r"
  have ok: "module_ok c (module_held tb) m" using tls_module_reachable_ok [OF assms(1,2)] by (simp add: module_run_ok_def)
  note ledger = module_session [OF ok assms(5)]
  have "tracker_fits c ?sid t" "?sid \<noteq> 0" using ledger assms(6) by (auto simp: ledger_ok_def session_ok_def)
  then have res: "result_ok ?sid r" "?sid \<noteq> 0" and fits: "tracker_fits c ?sid t'"
    using tls_session_end_fits [OF assms(7), of c ?sid] by simp_all
  obtain cols where cols: "tls_columns_of ?row = Some cols" using identified_columns [OF res(1)] by blast
  have wf: "budget_wf tb'" using ok assms(3) by (simp add: module_ok_def backed_def)
  obtain e1 b where em: "emit_tls_handshake host (se_key st) ?row (Some tb') = (e1, b)"
    by (cases "emit_tls_handshake host (se_key st) ?row (Some tb')")
  have e1: "e1 = (if module_free tb' < tls_build_charge r then E_NOSPC else hh_send host (se_key st) ?row cols)"
    using em result_row_valid [OF res] cols module_charge_eq [OF wf, of "tls_build_charge r"]
    by (auto simp: emit_tls_handshake_def opt_charge_def tls_build_charge_def split: if_splits)
  let ?st = "st\<lparr>se_tracker := Some t'\<rparr>"
  have emr: "emit_result host ?sid (Some r) (?st, tm_budget m) =
      (e1, release_tracker (?st, b), if e1 = E_OK then [(se_key st, ?row)] else [])"
    using em assms(3) by (simp add: emit_result_def Let_def)
  have "ledger_ok c (module_held tb) ?sid (other_sessions ?sid m) (release_tracker (?st, b))"
    using emit_result_ok [OF emr ledger_ok_tracker [OF ledger]] assms(6) res(1) fits by simp
  note put = put_tls_session_ok [OF ok this]
  have m': "m' = tls_forget_session ?sid (put_tls_session ?sid (release_tracker (?st, b)) m)"
    "e = e1" "out = (if e1 = E_OK then [(se_key st, ?row)] else [])"
    using assms(4-8) emr by (auto simp: tls_module_session_end_def)
  have "module_ok c (module_held tb) m'" "tm_sessions m' = omap_erase ?sid (tm_sessions m)"
    using forget_session_ok [OF put(1), of ?sid] m'(1) ok
    by (simp_all add: put_tls_session_def omap_erase_put module_ok_def sessions_ok_def)
  then show ?thesis using cols e1 m'(2,3) by (simp add: module_ok_def)
qed

section \<open>A run\<close>

text \<open>A client says hello, and the session ends before its server answers.\<close>

definition tls_demo_key :: npm_session_key where
  "tls_demo_key = \<lparr>sk_family = IPv4, sk_a_ip = [10, 0, 0, 1], sk_b_ip = [10, 0, 0, 2], sk_namespace = ''n'',
     sk_domain = 1, sk_a_port = 4000, sk_b_port = 443, sk_protocol = 6\<rparr>"

definition tls_demo_view :: session_view where
  "tls_demo_view = \<lparr>sv_session_id = 7, sv_key = Some tls_demo_key\<rparr>"

definition tls_demo_host :: tls_host where
  "tls_demo_host = \<lparr>hh_identity = (\<lambda>_. 100), hh_send = (\<lambda>_ _ _. E_OK)\<rparr>"

definition tls_demo_budget :: npm_task_budget where
  "tls_demo_budget = new_task_budget \<lparr>max_tracked_bytes = 1000000, max_pending_output_bytes = 0\<rparr>"

lemma tls_demo_budget: "budget_wf tls_demo_budget" "module_free tls_demo_budget = 1000000" "module_held tls_demo_budget = 0"
  using budget_wf_new [of "\<lparr>max_tracked_bytes = 1000000, max_pending_output_bytes = 0\<rparr>"]
  by (simp_all add: tls_demo_budget_def module_free_def module_held_def new_task_budget_def u64_max_def)

definition tls_demo_event :: tcp_stream_event where
  "tls_demo_event = data_slice (sample_event 10) 0 (hello_record 1 sample_client_bytes)"

lemma tls_demo_event: "ev_kind tls_demo_event = EventData" "span_size (ev_bytes tls_demo_event) = 59"
  by (simp_all add: tls_demo_event_def data_slice_def hello_record_def hello_message_def sample_client_bytes_def)

text \<open>The session and the module when the session's tracker is in this state.\<close>

definition tls_demo_session :: "tls_tracker \<Rightarrow> tls_session" where
  "tls_demo_session t =
     \<lparr>se_key = tls_demo_key, se_identity_charge = 100, se_tracker = Some t, se_reserved = 98404\<rparr>"

definition tls_demo_module :: "npm_task_budget \<Rightarrow> tls_tracker \<Rightarrow> tls_module" where
  "tls_demo_module tb t = (new_tls_module sample_config (Some tb))\<lparr>tm_sessions := [(7, tls_demo_session t)]\<rparr>"

lemma tls_demo_begin:
  "module_charge 98404 tls_demo_budget = Some tb \<Longrightarrow>
   begin_session tls_demo_host tls_demo_view client_context tls_demo_event (new_tls_module sample_config (Some tls_demo_budget)) =
     (E_OK, tls_demo_module tb (new_tls_tracker 7 sample_config))"
  by (simp add: begin_session_def tls_demo_view_def tls_remember_session_def new_tls_module_def tls_demo_host_def
      tls_demo_key_def opt_charge_def tls_demo_module_def tls_demo_session_def tls_demo_event client_context_def tracker_charge_def
      tracker_base_charge_def) (simp add: sample_config_def)

lemma tls_demo_hello:
  obtains m tb' st t r t' where "tls_module_reachable tls_demo_host sample_config tls_demo_budget (m, [])"
    "tm_budget m = Some tb'" "module_free tb' = 901596" "module_held tb' = 98404" "\<not> tm_closed m"
    "tm_sessions m = [(7, st)]" "se_tracker st = Some t" "se_key st = tls_demo_key" "se_reserved st = 98404"
    "tls_session_end 90 t = (t', Some r)" "tls_build_charge r = 16384"
proof -
  obtain t where t: "tls_track client_context tls_demo_event (new_tls_tracker 7 sample_config) = (TrackerNone, t, None)"
    "\<not> tt_closed t" "\<exists>c h. tt_candidate t = Some c \<and> hs_final_server_hello c = None \<and> hs_first_client_hello c = Some h \<and>
      th_offered_alpn h = [] \<and> hs_phase c = AwaitingServerHello"
    unfolding tls_demo_event_def by (rule client_hello_tracked)
  obtain tb' where tb': "module_charge 98404 tls_demo_budget = Some tb'"
    using module_charge_eq [OF tls_demo_budget(1)] tls_demo_budget(2) by simp
  have free: "module_free tb' = 901596" "module_held tb' = 98404"
    using module_ledger.charge_free [OF tls_demo_budget(1) tb'] module_ledger.charge_held [OF tls_demo_budget(1) tb']
    by (simp_all add: tls_demo_budget)
  have bytes: "consumed_bytes tls_demo_event = 59" "parse_slice 59 tls_demo_event = tls_demo_event"
      "client_context\<lparr>cx_session := Some 7\<rparr> = client_context"
    using tls_demo_event by (simp_all add: consumed_bytes_def max_parse_chunk_def parse_slice_def client_context_def)
  have "\<not> tls_rejected t" using t(3) by (auto simp: tls_rejected_def)
  then have round: "readable_round tls_demo_host tls_demo_view client_context tls_demo_event [tls_demo_event]
      (new_tls_module sample_config (Some tls_demo_budget)) = (E_OK, [], tls_demo_module tb' t, [])"
    using t(1,2) tls_demo_begin [OF tb'] bytes tls_demo_event
    by (simp add: readable_round_def tls_demo_view_def tls_demo_module_def tls_demo_session_def new_tls_module_def cursor_consume_def
        put_tls_session_def emit_result_def release_if_done_def Let_def)
  have "tls_module_readable tls_demo_host (Some tls_demo_view) client_context [tls_demo_event]
      (new_tls_module sample_config (Some tls_demo_budget)) = (E_OK, tls_demo_module tb' t, [])"
    using round by (simp add: tls_module_readable_def) (simp add: new_tls_module_def)
  then have "tls_module_reachable tls_demo_host sample_config tls_demo_budget (tls_demo_module tb' t, [])"
    using tls_module_step.readable [of tls_demo_host _ _ _ _ E_OK "tls_demo_module tb' t" "[]" "[]"]
    by (auto simp: tls_module_reachable_def)
  moreover obtain t' r where "tls_session_end 90 t = (t', Some r)" "tls_build_charge r = 16384"
    using t(2,3) by (auto simp: tls_session_end_def tls_close_def tls_build_charge_def)
  ultimately show ?thesis
    using free by (intro that [where m = "tls_demo_module tb' t" and tb' = tb' and st = "tls_demo_session t" and t = t and t' = t' and r = r])
      (simp_all add: tls_demo_module_def tls_demo_session_def new_tls_module_def)
qed

theorem tls_module_ledger_exact_witness:
  "\<exists>m tb'. tls_module_reachable tls_demo_host sample_config tls_demo_budget (m, []) \<and> tm_budget m = Some tb' \<and>
     module_held tb' = 98404 \<and> omap_sum se_reserved (tm_sessions m) = 98404 \<and>
     backed (tm_budget (tls_module_abort m)) 0 0"
proof -
  obtain m tb' st t r t' where m: "tls_module_reachable tls_demo_host sample_config tls_demo_budget (m, [])"
      "tm_budget m = Some tb'" "module_free tb' = 901596" "module_held tb' = 98404" "\<not> tm_closed m"
      "tm_sessions m = [(7, st)]" "se_tracker st = Some t" "se_key st = tls_demo_key" "se_reserved st = 98404"
      "tls_session_end 90 t = (t', Some r)" "tls_build_charge r = 16384"
    by (rule tls_demo_hello)
  show ?thesis
    using tls_module_ledger_exact [OF m(1) tls_demo_budget(1) m(2)] m by (auto simp: tls_demo_budget)
qed

theorem tls_session_end_settles_witness:
  "\<exists>m m' row. tls_module_reachable tls_demo_host sample_config tls_demo_budget (m, []) \<and>
     tls_module_session_end tls_demo_host tls_demo_view 90 m = (E_OK, m', [(tls_demo_key, row)]) \<and>
     tm_sessions m' = [] \<and> backed (tm_budget m') 0 0"
proof -
  obtain m tb' st t r t' where m: "tls_module_reachable tls_demo_host sample_config tls_demo_budget (m, [])"
      "tm_budget m = Some tb'" "module_free tb' = 901596" "module_held tb' = 98404" "\<not> tm_closed m"
      "tm_sessions m = [(7, st)]" "se_tracker st = Some t" "se_key st = tls_demo_key" "se_reserved st = 98404"
      "tls_session_end 90 t = (t', Some r)" "tls_build_charge r = 16384"
    by (rule tls_demo_hello)
  obtain e m' out where e: "tls_module_session_end tls_demo_host tls_demo_view 90 m = (e, m', out)"
    by (metis prod.exhaust)
  have found: "omap_find (tm_sessions m) (sv_session_id tls_demo_view) = Some st" by (simp add: m(6) tls_demo_view_def)
  have "e = E_OK" "out = [(tls_demo_key, identified 7 r)]" "tm_sessions m' = []" "backed (tm_budget m') 0 0"
    using tls_session_end_settles [OF m(1) tls_demo_budget(1) m(2,5) found m(7,10) e] m
    by (auto simp: tls_demo_view_def tls_demo_host_def tls_demo_budget)
  with m(1) e show ?thesis by blast
qed

end
