(* ===== verification/GatewayRoutes.thy ===== *)
theory GatewayRoutes
  imports FlowPrelude
begin

text \<open>
  The gateway's route table, services/gateway/route_table.{h,cpp}, and the two handlers that
  change it (gateway_plugin.cpp): a trie over path segments. The abstract table is the map from
  segment lists to entries; every operation refines an update of that map, and a match is the
  longest registered prefix of the request's path, the root excepted.
\<close>

section \<open>The trie\<close>

record route_entry =
  re_prefix :: string
  re_address :: string
  re_last_seen_ms :: int

text \<open>The children of a node, an unordered map, are a chain of labelled nodes.\<close>

datatype trie_node = TrieNode forest "route_entry option"
  and forest = NoKids | Kid string trie_node forest

definition new_route_table :: trie_node where
  "new_route_table = TrieNode NoKids None"

fun node_entry :: "trie_node \<Rightarrow> route_entry option" where
  "node_entry (TrieNode ks e) = e"

fun node_kids :: "trie_node \<Rightarrow> forest" where
  "node_kids (TrieNode ks e) = ks"

fun kid_find :: "forest \<Rightarrow> string \<Rightarrow> trie_node option" where
  "kid_find NoKids s = None"
| "kid_find (Kid s' t ks) s = (if s = s' then Some t else kid_find ks s)"

fun kid_put :: "string \<Rightarrow> trie_node \<Rightarrow> forest \<Rightarrow> forest" where
  "kid_put s t NoKids = Kid s t NoKids"
| "kid_put s t (Kid s' t' ks) = (if s = s' then Kid s t ks else Kid s' t' (kid_put s t ks))"

text \<open>std::getline on '/': the pieces between the separators, the empty ones dropped.\<close>

fun split_loop :: "string \<Rightarrow> string \<Rightarrow> string list" where
  "split_loop seg [] = (if seg = [] then [] else [seg])"
| "split_loop seg (c # cs) =
     (if c = CHR ''/'' then (if seg = [] then [] else [seg]) @ split_loop [] cs
      else split_loop (seg @ [c]) cs)"

definition split_path :: "string \<Rightarrow> string list" where
  "split_path uri = split_loop [] uri"

section \<open>Operations\<close>

text \<open>The time of the call is an argument.\<close>

fun register_at :: "string \<Rightarrow> string \<Rightarrow> int \<Rightarrow> string list \<Rightarrow> trie_node \<Rightarrow> trie_node" where
  "register_at prefix address now [] (TrieNode ks e) =
     TrieNode ks (Some (case e of
         Some r \<Rightarrow> r\<lparr>re_address := address, re_last_seen_ms := now\<rparr>
       | None \<Rightarrow> \<lparr>re_prefix = prefix, re_address = address, re_last_seen_ms = now\<rparr>))"
| "register_at prefix address now (s # ss) (TrieNode ks e) =
     TrieNode (kid_put s (register_at prefix address now ss
       (case kid_find ks s of None \<Rightarrow> TrieNode NoKids None | Some t \<Rightarrow> t)) ks) e"

definition route_register :: "string \<Rightarrow> string \<Rightarrow> int \<Rightarrow> trie_node \<Rightarrow> trie_node" where
  "route_register prefix address now root = register_at prefix address now (split_path prefix) root"

fun unregister_at :: "string list \<Rightarrow> trie_node \<Rightarrow> trie_node" where
  "unregister_at [] (TrieNode ks e) = TrieNode ks None"
| "unregister_at (s # ss) (TrieNode ks e) =
     (case kid_find ks s of None \<Rightarrow> TrieNode ks e
      | Some t \<Rightarrow> TrieNode (kid_put s (unregister_at ss t) ks) e)"

definition route_unregister :: "string \<Rightarrow> trie_node \<Rightarrow> trie_node" where
  "route_unregister prefix root = unregister_at (split_path prefix) root"

fun match_walk :: "string list \<Rightarrow> trie_node \<Rightarrow> route_entry option \<Rightarrow> route_entry option" where
  "match_walk [] node best = best"
| "match_walk (s # ss) node best =
     (case kid_find (node_kids node) s of None \<Rightarrow> best
      | Some t \<Rightarrow> match_walk ss t (if node_entry t \<noteq> None then node_entry t else best))"

definition route_match :: "string \<Rightarrow> trie_node \<Rightarrow> route_entry option" where
  "route_match uri root = match_walk (split_path uri) root None"

definition expired :: "int \<Rightarrow> route_entry option \<Rightarrow> bool" where
  "expired before e \<longleftrightarrow> (case e of None \<Rightarrow> False | Some r \<Rightarrow> re_last_seen_ms r < before)"

fun can_delete :: "trie_node \<Rightarrow> bool" where
  "can_delete (TrieNode ks e) \<longleftrightarrow> e = None \<and> ks = NoKids"

fun remove_expired :: "int \<Rightarrow> trie_node \<Rightarrow> trie_node"
  and remove_expired_kids :: "int \<Rightarrow> forest \<Rightarrow> forest" where
  "remove_expired before (TrieNode ks e) =
     TrieNode (remove_expired_kids before ks) (if expired before e then None else e)"
| "remove_expired_kids before NoKids = NoKids"
| "remove_expired_kids before (Kid s t ks) =
     (let t' = remove_expired before t in
      if can_delete t' then remove_expired_kids before ks else Kid s t' (remove_expired_kids before ks))"

fun collect_all :: "trie_node \<Rightarrow> route_entry list"
  and collect_kids :: "forest \<Rightarrow> route_entry list" where
  "collect_all (TrieNode ks e) = (case e of None \<Rightarrow> [] | Some r \<Rightarrow> [r]) @ collect_kids ks"
| "collect_kids NoKids = []"
| "collect_kids (Kid s t ks) = collect_all t @ collect_kids ks"

section \<open>The handlers\<close>

text \<open>
  The request body is parsed by RapidJSON, a parameter: \<open>None\<close> is a parse error or a document that
  is no object. GetString on a value that is not a string violates the library's precondition
  (it asserts), which is the result \<open>Violation\<close>.
\<close>

datatype json_value = JString string | JOther

datatype http_reply = Reply nat | Violation

definition get_string :: "json_value \<Rightarrow> string option" where
  "get_string v = (case v of JString s \<Rightarrow> Some s | JOther \<Rightarrow> None)"

definition handle_register ::
  "(string \<Rightarrow> (string \<Rightarrow> json_value option) option) \<Rightarrow> string \<Rightarrow> int \<Rightarrow> trie_node \<Rightarrow> http_reply \<times> trie_node" where
  "handle_register parse body now root =
     (case parse body of None \<Rightarrow> (Reply 400, root)
      | Some doc \<Rightarrow>
          (case (doc ''prefix'', doc ''address'') of
             (Some p, Some a) \<Rightarrow>
               (case (get_string p, get_string a) of
                  (Some prefix, Some address) \<Rightarrow>
                    if prefix = [] \<or> hd prefix \<noteq> CHR ''/'' then (Reply 400, root)
                    else (Reply 200, route_register prefix address now root)
                | _ \<Rightarrow> (Violation, root))
           | _ \<Rightarrow> (Reply 400, root)))"

definition handle_unregister ::
  "(string \<Rightarrow> (string \<Rightarrow> json_value option) option) \<Rightarrow> string \<Rightarrow> trie_node \<Rightarrow> http_reply \<times> trie_node" where
  "handle_unregister parse body root =
     (case parse body of None \<Rightarrow> (Reply 400, root)
      | Some doc \<Rightarrow>
          (case doc ''prefix'' of None \<Rightarrow> (Reply 400, root)
           | Some p \<Rightarrow>
               (case get_string p of None \<Rightarrow> (Violation, root)
                | Some prefix \<Rightarrow> (Reply 200, route_unregister prefix root))))"

section \<open>The abstract table\<close>

fun route_at :: "trie_node \<Rightarrow> string list \<Rightarrow> route_entry option" where
  "route_at node [] = node_entry node"
| "route_at node (s # ss) =
     (case kid_find (node_kids node) s of None \<Rightarrow> None | Some t \<Rightarrow> route_at t ss)"

text \<open>No label twice among the children of a node.\<close>

fun trie_wf :: "trie_node \<Rightarrow> bool" and forest_wf :: "forest \<Rightarrow> bool" where
  "trie_wf (TrieNode ks e) \<longleftrightarrow> forest_wf ks"
| "forest_wf NoKids \<longleftrightarrow> True"
| "forest_wf (Kid s t ks) \<longleftrightarrow> kid_find ks s = None \<and> trie_wf t \<and> forest_wf ks"

text \<open>What a table of routes promises its clients, whatever its representation.\<close>

locale route_map =
  fixes at :: "'t \<Rightarrow> string list \<Rightarrow> route_entry option"
    and put :: "string \<Rightarrow> string \<Rightarrow> int \<Rightarrow> string list \<Rightarrow> 't \<Rightarrow> 't"
    and del :: "string list \<Rightarrow> 't \<Rightarrow> 't"
    and expire :: "int \<Rightarrow> 't \<Rightarrow> 't"
    and wf :: "'t \<Rightarrow> bool"
  assumes at_put: "at (put prefix address now p t) q =
      (if q = p then Some (case at t p of
           Some r \<Rightarrow> r\<lparr>re_address := address, re_last_seen_ms := now\<rparr>
         | None \<Rightarrow> \<lparr>re_prefix = prefix, re_address = address, re_last_seen_ms = now\<rparr>) else at t q)"
    and at_del: "at (del p t) q = (if q = p then None else at t q)"
    and at_expire: "wf t \<Longrightarrow> at (expire before t) q = (if expired before (at t q) then None else at t q)"
    and wf_put: "wf t \<Longrightarrow> wf (put prefix address now p t)"
    and wf_del: "wf t \<Longrightarrow> wf (del p t)"
    and wf_expire: "wf t \<Longrightarrow> wf (expire before t)"
begin

lemma put_again:
  "at (put prefix' address' now' p (put prefix address now p t)) q =
     at (put (case at t p of None \<Rightarrow> prefix | Some r \<Rightarrow> prefix') address' now' p t) q"
  by (auto simp: at_put split: option.split)

lemma put_kept_alive:
  "wf t \<Longrightarrow> before \<le> now \<Longrightarrow> at (expire before (put prefix address now p t)) p = at (put prefix address now p t) p"
  by (auto simp: at_expire wf_put expired_def at_put split: option.splits)

lemma expire_stale: "wf t \<Longrightarrow> at t p = Some r \<Longrightarrow> re_last_seen_ms r < before \<Longrightarrow> at (expire before t) p = None"
  by (simp add: at_expire expired_def)

lemma del_put: "at (del p (put prefix address now p t)) q = at (del p t) q"
  by (simp add: at_put at_del)

end

section \<open>The trie implements it\<close>

lemma kid_find_put [simp]: "kid_find (kid_put s t ks) s' = (if s' = s then Some t else kid_find ks s')"
  by (induction s t ks rule: kid_put.induct) auto

lemma route_at_empty [simp]: "route_at (TrieNode NoKids None) q = None"
  by (cases q) simp_all

lemma route_at_register:
  "route_at (register_at prefix address now p t) q =
     (if q = p then Some (case route_at t p of
          Some r \<Rightarrow> r\<lparr>re_address := address, re_last_seen_ms := now\<rparr>
        | None \<Rightarrow> \<lparr>re_prefix = prefix, re_address = address, re_last_seen_ms = now\<rparr>) else route_at t q)"
proof (induction prefix address now p t arbitrary: q rule: register_at.induct)
  case (1 prefix address now ks e)
  then show ?case by (cases q) simp_all
next
  case (2 prefix address now s ss ks e)
  then show ?case by (cases q) (auto split: option.split)
qed

lemma route_at_unregister: "route_at (unregister_at p t) q = (if q = p then None else route_at t q)"
proof (induction p t arbitrary: q rule: unregister_at.induct)
  case (1 ks e)
  then show ?case by (cases q) simp_all
next
  case (2 s ss ks e)
  then show ?case by (cases q) (auto split: option.split)
qed

lemma kid_find_wf: "forest_wf ks \<Longrightarrow> kid_find ks s = Some t \<Longrightarrow> trie_wf t"
  by (induction ks s rule: kid_find.induct) (auto split: if_splits)

lemma forest_wf_put: "forest_wf ks \<Longrightarrow> trie_wf t \<Longrightarrow> forest_wf (kid_put s t ks)"
  by (induction s t ks rule: kid_put.induct) auto

lemma register_wf: "trie_wf t \<Longrightarrow> trie_wf (register_at prefix address now p t)"
  by (induction prefix address now p t rule: register_at.induct)
    (auto intro!: forest_wf_put dest: kid_find_wf split: option.split)

lemma unregister_wf: "trie_wf t \<Longrightarrow> trie_wf (unregister_at p t)"
  by (induction p t rule: unregister_at.induct) (auto intro!: forest_wf_put dest: kid_find_wf split: option.split)

lemma kid_find_expired_None: "kid_find ks s = None \<Longrightarrow> kid_find (remove_expired_kids before ks) s = None"
  by (induction ks s rule: kid_find.induct) (auto simp: Let_def split: if_splits)

lemma remove_expired_wf:
  "trie_wf t \<Longrightarrow> trie_wf (remove_expired before t)"
  "forest_wf ks \<Longrightarrow> forest_wf (remove_expired_kids before ks)"
  by (induction before t and before ks rule: remove_expired_remove_expired_kids.induct)
    (auto simp: Let_def kid_find_expired_None)

lemma can_delete_empty: "can_delete t \<longleftrightarrow> t = TrieNode NoKids None"
  by (cases t) auto

lemma kid_find_remove_expired:
  "forest_wf ks \<Longrightarrow> kid_find (remove_expired_kids before ks) s =
     (case kid_find ks s of None \<Rightarrow> None
      | Some t \<Rightarrow> if can_delete (remove_expired before t) then None else Some (remove_expired before t))"
  by (induction ks s rule: kid_find.induct) (auto simp: Let_def kid_find_expired_None)

lemma route_at_remove_expired:
  "trie_wf t \<Longrightarrow> route_at (remove_expired before t) q = (if expired before (route_at t q) then None else route_at t q)"
proof (induction q arbitrary: t)
  case Nil
  then show ?case by (cases t) simp
next
  case (Cons s q)
  obtain ks e where t: "t = TrieNode ks e" by (cases t)
  show ?case
  proof (cases "kid_find ks s")
    case None
    with Cons.prems show ?thesis by (simp add: t kid_find_remove_expired expired_def)
  next
    case (Some u)
    then have u: "trie_wf u" using Cons.prems kid_find_wf by (auto simp: t)
    have "can_delete (remove_expired before u) \<Longrightarrow> route_at (remove_expired before u) q = None"
      by (simp add: can_delete_empty)
    with Cons.IH [OF u] Some Cons.prems show ?thesis
      by (auto simp: t kid_find_remove_expired split: if_splits)
  qed
qed

interpretation routes: route_map route_at register_at unregister_at remove_expired trie_wf
  by unfold_locales
    (simp_all add: route_at_register route_at_unregister route_at_remove_expired register_wf unregister_wf remove_expired_wf)

section \<open>Matching\<close>

text \<open>The entry of the longest registered prefix of at most \<open>k\<close> segments, the empty one excepted.\<close>

fun longest :: "trie_node \<Rightarrow> string list \<Rightarrow> nat \<Rightarrow> route_entry option" where
  "longest t p 0 = None"
| "longest t p (Suc k) = (case route_at t (take (Suc k) p) of Some r \<Rightarrow> Some r | None \<Rightarrow> longest t p k)"

lemma longest_Cons:
  "longest t (s # p) (Suc k) =
     (case kid_find (node_kids t) s of None \<Rightarrow> None
      | Some u \<Rightarrow> (case longest u p k of Some r \<Rightarrow> Some r | None \<Rightarrow> node_entry u))"
  by (induction k) (auto split: option.split)

lemma match_walk_longest:
  "match_walk p t best = (case longest t p (length p) of Some r \<Rightarrow> Some r | None \<Rightarrow> best)"
proof (induction p t best rule: match_walk.induct)
  case (2 s ss node best)
  then show ?case
    by (cases "kid_find (node_kids node) s") (auto simp: longest_Cons simp del: longest.simps split: option.split)
qed simp

lemma longest_spec:
  "longest t p n = Some r \<longleftrightarrow>
     (\<exists>k \<le> n. 0 < k \<and> route_at t (take k p) = Some r \<and> (\<forall>j. k < j \<longrightarrow> j \<le> n \<longrightarrow> route_at t (take j p) = None))"
proof (induction n)
  case (Suc n)
  show ?case
  proof (cases "route_at t (take (Suc n) p)")
    case None
    with Suc show ?thesis by (auto simp: le_Suc_eq)
  next
    case (Some r')
    then show ?thesis by (auto simp: le_Suc_eq) (metis option.distinct(1) lessI less_Suc_eq_le order_refl)+
  qed
qed auto

section \<open>All routes\<close>

definition trie_paths :: "trie_node \<Rightarrow> string list set" where
  "trie_paths t = {p. route_at t p \<noteq> None}"

definition forest_paths :: "forest \<Rightarrow> string list set" where
  "forest_paths ks = {s # p | s p t. kid_find ks s = Some t \<and> p \<in> trie_paths t}"

lemma trie_paths_node:
  "trie_paths (TrieNode ks e) = (if e = None then {} else {[]}) \<union> forest_paths ks"
proof -
  have "p \<in> trie_paths (TrieNode ks e) \<longleftrightarrow> p \<in> (if e = None then {} else {[]}) \<union> forest_paths ks" for p
    by (cases p) (auto simp: trie_paths_def forest_paths_def split: option.splits)
  then show ?thesis by blast
qed

lemma forest_paths_kid:
  "kid_find ks s = None \<Longrightarrow> forest_paths (Kid s t ks) = (#) s ` trie_paths t \<union> forest_paths ks"
proof
  show "forest_paths (Kid s t ks) \<subseteq> (#) s ` trie_paths t \<union> forest_paths ks"
    by (auto simp: forest_paths_def split: if_splits)
  have "kid_find (Kid s t ks) s' = Some u" if "kid_find ks s' = Some u" "kid_find ks s = None" for s' u
    using that by auto
  then show "kid_find ks s = None \<Longrightarrow> (#) s ` trie_paths t \<union> forest_paths ks \<subseteq> forest_paths (Kid s t ks)"
    by (fastforce simp: forest_paths_def)
qed

lemma paths_finite: "finite (trie_paths t)" "finite (forest_paths ks)"
proof (induction t and ks)
  case (TrieNode ks e)
  then show ?case by (simp add: trie_paths_node)
next
  case NoKids
  then show ?case by (simp add: forest_paths_def)
next
  case (Kid s t ks)
  have "forest_paths (Kid s t ks) \<subseteq> (#) s ` trie_paths t \<union> forest_paths ks"
    by (auto simp: forest_paths_def split: if_splits)
  with Kid show ?case by (meson finite_UnI finite_imageI finite_subset)
qed

lemma collect_all_paths:
  "trie_wf t \<Longrightarrow> set (collect_all t) = {r. \<exists>p. route_at t p = Some r} \<and> length (collect_all t) = card (trie_paths t)"
  "forest_wf ks \<Longrightarrow> set (collect_kids ks) = {r. \<exists>s u p. kid_find ks s = Some u \<and> route_at u p = Some r} \<and>
     length (collect_kids ks) = card (forest_paths ks)"
proof (induction t and ks rule: collect_all_collect_kids.induct)
  case (1 ks e)
  have "{r. \<exists>p. route_at (TrieNode ks e) p = Some r} =
      set_option e \<union> {r. \<exists>s u p. kid_find ks s = Some u \<and> route_at u p = Some r}"
  proof -
    have "(\<exists>p. route_at (TrieNode ks e) p = Some r) \<longleftrightarrow>
        e = Some r \<or> (\<exists>s u p. kid_find ks s = Some u \<and> route_at u p = Some r)" for r
    proof
      assume "\<exists>p. route_at (TrieNode ks e) p = Some r"
      then obtain p where "route_at (TrieNode ks e) p = Some r" ..
      then show "e = Some r \<or> (\<exists>s u p. kid_find ks s = Some u \<and> route_at u p = Some r)"
        by (cases p) (auto split: option.splits)
    next
      assume "e = Some r \<or> (\<exists>s u p. kid_find ks s = Some u \<and> route_at u p = Some r)"
      then show "\<exists>p. route_at (TrieNode ks e) p = Some r"
      proof
        assume "e = Some r"
        then have "route_at (TrieNode ks e) [] = Some r" by simp
        then show ?thesis ..
      next
        assume "\<exists>s u p. kid_find ks s = Some u \<and> route_at u p = Some r"
        then obtain s u p where "kid_find ks s = Some u" "route_at u p = Some r" by blast
        then have "route_at (TrieNode ks e) (s # p) = Some r" by simp
        then show ?thesis ..
      qed
    qed
    then show ?thesis by auto
  qed
  moreover have "[] \<notin> forest_paths ks" by (simp add: forest_paths_def)
  ultimately show ?case
    using 1 paths_finite(2) [of ks] by (auto simp: trie_paths_node split: option.split)
next
  case 2
  then show ?case by (simp add: forest_paths_def)
next
  case (3 s t ks)
  have "(#) s ` trie_paths t \<inter> forest_paths ks = {}" using 3 by (auto simp: forest_paths_def)
  moreover have "card ((#) s ` trie_paths t) = card (trie_paths t)" by (rule card_image) simp
  moreover have "(\<exists>s' u p. kid_find (Kid s t ks) s' = Some u \<and> route_at u p = Some r) \<longleftrightarrow>
      (\<exists>p. route_at t p = Some r) \<or> (\<exists>s' u p. kid_find ks s' = Some u \<and> route_at u p = Some r)" (is "?l \<longleftrightarrow> ?m \<or> ?r") for r
  proof
    show "?l \<Longrightarrow> ?m \<or> ?r" by (auto split: if_splits)
    have "kid_find (Kid s t ks) s = Some t" by simp
    moreover have "kid_find (Kid s t ks) s' = Some u" if "kid_find ks s' = Some u" for s' u
      using that 3 by auto
    ultimately show "?m \<or> ?r \<Longrightarrow> ?l" by metis
  qed
  then have "{r. \<exists>s' u p. kid_find (Kid s t ks) s' = Some u \<and> route_at u p = Some r} =
      {r. \<exists>p. route_at t p = Some r} \<union> {r. \<exists>s' u p. kid_find ks s' = Some u \<and> route_at u p = Some r}"
    by blast
  ultimately show ?case
    using 3 paths_finite(1) [of t] paths_finite(2) [of ks]
    by (simp add: forest_paths_kid card_Un_disjoint del: kid_find.simps)
qed

section \<open>Properties\<close>

text \<open>
  C38. A match is the longest registered prefix: a request is routed to an entry exactly when that
  entry is registered at a nonempty prefix of the path's segments and nothing is registered at a
  longer one; otherwise nothing matches. Empty segments do not count.
\<close>

theorem route_match_longest:
  "route_match uri t = Some r \<longleftrightarrow>
     (\<exists>k \<le> length (split_path uri). 0 < k \<and> route_at t (take k (split_path uri)) = Some r \<and>
        (\<forall>j. k < j \<longrightarrow> j \<le> length (split_path uri) \<longrightarrow> route_at t (take j (split_path uri)) = None))"
  unfolding route_match_def match_walk_longest longest_spec [symmetric] by (simp split: option.split)

text \<open>A request below a registered prefix goes to it, past a deeper prefix that is not on its path.\<close>

theorem route_match_longest_witness:
  "route_match ''/api/v1/a'' (route_register ''/api/v2'' ''h2'' 0 (route_register ''/api'' ''h1'' 0 new_route_table)) =
     Some \<lparr>re_prefix = ''/api'', re_address = ''h1'', re_last_seen_ms = 0\<rparr>"
proof -
  let ?t = "route_register ''/api/v2'' ''h2'' 0 (route_register ''/api'' ''h1'' 0 new_route_table)"
  have uri: "split_path ''/api/v1/a'' = [''api'', ''v1'', ''a'']" by (simp add: split_path_def)
  have "route_at ?t [''api''] = Some \<lparr>re_prefix = ''/api'', re_address = ''h1'', re_last_seen_ms = 0\<rparr>"
    "route_at ?t (''api'' # ''v1'' # p) = None" for p
    by (simp_all add: route_register_def split_path_def new_route_table_def)
  moreover have "take j [''api'', ''v1'', ''a''] = ''api'' # ''v1'' # take (j - 2) [''a'']" if "1 < j" for j
    using that by (cases j; cases "j - 1") auto
  ultimately show ?thesis
    unfolding route_match_longest uri by (intro exI [of _ 1]) (auto simp: less_Suc_eq_0_disj)
qed

datatype route_op = RouteRegister string string int | RouteUnregister string | RouteExpire int

fun route_run :: "route_op \<Rightarrow> trie_node \<Rightarrow> trie_node" where
  "route_run (RouteRegister prefix address now) t = route_register prefix address now t"
| "route_run (RouteUnregister prefix) t = route_unregister prefix t"
| "route_run (RouteExpire before) t = remove_expired before t"

fun table_run :: "route_op \<Rightarrow> (string list \<rightharpoonup> route_entry) \<Rightarrow> (string list \<rightharpoonup> route_entry)" where
  "table_run (RouteRegister prefix address now) m =
     m(split_path prefix \<mapsto> (case m (split_path prefix) of
         Some r \<Rightarrow> r\<lparr>re_address := address, re_last_seen_ms := now\<rparr>
       | None \<Rightarrow> \<lparr>re_prefix = prefix, re_address = address, re_last_seen_ms = now\<rparr>))"
| "table_run (RouteUnregister prefix) m = m(split_path prefix := None)"
| "table_run (RouteExpire before) m = (\<lambda>p. if expired before (m p) then None else m p)"

lemma route_run_step:
  "trie_wf t \<Longrightarrow> trie_wf (route_run op t) \<and> route_at (route_run op t) = table_run op (route_at t)"
  by (cases op)
    (auto simp: fun_eq_iff route_register_def route_unregister_def routes.at_put routes.at_del routes.at_expire
      routes.wf_put routes.wf_del routes.wf_expire)

lemma route_run_fold:
  "trie_wf t \<Longrightarrow> trie_wf (fold route_run ops t) \<and> route_at (fold route_run ops t) = fold table_run ops (route_at t)"
  using route_run_step by (induction ops arbitrary: t) auto

text \<open>
  C39. The trie refines a table: after any sequence of registrations, removals and expiries from the
  empty table, looking up a path gives what the same sequence of updates of a plain map gives; and
  the list of all routes has every entry of that map, one for each registered path.
\<close>

theorem route_table_refines:
  "route_at (fold route_run ops new_route_table) = fold table_run ops Map.empty \<and>
   set (collect_all (fold route_run ops new_route_table)) = ran (fold table_run ops Map.empty) \<and>
   length (collect_all (fold route_run ops new_route_table)) = card (dom (fold table_run ops Map.empty))"
proof -
  have "route_at new_route_table = Map.empty" "trie_wf new_route_table"
    by (simp_all add: new_route_table_def fun_eq_iff)
  then have f: "trie_wf (fold route_run ops new_route_table)"
    "route_at (fold route_run ops new_route_table) = fold table_run ops Map.empty"
    using route_run_fold [of new_route_table ops] by simp_all
  with collect_all_paths(1) [OF f(1)] show ?thesis by (simp add: trie_paths_def ran_def dom_def)
qed

text \<open>
  The root is the one prefix that is registered and listed but never matched: a service that
  registers "/" is never routed to.
\<close>

theorem root_route_never_matched:
  "handle_register (\<lambda>_. Some [''prefix'' \<mapsto> JString ''/'', ''address'' \<mapsto> JString a]) body now new_route_table =
     (Reply 200, TrieNode NoKids (Some \<lparr>re_prefix = ''/'', re_address = a, re_last_seen_ms = now\<rparr>)) \<and>
   collect_all (TrieNode NoKids (Some \<lparr>re_prefix = ''/'', re_address = a, re_last_seen_ms = now\<rparr>)) \<noteq> [] \<and>
   route_match uri (TrieNode NoKids (Some \<lparr>re_prefix = ''/'', re_address = a, re_last_seen_ms = now\<rparr>)) = None"
proof -
  have "match_walk p (TrieNode NoKids e) None = None" for p and e :: "route_entry option" by (cases p) simp_all
  then show ?thesis
    by (simp add: handle_register_def get_string_def route_register_def split_path_def new_route_table_def route_match_def)
qed

text \<open>A prefix or address that is not a JSON string is not refused: GetString is called on it.\<close>

theorem register_unchecked_type:
  "doc ''prefix'' = Some JOther \<Longrightarrow> doc ''address'' = Some v \<Longrightarrow>
     handle_register (\<lambda>_. Some doc) body now t = (Violation, t)"
  by (simp add: handle_register_def get_string_def)

end
