(* ===== verification/Spec2Isabelle.thy ===== *)
theory Spec2Isabelle
  imports TcpStreamSafety Http1FramerProps Http1ModuleSafety DnsModuleSafety IcmpSessions
    TlsFramerBounds TlsModuleSafety GatewayRoutes SqlSplitter
begin

text \<open>
  A model of the analysis core of FlowSQL's network performance operator, src/operators/npm_basic,
  and of two smaller parts of the system around it, with the theorems that make them correct.

  The program. A capture task reads packets, finds the conversation each belongs to, and hands it to
  protocol modules, which turn the traffic into rows: HTTP/1 transactions, DNS queries and answers,
  ICMP echoes and errors, TLS handshakes. A packet is bound to an observation domain and a session
  key. TCP segments go through a stream direction, which delivers bytes, gaps and an end in stream
  order; the framers of the modules cut the bytes into messages; the trackers match requests with
  responses and write a row when an exchange is over, is overdue or can no longer be completed. All
  of them are charged to the byte budget of the task. Around it, the gateway routes requests to
  services by path prefix, and the SQL front end cuts its input into statements.

  Theories and sources (paths below src/operators/npm_basic unless they start with src):
  FlowPrelude: integers, spans, error codes, and the locales of the small interfaces that several
  modules implement each for itself (deadline, elapsed time, capture clock, identifier allocator,
  byte loop); OrderedMap: std::map as a sorted list of nodes behind the locale of its operations;
  EntityIds: the identifiers in use.
  TaskBudget: npm_analysis_contract.cpp and core/npm_task_budget.cpp, the ledger, with the locale of
  what the modules use of it.
  TcpStreamContract, TcpStream, TcpStreamProps, TcpStreamSafety: core/npm_tcp_stream_direction.cpp.
  Http1Framer, Http1FramerProps: modules/http1/npm_http1_framer.cpp. Http1Transactions with its
  theories Props and Safety: modules/http1/npm_http1_transactions.cpp. Http1Module with Props and
  Safety: npm_http1_module.cpp and the row check of its encoder.
  DnsMessage and DnsMessageProps: the parser of modules/dns/npm_dns_udp.cpp; DnsTracker with Props
  and Safety: its tracker; DnsTcp, DnsTcpProps: npm_dns_tcp.cpp; ModuleHost: what modules see of
  their host; DnsModule with Props and Safety: npm_dns_module.cpp and the row check of its encoder.
  ObservationDomain: the domains of npm_analysis_contract.cpp; SessionKey, SessionKeyProps:
  core/npm_session_key.cpp.
  IcmpMessage, IcmpEcho, IcmpModule: the three files of modules/icmp and the row check of its
  encoder; IcmpEchoProps, IcmpModuleProps, IcmpSessions: what holds of them.
  TlsHello, TlsHelloProps: modules/tls/npm_tls_hello.cpp; TlsFramer, TlsFramerProps,
  TlsFramerBounds: modules/tls/npm_tls_framer.cpp; TlsHandshake, TlsHandshakeProps:
  npm_tls_handshake.cpp; TlsExchange: a whole TLS 1.3 exchange through parser, framer and tracker;
  TlsModule, TlsModuleProps, TlsModuleSafety: npm_tls_module.cpp and the computed columns of
  npm_tls_result_encoder.cpp. StreamCursor: the cursor of a stream's consumer, from
  core/npm_tcp_stream_shared.cpp.
  GatewayRoutes: src/services/gateway/route_table.cpp and the two handlers of gateway_plugin.cpp
  that change it. SqlSplitter: src/framework/core/sql_text_splitter.cpp.
  Names of definitions follow the functions of the code, with the module's name in front where
  several modules have one of that name.

  How state and operations correspond. A class is a record of its members, an operation a function
  from its arguments and the record to its result and the new record. A container of the code is a
  list in the order the code iterates over it. Null pointers, empty optionals and missing entries
  are option values; reading an empty optional or the first node of an empty map, which C++ leaves
  undefined, is the error value E_UNCAUGHT, and theorems show that it does not arise. Exceptions
  and early returns are values of a sum. Sequence numbers, identifiers and header fields are words
  of their width, so they wrap; sizes and offsets are natural numbers with the guards that the code
  puts before additions; times are integers with the limits of int64 where the code saturates. An
  object shared by reference, the ledger above all, is passed in and out.

  What the lemmas show. For each component an invariant that every operation keeps, then what
  follows in every state a host can reach: the ledger records exactly the bytes that are held and
  gets all of them back; identifiers are not reused; the columns of a row fit its outcome; what is
  overdue is retired; events tile the stream. For the framers, that the result does not depend on
  how the stream was cut; for parsers and encoders, round trips and bounds; for the route table,
  the domains and the splitter, a declarative specification that the code implements.

  Loops. Loops that consume input recurse on what is left, and the measure is in the termination
  proof. Two loops are not bounded by their input in an obvious way, the walk over IPv6 extension
  headers and the ICMP deadline loop; they are partial functions with None for not returning, and
  a theorem shows that they return, the second for every reachable state. No fuel is used.

  Parameters. Building Arrow batches and handing them to the host, the validation of UTF-8, the
  sizes of map nodes and keys as the C++ library fixes them, the session table as the ICMP module
  looks into it, and clock readings are arguments of the definitions that use them.

  Not modelled. Failed allocations (std::bad_alloc), and the values of an enumeration's type that
  are not enumerators, except where the code tests for them. The session table, the stream provider
  that shares a direction among consumers, the packet scheduling above the modelled parts, the
  TCP performance tracker and the periodic statistics: not reached. JSON configuration, Arrow encoding, output and
  the operator's exports: calls into libraries.
  The other services, the scheduler, channels, the baseline and labelling plugins and the
  database drivers are I/O, threads and third-party clients around little logic of their own, or
  floating-point numerics.
\<close>

end
